(* ===== verification/Prelude.thy ===== *)
theory Prelude
  imports Main "HOL-Library.Word"
begin

text \<open>
  Shared vocabulary of the development: the model's type names, the parts of Rust's
  standard library that the modelled code calls on strings, integers and sorted
  vectors, the iteration order of hash containers, and the generic lemmas the component
  theories use.

  Conventions of the whole development. A Rust \<open>String\<close> or \<open>&str\<close> is a \<^typ>\<open>string\<close> of
  ASCII characters, on which byte offsets and character offsets coincide. Dictionary
  identifiers are \<open>i64\<close> values; where the code only compares them they are \<^typ>\<open>int\<close>, and
  where it works on their bits (inline encoding) they are 64-bit words.
\<close>

named_theorems rust_std "equations of the modelled standard library functions"

type_synonym term_id = int
type_synonym i64 = "64 word"
type_synonym u64 = "64 word"

subsection \<open>Strings\<close>

definition is_ws :: "char \<Rightarrow> bool" where
  "is_ws c \<longleftrightarrow> (let n = of_char c :: nat in n = 32 \<or> 9 \<le> n \<and> n \<le> 13)"

definition trim_start :: "string \<Rightarrow> string" where
  "trim_start s = dropWhile is_ws s"

definition trim_end :: "string \<Rightarrow> string" where
  "trim_end s = rev (dropWhile is_ws (rev s))"

definition trim :: "string \<Rightarrow> string" where
  "trim s = trim_end (trim_start s)"

definition is_digit :: "char \<Rightarrow> bool" where
  "is_digit c \<longleftrightarrow> (let n = of_char c :: nat in 48 \<le> n \<and> n \<le> 57)"

definition digit_val :: "char \<Rightarrow> nat" where
  "digit_val c = of_char c - 48"

fun find_char :: "(char \<Rightarrow> bool) \<Rightarrow> string \<Rightarrow> nat option" where
  "find_char P [] = None"
| "find_char P (c # cs) = (if P c then Some 0 else map_option Suc (find_char P cs))"

definition rfind_char :: "(char \<Rightarrow> bool) \<Rightarrow> string \<Rightarrow> nat option" where
  "rfind_char P s = map_option (\<lambda>i. length s - 1 - i) (find_char P (rev s))"

definition starts_with :: "string \<Rightarrow> string \<Rightarrow> bool" where
  "starts_with s p \<longleftrightarrow> take (length p) s = p"

definition ends_with :: "string \<Rightarrow> string \<Rightarrow> bool" where
  "ends_with s p \<longleftrightarrow> length p \<le> length s \<and> drop (length s - length p) s = p"

lemma trim_no_ws:
  assumes "s \<noteq> []" "\<not> is_ws (hd s)" "\<not> is_ws (last s)"
  shows "trim s = s"
proof -
  from assms have "trim_start s = s"
    by (cases s) (auto simp: trim_start_def)
  moreover from assms have "trim_end s = s"
    by (cases s rule: rev_cases) (auto simp: trim_end_def)
  ultimately show ?thesis by (simp add: trim_def)
qed

lemma find_char_None: "find_char P s = None \<longleftrightarrow> (\<forall>c \<in> set s. \<not> P c)"
  by (induction s) auto

lemma find_char_Some:
  "find_char P s = Some i \<Longrightarrow> i < length s \<and> P (s ! i) \<and> (\<forall>j < i. \<not> P (s ! j))"
proof (induction s arbitrary: i)
  case (Cons c cs)
  show ?case
  proof (cases "P c")
    case False
    with Cons.prems obtain k where "find_char P cs = Some k" and i: "i = Suc k" by auto
    with Cons.IH have "k < length cs \<and> P (cs ! k) \<and> (\<forall>j < k. \<not> P (cs ! j))" by blast
    with i False show ?thesis by (auto simp: less_Suc_eq_0_disj)
  qed (use Cons.prems in auto)
qed simp

subsection \<open>Decimal integers: \<open>str::parse::<i64>\<close> and \<open>Display\<close>\<close>

definition parse_digits :: "string \<Rightarrow> nat option" where
  "parse_digits s =
     (if s \<noteq> [] \<and> list_all is_digit s
      then Some (foldl (\<lambda>n c. 10 * n + digit_val c) 0 s) else None)"

definition in_i64 :: "int \<Rightarrow> bool" where
  "in_i64 v \<longleftrightarrow> - (2 ^ 63) \<le> v \<and> v < 2 ^ 63"

definition parse_i64 :: "string \<Rightarrow> int option" where
  "parse_i64 s =
     (let r = (case s of
                 [] \<Rightarrow> None
               | c # cs \<Rightarrow>
                   if c = CHR ''-'' then map_option (\<lambda>n. - int n) (parse_digits cs)
                   else if c = CHR ''+'' then map_option int (parse_digits cs)
                   else map_option int (parse_digits s))
      in (case r of None \<Rightarrow> None | Some v \<Rightarrow> if in_i64 v then Some v else None))"

definition digit_char :: "nat \<Rightarrow> char" where
  "digit_char d = char_of (48 + d)"

fun show_nat :: "nat \<Rightarrow> string" where
  "show_nat n = (if n < 10 then [digit_char n] else show_nat (n div 10) @ [digit_char (n mod 10)])"

declare show_nat.simps [simp del]

definition show_int :: "int \<Rightarrow> string" where
  "show_int v = (if v < 0 then CHR ''-'' # show_nat (nat (- v)) else show_nat (nat v))"

lemma digit_char_digit [simp]: "d < 10 \<Longrightarrow> is_digit (digit_char d)"
  by (simp add: is_digit_def digit_char_def Let_def)

lemma digit_val_char [simp]: "d < 10 \<Longrightarrow> digit_val (digit_char d) = d"
  by (simp add: digit_val_def digit_char_def)

lemma digit_not_ws [simp]: "is_digit c \<Longrightarrow> \<not> is_ws c"
  by (auto simp: is_digit_def is_ws_def Let_def)

lemma show_nat_nonempty [simp]: "show_nat n \<noteq> []"
  by (subst show_nat.simps) simp

lemma show_nat_digits: "list_all is_digit (show_nat n)"
proof (induction n rule: show_nat.induct)
  case (1 n)
  then show ?case by (subst show_nat.simps) simp
qed

lemma show_nat_value: "foldl (\<lambda>n c. 10 * n + digit_val c) 0 (show_nat n) = n"
proof (induction n rule: show_nat.induct)
  case (1 n)
  show ?case
  proof (cases "n < 10")
    case True
    then show ?thesis by (subst show_nat.simps) simp
  next
    case False
    with 1 have "foldl (\<lambda>n c. 10 * n + digit_val c) 0 (show_nat (n div 10)) = n div 10" by simp
    with False show ?thesis by (subst show_nat.simps) simp
  qed
qed

lemma parse_digits_show_nat [simp]: "parse_digits (show_nat n) = Some n"
  by (simp add: parse_digits_def show_nat_digits show_nat_value)

lemma show_nat_hd: "is_digit (hd (show_nat n))" and show_nat_last: "is_digit (last (show_nat n))"
  using show_nat_digits [of n] by (auto simp: list_all_iff)

lemma digit_not_sign: "is_digit c \<Longrightarrow> c \<noteq> CHR ''-'' \<and> c \<noteq> CHR ''+''"
  by (auto simp: is_digit_def Let_def)

lemma parse_i64_show_int: "in_i64 v \<Longrightarrow> parse_i64 (show_int v) = Some v"
proof (cases "v < 0")
  case True
  assume "in_i64 v"
  with True show ?thesis by (simp add: parse_i64_def show_int_def)
next
  case False
  assume v: "in_i64 v"
  obtain c cs where c: "show_nat (nat v) = c # cs"
    by (meson neq_Nil_conv show_nat_nonempty)
  then have "is_digit c" using show_nat_hd [of "nat v"] by simp
  moreover from c have "parse_digits (c # cs) = Some (nat v)"
    using parse_digits_show_nat [of "nat v"] by simp
  ultimately show ?thesis using False v c
    by (auto simp: parse_i64_def show_int_def dest: digit_not_sign)
qed

lemma trim_show_int [simp]: "trim (show_int v) = show_int v"
proof (rule trim_no_ws)
  show "show_int v \<noteq> []" by (simp add: show_int_def)
  show "\<not> is_ws (hd (show_int v))"
    using show_nat_hd [of "nat v"] by (simp add: show_int_def is_ws_def [of "CHR ''-''"])
  show "\<not> is_ws (last (show_int v))"
    using show_nat_last [of "nat v"] show_nat_last [of "nat (- v)"]
    by (simp add: show_int_def)
qed

lemma parse_i64_range: "parse_i64 s = Some v \<Longrightarrow> in_i64 v"
  by (auto simp: parse_i64_def Let_def split: option.splits if_splits)

subsection \<open>Sorted vectors\<close>

text \<open>\<open>sort_unstable\<close> on integers is \<^const>\<open>sort\<close> (equal keys are indistinguishable) and
  \<open>dedup\<close> removes adjacent duplicates, which is \<^const>\<open>remdups_adj\<close>.\<close>

definition strict_sorted :: "'a::linorder list \<Rightarrow> bool" where
  "strict_sorted xs \<longleftrightarrow> sorted_wrt (<) xs"

lemma strict_sorted_simps [simp]:
  "strict_sorted []"
  "strict_sorted (x # xs) \<longleftrightarrow> (\<forall>y \<in> set xs. x < y) \<and> strict_sorted xs"
  by (auto simp: strict_sorted_def)

lemma strict_sorted_iff: "strict_sorted xs \<longleftrightarrow> sorted xs \<and> distinct xs"
  by (simp add: strict_sorted_def strict_sorted_iff)

lemma sorted_remdups_adj_distinct: "sorted xs \<Longrightarrow> distinct (remdups_adj xs)"
  for xs :: "'a::linorder list"
  by (induction xs rule: remdups_adj.induct) auto

lemma strict_sorted_sort_dedup [simp]: "strict_sorted (remdups_adj (sort xs))"
  by (simp add: strict_sorted_iff sorted_remdups_adj sorted_remdups_adj_distinct)

lemma strict_sorted_nth_less:
  "strict_sorted xs \<Longrightarrow> i < j \<Longrightarrow> j < length xs \<Longrightarrow> xs ! i < xs ! j"
  by (simp add: strict_sorted_def sorted_wrt_nth_less)

lemma strict_sorted_nth_le:
  "strict_sorted xs \<Longrightarrow> i \<le> j \<Longrightarrow> j < length xs \<Longrightarrow> xs ! i \<le> xs ! j"
  by (cases "i = j") (auto dest: strict_sorted_nth_less [of xs i j])

lemma strict_sorted_unique:
  "strict_sorted xs \<Longrightarrow> strict_sorted ys \<Longrightarrow> set xs = set ys \<Longrightarrow> xs = ys"
  by (simp add: strict_sorted_iff sorted_distinct_set_unique)

lemma strict_sorted_dropWhile_less:
  "strict_sorted xs \<Longrightarrow> set (dropWhile (\<lambda>v. v < x) xs) = {v \<in> set xs. x \<le> v}"
  by (induction xs) auto

lemma strict_sorted_Cons_list_of_set:
  "finite A \<Longrightarrow> \<forall>a \<in> A. x < a \<Longrightarrow>
    sorted_list_of_set (insert x A) = x # sorted_list_of_set A" for x :: "'a::linorder"
  by (rule strict_sorted_unique)
    (auto simp: strict_sorted_iff simp del: sorted_list_of_set_insert_remove)

lemma distinct_concat_map:
  "distinct xs \<Longrightarrow> (\<And>x. x \<in> set xs \<Longrightarrow> distinct (f x)) \<Longrightarrow>
    (\<And>x y. x \<in> set xs \<Longrightarrow> y \<in> set xs \<Longrightarrow> x \<noteq> y \<Longrightarrow> set (f x) \<inter> set (f y) = {}) \<Longrightarrow>
    distinct (concat (map f xs))"
  by (induction xs) auto

lemma finite_max_witness:
  fixes f :: "'a \<Rightarrow> nat"
  assumes "finite A" "A \<noteq> {}"
  shows "\<exists>u \<in> A. \<forall>w \<in> A. f w \<le> f u"
proof -
  from assms have "Max (f ` A) \<in> f ` A" by (intro Max_in) auto
  then obtain u where u: "u \<in> A" "f u = Max (f ` A)" by auto
  then have "f w \<le> f u" if "w \<in> A" for w using that assms(1) by auto
  with u(1) show ?thesis by blast
qed

subsection \<open>Options and JSON values\<close>

definition unwrap_or :: "'a \<Rightarrow> 'a option \<Rightarrow> 'a" where
  "unwrap_or d x = (case x of None \<Rightarrow> d | Some v \<Rightarrow> v)"

datatype json = JNull | JBool bool | JNumber string | JString string | JArray "json list" | JObject "(string \<times> json) list"

subsection \<open>Iteration order of hash containers\<close>

text \<open>
  A Rust \<open>HashSet\<close> or \<open>HashMap\<close> enumerates its keys in an order that the language leaves
  open. Definitions that iterate over one take the enumeration as an argument; the only
  thing a theorem may assume of it is that it lists each element of the set once.
\<close>

type_synonym 'a hash_order = "'a set \<Rightarrow> 'a list"

definition hash_order_ok :: "'a hash_order \<Rightarrow> bool" where
  "hash_order_ok ord \<longleftrightarrow> (\<forall>S. finite S \<longrightarrow> set (ord S) = S \<and> distinct (ord S))"

lemma hash_order_set [simp]: "hash_order_ok ord \<Longrightarrow> finite S \<Longrightarrow> set (ord S) = S"
  and hash_order_distinct [simp]: "hash_order_ok ord \<Longrightarrow> finite S \<Longrightarrow> distinct (ord S)"
  by (auto simp: hash_order_ok_def)

lemma hash_order_exists: "\<exists>ord :: 'a hash_order. hash_order_ok ord"
proof (intro exI)
  show "hash_order_ok (\<lambda>S :: 'a set. SOME xs. set xs = S \<and> distinct xs)"
    unfolding hash_order_ok_def using someI_ex [OF finite_distinct_list] by blast
qed

lemma hash_order_sorted: "hash_order_ok (sorted_list_of_set :: int hash_order)"
  by (simp add: hash_order_ok_def)

end
