(* ===== verification/Inline_Encoding.thy ===== *)
theory Inline_Encoding
  imports Prelude
begin

unbundle bit_operations_syntax

text \<open>
  \<^verbatim>\<open>src/dictionary/inline.rs\<close>: values of the common \<open>xsd:\<close> datatypes packed into the
  64-bit term identifier. Bit 63 marks an inline identifier, bits 62 to 56 hold the type
  code and bits 55 to 0 the value plus \<open>2 ^ 55\<close>. The \<open>chrono\<close> crate, which parses and
  prints calendar text, is a parameter of the definitions that call it.
\<close>

section \<open>Constants and packing\<close>

definition INLINE_FLAG :: u64 where "INLINE_FLAG = push_bit 63 1"
definition TYPE_SHIFT :: nat where "TYPE_SHIFT = 56"
definition VALUE_MASK :: u64 where "VALUE_MASK = push_bit 56 1 - 1"
definition INTEGER_OFFSET :: i64 where "INTEGER_OFFSET = push_bit 55 1"
definition TYPE_INTEGER :: u64 where "TYPE_INTEGER = 0"
definition TYPE_BOOLEAN :: u64 where "TYPE_BOOLEAN = 1"
definition TYPE_DATETIME :: u64 where "TYPE_DATETIME = 2"
definition TYPE_DATE :: u64 where "TYPE_DATE = 3"

lemmas inline_consts = INLINE_FLAG_def TYPE_SHIFT_def VALUE_MASK_def INTEGER_OFFSET_def
  TYPE_INTEGER_def TYPE_BOOLEAN_def TYPE_DATETIME_def TYPE_DATE_def

definition pack :: "u64 \<Rightarrow> u64 \<Rightarrow> i64" where
  "pack type_code value_bits =
     INLINE_FLAG OR push_bit TYPE_SHIFT type_code OR (value_bits AND VALUE_MASK)"

definition unpack_type :: "i64 \<Rightarrow> u64" where
  "unpack_type ident = drop_bit TYPE_SHIFT ident AND 0x7F"

definition unpack_value_bits :: "i64 \<Rightarrow> u64" where
  "unpack_value_bits ident = ident AND VALUE_MASK"

definition is_inline :: "i64 \<Rightarrow> bool" where
  "is_inline ident \<longleftrightarrow> sint ident < 0"

definition inline_type :: "i64 \<Rightarrow> u64" where
  "inline_type ident = unpack_type ident"

section \<open>Encoding\<close>

definition in_offset_range :: "int \<Rightarrow> bool" where
  "in_offset_range v \<longleftrightarrow> - sint INTEGER_OFFSET \<le> v \<and> v \<le> sint INTEGER_OFFSET - 1"

definition try_encode_integer :: "string \<Rightarrow> i64 option" where
  "try_encode_integer lexical =
     (case parse_i64 (trim lexical) of
        None \<Rightarrow> None
      | Some v \<Rightarrow>
          if \<not> in_offset_range v then None
          else Some (pack TYPE_INTEGER (word_of_int v + INTEGER_OFFSET)))"

definition try_encode_boolean :: "string \<Rightarrow> i64 option" where
  "try_encode_boolean lexical =
     (let t = trim lexical in
      if t = ''true'' \<or> t = ''1'' then Some (pack TYPE_BOOLEAN 1)
      else if t = ''false'' \<or> t = ''0'' then Some (pack TYPE_BOOLEAN 0)
      else None)"

definition has_nonzero_offset :: "string \<Rightarrow> bool" where
  "has_nonzero_offset trimmed =
     (case rfind_char (\<lambda>c. c = CHR ''+'' \<or> c = CHR ''-'') trimmed of
        None \<Rightarrow> False
      | Some pos \<Rightarrow>
          (case find_char (\<lambda>c. c = CHR ''T'') trimmed of
             None \<Rightarrow> False
           | Some t_pos \<Rightarrow>
               if pos > t_pos + 3
               then (let offset = drop pos trimmed in
                     offset \<noteq> ''+00:00'' \<and> offset \<noteq> ''-00:00'')
               else False))"

text \<open>\<open>parse_micros\<close> is \<open>str::parse::<DateTime<Utc>>\<close> followed by \<open>timestamp_micros\<close>;
  \<open>parse_days\<close> is \<open>str::parse::<NaiveDate>\<close> followed by the difference to 1970-01-01.\<close>

definition try_encode_datetime :: "(string \<Rightarrow> int option) \<Rightarrow> string \<Rightarrow> i64 option" where
  "try_encode_datetime parse_micros lexical =
     (let trimmed = trim lexical in
      if has_nonzero_offset trimmed then None
      else (case parse_micros trimmed of
              None \<Rightarrow> None
            | Some micros \<Rightarrow>
                if \<not> in_offset_range micros then None
                else Some (pack TYPE_DATETIME (word_of_int micros + INTEGER_OFFSET))))"

definition try_encode_date :: "(string \<Rightarrow> int option) \<Rightarrow> string \<Rightarrow> i64 option" where
  "try_encode_date parse_days lexical =
     (case parse_days (trim lexical) of
        None \<Rightarrow> None
      | Some days \<Rightarrow>
          if \<not> in_offset_range days then None
          else Some (pack TYPE_DATE (word_of_int days + INTEGER_OFFSET)))"

section \<open>Decoding\<close>

definition decode_integer :: "i64 \<Rightarrow> i64" where
  "decode_integer ident = unpack_value_bits ident - INTEGER_OFFSET"

definition decode_boolean :: "i64 \<Rightarrow> bool" where
  "decode_boolean ident \<longleftrightarrow> unpack_value_bits ident \<noteq> 0"

definition decode_datetime_micros :: "i64 \<Rightarrow> i64" where
  "decode_datetime_micros ident = unpack_value_bits ident - INTEGER_OFFSET"

definition decode_date_days :: "i64 \<Rightarrow> i64" where
  "decode_date_days ident = unpack_value_bits ident - INTEGER_OFFSET"

text \<open>\<open>fmt_micros\<close> and \<open>fmt_days\<close> are \<open>chrono\<close>'s conversion of a count to calendar text,
  \<^const>\<open>None\<close> where the count is outside \<open>chrono\<close>'s range.\<close>

definition format_inline ::
  "(int \<Rightarrow> string option) \<Rightarrow> (int \<Rightarrow> string option) \<Rightarrow> i64 \<Rightarrow> string" where
  "format_inline fmt_micros fmt_days ident =
     (let ty = inline_type ident;
          quoted = (\<lambda>v dt. [CHR 0x22] @ v @ [CHR 0x22] @ ''^^<'' @ dt @ ''>'') in
      if ty = TYPE_INTEGER then
        quoted (show_int (sint (decode_integer ident))) ''http://www.w3.org/2001/XMLSchema#integer''
      else if ty = TYPE_BOOLEAN then
        quoted (if decode_boolean ident then ''true'' else ''false'')
          ''http://www.w3.org/2001/XMLSchema#boolean''
      else if ty = TYPE_DATETIME then
        (let micros = sint (decode_datetime_micros ident) in
         quoted (case fmt_micros micros of Some t \<Rightarrow> t | None \<Rightarrow> ''invalid_dt:'' @ show_int micros)
           ''http://www.w3.org/2001/XMLSchema#dateTime'')
      else if ty = TYPE_DATE then
        (let days = sint (decode_date_days ident) in
         quoted (case fmt_days days of Some t \<Rightarrow> t | None \<Rightarrow> ''invalid_date:'' @ show_int days)
           ''http://www.w3.org/2001/XMLSchema#date'')
      else
        quoted (''inline:'' @ show_nat (unat ty) @ '':'' @ show_int (sint (decode_integer ident)))
          ''urn:pg_ripple:inline'')"

section \<open>Packing and unpacking\<close>

lemma VALUE_MASK_mask: "VALUE_MASK = mask 56"
  by (simp add: VALUE_MASK_def mask_eq_exp_minus_1 push_bit_eq_mult)

lemma low7_mask: "(0x7F :: u64) = mask 7"
  by (simp add: mask_eq_exp_minus_1)

lemma sint_INTEGER_OFFSET [simp]: "sint INTEGER_OFFSET = 2 ^ 55"
  by (simp add: INTEGER_OFFSET_def push_bit_eq_mult)

lemma uint_small_bit:
  fixes w :: u64
  assumes "uint w < 2 ^ n" "n \<le> m"
  shows "\<not> bit w m"
proof -
  have "(2::int) ^ n \<le> 2 ^ m" using assms(2) by simp
  with assms(1) have "uint w < 2 ^ m" by (rule order_less_le_trans)
  then have "uint w div 2 ^ m = 0" by (intro div_pos_pos_trivial) auto
  then have "\<not> bit (uint w) m" by (simp add: bit_iff_odd)
  then show ?thesis by (auto simp: bit_uint_iff dest: bit_imp_le_length)
qed

lemma bit_INLINE_FLAG: "bit INLINE_FLAG n \<longleftrightarrow> n = 63"
proof -
  have "INLINE_FLAG = 2 ^ 63" by (simp add: INLINE_FLAG_def)
  then show ?thesis unfolding \<open>INLINE_FLAG = 2 ^ 63\<close> bit_exp_iff by auto
qed

lemma bit_VALUE_MASK: "bit VALUE_MASK n \<longleftrightarrow> n < 56"
  unfolding VALUE_MASK_mask by (auto simp add: bit_mask_iff)

lemmas pack_bits = bit_INLINE_FLAG bit_VALUE_MASK bit_mask_iff bit_or_iff bit_and_iff
  bit_push_bit_iff bit_drop_bit_eq

lemma unpack_type_pack: "uint tc < 128 \<Longrightarrow> unpack_type (pack tc v) = tc"
proof (rule bit_word_eqI)
  fix n assume tc: "uint tc < 128" and n: "n < LENGTH(64)"
  from tc have "uint tc < 2 ^ 7" by simp
  then have "bit tc n \<Longrightarrow> n < 7" by (meson not_le_imp_less uint_small_bit)
  with n show "bit (unpack_type (pack tc v)) n = bit tc n"
    unfolding unpack_type_def pack_def TYPE_SHIFT_def low7_mask by (auto simp: pack_bits)
qed

lemma unpack_value_pack: "unpack_value_bits (pack tc v) = v AND VALUE_MASK"
  by (rule bit_word_eqI)
    (auto simp: unpack_value_bits_def pack_def TYPE_SHIFT_def pack_bits)

lemma uint_value_masked:
  assumes "uint v < 2 ^ 56"
  shows "v AND VALUE_MASK = v"
  by (rule bit_word_eqI) (use uint_small_bit [OF assms] in \<open>auto simp: pack_bits not_less [symmetric]\<close>)

lemma pack_arith:
  assumes tc: "uint tc < 128" and v: "uint v < 2 ^ 56"
  shows "pack tc v = INLINE_FLAG + (push_bit 56 tc + v)"
proof -
  have tc7: "uint tc < 2 ^ 7" using tc by simp
  have disj1: "\<not> bit (push_bit 56 tc) n \<or> \<not> bit v n" for n
    using uint_small_bit [OF v, of n] by (auto simp: pack_bits)
  have disj2: "\<not> bit INLINE_FLAG n \<or> \<not> bit (push_bit 56 tc OR v) n" for n
    using uint_small_bit [OF v, of n] uint_small_bit [OF tc7, of "n - 56"]
    by (auto simp: pack_bits)
  have "pack tc v = INLINE_FLAG OR (push_bit 56 tc OR v)"
    using uint_value_masked [OF v] by (simp add: pack_def TYPE_SHIFT_def or.assoc)
  also have "\<dots> = INLINE_FLAG + (push_bit 56 tc OR v)"
    by (rule disjunctive_add [symmetric]) (rule disj2)
  also have "push_bit 56 tc OR v = push_bit 56 tc + v"
    by (rule disjunctive_add [symmetric]) (rule disj1)
  finally show ?thesis .
qed

lemma uint_push56: "uint tc < 128 \<Longrightarrow> uint (push_bit 56 tc) = uint tc * 2 ^ 56"
  for tc :: u64
  by (simp add: push_bit_eq_mult uint_word_ariths)

lemma mod_eq_intro_small: "m \<le> x \<Longrightarrow> x < 2 * m \<Longrightarrow> x mod m = x - m" for x m :: int
  by (metis diff_ge_0_iff_ge diff_less_eq minus_mod_self2 mod_pos_pos_trivial mult_2)

lemma sint_u64: "sint w = (if uint w < 2 ^ 63 then uint w else uint w - 2 ^ 64)" for w :: u64
proof (cases "uint w < 2 ^ 63")
  case True
  then show ?thesis by (simp add: sint_uint signed_take_bit_int_eq_self_iff order_trans [OF _ uint_ge_0])
next
  case False
  have "uint w < 2 ^ 64" using uint_lt2p [of w] by simp
  with False have "(uint w + 2 ^ 63) mod 2 ^ 64 = uint w + 2 ^ 63 - 2 ^ 64"
    by (intro mod_eq_intro_small) auto
  with False show ?thesis
    by (simp add: sint_uint signed_take_bit_eq_take_bit_shift take_bit_eq_mod)
qed

lemma sint_flagged: "0 \<le> x \<Longrightarrow> uint w = 2 ^ 63 + x \<Longrightarrow> sint w = x - 2 ^ 63" for w :: u64
  by (simp add: sint_u64)

lemma sint_pack:
  assumes tc: "uint tc < 128" and v: "uint v < 2 ^ 56"
  shows "sint (pack tc v) = uint tc * 2 ^ 56 + uint v - 2 ^ 63"
proof -
  let ?x = "uint tc * 2 ^ 56 + uint v"
  have x: "0 \<le> ?x" "?x < 2 ^ 63" using tc v by simp_all
  have "uint (push_bit 56 tc + v) = ?x"
    using x uint_push56 [OF tc] by (simp add: uint_word_ariths)
  moreover have "uint INLINE_FLAG = 2 ^ 63" by (simp add: INLINE_FLAG_def)
  ultimately have "uint (pack tc v) = 2 ^ 63 + ?x"
    using x unfolding pack_arith [OF tc v] by (simp add: uint_word_ariths)
  with x(1) show ?thesis by (rule sint_flagged)
qed

lemma is_inline_pack: "uint tc < 128 \<Longrightarrow> uint v < 2 ^ 56 \<Longrightarrow> is_inline (pack tc v)"
  by (simp add: is_inline_def sint_pack)

lemma uint_offset_value:
  assumes "in_offset_range v"
  shows "uint (word_of_int v + INTEGER_OFFSET :: u64) = v + 2 ^ 55"
proof -
  have v: "- (2 ^ 55) \<le> v" "v < 2 ^ 55" using assms by (simp_all add: in_offset_range_def)
  have eq: "word_of_int v + INTEGER_OFFSET = (word_of_int (v + 2 ^ 55) :: u64)"
    by (simp add: INTEGER_OFFSET_def push_bit_eq_mult)
  show ?thesis unfolding eq uint_word_of_int using v by (simp add: mod_pos_pos_trivial)
qed

section \<open>The contract shared by the offset-coded datatypes\<close>

text \<open>
  Integers, dateTimes and dates are all stored as an offset count under their own type
  code. A codec of this family parses a lexical form to a count (\<open>parse\<close>), encodes it and
  decodes identifiers; the laws are the shape of the encoder and decoder.
\<close>

locale offset_codec =
  fixes parse :: "string \<Rightarrow> int option"
    and enc :: "string \<Rightarrow> i64 option"
    and dec :: "i64 \<Rightarrow> i64"
    and tag :: u64
  assumes enc_law: "enc s = (case parse s of
      None \<Rightarrow> None
    | Some v \<Rightarrow> if in_offset_range v then Some (pack tag (word_of_int v + INTEGER_OFFSET)) else None)"
    and dec_law: "dec i = unpack_value_bits i - INTEGER_OFFSET"
    and tag_law: "uint tag < 128"
begin

lemma enc_SomeD:
  assumes "enc s = Some i"
  obtains v where "parse s = Some v" "in_offset_range v"
    "i = pack tag (word_of_int v + INTEGER_OFFSET)"
    "uint (word_of_int v + INTEGER_OFFSET :: u64) = v + 2 ^ 55" "0 \<le> v + 2 ^ 55" "v + 2 ^ 55 < 2 ^ 56"
  using assms uint_offset_value
  by (auto simp: enc_law in_offset_range_def split: option.splits if_splits)

lemma enc_inline: "enc s = Some i \<Longrightarrow> is_inline i \<and> inline_type i = tag"
  by (erule enc_SomeD) (simp add: inline_type_def is_inline_pack unpack_type_pack tag_law)

lemma sint_offset_back: "in_offset_range v \<Longrightarrow>
    sint (word_of_int v + INTEGER_OFFSET - INTEGER_OFFSET :: i64) = v"
  by (simp add: in_offset_range_def int_word_sint mod_pos_pos_trivial)

lemma dec_enc:
  assumes "enc s = Some i"
  shows "parse s = Some (sint (dec i))"
  using assms
proof (rule enc_SomeD)
  fix v
  assume v: "parse s = Some v" "in_offset_range v" "i = pack tag (word_of_int v + INTEGER_OFFSET)"
    "uint (word_of_int v + INTEGER_OFFSET :: u64) = v + 2 ^ 55" "v + 2 ^ 55 < 2 ^ 56"
  then have "unpack_value_bits i = word_of_int v + INTEGER_OFFSET"
    by (simp add: unpack_value_pack uint_value_masked)
  with v show ?thesis by (simp only: dec_law sint_offset_back)
qed

lemma enc_None_iff: "enc s = None \<longleftrightarrow> (\<forall>v. parse s = Some v \<longrightarrow> \<not> in_offset_range v)"
  by (auto simp: enc_law split: option.splits)

lemma sint_enc: "enc s = Some i \<Longrightarrow>
    sint i = uint tag * 2 ^ 56 + sint (dec i) + 2 ^ 55 - 2 ^ 63"
proof -
  assume e: "enc s = Some i"
  then obtain v where "parse s = Some v" "i = pack tag (word_of_int v + INTEGER_OFFSET)"
    "uint (word_of_int v + INTEGER_OFFSET :: u64) = v + 2 ^ 55" "v + 2 ^ 55 < 2 ^ 56"
    by (rule enc_SomeD)
  moreover from this(1) dec_enc [OF e] have "sint (dec i) = v" by simp
  ultimately show ?thesis by (simp add: sint_pack tag_law)
qed

lemma enc_order: "enc s = Some i \<Longrightarrow> enc t = Some j \<Longrightarrow> (sint i < sint j) = (sint (dec i) < sint (dec j))"
  by (simp add: sint_enc)

lemma enc_inj: "enc s = Some i \<Longrightarrow> enc t = Some i \<Longrightarrow> parse s = parse t"
  by (simp add: dec_enc)

end

interpretation integer_codec:
  offset_codec "\<lambda>s. parse_i64 (trim s)" try_encode_integer decode_integer TYPE_INTEGER
  by unfold_locales
    (auto simp: try_encode_integer_def decode_integer_def TYPE_INTEGER_def split: option.splits)

interpretation datetime_codec:
  offset_codec "\<lambda>s. if has_nonzero_offset (trim s) then None else parse_micros (trim s)"
    "try_encode_datetime parse_micros" decode_datetime_micros TYPE_DATETIME
  for parse_micros
  by unfold_locales
    (auto simp: try_encode_datetime_def decode_datetime_micros_def TYPE_DATETIME_def Let_def
      split: option.splits)

interpretation date_codec:
  offset_codec "\<lambda>s. parse_days (trim s)" "try_encode_date parse_days" decode_date_days TYPE_DATE
  for parse_days
  by unfold_locales
    (auto simp: try_encode_date_def decode_date_days_def TYPE_DATE_def split: option.splits)

section \<open>Properties\<close>

text \<open>
  Property C40. Round trip of \<open>xsd:integer\<close>: the decimal text of an \<open>i64\<close> value is inlined
  exactly when the value lies in \<open>[-2^55, 2^55)\<close>; the identifier is then negative, carries
  the integer type code, decodes to the value and prints as its typed literal.
\<close>

theorem integer_roundtrip:
  assumes "in_i64 v"
  shows "case try_encode_integer (show_int v) of
      None \<Rightarrow> v < - (2 ^ 55) \<or> 2 ^ 55 \<le> v
    | Some i \<Rightarrow> - (2 ^ 55) \<le> v \<and> v < 2 ^ 55 \<and> is_inline i \<and> inline_type i = TYPE_INTEGER
        \<and> sint (decode_integer i) = v
        \<and> format_inline fmt_micros fmt_days i =
            [CHR 0x22] @ show_int v @ [CHR 0x22] @ ''^^<http://www.w3.org/2001/XMLSchema#integer>''"
proof (cases "try_encode_integer (show_int v)")
  case None
  then have "\<not> in_offset_range v" using assms
    by (simp add: integer_codec.enc_None_iff parse_i64_show_int)
  with None show ?thesis by (auto simp: in_offset_range_def)
next
  case (Some i)
  have "in_offset_range v"
    using Some assms by (auto simp: try_encode_integer_def parse_i64_show_int split: if_splits)
  moreover have "sint (decode_integer i) = v"
    using integer_codec.dec_enc [OF Some] assms by (simp add: parse_i64_show_int)
  ultimately show ?thesis
    using Some integer_codec.enc_inline [OF Some] by (simp add: in_offset_range_def format_inline_def)
qed

theorem integer_roundtrip_witness:
  "in_i64 (- 42) \<and> sint (decode_integer (pack TYPE_INTEGER (word_of_int (- 42) + INTEGER_OFFSET))) = - 42"
proof -
  have r: "in_i64 (- 42)" by (simp add: in_i64_def)
  then have "try_encode_integer (show_int (- 42)) =
      Some (pack TYPE_INTEGER (word_of_int (- 42) + INTEGER_OFFSET))"
    by (simp add: try_encode_integer_def parse_i64_show_int in_offset_range_def)
  with r integer_roundtrip [OF r, of "\<lambda>_. None" "\<lambda>_. None"] show ?thesis by simp
qed

text \<open>
  Sort order: two inlined dateTimes compare as signed 64-bit identifiers
  exactly as their microsecond counts do, and both decode to the count that was parsed.
\<close>

lemma datetime_order_preserved:
  assumes "try_encode_datetime parse_micros s = Some i" "try_encode_datetime parse_micros t = Some j"
  shows "parse_micros (trim s) = Some (sint (decode_datetime_micros i))
    \<and> parse_micros (trim t) = Some (sint (decode_datetime_micros j))
    \<and> (sint i < sint j) = (sint (decode_datetime_micros i) < sint (decode_datetime_micros j))"
proof -
  have "parse_micros (trim r) = Some (sint (decode_datetime_micros k))"
    if "try_encode_datetime parse_micros r = Some k" for r k
    using datetime_codec.dec_enc [OF that] by (simp split: if_splits)
  with assms show ?thesis by (simp add: datetime_codec.enc_order [OF assms])
qed

lemma datetime_order_preserved_witness:
  "\<exists>i j. try_encode_datetime (\<lambda>s. if s = ''a'' then Some 5 else Some 9) ''a'' = Some i
     \<and> try_encode_datetime (\<lambda>s. if s = ''a'' then Some 5 else Some 9) ''b'' = Some j
     \<and> sint i < sint j"
proof -
  let ?p = "\<lambda>s :: string. if s = ''a'' then Some 5 else Some (9::int)"
  let ?i = "pack TYPE_DATETIME (word_of_int 5 + INTEGER_OFFSET)"
  let ?j = "pack TYPE_DATETIME (word_of_int 9 + INTEGER_OFFSET)"
  have t: "trim ''a'' = ''a''" "trim ''b'' = ''b''" by (code_simp, code_simp)
  have n: "\<not> has_nonzero_offset ''a''" "\<not> has_nonzero_offset ''b''" by (code_simp, code_simp)
  have i: "try_encode_datetime ?p ''a'' = Some ?i"
    by (simp add: try_encode_datetime_def t n in_offset_range_def)
  have j: "try_encode_datetime ?p ''b'' = Some ?j"
    by (simp add: try_encode_datetime_def t n in_offset_range_def)
  have "sint ?i < sint ?j"
    using datetime_order_preserved [OF i j] by (simp add: t)
  with i j show ?thesis by blast
qed

text \<open>
  Identifiers of different datatypes never collide, whatever the lexical
  forms, and no inlined value collides with a dictionary identifier (which is not negative).
\<close>

lemma inline_types_disjoint:
  assumes "try_encode_integer a = Some i" "try_encode_boolean b = Some j"
    and "try_encode_datetime parse_micros c = Some k" "try_encode_date parse_days d = Some l"
  shows "distinct [i, j, k, l] \<and> (\<forall>x \<in> {i, j, k, l}. is_inline x \<and> sint x < 0)"
proof -
  have j: "inline_type j = TYPE_BOOLEAN \<and> is_inline j"
    using assms(2) by (auto simp: try_encode_boolean_def inline_type_def unpack_type_pack
        is_inline_pack TYPE_BOOLEAN_def Let_def split: if_splits)
  note types = integer_codec.enc_inline [OF assms(1)] datetime_codec.enc_inline [OF assms(3)]
    date_codec.enc_inline [OF assms(4)] j
  have "distinct [inline_type i, inline_type j, inline_type k, inline_type l]"
    unfolding types [THEN conjunct2] j [THEN conjunct1] by (simp add: inline_consts)
  then have "distinct [i, j, k, l]" by auto
  with types show ?thesis by (simp add: is_inline_def)
qed

lemma inline_types_disjoint_witness:
  "\<exists>i j k l. try_encode_integer (show_int 1) = Some i \<and> try_encode_boolean ''1'' = Some j
     \<and> try_encode_datetime (\<lambda>_. Some 1) ''x'' = Some k \<and> try_encode_date (\<lambda>_. Some 1) ''x'' = Some l
     \<and> distinct [i, j, k, l]"
proof -
  have 1: "try_encode_integer (show_int 1) = Some (pack TYPE_INTEGER (word_of_int 1 + INTEGER_OFFSET))"
    by (simp only: try_encode_integer_def trim_show_int parse_i64_show_int in_i64_def)
      (simp add: in_offset_range_def parse_i64_show_int in_i64_def)
  have b: "trim ''1'' = ''1''" "\<not> has_nonzero_offset (trim ''x'')" by (code_simp, code_simp)
  have 2: "try_encode_boolean ''1'' = Some (pack TYPE_BOOLEAN 1)"
    by (simp add: try_encode_boolean_def b)
  have 3: "try_encode_datetime (\<lambda>_. Some 1) ''x'' = Some (pack TYPE_DATETIME (word_of_int 1 + INTEGER_OFFSET))"
    by (simp add: try_encode_datetime_def b in_offset_range_def)
  have 4: "try_encode_date (\<lambda>_. Some 1) ''x'' = Some (pack TYPE_DATE (word_of_int 1 + INTEGER_OFFSET))"
    by (simp add: try_encode_date_def in_offset_range_def)
  from inline_types_disjoint [OF 1 2 3 4] 1 2 3 4 show ?thesis by blast
qed

end
