(* ===== verification/Wcoj_Trie.thy ===== *)
theory Wcoj_Trie
  imports Prelude "HOL-Library.Product_Lexorder"
begin

text \<open>
  \<^verbatim>\<open>src/sparql/wcoj/trie.rs\<close>: the sorted iterators, the leapfrog intersection and the
  in-memory edge index of the worst-case optimal join. The rows of a VP table come from
  SQL queries and are a parameter of the loader.
\<close>

section \<open>Sorted iterators\<close>

record SortedIterator =
  vals :: "term_id list"
  pos :: nat

definition iter_new :: "term_id list \<Rightarrow> SortedIterator" where
  "iter_new vs = \<lparr>vals = remdups_adj (sort vs), pos = 0\<rparr>"

definition at_end :: "SortedIterator \<Rightarrow> bool" where
  "at_end it \<longleftrightarrow> pos it \<ge> length (vals it)"

text \<open>\<open>key\<close> indexes the vector; \<^const>\<open>None\<close> is the out-of-bounds panic.\<close>

definition key :: "SortedIterator \<Rightarrow> term_id option" where
  "key it = (if pos it < length (vals it) then Some (vals it ! pos it) else None)"

definition iter_next :: "SortedIterator \<Rightarrow> SortedIterator" where
  "iter_next it = (if pos it < length (vals it) then it\<lparr>pos := pos it + 1\<rparr> else it)"

text \<open>\<open>slice::partition_point\<close> on a partitioned slice is the length of the prefix that
  satisfies the predicate.\<close>

definition partition_point :: "('a \<Rightarrow> bool) \<Rightarrow> 'a list \<Rightarrow> nat" where
  "partition_point P xs = length (takeWhile P xs)"

definition seek :: "SortedIterator \<Rightarrow> term_id \<Rightarrow> SortedIterator" where
  "seek it target =
     (if pos it \<ge> length (vals it) then it
      else if vals it ! pos it \<ge> target then it
      else it\<lparr>pos := pos it + partition_point (\<lambda>v. v < target) (drop (pos it) (vals it))\<rparr>)"

definition reset :: "SortedIterator \<Rightarrow> SortedIterator" where
  "reset it = it\<lparr>pos := 0\<rparr>"

section \<open>Leapfrog intersection\<close>

text \<open>The inner loop of one round: seek every iterator to \<open>x\<close> and track the maximum key;
  \<^const>\<open>None\<close> is the \<open>break 'outer\<close> on an exhausted iterator.\<close>

fun seek_all :: "term_id \<Rightarrow> SortedIterator list \<Rightarrow> term_id \<Rightarrow> (SortedIterator list \<times> term_id) option" where
  "seek_all x [] new_max = Some ([], new_max)"
| "seek_all x (it # its) new_max =
     (let it' = seek it x in
      if at_end it' then None
      else (case key it' of
              None \<Rightarrow> None
            | Some k \<Rightarrow>
                map_option (\<lambda>(its', m). (it' # its', m))
                  (seek_all x its (if k > new_max then k else new_max))))"

definition remaining :: "SortedIterator list \<Rightarrow> nat" where
  "remaining its = sum_list (map (\<lambda>it. length (vals it) - pos it) its)"

definition all_vals :: "SortedIterator list \<Rightarrow> term_id set" where
  "all_vals its = \<Union> (set ` vals ` set its)"

lemma values_seek [simp]: "vals (seek it x) = vals it"
  by (simp add: seek_def)

lemma values_next [simp]: "vals (iter_next it) = vals it"
  by (simp add: iter_next_def)

lemma pos_seek_ge: "pos it \<le> pos (seek it x)"
  by (simp add: seek_def)

lemma seek_all_vals: "seek_all x its m = Some (its', m') \<Longrightarrow> map vals its' = map vals its"
  by (induction its arbitrary: m its' m') (auto simp: Let_def split: if_splits option.splits)

lemma seek_all_remaining: "seek_all x its m = Some (its', m') \<Longrightarrow> remaining its' \<le> remaining its"
proof (induction its arbitrary: m its' m')
  case (Cons it its)
  then show ?case
    using pos_seek_ge [of it x]
    by (fastforce simp: remaining_def Let_def split: if_splits option.splits)
qed simp

lemma seek_all_max:
  "seek_all x its m = Some (its', m') \<Longrightarrow> m' = m \<or> m' \<in> all_vals its \<and> m < m'"
proof (induction its arbitrary: m its' m')
  case (Cons it its)
  from Cons.prems obtain k its'' where k: "key (seek it x) = Some k"
    and r: "seek_all x its (if k > m then k else m) = Some (its'', m')"
    by (auto simp: Let_def split: if_splits option.splits)
  from k have "k \<in> set (vals it)" by (auto simp: key_def split: if_splits)
  with Cons.IH [OF r] show ?case by (auto simp: all_vals_def split: if_splits)
qed simp

lemma seek_all_not_at_end:
  "seek_all x its m = Some (its', m') \<Longrightarrow> \<forall>it \<in> set its'. \<not> at_end it"
  by (induction its arbitrary: m its' m') (auto simp: Let_def split: if_splits option.splits)

lemma remaining_next:
  "its \<noteq> [] \<Longrightarrow> \<forall>it \<in> set its. \<not> at_end it \<Longrightarrow> remaining (map iter_next its) < remaining its"
proof (induction its)
  case (Cons it its)
  then show ?case
    by (cases "its = []") (auto simp: remaining_def iter_next_def at_end_def)
qed simp

lemma all_vals_cong: "map vals its = map vals its' \<Longrightarrow> all_vals its = all_vals its'"
  by (metis all_vals_def list.set_map)

lemma finite_all_vals [simp]: "finite (all_vals its)"
  by (simp add: all_vals_def)

text \<open>The outer loop, with the result vector as an accumulator. It stops because every
  round either consumes one value of every iterator or raises \<open>x\<close> to a larger value of
  some iterator.\<close>

function leapfrog_loop :: "term_id \<Rightarrow> SortedIterator list \<Rightarrow> term_id list \<Rightarrow> term_id list" where
  "leapfrog_loop x its result =
     (case seek_all x its x of
        None \<Rightarrow> result
      | Some (its', new_max) \<Rightarrow>
          if new_max = x then
            (let result' = result @ [x];
                 its'' = map iter_next its';
                 keys = List.map_filter key its'' in
             if keys = [] then result'
             else leapfrog_loop (Max (set keys)) its'' result')
          else leapfrog_loop new_max its' result)"
  by pat_completeness auto
termination
proof (relation "measures [\<lambda>(x, its, r). remaining its, \<lambda>(x, its, r). card {v \<in> all_vals its. x < v}]", goal_cases)
  case 1
  show ?case by simp
next
  case (2 x its result q its' new_max)
  then have "seek_all x its x = Some (its', new_max)" by simp
  moreover from 2 have "its' \<noteq> []" by (auto simp: map_filter_simps)
  ultimately have "remaining (map iter_next its') < remaining its"
    by (meson order_less_le_trans remaining_next seek_all_not_at_end seek_all_remaining)
  with 2 show ?case by simp
next
  case (3 x its result q its' new_max)
  then have s: "seek_all x its x = Some (its', new_max)" by simp
  have "all_vals its' = all_vals its" by (rule all_vals_cong [OF seek_all_vals [OF s]])
  moreover from seek_all_max [OF s] 3(3) have n: "new_max \<in> all_vals its" "x < new_max" by auto
  then have "{v \<in> all_vals its. new_max < v} \<subset> {v \<in> all_vals its. x < v}" by auto
  then have "card {v \<in> all_vals its. new_max < v} < card {v \<in> all_vals its. x < v}"
    by (rule psubset_card_mono [rotated]) simp
  ultimately have c: "card {v \<in> all_vals its'. new_max < v} < card {v \<in> all_vals its. x < v}" by simp
  show ?case
    by (rule measures_lesseq) (use seek_all_remaining [OF s] c in simp_all)
qed

declare leapfrog_loop.simps [simp del]

definition leapfrog_intersect :: "SortedIterator list \<Rightarrow> term_id list" where
  "leapfrog_intersect iters =
     (if iters = [] then []
      else if \<exists>it \<in> set iters. at_end it then []
      else leapfrog_loop (Max (set (List.map_filter key iters))) iters [])"

section \<open>Correctness of the intersection\<close>

text \<open>What an iterator still has to deliver, and the invariant of iterators.\<close>

definition rest :: "SortedIterator \<Rightarrow> term_id list" where
  "rest it = drop (pos it) (vals it)"

definition iter_ok :: "SortedIterator \<Rightarrow> bool" where
  "iter_ok it \<longleftrightarrow> strict_sorted (vals it)"

lemma at_end_rest: "at_end it \<longleftrightarrow> rest it = []"
  by (simp add: at_end_def rest_def)

lemma key_rest: "key it = (case rest it of [] \<Rightarrow> None | v # _ \<Rightarrow> Some v)"
  by (auto simp: key_def rest_def split: list.splits)
    (metis drop_eq_Nil2 hd_drop_conv_nth linorder_not_less list.sel(1) list.distinct(1))+

lemma rest_sorted: "iter_ok it \<Longrightarrow> strict_sorted (rest it)"
  by (simp add: iter_ok_def rest_def strict_sorted_def sorted_wrt_drop)

lemma rest_next: "rest (iter_next it) = tl (rest it)"
  by (simp add: rest_def iter_next_def tl_drop drop_Suc)

lemma rest_seek: "rest (seek it x) = dropWhile (\<lambda>v. v < x) (rest it)"
proof (cases "rest it")
  case Nil
  then show ?thesis by (simp add: rest_def seek_def)
next
  case (Cons v vs)
  then have p: "pos it < length (vals it)" by (simp add: rest_def) (metis drop_eq_Nil2 linorder_not_less list.distinct(1))
  then have v: "vals it ! pos it = v" using Cons by (simp add: rest_def nth_via_drop)
  show ?thesis
  proof (cases "v < x")
    case True
    with p v have "rest (seek it x) = drop (partition_point (\<lambda>v. v < x) (rest it)) (rest it)"
      by (simp add: seek_def rest_def add.commute)
    then show ?thesis by (simp add: partition_point_def dropWhile_eq_drop)
  qed (use p v Cons in \<open>simp add: seek_def rest_def\<close>)
qed

lemma iter_ok_seek [simp]: "iter_ok (seek it x) = iter_ok it"
  by (simp add: iter_ok_def)

lemma iter_ok_next [simp]: "iter_ok (iter_next it) = iter_ok it"
  by (simp add: iter_ok_def)

lemma rest_seek_set: "iter_ok it \<Longrightarrow> set (rest (seek it x)) = {v \<in> set (rest it). x \<le> v}"
  by (simp add: rest_seek strict_sorted_dropWhile_less rest_sorted)

lemma key_le_rest: "iter_ok it \<Longrightarrow> key it = Some k \<Longrightarrow> k \<in> set (rest it) \<and> (\<forall>v \<in> set (rest it). k \<le> v)"
  using rest_sorted [of it] by (auto simp: key_rest split: list.splits)

lemma key_Some_iff: "\<not> at_end it \<longleftrightarrow> (\<exists>k. key it = Some k)"
  by (auto simp: key_def at_end_def)

lemma seek_all_None:
  "seek_all x its m = None \<Longrightarrow> \<exists>it \<in> set its. rest (seek it x) = []"
proof (induction its arbitrary: m)
  case (Cons it its)
  then show ?case
    by (auto simp: Let_def at_end_rest key_rest split: if_splits list.splits)
qed simp

lemma seek_all_Some:
  "seek_all x its m = Some (its', m') \<Longrightarrow> its' = map (\<lambda>it. seek it x) its \<and> m \<le> m'
     \<and> (\<forall>it \<in> set its'. \<exists>k. key it = Some k \<and> k \<le> m') \<and> (m' = m \<or> (\<exists>it \<in> set its'. key it = Some m'))"
proof (induction its arbitrary: m its' m')
  case (Cons it its)
  from Cons.prems obtain k its'' where k: "key (seek it x) = Some k"
    and r: "seek_all x its (if k > m then k else m) = Some (its'', m')" and "its' = seek it x # its''"
    by (auto simp: Let_def split: if_splits option.splits)
  with Cons.IH [OF r] show ?case by (auto split: if_splits)
qed simp

definition common :: "SortedIterator list \<Rightarrow> term_id set" where
  "common its = (\<Inter>it \<in> set its. set (rest it))"

lemma finite_common: "its \<noteq> [] \<Longrightarrow> finite (common its)"
  by (cases its) (auto simp: common_def)

lemma common_seek:
  "its \<noteq> [] \<Longrightarrow> \<forall>it \<in> set its. iter_ok it \<Longrightarrow>
    common (map (\<lambda>it. seek it x) its) = {v \<in> common its. x \<le> v}"
  by (cases its) (auto simp: common_def rest_seek_set)

lemma common_next:
  assumes "its \<noteq> []" "\<forall>it \<in> set its. iter_ok it \<and> key it = Some x"
  shows "common its = insert x (common (map iter_next its)) \<and> (\<forall>v \<in> common (map iter_next its). x < v)"
proof -
  have r: "set (rest it) = insert x (set (rest (iter_next it))) \<and> (\<forall>v \<in> set (rest (iter_next it)). x < v)"
    if "it \<in> set its" for it
    using assms(2) that rest_sorted [of it] by (cases "rest it") (auto simp: key_rest rest_next)
  then have "common its = (\<Inter>it \<in> set its. insert x (set (rest (iter_next it))))"
    unfolding common_def by (intro INF_cong) auto
  also have "\<dots> = insert x (common (map iter_next its))" using assms(1) by (auto simp: common_def)
  finally have "common its = insert x (common (map iter_next its))" .
  moreover have "common (map iter_next its) \<subseteq> set (rest (iter_next (hd its)))"
    using hd_in_set [OF assms(1)] by (auto simp: common_def)
  ultimately show ?thesis using r [OF hd_in_set [OF assms(1)]] by blast
qed

lemma common_ge_keys:
  "\<forall>it \<in> set its. iter_ok it \<Longrightarrow> v \<in> common its \<Longrightarrow> k \<in> set (List.map_filter key its) \<Longrightarrow> k \<le> v"
  by (auto simp: common_def List.map_filter_def dest!: key_le_rest)

lemma leapfrog_loop_correct:
  assumes "its \<noteq> []" "\<forall>it \<in> set its. iter_ok it"
  shows "leapfrog_loop x its result = result @ sorted_list_of_set {v \<in> common its. x \<le> v}"
  using assms
proof (induction x its result rule: leapfrog_loop.induct)
  case (1 x its result)
  show ?case
  proof (cases "seek_all x its x")
    case None
    from seek_all_None [OF this] obtain it where "it \<in> set its" "rest (seek it x) = []" by blast
    with 1(4) have "{v \<in> common its. x \<le> v} = {}" using rest_seek_set [of it x] by (auto simp: common_def)
    then show ?thesis using None by (simp only: leapfrog_loop.simps [of x its]) simp
  next
    case (Some p)
    obtain its' m where p: "p = (its', m)" by (cases p)
    note s = seek_all_Some [OF Some [unfolded p]]
    have its': "its' = map (\<lambda>it. seek it x) its" "its' \<noteq> []" "\<forall>it \<in> set its'. iter_ok it"
      using s 1(3,4) by auto
    have c: "common its' = {v \<in> common its. x \<le> v}" using common_seek 1(3,4) its'(1) by simp
    show ?thesis
    proof (cases "m = x")
      case False
      with s obtain it where "it \<in> set its'" "key it = Some m" by auto
      then have "\<forall>v \<in> common its'. m \<le> v" using its'(3) key_le_rest by (auto simp: common_def)
      then have "{v \<in> common its'. m \<le> v} = {v \<in> common its. x \<le> v}" using c by auto
      moreover have "leapfrog_loop x its result = leapfrog_loop m its' result"
        using Some p False by (simp add: leapfrog_loop.simps [of x its])
      ultimately show ?thesis using 1(2) [OF Some p [symmetric] False its'(2,3)] by simp
    next
      case True
      have keys: "\<forall>it \<in> set its'. iter_ok it \<and> key it = Some x"
      proof
        fix it assume it: "it \<in> set its'"
        with s True obtain k where k: "key it = Some k" "k \<le> x" by blast
        from it its'(1) obtain it0 where "it0 \<in> set its" "it = seek it0 x" by auto
        with 1(4) key_le_rest [of it k] its'(3) it k(1) have "x \<le> k" by (auto simp: rest_seek_set)
        with k it its'(3) show "iter_ok it \<and> key it = Some x" by simp
      qed
      let ?its'' = "map iter_next its'" and ?keys = "List.map_filter key (map iter_next its')"
      note n = common_next [OF its'(2) keys]
      have ok: "\<forall>it \<in> set ?its''. iter_ok it" "?its'' \<noteq> []" using its' by auto
      have "{v \<in> common its. x \<le> v} = insert x (common ?its'')" using c n by simp
      then have "result @ sorted_list_of_set {v \<in> common its. x \<le> v}
          = result @ x # sorted_list_of_set (common ?its'')"
        by (simp only: strict_sorted_Cons_list_of_set [OF finite_common [OF ok(2)] n [THEN conjunct2]])
      moreover have "leapfrog_loop x its result =
          (if ?keys = [] then result @ [x] else leapfrog_loop (Max (set ?keys)) ?its'' (result @ [x]))"
        using Some p True by (simp add: leapfrog_loop.simps [of x its] Let_def)
      moreover have "?keys = [] \<Longrightarrow> common ?its'' = {}"
        using ok(2) by (cases its') (auto simp: common_def map_filter_simps key_rest split: list.splits option.splits)
      moreover have "{v \<in> common ?its''. Max (set ?keys) \<le> v} = common ?its''" if "?keys \<noteq> []"
        using common_ge_keys [OF ok(1)] that by auto
      ultimately show ?thesis using 1(1) [OF Some p [symmetric] True _ _ _ _ ok(2,1)] by simp
    qed
  qed
qed

lemma iter_ok_new [simp]: "iter_ok (iter_new vs)"
  by (simp add: iter_ok_def iter_new_def)

lemma rest_new [simp]: "set (rest (iter_new vs)) = set vs"
  by (simp add: rest_def iter_new_def)

lemma leapfrog_intersect_common:
  assumes "its \<noteq> []" "\<forall>it \<in> set its. iter_ok it"
  shows "leapfrog_intersect its = sorted_list_of_set (common its)"
proof (cases "\<exists>it \<in> set its. at_end it")
  case True
  then have "common its = {}" by (auto simp: common_def at_end_rest)
  with True show ?thesis by (simp add: leapfrog_intersect_def)
next
  case False
  let ?keys = "List.map_filter key its"
  have "?keys \<noteq> []" using assms(1) False
    by (cases its) (auto simp: map_filter_simps key_Some_iff)
  then have "{v \<in> common its. Max (set ?keys) \<le> v} = common its"
    using common_ge_keys [OF assms(2)] by auto
  with False assms show ?thesis
    by (simp add: leapfrog_intersect_def leapfrog_loop_correct)
qed

text \<open>
  Property C33. The leapfrog intersection of iterators built over arbitrary value lists is
  the ascending list of exactly the values common to all of them.
\<close>

theorem leapfrog_intersect_correct:
  "leapfrog_intersect (map iter_new vss) =
     (if vss = [] then [] else sorted_list_of_set (\<Inter>vs \<in> set vss. set vs))"
proof (cases "vss = []")
  case False
  have "common (map iter_new vss) = (\<Inter>vs \<in> set vss. set vs)" by (simp add: common_def)
  with False show ?thesis by (simp add: leapfrog_intersect_common)
qed (simp add: leapfrog_intersect_def)

section \<open>Edge data\<close>

record EdgeData =
  by_s :: "(term_id \<times> term_id) list"
  by_o :: "(term_id \<times> term_id) list"
  s_ranges :: "(term_id \<times> nat \<times> nat) list"
  o_ranges :: "(term_id \<times> nat \<times> nat) list"

text \<open>The inner and outer loop of \<open>build_ranges\<close>; \<open>i\<close> is the loop index of the source.\<close>

function range_end :: "(term_id \<times> term_id) list \<Rightarrow> term_id \<Rightarrow> nat \<Rightarrow> nat" where
  "range_end pairs k i =
     (if i < length pairs \<and> fst (pairs ! i) = k then range_end pairs k (i + 1) else i)"
  by pat_completeness auto
termination by (relation "measure (\<lambda>(pairs, k, i). length pairs - i)") auto

declare range_end.simps [simp del]

lemma range_end_bounds:
  "i \<le> length pairs \<Longrightarrow> i \<le> range_end pairs k i \<and> range_end pairs k i \<le> length pairs"
proof (induction pairs k i rule: range_end.induct)
  case (1 pairs k i)
  then show ?case by (subst (1 2) range_end.simps) auto
qed

lemma range_end_progress: "i < length pairs \<Longrightarrow> i < range_end pairs (fst (pairs ! i)) i"
  using range_end_bounds [of "i + 1" pairs "fst (pairs ! i)"] by (subst range_end.simps) auto

function ranges_from :: "(term_id \<times> term_id) list \<Rightarrow> nat \<Rightarrow> (term_id \<times> nat \<times> nat) list" where
  "ranges_from pairs i =
     (if i < length pairs
      then (let k = fst (pairs ! i); e = range_end pairs k i in (k, i, e) # ranges_from pairs e)
      else [])"
  by pat_completeness auto
termination
  by (relation "measure (\<lambda>(pairs, i). length pairs - i)")
    (auto intro!: diff_less_mono2 range_end_progress)

declare ranges_from.simps [simp del]

definition build_ranges :: "(term_id \<times> term_id) list \<Rightarrow> (term_id \<times> nat \<times> nat) list" where
  "build_ranges pairs = ranges_from pairs 0"

text \<open>
  The rows a VP table delivers. \<open>has_table\<close> answers the catalog query for a dedicated
  table; the other fields are the rows of the table, of its delta table and of \<open>vp_rare\<close>.
\<close>

record vp_rows =
  has_table :: "term_id \<Rightarrow> bool"
  vp_main :: "term_id \<Rightarrow> (term_id \<times> term_id) list"
  vp_delta :: "term_id \<Rightarrow> (term_id \<times> term_id) list"
  vp_rare :: "term_id \<Rightarrow> (term_id \<times> term_id) list"

definition vp_edges :: "vp_rows \<Rightarrow> term_id \<Rightarrow> (term_id \<times> term_id) list" where
  "vp_edges db p = (if has_table db p then vp_main db p @ vp_delta db p else vp_rare db p)"

definition swap_pair :: "'a \<times> 'b \<Rightarrow> 'b \<times> 'a" where
  "swap_pair p = (snd p, fst p)"

text \<open>Tuples of \<open>i64\<close> sort lexicographically, as pairs do here.\<close>

definition load_from_vp :: "vp_rows \<Rightarrow> term_id \<Rightarrow> EdgeData option" where
  "load_from_vp db pred_id =
     (let edges = vp_edges db pred_id in
      if edges = [] then None
      else (let bs = remdups_adj (sort edges);
                bo = remdups_adj (sort (map swap_pair bs)) in
            Some \<lparr>by_s = bs, by_o = bo, s_ranges = build_ranges bs, o_ranges = build_ranges bo\<rparr>))"

definition all_s :: "EdgeData \<Rightarrow> term_id list" where
  "all_s ed = map fst (s_ranges ed)"

definition all_o :: "EdgeData \<Rightarrow> term_id list" where
  "all_o ed = map fst (o_ranges ed)"

text \<open>\<open>binary_search_by_key\<close> over a range index, whose keys are distinct and ascending,
  finds the entry with the key.\<close>

definition search_range :: "(term_id \<times> nat \<times> nat) list \<Rightarrow> term_id \<Rightarrow> (nat \<times> nat) option" where
  "search_range ranges k = map_of ranges k"

definition slice_snd :: "(term_id \<times> term_id) list \<Rightarrow> nat \<Rightarrow> nat \<Rightarrow> term_id list" where
  "slice_snd pairs a b = map snd (take (b - a) (drop a pairs))"

definition o_for_s :: "EdgeData \<Rightarrow> term_id \<Rightarrow> term_id list" where
  "o_for_s ed s =
     (case search_range (s_ranges ed) s of
        Some (start, e) \<Rightarrow> slice_snd (by_s ed) start e
      | None \<Rightarrow> [])"

definition s_for_o :: "EdgeData \<Rightarrow> term_id \<Rightarrow> term_id list" where
  "s_for_o ed ob =
     (case search_range (o_ranges ed) ob of
        Some (start, e) \<Rightarrow> slice_snd (by_o ed) start e
      | None \<Rightarrow> [])"

definition has_edge :: "EdgeData \<Rightarrow> term_id \<Rightarrow> term_id \<Rightarrow> bool" where
  "has_edge ed s ob \<longleftrightarrow> (s, ob) \<in> set (by_s ed)"

definition edge_len :: "EdgeData \<Rightarrow> nat" where
  "edge_len ed = length (by_s ed)"

definition edge_is_empty :: "EdgeData \<Rightarrow> bool" where
  "edge_is_empty ed \<longleftrightarrow> by_s ed = []"

subsection \<open>The range index\<close>

lemma range_end_takeWhile:
  "i \<le> length pairs \<Longrightarrow>
    range_end pairs k i = i + length (takeWhile (\<lambda>p. fst p = k) (drop i pairs))"
proof (induction pairs k i rule: range_end.induct)
  case (1 pairs k i)
  show ?case
  proof (cases "i < length pairs")
    case True
    then have "drop i pairs = pairs ! i # drop (i + 1) pairs" by (simp add: Cons_nth_drop_Suc)
    with True 1 show ?thesis by (subst range_end.simps) auto
  next
    case False
    with 1 show ?thesis by (subst range_end.simps) simp
  qed
qed

lemma range_end_drop:
  assumes "i \<le> length pairs"
  shows "drop (range_end pairs k i) pairs = dropWhile (\<lambda>p. fst p = k) (drop i pairs)"
    and "take (range_end pairs k i - i) (drop i pairs) = takeWhile (\<lambda>p. fst p = k) (drop i pairs)"
  unfolding range_end_takeWhile [OF assms]
  by (simp add: dropWhile_eq_drop add.commute) (metis add_diff_cancel_left' takeWhile_eq_take)

lemma sorted_fst_dropWhile:
  "sorted (map fst ps) \<Longrightarrow> ps \<noteq> [] \<Longrightarrow> p \<in> set (dropWhile (\<lambda>q. fst q = fst (hd ps)) ps) \<Longrightarrow> fst (hd ps) < fst p"
  for ps :: "(term_id \<times> term_id) list"
proof (induction ps)
  case (Cons q ps)
  have "fst q < fst p" if "p \<in> set (dropWhile (\<lambda>r. fst r = fst q) ps)" "\<forall>r \<in> set ps. fst q \<le> fst r" "sorted (map fst ps)"
    using that by (induction ps) (auto split: if_splits)
  with Cons.prems show ?case by auto
qed simp

lemma ranges_from_unfold:
  assumes "i < length pairs" "k = fst (pairs ! i)" "e = range_end pairs k i"
  shows "ranges_from pairs i = (k, i, e) # ranges_from pairs e"
  by (subst ranges_from.simps) (simp only: assms Let_def if_True)

lemma ranges_from_keys:
  "i \<le> length pairs \<Longrightarrow> sorted (map fst pairs) \<Longrightarrow>
    strict_sorted (map fst (ranges_from pairs i)) \<and>
    fst ` set (ranges_from pairs i) = fst ` set (drop i pairs) \<and>
    (\<forall>(k, a, b) \<in> set (ranges_from pairs i).
       take (b - a) (drop a pairs) = filter (\<lambda>p. fst p = k) (drop i pairs))"
proof (induction pairs i rule: ranges_from.induct)
  case (1 pairs i)
  show ?case
  proof (cases "i < length pairs")
    case False
    then show ?thesis by (subst (1 2 3) ranges_from.simps) simp
  next
    case True
    define k e ps where k: "k = fst (pairs ! i)" and e: "e = range_end pairs k i" and ps: "ps = drop i pairs"
    have hd: "ps \<noteq> []" "fst (hd ps) = k" using True by (auto simp: ps k hd_drop_conv_nth)
    have srt: "sorted (map fst ps)" using 1(3) by (simp add: ps drop_map [symmetric] sorted_wrt_drop)
    note rd = range_end_drop [of i pairs k, folded e ps, OF less_imp_le [OF True]]
    have e_le: "e \<le> length pairs" using range_end_bounds [of i pairs k] True by (simp add: e)
    have gt: "k < fst p" if "p \<in> set (drop e pairs)" for p
      using sorted_fst_dropWhile [OF srt hd(1)] that by (simp add: rd(1) hd(2))
    have split: "ps = takeWhile (\<lambda>p. fst p = k) ps @ drop e pairs" by (simp add: rd(1))
    have IH: "strict_sorted (map fst (ranges_from pairs e))"
      "fst ` set (ranges_from pairs e) = fst ` set (drop e pairs)"
      "\<forall>(k, a, b) \<in> set (ranges_from pairs e). take (b - a) (drop a pairs) = filter (\<lambda>p. fst p = k) (drop e pairs)"
      using 1(1) [OF True k e e_le 1(3)] by auto
    note u = ranges_from_unfold [OF True k e]
    have fk: "filter (\<lambda>p. fst p = k) ps = takeWhile (\<lambda>p. fst p = k) ps"
    proof -
      have "filter (\<lambda>p. fst p = k) (takeWhile (\<lambda>p. fst p = k) ps) = takeWhile (\<lambda>p. fst p = k) ps"
        by (simp add: filter_id_conv) (metis set_takeWhileD)
      moreover have "filter (\<lambda>p. fst p = k) (drop e pairs) = []" using gt by (fastforce simp: filter_empty_conv)
      ultimately show ?thesis by (subst split) (simp only: filter_append append_Nil2)
    qed
    have fo: "filter (\<lambda>p. fst p = k') ps = filter (\<lambda>p. fst p = k') (drop e pairs)" if "k' \<noteq> k" for k'
      using that by (subst split) (auto simp: filter_empty_conv dest: set_takeWhileD)
    have ks: "\<forall>x \<in> set (ranges_from pairs e). k < fst x" using IH(2) gt by (metis imageE imageI)
    have f: "fst ` set ps = insert k (fst ` set (drop e pairs))"
    proof -
      have "fst ` set ps = fst ` set (takeWhile (\<lambda>p. fst p = k) ps) \<union> fst ` set (drop e pairs)"
        using split by (metis image_Un set_append)
      moreover have "fst ` set (takeWhile (\<lambda>p. fst p = k) ps) = {k}"
        using hd by (cases ps) (auto dest: set_takeWhileD)
      ultimately show ?thesis by simp
    qed
    have "strict_sorted (map fst (ranges_from pairs i))" using IH(1) ks by (simp add: u)
    moreover have "fst ` set (ranges_from pairs i) = fst ` set ps" using IH(2) f by (simp add: u)
    moreover have "take (b - a) (drop a pairs) = filter (\<lambda>p. fst p = k') ps"
      if m: "(k', a, b) \<in> set (ranges_from pairs i)" for k' a b
    proof (cases "(k', a, b) = (k, i, e)")
      case True
      then show ?thesis using rd(2) fk by (simp add: ps)
    next
      case False
      with m have k': "(k', a, b) \<in> set (ranges_from pairs e)" by (auto simp: u)
      with ks have "k' \<noteq> k" by force
      with k' IH(3) fo show ?thesis by fastforce
    qed
    ultimately show ?thesis by (auto simp: ps)
  qed
qed

lemma build_ranges_search:
  assumes "sorted (map fst pairs)"
  shows "(case search_range (build_ranges pairs) k of
            Some (a, b) \<Rightarrow> slice_snd pairs a b | None \<Rightarrow> [])
          = map snd (filter (\<lambda>p. fst p = k) pairs)"
proof (cases "search_range (build_ranges pairs) k")
  case None
  with ranges_from_keys [OF _ assms, of 0] have "k \<notin> fst ` set pairs"
    by (simp add: search_range_def build_ranges_def map_of_eq_None_iff)
  then have "filter (\<lambda>p. fst p = k) pairs = []" by (auto simp: filter_empty_conv)
  with None show ?thesis by simp
next
  case (Some ab)
  obtain a b where ab: "ab = (a, b)" by (cases ab)
  with Some have "(k, a, b) \<in> set (ranges_from pairs 0)"
    by (auto simp: search_range_def build_ranges_def dest: map_of_SomeD)
  with ranges_from_keys [OF _ assms, of 0] have "take (b - a) (drop a pairs) = filter (\<lambda>p. fst p = k) pairs"
    by fastforce
  with Some ab show ?thesis by (simp add: slice_snd_def)
qed

subsection \<open>Lookups agree with the rows\<close>

lemma sorted_map_fst: "sorted ps \<Longrightarrow> sorted (map fst ps)" for ps :: "(term_id \<times> term_id) list"
  by (induction ps) (auto simp: less_eq_prod_def)

lemma sorted_dedup_fst: "sorted (map fst (remdups_adj (sort ps)))" for ps :: "(term_id \<times> term_id) list"
  by (simp add: sorted_map_fst sorted_remdups_adj)

lemma set_filter_snd: "set (map snd (filter (\<lambda>p. fst p = k) ps)) = {x. (k, x) \<in> set ps}"
  by force

text \<open>The contract the join relies on: what the lookups of an edge index return, for the
  set of edges of each key.\<close>

locale edge_index =
  fixes E :: "'k \<Rightarrow> (term_id \<times> term_id) set" and idx :: "'k \<Rightarrow> EdgeData option"
  assumes absent: "idx k = None \<longleftrightarrow> E k = {}"
    and subjects: "idx k = Some ed \<Longrightarrow> set (all_s ed) = fst ` E k"
    and objects: "idx k = Some ed \<Longrightarrow> set (all_o ed) = snd ` E k"
    and objects_of: "idx k = Some ed \<Longrightarrow> set (o_for_s ed s) = {x. (s, x) \<in> E k}"
    and subjects_of: "idx k = Some ed \<Longrightarrow> set (s_for_o ed x) = {s. (s, x) \<in> E k}"
begin

lemma lookup_converse: "idx k = Some ed \<Longrightarrow> s \<in> set (s_for_o ed x) \<longleftrightarrow> x \<in> set (o_for_s ed s)"
  by (simp add: objects_of subjects_of)

lemma subject_iff: "idx k = Some ed \<Longrightarrow> s \<in> set (all_s ed) \<longleftrightarrow> (\<exists>x. (s, x) \<in> E k)"
  by (force simp: subjects)

lemma object_iff: "idx k = Some ed \<Longrightarrow> x \<in> set (all_o ed) \<longleftrightarrow> (\<exists>s. (s, x) \<in> E k)"
  by (force simp: objects)

end

lemma load_from_vp_Some:
  assumes "load_from_vp db p = Some ed"
  defines "bs \<equiv> remdups_adj (sort (vp_edges db p))"
  defines "bo \<equiv> remdups_adj (sort (map swap_pair bs))"
  shows "ed = \<lparr>by_s = bs, by_o = bo, s_ranges = build_ranges bs, o_ranges = build_ranges bo\<rparr>"
    "vp_edges db p \<noteq> []" "set bs = set (vp_edges db p)" "set bo = swap_pair ` set (vp_edges db p)"
  using assms(1) by (auto simp: load_from_vp_def bs_def bo_def Let_def split: if_splits)

interpretation vp_index: edge_index "\<lambda>p. set (vp_edges db p)" "load_from_vp db" for db
proof
  fix p ed s x
  show "(load_from_vp db p = None) = (set (vp_edges db p) = {})"
    by (simp add: load_from_vp_def Let_def)
  assume l: "load_from_vp db p = Some ed"
  note L = load_from_vp_Some [OF l]
  note keys = ranges_from_keys [of 0, OF le0 sorted_dedup_fst]
  note srch = build_ranges_search [OF sorted_dedup_fst]
  show "set (all_s ed) = fst ` set (vp_edges db p)"
    using keys L(3) by (simp add: L(1) all_s_def build_ranges_def)
  show "set (all_o ed) = snd ` set (vp_edges db p)"
    using keys L(4) by (simp add: L(1) all_o_def build_ranges_def swap_pair_def image_image)
  show "set (o_for_s ed s) = {x. (s, x) \<in> set (vp_edges db p)}"
    by (simp only: L(1,3) o_for_s_def srch EdgeData.simps set_filter_snd)
  show "set (s_for_o ed x) = {s. (s, x) \<in> set (vp_edges db p)}"
    by (simp only: L(1,4) s_for_o_def srch EdgeData.simps set_filter_snd) (force simp: swap_pair_def)
qed

text \<open>
  Loading a predicate returns an index exactly when the predicate has rows;
  it counts the distinct edges, and its lookups by subject, by object, of all subjects and
  of single edges agree with the rows.
\<close>

lemma load_from_vp_correct:
  "case load_from_vp db p of
     None \<Rightarrow> vp_edges db p = []
   | Some ed \<Rightarrow> vp_edges db p \<noteq> [] \<and> edge_len ed = card (set (vp_edges db p)) \<and>
       (\<forall>s x. (x \<in> set (o_for_s ed s)) = ((s, x) \<in> set (vp_edges db p)) \<and>
              (s \<in> set (s_for_o ed x)) = ((s, x) \<in> set (vp_edges db p)) \<and>
              has_edge ed s x = ((s, x) \<in> set (vp_edges db p)) \<and>
              (s \<in> set (all_s ed)) = (\<exists>y. (s, y) \<in> set (vp_edges db p)))"
proof (cases "load_from_vp db p")
  case None
  then show ?thesis using vp_index.absent [of db p] by simp
next
  case (Some ed)
  note L = load_from_vp_Some [OF Some]
  have "distinct (remdups_adj (sort (vp_edges db p)))"
    using strict_sorted_sort_dedup [of "vp_edges db p"] by (simp add: strict_sorted_iff)
  then have "edge_len ed = card (set (vp_edges db p))"
    using L(3) by (simp add: edge_len_def L(1) distinct_card [symmetric])
  moreover have "has_edge ed s x = ((s, x) \<in> set (vp_edges db p))" for s x
    using L(3) by (simp add: has_edge_def L(1))
  ultimately show ?thesis using Some L(2)
    by (simp add: vp_index.objects_of [OF Some] vp_index.subjects_of [OF Some] vp_index.subject_iff [OF Some])
qed

end
