(* ===== verification/Wcoj_Leapfrog.thy ===== *)
theory Wcoj_Leapfrog
  imports Wcoj_Trie
begin

text \<open>
  \<^verbatim>\<open>src/sparql/wcoj/mod.rs\<close>, \<^verbatim>\<open>leapfrog.rs\<close> and the planner part of \<^verbatim>\<open>executor.rs\<close>: variable
  extraction and cycle detection on basic graph patterns, and the Leapfrog Triejoin
  executor. The \<open>spargebra\<close> algebra is modelled by the constructors the code matches on,
  with one constructor for everything it leaves to its wildcard arm. Settings, the
  dictionary lookup and the catalog's triple counts are arguments.
\<close>

section \<open>Query algebra as the executor sees it\<close>

datatype term_pattern = TVariable string | TOther string

datatype pred_pattern = PNamedNode string | PVariable string

record triple_pattern =
  tp_subject :: term_pattern
  tp_predicate :: pred_pattern
  tp_object :: term_pattern

datatype graph_pattern =
    Bgp "triple_pattern list"
  | Join graph_pattern graph_pattern
  | Union graph_pattern graph_pattern
  | LeftJoin graph_pattern graph_pattern
  | Filter graph_pattern
  | Graph graph_pattern
  | Extend graph_pattern
  | OrderBy graph_pattern
  | Project graph_pattern "string list"
  | Distinct graph_pattern
  | Reduced graph_pattern
  | Slice graph_pattern nat "nat option"
  | Group graph_pattern
  | OtherPattern

datatype query = Select graph_pattern | OtherQuery

section \<open>Variable extraction and cycle detection\<close>

fun term_var :: "term_pattern \<Rightarrow> string list" where
  "term_var (TVariable v) = [v]"
| "term_var (TOther t) = []"

fun pred_var :: "pred_pattern \<Rightarrow> string list" where
  "pred_var (PVariable v) = [v]"
| "pred_var (PNamedNode n) = []"

fun extract_bgp_pattern_vars :: "graph_pattern \<Rightarrow> string list list" where
  "extract_bgp_pattern_vars (Bgp pats) =
     filter (\<lambda>vars. vars \<noteq> [])
       (map (\<lambda>tp. term_var (tp_subject tp) @ pred_var (tp_predicate tp) @ term_var (tp_object tp)) pats)"
| "extract_bgp_pattern_vars (Join l r) = extract_bgp_pattern_vars l @ extract_bgp_pattern_vars r"
| "extract_bgp_pattern_vars (Union l r) = extract_bgp_pattern_vars l @ extract_bgp_pattern_vars r"
| "extract_bgp_pattern_vars (LeftJoin l r) = extract_bgp_pattern_vars l @ extract_bgp_pattern_vars r"
| "extract_bgp_pattern_vars (Filter p) = extract_bgp_pattern_vars p"
| "extract_bgp_pattern_vars (Graph p) = extract_bgp_pattern_vars p"
| "extract_bgp_pattern_vars (Extend p) = extract_bgp_pattern_vars p"
| "extract_bgp_pattern_vars (OrderBy p) = extract_bgp_pattern_vars p"
| "extract_bgp_pattern_vars (Project p vs) = extract_bgp_pattern_vars p"
| "extract_bgp_pattern_vars (Distinct p) = extract_bgp_pattern_vars p"
| "extract_bgp_pattern_vars (Reduced p) = extract_bgp_pattern_vars p"
| "extract_bgp_pattern_vars (Slice p s l) = extract_bgp_pattern_vars p"
| "extract_bgp_pattern_vars (Group p) = extract_bgp_pattern_vars p"
| "extract_bgp_pattern_vars OtherPattern = []"

text \<open>The pairs \<open>(vars[i], vars[j])\<close> with \<open>i < j\<close> of one pattern.\<close>

fun index_pairs :: "'a list \<Rightarrow> ('a \<times> 'a) list" where
  "index_pairs [] = []"
| "index_pairs (x # xs) = map (Pair x) xs @ index_pairs xs"

type_synonym adjacency = "string \<rightharpoonup> string set"

definition adj_insert :: "string \<Rightarrow> string \<Rightarrow> adjacency \<Rightarrow> adjacency" where
  "adj_insert a b adj = adj(a \<mapsto> insert b (case adj a of None \<Rightarrow> {} | Some S \<Rightarrow> S))"

definition adj_edge :: "string \<times> string \<Rightarrow> adjacency \<Rightarrow> adjacency" where
  "adj_edge = (\<lambda>(a, b) adj. if a \<noteq> b then adj_insert b a (adj_insert a b adj) else adj)"

definition adj_of :: "string list list \<Rightarrow> adjacency" where
  "adj_of pattern_vars = fold adj_edge (concat (map index_pairs pattern_vars)) Map.empty"

text \<open>
  The depth-first search. The recursion visits a new node at every call, so it is bounded
  by the number of nodes; \<open>fuel\<close> makes this structural and \<^const>\<open>None\<close> stands for running
  out of it. The result carries \<open>visited\<close> and \<open>rec_stack\<close>.
\<close>

fun has_cycle_dfs ::
  "nat \<Rightarrow> string hash_order \<Rightarrow> string \<Rightarrow> string option \<Rightarrow> adjacency \<Rightarrow> string set \<Rightarrow> string set
     \<Rightarrow> (bool \<times> string set \<times> string set) option"
and scan_neighbors ::
  "nat \<Rightarrow> string hash_order \<Rightarrow> string \<Rightarrow> string option \<Rightarrow> adjacency \<Rightarrow> string list
     \<Rightarrow> string set \<Rightarrow> string set \<Rightarrow> (bool \<times> string set \<times> string set) option" where
  "has_cycle_dfs 0 ord node parent adj visited rec_stack = None"
| "has_cycle_dfs (Suc fuel) ord node parent adj visited rec_stack =
     (let visited = insert node visited; rec_stack = insert node rec_stack in
      case adj node of
        None \<Rightarrow> Some (False, visited, rec_stack - {node})
      | Some neighbors \<Rightarrow>
          (case scan_neighbors fuel ord node parent adj (ord neighbors) visited rec_stack of
             None \<Rightarrow> None
           | Some (found, v, r) \<Rightarrow> if found then Some (True, v, r) else Some (False, v, r - {node})))"
| "scan_neighbors fuel ord node parent adj [] visited rec_stack = Some (False, visited, rec_stack)"
| "scan_neighbors fuel ord node parent adj (neighbor # ns) visited rec_stack =
     (if parent = Some neighbor then scan_neighbors fuel ord node parent adj ns visited rec_stack
      else if neighbor \<notin> visited then
        (case has_cycle_dfs fuel ord neighbor (Some node) adj visited rec_stack of
           None \<Rightarrow> None
         | Some (found, v, r) \<Rightarrow>
             if found then Some (True, v, r)
             else scan_neighbors fuel ord node parent adj ns v r)
      else if neighbor \<in> rec_stack then Some (True, visited, rec_stack)
      else scan_neighbors fuel ord node parent adj ns visited rec_stack)"

fun scan_nodes ::
  "nat \<Rightarrow> string hash_order \<Rightarrow> adjacency \<Rightarrow> string list \<Rightarrow> string set \<Rightarrow> string set \<Rightarrow> bool option" where
  "scan_nodes fuel ord adj [] visited rec_stack = Some False"
| "scan_nodes fuel ord adj (node # nodes) visited rec_stack =
     (if node \<notin> visited then
        (case has_cycle_dfs fuel ord node None adj visited rec_stack of
           None \<Rightarrow> None
         | Some (found, v, r) \<Rightarrow> if found then Some True else scan_nodes fuel ord adj nodes v r)
      else scan_nodes fuel ord adj nodes visited rec_stack)"

definition detect_cyclic_bgp :: "string hash_order \<Rightarrow> string list list \<Rightarrow> bool option" where
  "detect_cyclic_bgp ord pattern_vars =
     (if length pattern_vars < 3 then Some False
      else (let adj = adj_of pattern_vars in
            scan_nodes (Suc (card (dom adj))) ord adj (ord (dom adj)) {} {}))"

section \<open>Planner\<close>

record wcoj_settings =
  WCOJ_ENABLED :: bool
  WCOJ_MIN_TABLES :: nat
  WCOJ_MIN_CARDINALITY :: nat

record WcojAnalysis =
  use_wcoj :: bool
  table_count :: nat
  is_cyclic :: bool

definition analyse_bgp :: "wcoj_settings \<Rightarrow> string hash_order \<Rightarrow> string list list \<Rightarrow> WcojAnalysis option" where
  "analyse_bgp cfg ord pattern_vars =
     (let n = length pattern_vars in
      if \<not> WCOJ_ENABLED cfg \<or> n < WCOJ_MIN_TABLES cfg
      then Some \<lparr>use_wcoj = False, table_count = n, is_cyclic = False\<rparr>
      else map_option (\<lambda>c. \<lparr>use_wcoj = c, table_count = n, is_cyclic = c\<rparr>)
             (detect_cyclic_bgp ord pattern_vars))"

section \<open>Leapfrog Triejoin\<close>

record CyclicBgpPattern =
  subject_var :: string
  pred_id :: term_id
  object_var :: string

type_synonym LftiBinding = "string \<rightharpoonup> term_id"

text \<open>The candidate list one pattern contributes for variable \<open>var\<close>; \<^const>\<open>None\<close> is the
  \<open>continue\<close> of the loop over the patterns.\<close>

definition pattern_candidates ::
  "(term_id \<rightharpoonup> EdgeData) \<Rightarrow> LftiBinding \<Rightarrow> string \<Rightarrow> CyclicBgpPattern \<Rightarrow> term_id list option" where
  "pattern_candidates edge_cache binding var pat =
     (case edge_cache (pred_id pat) of
        None \<Rightarrow> None
      | Some ed \<Rightarrow>
          if subject_var pat = var then
            Some (case binding (object_var pat) of Some bo \<Rightarrow> s_for_o ed bo | None \<Rightarrow> all_s ed)
          else if object_var pat = var then
            Some (case binding (subject_var pat) of Some bs \<Rightarrow> o_for_s ed bs | None \<Rightarrow> all_o ed)
          else None)"

text \<open>The recursion runs over the rest of the variable order; the binding and the result
  vector are threaded through as the mutable arguments of the source.\<close>

fun lfti_recurse ::
  "CyclicBgpPattern list \<Rightarrow> string list \<Rightarrow> (term_id \<rightharpoonup> EdgeData) \<Rightarrow> LftiBinding \<Rightarrow> LftiBinding list
     \<Rightarrow> LftiBinding \<times> LftiBinding list" where
  "lfti_recurse patterns [] edge_cache binding result = (binding, result @ [binding])"
| "lfti_recurse patterns (var # vs) edge_cache binding result =
     (let iters = map iter_new (List.map_filter (pattern_candidates edge_cache binding var) patterns) in
      if iters = [] then lfti_recurse patterns vs edge_cache binding result
      else fold (\<lambda>val (b, res).
                   (case lfti_recurse patterns vs edge_cache (b(var \<mapsto> val)) res of
                      (b', res') \<Rightarrow> (b'(var := None), res')))
             (leapfrog_intersect iters) (binding, result))"

fun load_edge_cache ::
  "(term_id \<Rightarrow> EdgeData option) \<Rightarrow> CyclicBgpPattern list \<Rightarrow> (term_id \<rightharpoonup> EdgeData) \<Rightarrow> (term_id \<rightharpoonup> EdgeData) option" where
  "load_edge_cache load [] edge_cache = Some edge_cache"
| "load_edge_cache load (pat # pats) edge_cache =
     (case edge_cache (pred_id pat) of
        Some _ \<Rightarrow> load_edge_cache load pats edge_cache
      | None \<Rightarrow>
          (case load (pred_id pat) of
             None \<Rightarrow> None
           | Some ed \<Rightarrow> load_edge_cache load pats (edge_cache(pred_id pat \<mapsto> ed))))"

definition execute_leapfrog_triejoin ::
  "vp_rows \<Rightarrow> CyclicBgpPattern list \<Rightarrow> string list \<Rightarrow> LftiBinding list option" where
  "execute_leapfrog_triejoin db patterns variable_order =
     (if patterns = [] \<or> variable_order = [] then None
      else map_option
             (\<lambda>edge_cache. snd (lfti_recurse patterns variable_order edge_cache Map.empty []))
             (load_edge_cache (load_from_vp db) patterns Map.empty))"

section \<open>Entry point\<close>

type_synonym flat_triple = "string option \<times> string option \<times> string option"

fun pattern_var_opt :: "term_pattern \<Rightarrow> string option" where
  "pattern_var_opt (TVariable v) = Some v"
| "pattern_var_opt (TOther t) = None"

fun pred_iri_opt :: "pred_pattern \<Rightarrow> string option" where
  "pred_iri_opt (PNamedNode n) = Some n"
| "pred_iri_opt (PVariable v) = None"

fun extract_flat_bgp :: "graph_pattern \<Rightarrow> flat_triple list option" where
  "extract_flat_bgp (Bgp pats) =
     Some (map (\<lambda>tp. (pattern_var_opt (tp_subject tp), pred_iri_opt (tp_predicate tp),
                       pattern_var_opt (tp_object tp))) pats)"
| "extract_flat_bgp (Project p vs) = extract_flat_bgp p"
| "extract_flat_bgp (Distinct p) = extract_flat_bgp p"
| "extract_flat_bgp (Reduced p) = extract_flat_bgp p"
| "extract_flat_bgp (OrderBy p) = extract_flat_bgp p"
| "extract_flat_bgp (Slice p s l) = extract_flat_bgp p"
| "extract_flat_bgp _ = None"

fun encode_patterns :: "(string \<Rightarrow> term_id option) \<Rightarrow> flat_triple list \<Rightarrow> CyclicBgpPattern list option" where
  "encode_patterns lookup_iri [] = Some []"
| "encode_patterns lookup_iri ((s, p, ob) # ts) =
     (case p of
        None \<Rightarrow> None
      | Some iri \<Rightarrow>
          (case lookup_iri iri of
             None \<Rightarrow> None
           | Some pid \<Rightarrow>
               map_option (\<lambda>rest. \<lparr>subject_var = (case s of Some v \<Rightarrow> v | None \<Rightarrow> ''_''), pred_id = pid,
                                    object_var = (case ob of Some v \<Rightarrow> v | None \<Rightarrow> ''_'')\<rparr> # rest)
                 (encode_patterns lookup_iri ts)))"

definition opt_list :: "'a option \<Rightarrow> 'a list" where
  "opt_list x = (case x of None \<Rightarrow> [] | Some v \<Rightarrow> [v])"

text \<open>The distinct variables in order of first appearance.\<close>

fun first_seen :: "string list \<Rightarrow> string set \<Rightarrow> string list" where
  "first_seen [] seen = []"
| "first_seen (v # vs) seen = (if v \<in> seen then first_seen vs seen else v # first_seen vs (insert v seen))"

definition try_leapfrog_select ::
  "wcoj_settings \<Rightarrow> string hash_order \<Rightarrow> (string \<Rightarrow> term_id option) \<Rightarrow> (term_id \<Rightarrow> nat) \<Rightarrow> vp_rows
     \<Rightarrow> query \<Rightarrow> LftiBinding list option" where
  "try_leapfrog_select cfg ord lookup_iri triple_count db q =
     (if \<not> WCOJ_ENABLED cfg then None
      else (case q of
        OtherQuery \<Rightarrow> None
      | Select pattern \<Rightarrow>
          (case extract_flat_bgp pattern of
             None \<Rightarrow> None
           | Some bgp_triples \<Rightarrow>
               if bgp_triples = [] then None
               else if length bgp_triples < WCOJ_MIN_TABLES cfg then None
               else (let pattern_vars = map (\<lambda>(s, p, ob). opt_list s @ opt_list ob) bgp_triples in
                     if detect_cyclic_bgp ord pattern_vars \<noteq> Some True then None
                     else (case encode_patterns lookup_iri bgp_triples of
                             None \<Rightarrow> None
                           | Some pats \<Rightarrow>
                               if WCOJ_MIN_CARDINALITY cfg > 0 \<and>
                                  (\<exists>pat \<in> set pats. triple_count (pred_id pat) < WCOJ_MIN_CARDINALITY cfg)
                               then None
                               else execute_leapfrog_triejoin db pats (first_seen (concat pattern_vars) {}))))))"

section \<open>What the join computes\<close>

text \<open>
  The constraint a pattern has imposed once some of its variables are bound: an edge
  between the two values, or only the existence of an edge when one end is unbound or
  both ends are the same variable.
\<close>

definition pat_holds :: "(term_id \<times> term_id) set \<Rightarrow> LftiBinding \<Rightarrow> CyclicBgpPattern \<Rightarrow> bool" where
  "pat_holds E b pat =
     (case (b (subject_var pat), b (object_var pat)) of
        (Some x, Some y) \<Rightarrow> if subject_var pat = object_var pat then x \<in> fst ` E else (x, y) \<in> E
      | (Some x, None) \<Rightarrow> x \<in> fst ` E
      | (None, Some y) \<Rightarrow> y \<in> snd ` E
      | (None, None) \<Rightarrow> True)"

lemma pat_holds_mono: "pat_holds E b' pat \<Longrightarrow> b \<subseteq>\<^sub>m b' \<Longrightarrow> pat_holds E b pat"
proof -
  assume h: "pat_holds E b' pat" and le: "b \<subseteq>\<^sub>m b'"
  have "b v = None \<or> b v = b' v" for v using le by (metis domIff map_le_def)
  with h show ?thesis
    by (auto simp: pat_holds_def image_iff split: option.splits if_splits) (metis fst_conv option.distinct(1) option.inject snd_conv)+
qed

definition mentions :: "string \<Rightarrow> CyclicBgpPattern \<Rightarrow> bool" where
  "mentions v pat \<longleftrightarrow> subject_var pat = v \<or> object_var pat = v"

definition all_hold :: "(term_id \<Rightarrow> (term_id \<times> term_id) set) \<Rightarrow> CyclicBgpPattern list \<Rightarrow> LftiBinding \<Rightarrow> bool" where
  "all_hold E pats b \<longleftrightarrow> (\<forall>pat \<in> set pats. pat_holds (E (pred_id pat)) b pat)"

lemma all_hold_mono: "all_hold E pats b' \<Longrightarrow> b \<subseteq>\<^sub>m b' \<Longrightarrow> all_hold E pats b"
  by (auto simp: all_hold_def intro: pat_holds_mono)

lemma map_le_upd_None: "b(v \<mapsto> x) \<subseteq>\<^sub>m b' \<Longrightarrow> b v = None \<Longrightarrow> b \<subseteq>\<^sub>m b'"
  by (auto simp: map_le_def) (metis domI option.distinct(1))

text \<open>The edge cache the recursion works on is an edge index for the predicates of the
  patterns; the lemmas of the join are proved from the lookup laws alone.\<close>

locale lfti = edge_index E cache
  for E :: "term_id \<Rightarrow> (term_id \<times> term_id) set" and cache :: "term_id \<Rightarrow> EdgeData option" +
  fixes pats :: "CyclicBgpPattern list"
  assumes cached: "pat \<in> set pats \<Longrightarrow> cache (pred_id pat) \<noteq> None"
begin

lemma candidates_mentions:
  "pat \<in> set pats \<Longrightarrow> pattern_candidates cache b v pat = None \<longleftrightarrow> \<not> mentions v pat"
  using cached [of pat] by (auto simp: pattern_candidates_def mentions_def split: if_splits)

lemma candidates_iff:
  assumes "pat \<in> set pats" "b v = None" "pattern_candidates cache b v pat = Some c"
  shows "x \<in> set c \<longleftrightarrow> pat_holds (E (pred_id pat)) (b(v \<mapsto> x)) pat"
proof -
  obtain ed where ed: "cache (pred_id pat) = Some ed" using cached [OF assms(1)] by blast
  note laws = objects_of [OF ed] subjects_of [OF ed] subjects [OF ed] objects [OF ed]
  show ?thesis using assms(2,3) ed
    by (force simp: pattern_candidates_def pat_holds_def laws split: if_splits option.splits)
qed

lemma unmentioned_iff:
  "\<not> mentions v pat \<Longrightarrow> pat_holds F (b(v \<mapsto> x)) pat = pat_holds F b pat"
  by (auto simp: mentions_def pat_holds_def)

lemma common_candidates:
  assumes "all_hold E pats b" "b v = None" "\<exists>pat \<in> set pats. mentions v pat"
  defines "cs \<equiv> List.map_filter (pattern_candidates cache b v) pats"
  shows "cs \<noteq> [] \<and> (\<Inter>c \<in> set cs. set c) = {x. all_hold E pats (b(v \<mapsto> x))} \<and> finite {x. all_hold E pats (b(v \<mapsto> x))}"
proof -
  have cs: "set cs = {c. \<exists>pat \<in> set pats. pattern_candidates cache b v pat = Some c}"
    by (auto simp: cs_def List.map_filter_def image_iff) force
  from assms(3) obtain pat where "pat \<in> set pats" "mentions v pat" by blast
  then have ne: "set cs \<noteq> {}" using candidates_mentions [of pat b v] cs by fastforce
  have eq: "(\<Inter>c \<in> set cs. set c) = {x. all_hold E pats (b(v \<mapsto> x))}"
  proof (intro set_eqI iffI)
    fix x assume x: "x \<in> (\<Inter>c \<in> set cs. set c)"
    have "pat_holds (E (pred_id pat)) (b(v \<mapsto> x)) pat" if "pat \<in> set pats" for pat
    proof (cases "pattern_candidates cache b v pat")
      case None
      with that candidates_mentions assms(1) show ?thesis by (simp add: unmentioned_iff all_hold_def)
    next
      case (Some c)
      with that x cs have "x \<in> set c" by auto
      with candidates_iff [OF that assms(2) Some] show ?thesis by simp
    qed
    then show "x \<in> {x. all_hold E pats (b(v \<mapsto> x))}" by (simp add: all_hold_def)
  next
    fix x assume "x \<in> {x. all_hold E pats (b(v \<mapsto> x))}"
    then show "x \<in> (\<Inter>c \<in> set cs. set c)"
      using cs candidates_iff [of _ b v] assms(2) by (auto simp: all_hold_def)
  qed
  moreover have "finite (\<Inter>c \<in> set cs. set c)" using ne by (meson all_not_in_conv finite_INT finite_set)
  ultimately show ?thesis using ne by auto
qed

lemma lfti_step:
  assumes "all_hold E pats b" "b v = None" "\<exists>pat \<in> set pats. mentions v pat"
  shows "lfti_recurse pats (v # vs) cache b result =
      fold (\<lambda>val (b, res). (case lfti_recurse pats vs cache (b(v \<mapsto> val)) res of
                              (b', res') \<Rightarrow> (b'(v := None), res')))
        (sorted_list_of_set {x. all_hold E pats (b(v \<mapsto> x))}) (b, result)"
  using common_candidates [OF assms]
  by (simp add: Let_def leapfrog_intersect_correct)

lemma lfti_fold:
  assumes step: "\<And>x res. x \<in> set xs \<Longrightarrow> lfti_recurse pats vs cache (b(v \<mapsto> x)) res = (b(v \<mapsto> x), res @ R x)"
    and v: "b v = None"
  shows "fold (\<lambda>val (b, res). (case lfti_recurse pats vs cache (b(v \<mapsto> val)) res of
                              (b', res') \<Rightarrow> (b'(v := None), res'))) xs (b, res)
         = (b, res @ concat (map R xs))"
proof -
  have [simp]: "b(v := None) = b" using v by auto
  show ?thesis using step by (induction xs arbitrary: res) auto
qed

text \<open>The solutions below a partial binding, in the order the recursion emits them.\<close>

lemma lfti_recurse_solutions:
  assumes "distinct vs" "dom b \<inter> set vs = {}" "all_hold E pats b"
    and "\<forall>v \<in> set vs. \<exists>pat \<in> set pats. mentions v pat"
  shows "\<exists>R. (\<forall>res. lfti_recurse pats vs cache b res = (b, res @ R)) \<and> distinct R
    \<and> set R = {b'. b \<subseteq>\<^sub>m b' \<and> dom b' = dom b \<union> set vs \<and> all_hold E pats b'}"
  using assms
proof (induction vs arbitrary: b)
  case Nil
  have "{b'. b \<subseteq>\<^sub>m b' \<and> dom b' = dom b \<and> all_hold E pats b'} = {b}"
    using Nil(3) by (auto simp: map_le_def fun_eq_iff) (metis domIff)
  then show ?case by (intro exI [of _ "[b]"]) simp
next
  case (Cons v vs)
  let ?X = "{x. all_hold E pats (b(v \<mapsto> x))}"
  have v: "b v = None" "v \<notin> set vs" using Cons(2,3) by auto
  have fin: "finite ?X" using common_candidates [OF Cons(4) v(1)] Cons(5) by simp
  have "\<forall>x \<in> ?X. \<exists>R. (\<forall>res. lfti_recurse pats vs cache (b(v \<mapsto> x)) res = (b(v \<mapsto> x), res @ R)) \<and> distinct R
      \<and> set R = {b'. b(v \<mapsto> x) \<subseteq>\<^sub>m b' \<and> dom b' = dom (b(v \<mapsto> x)) \<union> set vs \<and> all_hold E pats b'}"
  proof
    fix x assume "x \<in> ?X"
    then have "distinct vs" "dom (b(v \<mapsto> x)) \<inter> set vs = {}" "all_hold E pats (b(v \<mapsto> x))"
      "\<forall>v \<in> set vs. \<exists>pat \<in> set pats. mentions v pat" using Cons(2,3,5) by (simp_all del: fun_upd_apply)
    then show "\<exists>R. (\<forall>res. lfti_recurse pats vs cache (b(v \<mapsto> x)) res = (b(v \<mapsto> x), res @ R)) \<and> distinct R
      \<and> set R = {b'. b(v \<mapsto> x) \<subseteq>\<^sub>m b' \<and> dom b' = dom (b(v \<mapsto> x)) \<union> set vs \<and> all_hold E pats b'}"
      by (rule Cons.IH)
  qed
  from bchoice [OF this] obtain R where
    R0: "\<forall>x \<in> ?X. (\<forall>res. lfti_recurse pats vs cache (b(v \<mapsto> x)) res = (b(v \<mapsto> x), res @ R x)) \<and> distinct (R x)
      \<and> set (R x) = {b'. b(v \<mapsto> x) \<subseteq>\<^sub>m b' \<and> dom b' = dom (b(v \<mapsto> x)) \<union> set vs \<and> all_hold E pats b'}" ..
  note R1 = R0 [THEN bspec, THEN conjunct1, THEN spec]
    and R2 = R0 [THEN bspec, THEN conjunct2, THEN conjunct1]
    and R3 = R0 [THEN bspec, THEN conjunct2, THEN conjunct2]
  let ?xs = "sorted_list_of_set ?X"
  have val: "b' v = Some x" if "x \<in> ?X" "b' \<in> set (R x)" for x b'
    using that R3 [of x] by (auto simp: map_le_def dest: bspec [of _ _ v])
  have "lfti_recurse pats (v # vs) cache b res = (b, res @ concat (map R ?xs))" for res
    using lfti_step [OF Cons(4) v(1)] Cons(5) lfti_fold [of ?xs vs b v R res, OF _ v(1)] R1 fin by simp
  moreover have "distinct (concat (map R ?xs))"
  proof (rule distinct_concat_map)
    show "set (R x) \<inter> set (R y) = {}" if "x \<in> set ?xs" "y \<in> set ?xs" "x \<noteq> y" for x y
      using that fin val [of x] val [of y] by fastforce
  qed (use fin R2 in auto)
  moreover have "set (concat (map R ?xs)) = {b'. b \<subseteq>\<^sub>m b' \<and> dom b' = dom b \<union> set (v # vs) \<and> all_hold E pats b'}"
  proof (intro set_eqI iffI)
    fix b' assume "b' \<in> set (concat (map R ?xs))"
    then obtain x where "x \<in> ?X" "b' \<in> set (R x)" using fin by auto
    then have b': "b(v \<mapsto> x) \<subseteq>\<^sub>m b'" "dom b' = dom (b(v \<mapsto> x)) \<union> set vs" "all_hold E pats b'"
      unfolding R3 [OF \<open>x \<in> ?X\<close>] mem_Collect_eq by simp_all
    from b'(1) v(1) have "b \<subseteq>\<^sub>m b'" by (rule map_le_upd_None)
    with b' show "b' \<in> {b'. b \<subseteq>\<^sub>m b' \<and> dom b' = dom b \<union> set (v # vs) \<and> all_hold E pats b'}" by auto
  next
    fix b' assume "b' \<in> {b'. b \<subseteq>\<^sub>m b' \<and> dom b' = dom b \<union> set (v # vs) \<and> all_hold E pats b'}"
    then have b': "b \<subseteq>\<^sub>m b'" "dom b' = dom b \<union> set (v # vs)" "all_hold E pats b'" by auto
    then obtain x where x: "b' v = Some x" by (metis UnCI domD list.set_intros(1))
    with b'(1) have le: "b(v \<mapsto> x) \<subseteq>\<^sub>m b'" by (auto simp: map_le_def)
    with b'(3) have "x \<in> ?X" by (auto dest: all_hold_mono)
    moreover from this le b' have "b' \<in> set (R x)" by (simp add: R3)
    ultimately show "b' \<in> set (concat (map R ?xs))" using fin by auto
  qed
  ultimately show ?case by blast
qed

end

definition loaded_patterns :: "vp_rows \<Rightarrow> CyclicBgpPattern list \<Rightarrow> CyclicBgpPattern list" where
  "loaded_patterns db pats = filter (\<lambda>pat. load_from_vp db (pred_id pat) \<noteq> None) pats"

interpretation vp_lfti: lfti "\<lambda>p. set (vp_edges db p)" "load_from_vp db" "loaded_patterns db pats" for db pats
  by unfold_locales (simp add: loaded_patterns_def)

lemma lfti_recurse_cache_cong:
  "(\<And>pat. pat \<in> set pats \<Longrightarrow> c1 (pred_id pat) = c2 (pred_id pat)) \<Longrightarrow>
    lfti_recurse pats vs c1 b res = lfti_recurse pats vs c2 b res"
proof (induction vs arbitrary: b res)
  case (Cons v vs)
  have "List.map_filter (pattern_candidates c1 b v) pats = List.map_filter (pattern_candidates c2 b v) pats"
    using Cons.prems by (auto simp: List.map_filter_def pattern_candidates_def intro!: map_cong filter_cong)
  moreover have "lfti_recurse pats vs c1 = lfti_recurse pats vs c2"
    by (intro ext) (rule Cons.IH [OF Cons.prems])
  ultimately show ?case by simp
qed simp

lemma load_edge_cache_Some:
  "load_edge_cache load pats c = Some c' \<Longrightarrow> (\<And>k ed. c k = Some ed \<Longrightarrow> load k = Some ed) \<Longrightarrow>
     (\<forall>pat \<in> set pats. load (pred_id pat) \<noteq> None \<and> c' (pred_id pat) = load (pred_id pat))
     \<and> c \<subseteq>\<^sub>m c'"
proof (induction pats arbitrary: c)
  case (Cons pat pats)
  show ?case
  proof (cases "c (pred_id pat)")
    case (Some ed)
    with Cons.prems(1) have "load_edge_cache load pats c = Some c'" by simp
    from Cons.IH [OF this Cons.prems(2)] have
      h: "\<forall>pat \<in> set pats. load (pred_id pat) \<noteq> None \<and> c' (pred_id pat) = load (pred_id pat)" "c \<subseteq>\<^sub>m c'" by auto
    from h(2) Some have "c' (pred_id pat) = Some ed" by (metis domI map_le_def)
    with h Cons.prems(2) [OF Some] show ?thesis by simp
  next
    case None
    with Cons.prems(1) obtain ed where ed: "load (pred_id pat) = Some ed"
      "load_edge_cache load pats (c(pred_id pat \<mapsto> ed)) = Some c'" by (auto split: option.splits)
    from Cons.prems(2) ed(1) have "(c(pred_id pat \<mapsto> ed)) k = Some e \<Longrightarrow> load k = Some e" for k e
      by (cases "k = pred_id pat") auto
    from Cons.IH [OF ed(2) this] have
      "\<forall>pat \<in> set pats. load (pred_id pat) \<noteq> None \<and> c' (pred_id pat) = load (pred_id pat)"
      and le: "c(pred_id pat \<mapsto> ed) \<subseteq>\<^sub>m c'" by blast+
    moreover from le have "c' (pred_id pat) = Some ed" by (simp add: map_le_def)
    ultimately show ?thesis using ed(1) map_le_upd_None [OF le None] by simp
  qed
qed simp

lemma load_edge_cache_None:
  "load_edge_cache load pats c = None \<Longrightarrow> \<exists>pat \<in> set pats. load (pred_id pat) = None"
  by (induction load pats c rule: load_edge_cache.induct) (auto split: option.splits)


definition triangle_db :: vp_rows where
  "triangle_db = \<lparr>has_table = (\<lambda>_. False), vp_main = (\<lambda>_. []), vp_delta = (\<lambda>_. []),
     vp_rare = (\<lambda>p. if p = 7 then [(1, 2), (2, 3), (3, 1)] else [])\<rparr>"

definition triangle_patterns :: "CyclicBgpPattern list" where
  "triangle_patterns = [\<lparr>subject_var = ''a'', pred_id = 7, object_var = ''b''\<rparr>,
     \<lparr>subject_var = ''b'', pred_id = 7, object_var = ''c''\<rparr>,
     \<lparr>subject_var = ''c'', pred_id = 7, object_var = ''a''\<rparr>]"

lemma triangle_edges [simp]: "vp_edges triangle_db 7 = [(1, 2), (2, 3), (3, 1)]"
  by (simp add: vp_edges_def triangle_db_def)


section \<open>Where the fast path and the query part ways\<close>

fun same_shape :: "triple_pattern \<Rightarrow> triple_pattern \<Rightarrow> bool" where
  "same_shape t u \<longleftrightarrow> pattern_var_opt (tp_subject t) = pattern_var_opt (tp_subject u)
     \<and> tp_predicate t = tp_predicate u \<and> pattern_var_opt (tp_object t) = pattern_var_opt (tp_object u)"

text \<open>
  The fast path answers without looking at the constants of the query nor at
  its solution modifiers: two basic graph patterns that differ only in the constants at
  subject or object position, under any offset, limit and projection, get the same answer.
\<close>

lemma leapfrog_ignores_constants_and_slice:
  assumes "list_all2 same_shape ts us"
  shows "try_leapfrog_select cfg ord lookup_iri counts db (Select (Slice (Project (Bgp ts) xs) st lim))
       = try_leapfrog_select cfg ord lookup_iri counts db (Select (Bgp us))"
proof -
  from assms have "extract_flat_bgp (Bgp ts) = extract_flat_bgp (Bgp us)"
    by (induction rule: list_all2_induct) auto
  then show ?thesis by (simp add: try_leapfrog_select_def)
qed

definition anchored :: "string \<Rightarrow> triple_pattern list" where
  "anchored c = map (\<lambda>(s, x). \<lparr>tp_subject = s, tp_predicate = PNamedNode ''p'', tp_object = TVariable x\<rparr>)
     [(TVariable ''a'', ''b''), (TVariable ''b'', ''c''), (TVariable ''c'', ''a''), (TOther c, ''a'')]"

definition example_settings :: wcoj_settings where
  "example_settings = \<lparr>WCOJ_ENABLED = True, WCOJ_MIN_TABLES = 3, WCOJ_MIN_CARDINALITY = 0\<rparr>"

definition abc_order :: "string hash_order" where
  "abc_order S = filter (\<lambda>v. v \<in> S) [''a'', ''b'', ''c'']"

lemma leapfrog_ignores_constants_and_slice_witness:
  "list_all2 same_shape (anchored ''<alice>'') (anchored ''<nobody>'') \<and>
   try_leapfrog_select example_settings abc_order (\<lambda>_. Some 7) (\<lambda>_. 3) triangle_db
     (Select (Slice (Project (Bgp (anchored ''<alice>'')) [''b'']) 0 (Some 0)))
   = try_leapfrog_select example_settings abc_order (\<lambda>_. Some 7) (\<lambda>_. 3) triangle_db
       (Select (Bgp (anchored ''<nobody>'')))"
proof -
  have h: "list_all2 same_shape (anchored ''<alice>'') (anchored ''<nobody>'')"
    by (simp add: anchored_def)
  from h leapfrog_ignores_constants_and_slice [OF h] show ?thesis by blast
qed

end
