(* ===== verification/Wcoj_Cycle.thy ===== *)
theory Wcoj_Cycle
  imports Wcoj_Leapfrog
begin

text \<open>
  Correctness of the cycle detection of \<^verbatim>\<open>src/sparql/wcoj/mod.rs\<close>: the depth-first search
  answers for every order in which the hash containers enumerate their elements, and
  answers yes exactly when the variable graph has a cycle.
\<close>

section \<open>The variable graph\<close>

definition nbrs :: "adjacency \<Rightarrow> string \<Rightarrow> string set" where
  "nbrs adj a = (case adj a of None \<Rightarrow> {} | Some S \<Rightarrow> S)"

definition is_cycle :: "adjacency \<Rightarrow> string list \<Rightarrow> bool" where
  "is_cycle adj xs \<longleftrightarrow> 3 \<le> length xs \<and> distinct xs \<and>
     successively (\<lambda>a b. b \<in> nbrs adj a) xs \<and> hd xs \<in> nbrs adj (last xs)"

definition graph_ok :: "adjacency \<Rightarrow> bool" where
  "graph_ok adj \<longleftrightarrow> finite (dom adj) \<and> (\<forall>a. finite (nbrs adj a)) \<and> (\<forall>a. a \<notin> nbrs adj a)
     \<and> (\<forall>a b. b \<in> nbrs adj a \<longrightarrow> a \<in> nbrs adj b)"

lemma nbrs_insert: "nbrs (adj_insert a b adj) c = (if c = a then insert b (nbrs adj c) else nbrs adj c)"
  by (simp add: nbrs_def adj_insert_def split: option.splits)

lemma dom_adj_insert [simp]: "dom (adj_insert a b adj) = insert a (dom adj)"
  by (simp add: adj_insert_def)

lemma adj_edge_ok: "graph_ok adj \<Longrightarrow> graph_ok (adj_edge (a, b) adj)"
  by (auto simp: graph_ok_def nbrs_insert adj_edge_def)

lemma adj_of_fold:
  "graph_ok adj \<Longrightarrow> graph_ok (fold adj_edge ps adj) \<and>
    (\<forall>a b. b \<in> nbrs (fold adj_edge ps adj) a \<longleftrightarrow>
       b \<in> nbrs adj a \<or> a \<noteq> b \<and> ((a, b) \<in> set ps \<or> (b, a) \<in> set ps))"
proof (induction ps arbitrary: adj)
  case (Cons p ps)
  obtain a b where p: "p = (a, b)" by (cases p)
  from Cons.IH [OF adj_edge_ok [OF Cons.prems], of a b] show ?case
    using p by (auto simp: nbrs_insert adj_edge_def)
qed auto

lemma empty_graph_ok: "graph_ok Map.empty"
  by (simp add: graph_ok_def nbrs_def)

lemma adj_of_ok: "graph_ok (adj_of pvs)"
  using adj_of_fold [OF empty_graph_ok] by (simp add: adj_of_def)

lemma adj_of_nbrs: "b \<in> nbrs (adj_of pvs) a \<longleftrightarrow>
    a \<noteq> b \<and> (\<exists>vars \<in> set pvs. (a, b) \<in> set (index_pairs vars) \<or> (b, a) \<in> set (index_pairs vars))"
  using adj_of_fold [OF empty_graph_ok, of "concat (map index_pairs pvs)"]
  by (auto simp: adj_of_def nbrs_def)

lemma nbrs_domD: "b \<in> nbrs adj a \<Longrightarrow> a \<in> dom adj"
  by (auto simp: nbrs_def split: option.splits)

lemma nbrs_sym: "graph_ok adj \<Longrightarrow> b \<in> nbrs adj a \<Longrightarrow> a \<in> nbrs adj b"
  by (simp add: graph_ok_def)

lemma nbrs_irrefl: "graph_ok adj \<Longrightarrow> a \<notin> nbrs adj a"
  by (simp add: graph_ok_def)

lemma nbrs_finite: "graph_ok adj \<Longrightarrow> finite (nbrs adj a)"
  by (simp add: graph_ok_def)

lemma nbrs_dom: "graph_ok adj \<Longrightarrow> b \<in> nbrs adj a \<Longrightarrow> b \<in> dom adj"
  by (meson nbrs_domD nbrs_sym)

section \<open>The search always answers\<close>

lemma dfs_visited_mono:
  "has_cycle_dfs fuel ord node parent adj v r = Some (f, v', r') \<Longrightarrow> insert node v \<subseteq> v'"
  "scan_neighbors fuel ord node parent adj ns v r = Some (f, v', r') \<Longrightarrow> v \<subseteq> v'"
proof (induction fuel ord node parent adj v r and fuel ord node parent adj ns v r
    arbitrary: f v' r' and f v' r' rule: has_cycle_dfs_scan_neighbors.induct)
  case (2 fuel ord node parent adj visited rec_stack)
  then show ?case by (force simp: Let_def split: option.splits prod.splits if_splits)
next
  case (4 fuel ord node parent adj neighbor ns visited rec_stack)
  show ?case
  proof (cases "parent = Some neighbor \<or> neighbor \<in> visited")
    case True
    then show ?thesis using 4 by (auto split: if_splits)
  next
    case False
    with 4(5) obtain g v1 r1 where h: "has_cycle_dfs fuel ord neighbor (Some node) adj visited rec_stack = Some (g, v1, r1)"
      by (auto split: option.splits)
    have "visited \<subseteq> v1" using 4(2) [OF _ _ h] False by blast
    moreover have "v1 \<subseteq> v'"
    proof (cases g)
      case True
      then show ?thesis using 4(5) h False by auto
    next
      case g: False
      then show ?thesis using 4(3) [OF _ _ h] 4(5) h False by auto
    qed
    ultimately show ?thesis by blast
  qed
qed auto

lemma dfs_answers:
  assumes "graph_ok adj" "hash_order_ok ord"
  shows "node \<in> dom adj \<Longrightarrow> node \<notin> v \<Longrightarrow> card (dom adj - v) < fuel \<Longrightarrow>
      has_cycle_dfs fuel ord node parent adj v r \<noteq> None"
    and "set ns \<subseteq> dom adj \<Longrightarrow> card (dom adj - v) < fuel \<Longrightarrow>
      scan_neighbors fuel ord node parent adj ns v r \<noteq> None"
  using assms
proof (induction fuel ord node parent adj v r and fuel ord node parent adj ns v r
    rule: has_cycle_dfs_scan_neighbors.induct)
  case (2 fuel ord node parent adj visited rec_stack)
  have fin: "finite (dom adj)" using 2 by (simp add: graph_ok_def)
  obtain S where S: "adj node = Some S" using 2(2) by blast
  then have "S = nbrs adj node" by (simp add: nbrs_def)
  then have sub: "set (ord S) \<subseteq> dom adj"
    using hash_order_set [OF 2(6) nbrs_finite [OF 2(5)]] nbrs_dom [OF 2(5)] by blast
  have "dom adj - insert node visited \<subset> dom adj - visited" using 2 by blast
  then have "card (dom adj - insert node visited) < card (dom adj - visited)"
    using fin by (simp add: psubset_card_mono)
  with 2(4) have "card (dom adj - insert node visited) < fuel" by simp
  from 2(1) [OF refl refl S sub this 2(5,6)] S show ?case
    by (auto simp: Let_def split: option.splits prod.splits)
next
  case (4 fuel ord node parent adj neighbor ns visited rec_stack)
  have fin: "finite (dom adj)" using 4 by (simp add: graph_ok_def)
  have ns: "set ns \<subseteq> dom adj" "neighbor \<in> dom adj" using 4(5) by (simp_all del: domIff)
  show ?case
  proof (cases "parent = Some neighbor \<or> neighbor \<in> visited")
    case True
    then show ?thesis using 4 ns by (auto split: if_splits)
  next
    case False
    then obtain g v1 r1 where h: "has_cycle_dfs fuel ord neighbor (Some node) adj visited rec_stack = Some (g, v1, r1)"
      using 4(2) ns(2) 4(6,7,8) by (metis (no_types, lifting) option.exhaust prod_cases3)
    have "visited \<subseteq> v1" using dfs_visited_mono(1) [OF h] by blast
    then have "card (dom adj - v1) \<le> card (dom adj - visited)" using fin by (intro card_mono) auto
    with 4(6) have "card (dom adj - v1) < fuel" by simp
    with 4(3) [OF _ _ h refl refl] ns 4(7,8) False h show ?thesis by (cases g) auto
  qed
qed auto

section \<open>A reported cycle is one\<close>

lemma successively_take: "successively P xs \<Longrightarrow> successively P (take n xs)"
  by (metis append_take_drop_id successively_append_iff)

lemma stack_cycle:
  assumes ok: "graph_ok adj" and dist: "distinct (node # p)"
    and chain: "successively (\<lambda>a b. b \<in> nbrs adj a) (node # p)"
    and n: "n \<in> nbrs adj node" "n \<in> set (node # p)" "(case p of [] \<Rightarrow> None | q # _ \<Rightarrow> Some q) \<noteq> Some n"
  shows "\<exists>xs. is_cycle adj xs"
proof -
  let ?q = "node # p"
  obtain k where k: "k < length ?q" "?q ! k = n" using n(2) by (metis in_set_conv_nth)
  have "k \<noteq> 0" using k(2) n(1) nbrs_irrefl [OF ok] by (metis nth_Cons_0)
  moreover have "k \<noteq> 1" using k n(3) by (cases p) auto
  ultimately have k2: "2 \<le> k" by linarith
  let ?xs = "take (Suc k) ?q"
  have len: "length ?xs = Suc k" using k(1) by simp
  have "last ?xs = n" using k by (simp only: take_Suc_conv_app_nth last_snoc)
  moreover have "hd ?xs = node" by simp
  moreover have "node \<in> nbrs adj n" using nbrs_sym [OF ok n(1)] .
  ultimately have "is_cycle adj ?xs"
    using k2 len dist chain successively_take [OF chain, of "Suc k"] distinct_take [OF dist, of "Suc k"]
    unfolding is_cycle_def by (metis Suc_le_mono eval_nat_numeral(3))
  then show ?thesis by blast
qed

definition stack_top :: "'a list \<Rightarrow> 'a option" where
  "stack_top p = (case p of [] \<Rightarrow> None | q # _ \<Rightarrow> Some q)"

lemma dfs_sound:
  assumes ok: "graph_ok adj" and ho: "hash_order_ok ord"
  shows "has_cycle_dfs fuel ord node parent adj v r = Some (f, v', r') \<Longrightarrow>
      parent = stack_top p \<Longrightarrow> distinct (node # p) \<Longrightarrow> successively (\<lambda>a b. b \<in> nbrs adj a) (node # p) \<Longrightarrow>
      r = set p \<Longrightarrow> set p \<subseteq> v \<Longrightarrow> (if f then \<exists>xs. is_cycle adj xs else r' = set p)"
    and "scan_neighbors fuel ord node parent adj ns v r = Some (f, v', r') \<Longrightarrow>
      parent = stack_top p \<Longrightarrow> distinct (node # p) \<Longrightarrow> successively (\<lambda>a b. b \<in> nbrs adj a) (node # p) \<Longrightarrow>
      r = set (node # p) \<Longrightarrow> set (node # p) \<subseteq> v \<Longrightarrow> set ns \<subseteq> nbrs adj node \<Longrightarrow>
      (if f then \<exists>xs. is_cycle adj xs else r' = set (node # p))"
  using ok ho
proof (induction fuel ord node parent adj v r and fuel ord node parent adj ns v r
    arbitrary: f v' r' p and f v' r' p rule: has_cycle_dfs_scan_neighbors.induct)
  case (2 fuel ord node parent adj visited rec_stack)
  show ?case
  proof (cases "adj node")
    case None
    then show ?thesis using 2 by (auto simp: Let_def)
  next
    case (Some S)
    then have S: "S = nbrs adj node" by (simp add: nbrs_def)
    then have sub: "set (ord S) \<subseteq> nbrs adj node" using nbrs_finite 2(8,9) by simp
    from 2(2) Some obtain g v1 r1 where h: "scan_neighbors fuel ord node parent adj (ord S)
        (insert node visited) (insert node rec_stack) = Some (g, v1, r1)"
      and f: "f = g" "\<not> g \<Longrightarrow> r' = r1 - {node}"
      by (auto simp: Let_def split: option.splits if_splits)
    have "set (node # p) \<subseteq> insert node visited" "insert node rec_stack = set (node # p)" using 2(6,7) by auto
    from 2(1) [OF refl refl Some h 2(3,4,5) this(2,1) sub 2(8,9)]
    have "if g then \<exists>xs. is_cycle adj xs else r1 = set (node # p)" .
    with f 2(4) show ?thesis by auto
  qed
next
  case (4 fuel ord node parent adj neighbor ns visited rec_stack)
  have ns: "set ns \<subseteq> nbrs adj node" "neighbor \<in> nbrs adj node" using 4(11) by auto
  consider "parent = Some neighbor" | "parent \<noteq> Some neighbor" "neighbor \<notin> visited"
    | "parent \<noteq> Some neighbor" "neighbor \<in> visited" by blast
  then show ?case
  proof cases
    case 1
    then have "scan_neighbors fuel ord node parent adj ns visited rec_stack = Some (f, v', r')"
      using 4(5) by simp
    from 4(1) [OF 1 this 4(6-10) ns(1) 4(12,13)] show ?thesis .
  next
    case 2
    with 4(5) obtain g v1 r1 where h: "has_cycle_dfs fuel ord neighbor (Some node) adj visited rec_stack = Some (g, v1, r1)"
      by (auto split: option.splits)
    have "distinct (neighbor # node # p)" using 2(2) 4(7,10) by auto
    moreover have "successively (\<lambda>a b. b \<in> nbrs adj a) (neighbor # node # p)"
      using 4(8) nbrs_sym [OF 4(12) ns(2)] by simp
    ultimately have g: "if g then \<exists>xs. is_cycle adj xs else r1 = set (node # p)"
      using 4(2) [OF 2 h, of "node # p"] 4(9,10,12,13) by (simp add: stack_top_def)
    show ?thesis
    proof (cases g)
      case True
      with g h 2 4(5) show ?thesis by auto
    next
      case False
      have v1: "set (node # p) \<subseteq> v1" using dfs_visited_mono(1) [OF h] 4(10) by blast
      have r1: "r1 = set (node # p)" using g False by simp
      have "scan_neighbors fuel ord node parent adj ns v1 r1 = Some (f, v', r')"
        using 4(5) h 2 False by simp
      from 4(3) [OF 2 h refl refl False this 4(6-8) r1 v1 ns(1) 4(12,13)] show ?thesis .
    qed
  next
    case 3
    show ?thesis
    proof (cases "neighbor \<in> rec_stack")
      case True
      with 3 4(5) have "f" by auto
      moreover have "\<exists>xs. is_cycle adj xs"
        using stack_cycle [OF 4(12,7,8) ns(2)] True 4(6,9) 3(1) by (simp add: stack_top_def)
      ultimately show ?thesis by simp
    next
      case False
      with 3 4(5) have "scan_neighbors fuel ord node parent adj ns visited rec_stack = Some (f, v', r')" by simp
      from 4(4) [OF 3(1) _ False this 4(6-10) ns(1) 4(12,13)] 3(2) show ?thesis by simp
    qed
  qed
qed auto

section \<open>A cycle does not go unnoticed\<close>

text \<open>In a list of nodes in order of discovery, \<open>u\<close> has at most one neighbour found before it.\<close>

definition before :: "'a list \<Rightarrow> 'a \<Rightarrow> 'a set" where
  "before D u = set (takeWhile (\<lambda>x. x \<noteq> u) D)"

definition one_before :: "adjacency \<Rightarrow> string list \<Rightarrow> string \<Rightarrow> bool" where
  "one_before adj D u \<longleftrightarrow>
     (\<forall>x \<in> before D u \<inter> nbrs adj u. \<forall>y \<in> before D u \<inter> nbrs adj u. x = y)"

lemma one_before_append: "u \<in> set D \<Longrightarrow> one_before adj (D @ E) u = one_before adj D u"
  by (simp add: one_before_def before_def takeWhile_append1)

lemma before_snoc: "u \<notin> set D \<Longrightarrow> before (D @ u # E) u = set D"
  by (induction D) (auto simp: before_def)

lemma dfs_complete:
  assumes ok: "graph_ok adj" and ho: "hash_order_ok ord"
  shows "has_cycle_dfs fuel ord node parent adj v r = Some (False, v', r') \<Longrightarrow>
      parent = stack_top p \<Longrightarrow> node \<notin> v \<Longrightarrow> r = set p \<Longrightarrow> set p \<subseteq> v \<Longrightarrow> set D = v \<Longrightarrow>
      (\<forall>u \<in> v - set p. nbrs adj u \<subseteq> v) \<Longrightarrow>
      r' = r \<and> (\<exists>E. set (D @ E) = v' \<and> node \<in> set E \<and> (\<forall>u \<in> set E. one_before adj (D @ E) u)
        \<and> (\<forall>u \<in> v' - set p. nbrs adj u \<subseteq> v'))"
    and "scan_neighbors fuel ord node parent adj ns v r = Some (False, v', r') \<Longrightarrow>
      parent = stack_top p \<Longrightarrow> r = set (node # p) \<Longrightarrow> set (node # p) \<subseteq> v \<Longrightarrow> set D = v \<Longrightarrow>
      (\<forall>u \<in> v - set (node # p). nbrs adj u \<subseteq> v) \<Longrightarrow>
      r' = r \<and> (\<exists>E. set (D @ E) = v' \<and> (\<forall>u \<in> set E. one_before adj (D @ E) u)
        \<and> (\<forall>u \<in> v' - set (node # p). nbrs adj u \<subseteq> v')
        \<and> set ns \<subseteq> v' \<and> (\<forall>w \<in> set ns \<inter> set p. parent = Some w))"
  using ok ho
proof (induction fuel ord node parent adj v r and fuel ord node parent adj ns v r
    arbitrary: v' r' p D and v' r' p D rule: has_cycle_dfs_scan_neighbors.induct)
  case (2 fuel ord node parent adj visited rec_stack)
  have new: "node \<notin> set p" "node \<notin> set D" using 2(4,6,7) by auto
  show ?case
  proof (cases "adj node")
    case None
    then have "nbrs adj node = {}" by (simp add: nbrs_def)
    with None 2 new show ?thesis
      by (intro conjI exI [of _ "[node]"]) (auto simp: Let_def one_before_def)
  next
    case (Some S)
    then have S: "set (ord S) = nbrs adj node"
      using hash_order_set [OF 2(10) nbrs_finite [OF 2(9), of node]] by (simp add: nbrs_def)
    from 2(2) Some obtain r1 where h: "scan_neighbors fuel ord node parent adj (ord S)
        (insert node visited) (insert node rec_stack) = Some (False, v', r1)" and r': "r' = r1 - {node}"
      by (auto simp: Let_def split: option.splits if_splits)
    have "insert node rec_stack = set (node # p)" "set (node # p) \<subseteq> insert node visited"
      "set (D @ [node]) = insert node visited"
      "\<forall>u \<in> insert node visited - set (node # p). nbrs adj u \<subseteq> insert node visited"
      using 2(5-8) by auto
    from 2(1) [OF refl refl Some h 2(3) this 2(9,10)] obtain E where r1: "r1 = insert node rec_stack"
      and E: "set ((D @ [node]) @ E) = v'" "\<forall>u \<in> set E. one_before adj ((D @ [node]) @ E) u"
        "\<forall>u \<in> v' - set (node # p). nbrs adj u \<subseteq> v'" "set (ord S) \<subseteq> v'"
        "\<forall>w \<in> set (ord S) \<inter> set p. parent = Some w" by auto
    have "x \<in> set p" if "x \<in> set D" "x \<in> nbrs adj node" for x
      using that 2(4,7,8) nbrs_sym [OF 2(9) that(2)] by blast
    then have "one_before adj (D @ node # E) node"
      using E(5) S new by (auto simp: one_before_def before_snoc) (metis IntI option.inject)
    then show ?thesis
      using E S r1 r' 2(5) new by (intro conjI exI [of _ "node # E"]) auto
  qed
next
  case (3 fuel ord node parent adj visited rec_stack)
  then show ?case by (intro conjI exI [of _ "[]"]) auto
next
  case (4 fuel ord node parent adj neighbor ns visited rec_stack)
  consider "parent = Some neighbor" | "parent \<noteq> Some neighbor" "neighbor \<notin> visited"
    | "parent \<noteq> Some neighbor" "neighbor \<in> visited" by blast
  then show ?case
  proof cases
    case 1
    then have h: "scan_neighbors fuel ord node parent adj ns visited rec_stack = Some (False, v', r')"
      using 4(5) by simp
    have "neighbor \<in> v'"
    proof -
      from 1 4(6) have "neighbor \<in> set p" by (auto simp: stack_top_def split: list.splits)
      then show ?thesis using dfs_visited_mono(2) [OF h] 4(8) by auto
    qed
    with 4(1) [OF 1 h 4(6-12)] 1 show ?thesis by auto
  next
    case 2
    with 4(5) obtain v1 r1 where h: "has_cycle_dfs fuel ord neighbor (Some node) adj visited rec_stack = Some (False, v1, r1)"
      and h2: "scan_neighbors fuel ord node parent adj ns v1 r1 = Some (False, v', r')"
      by (auto split: option.splits if_splits)
    from 4(2) [OF 2 h, of "node # p", OF _ 2(2) 4(7-12)] obtain E where r1: "r1 = rec_stack"
      and E: "set (D @ E) = v1" "neighbor \<in> set E" "\<forall>u \<in> set E. one_before adj (D @ E) u"
        "\<forall>u \<in> v1 - set (node # p). nbrs adj u \<subseteq> v1" by (auto simp: stack_top_def)
    have "set (node # p) \<subseteq> v1" using E(1) 4(8,9) by auto
    from 4(3) [OF 2 h refl refl _ h2 4(6) _ this E(1,4) 4(11,12)] r1 4(7) obtain F where "r' = r1"
      and F: "set ((D @ E) @ F) = v'" "\<forall>u \<in> set F. one_before adj ((D @ E) @ F) u"
        "\<forall>u \<in> v' - set (node # p). nbrs adj u \<subseteq> v'" "set ns \<subseteq> v'" "\<forall>w \<in> set ns \<inter> set p. parent = Some w"
      by auto
    have "\<forall>u \<in> set E. one_before adj ((D @ E) @ F) u"
      using E(3) by (simp add: one_before_append del: append_assoc)
    moreover have "neighbor \<notin> set p" using 2(2) 4(8) by auto
    ultimately show ?thesis using F E(2) r1 \<open>r' = r1\<close>
      by (intro conjI exI [of _ "E @ F"]) auto
  next
    case 3
    with 4(5) have nr: "neighbor \<notin> rec_stack" by (auto split: if_splits)
    with 3 4(5) have h: "scan_neighbors fuel ord node parent adj ns visited rec_stack = Some (False, v', r')" by simp
    have "neighbor \<in> v'" "neighbor \<notin> set p" using dfs_visited_mono(2) [OF h] 3 nr 4(7) by auto
    with 4(4) [OF 3(1) _ nr h 4(6-12)] 3(2) show ?thesis by auto
  qed
qed auto

lemma hd_neq_last: "distinct xs \<Longrightarrow> 2 \<le> length xs \<Longrightarrow> hd xs \<noteq> last xs"
  by (cases xs) (auto simp: last_in_set split: if_splits)

lemma cycle_two_neighbors:
  assumes ok: "graph_ok adj" and cyc: "is_cycle adj xs" and u: "u \<in> set xs"
  shows "\<exists>x y. x \<noteq> y \<and> x \<in> set xs - {u} \<and> y \<in> set xs - {u} \<and> x \<in> nbrs adj u \<and> y \<in> nbrs adj u"
proof -
  obtain A B where xs: "xs = A @ u # B" using u by (meson split_list)
  have d: "distinct xs" "3 \<le> length xs" "hd xs \<in> nbrs adj (last xs)"
    "successively (\<lambda>a b. b \<in> nbrs adj a) (A @ u # B)" using cyc xs by (auto simp: is_cycle_def)
  have A: "last A \<in> nbrs adj u \<and> last A \<in> set xs - {u}" if "A \<noteq> []"
    using that d nbrs_sym [OF ok] by (auto simp: xs successively_append_iff)
  have B: "hd B \<in> nbrs adj u \<and> hd B \<in> set xs - {u}" if "B \<noteq> []"
    using that d by (cases B) (auto simp: xs successively_append_iff)
  consider "A = []" | "B = []" | "A \<noteq> []" "B \<noteq> []" by blast
  then show ?thesis
  proof cases
    case 1
    with d have b: "2 \<le> length B" "distinct B" by (auto simp: xs)
    then have ne: "B \<noteq> []" by auto
    with d(3) 1 have "last B \<in> nbrs adj u" using nbrs_sym [OF ok] by (simp add: xs)
    with B [OF ne] hd_neq_last [OF b(2,1)] d(1) 1 ne show ?thesis
      by (intro exI [of _ "hd B"] exI [of _ "last B"]) (auto simp: xs)
  next
    case 2
    with d have b: "2 \<le> length A" "distinct A" by (auto simp: xs)
    then have ne: "A \<noteq> []" by auto
    with d(3) 2 have "hd A \<in> nbrs adj u" by (simp add: xs)
    with A [OF ne] hd_neq_last [OF b(2,1)] d(1) 2 ne show ?thesis
      by (intro exI [of _ "hd A"] exI [of _ "last A"]) (auto simp: xs)
  next
    case 3
    with d(1) have "last A \<noteq> hd B" by (auto simp: xs) (metis disjoint_iff hd_in_set last_in_set)
    with A [OF 3(1)] B [OF 3(2)] show ?thesis by blast
  qed
qed

lemma before_position:
  assumes "w \<in> set D" "u \<in> set D" "w \<noteq> u"
    and "length (takeWhile (\<lambda>x. x \<noteq> w) D) \<le> length (takeWhile (\<lambda>x. x \<noteq> u) D)"
  shows "w \<in> before D u"
  using assms
proof (induction D)
  case (Cons d D)
  then show ?case by (cases "d = w"; cases "d = u") (auto simp: before_def)
qed simp

lemma ordered_acyclic:
  assumes ok: "graph_ok adj" and cyc: "is_cycle adj xs" and sub: "set xs \<subseteq> set D"
    and one: "\<forall>u \<in> set D. one_before adj D u"
  shows False
proof -
  let ?pos = "\<lambda>w. length (takeWhile (\<lambda>x. x \<noteq> w) D)"
  have "set xs \<noteq> {}" using cyc by (auto simp: is_cycle_def)
  from finite_max_witness [OF finite_set this, of ?pos]
  obtain u where u: "u \<in> set xs" "\<forall>w \<in> set xs. ?pos w \<le> ?pos u" by blast
  from cycle_two_neighbors [OF ok cyc u(1)] obtain x y where
    xy: "x \<noteq> y" "x \<in> set xs - {u}" "y \<in> set xs - {u}" "x \<in> nbrs adj u" "y \<in> nbrs adj u" by blast
  then have "x \<in> before D u" "y \<in> before D u" using u sub by (auto intro!: before_position)
  with one u(1) sub xy show False by (auto simp: one_before_def)
qed

section \<open>The decision\<close>

lemma scan_nodes_decides:
  assumes ok: "graph_ok adj" and ho: "hash_order_ok ord" and fuel: "card (dom adj) < fuel"
  shows "set nodes \<subseteq> dom adj \<Longrightarrow> set D = v \<Longrightarrow> \<forall>u \<in> set D. one_before adj D u \<Longrightarrow> \<forall>u \<in> v. nbrs adj u \<subseteq> v \<Longrightarrow>
    \<exists>f. scan_nodes fuel ord adj nodes v {} = Some f \<and>
      (if f then \<exists>xs. is_cycle adj xs
       else \<exists>D'. v \<union> set nodes \<subseteq> set D' \<and> (\<forall>u \<in> set D'. one_before adj D' u))"
proof (induction nodes arbitrary: v D)
  case Nil
  then show ?case by auto
next
  case (Cons n nodes)
  show ?case
  proof (cases "n \<in> v")
    case True
    then have "v \<union> set (n # nodes) = v \<union> set nodes" by auto
    moreover have "scan_nodes fuel ord adj (n # nodes) v {} = scan_nodes fuel ord adj nodes v {}"
      using True by simp
    moreover have "set nodes \<subseteq> dom adj" using Cons.prems(1) by simp
    ultimately show ?thesis using Cons.IH [OF _ Cons.prems(2-4)] by presburger
  next
    case False
    have "card (dom adj - v) < fuel" using fuel ok
      by (meson Diff_subset card_mono graph_ok_def le_less_trans)
    with dfs_answers(1) [OF ok ho _ False] Cons.prems(1) obtain f v1 r1 where
      h: "has_cycle_dfs fuel ord n None adj v {} = Some (f, v1, r1)" by (auto, metis option.exhaust prod_cases3)
    show ?thesis
    proof (cases f)
      case True
      with dfs_sound(1) [OF ok ho h, of "[]"] False h show ?thesis by (auto simp: stack_top_def)
    next
      case f: False
      with dfs_complete(1) [OF ok ho, of fuel n None v "{}" v1 r1 "[]" D] h False Cons.prems
      obtain E where E: "r1 = {}" "set (D @ E) = v1" "n \<in> set E" "\<forall>u \<in> set E. one_before adj (D @ E) u"
        "\<forall>u \<in> v1. nbrs adj u \<subseteq> v1" by (auto simp: stack_top_def)
      have "\<forall>u \<in> set (D @ E). one_before adj (D @ E) u"
        using E(4) Cons.prems(3) by (auto simp: one_before_append)
      note IH = Cons.IH [OF _ E(2) this E(5)]
      have "v \<union> set (n # nodes) \<subseteq> v1 \<union> set nodes" using E(2,3) Cons.prems(2) by auto
      moreover have "scan_nodes fuel ord adj (n # nodes) v {} = scan_nodes fuel ord adj nodes v1 {}"
        using False h f E(1) by simp
      moreover have "set nodes \<subseteq> dom adj" using Cons.prems(1) by simp
      ultimately show ?thesis using IH by (metis order_trans)
    qed
  qed
qed

text \<open>
  Property C35. For every enumeration order of the hash containers the cycle detection
  answers, and for a pattern list of length three or more it answers yes exactly when the
  graph that joins two distinct variables of the same pattern has a cycle of three or more
  variables.
\<close>

theorem detect_cyclic_bgp_correct:
  assumes "hash_order_ok ord"
  shows "detect_cyclic_bgp ord pattern_vars =
    Some (3 \<le> length pattern_vars \<and> (\<exists>xs. is_cycle (adj_of pattern_vars) xs))"
proof (cases "length pattern_vars < 3")
  case False
  let ?adj = "adj_of pattern_vars"
  have fin: "finite (dom ?adj)" using adj_of_ok by (simp add: graph_ok_def)
  from scan_nodes_decides [OF adj_of_ok assms, of pattern_vars "Suc (card (dom ?adj))" "ord (dom ?adj)" "[]" "{}"] fin
  obtain f where f: "scan_nodes (Suc (card (dom ?adj))) ord ?adj (ord (dom ?adj)) {} {} = Some f"
    "if f then \<exists>xs. is_cycle ?adj xs
     else \<exists>D. {} \<union> set (ord (dom ?adj)) \<subseteq> set D \<and> (\<forall>u \<in> set D. one_before ?adj D u)"
    using hash_order_set [OF assms fin] by auto
  have "set xs \<subseteq> dom ?adj" if "is_cycle ?adj xs" for xs
    using cycle_two_neighbors [OF adj_of_ok that] nbrs_domD by blast
  then have "f = (\<exists>xs. is_cycle ?adj xs)"
    using f(2) ordered_acyclic [OF adj_of_ok] hash_order_set [OF assms fin]
    by (cases f) (simp_all, metis order_trans)
  with f(1) False show ?thesis by (simp add: detect_cyclic_bgp_def)
qed (simp add: detect_cyclic_bgp_def)

theorem detect_cyclic_bgp_correct_witness:
  "\<exists>ord. hash_order_ok ord \<and>
     detect_cyclic_bgp ord [[''a'', ''b''], [''b'', ''c''], [''c'', ''a'']] = Some True"
proof -
  obtain ord :: "string hash_order" where ho: "hash_order_ok ord" using hash_order_exists by blast
  have "is_cycle (adj_of [[''a'', ''b''], [''b'', ''c''], [''c'', ''a'']]) [''a'', ''b'', ''c'']"
    by (simp add: is_cycle_def adj_of_nbrs)
  with detect_cyclic_bgp_correct [OF ho] ho show ?thesis by fastforce
qed

end
