(* ===== verification/Datalog_Types.thy ===== *)
theory Datalog_Types
  imports Prelude
begin

text \<open>
  The rule representation of the Datalog engine (\<open>src/src/datalog/mod.rs\<close>): terms, atoms,
  body literals, rules, and the two accessors every analysis uses. A rule weight is an
  \<open>f64\<close>; the engine only stores and copies it here, so it is kept as its 64-bit IEEE 754
  pattern. Constructors whose Rust name is taken in HOL carry the name of their type as a
  prefix.
\<close>

type_synonym f64 = "64 word"

datatype Term =
    Var string
  | Const term_id
  | Wildcard
  | DefaultGraph

record Atom =
  atom_s :: Term
  atom_p :: Term
  atom_o :: Term
  atom_g :: Term

datatype AggFunc = AggCount | AggSum | AggMin | AggMax | AggAvg

datatype CompareOp = CmpGt | CmpGte | CmpLt | CmpLte | CmpEq | CmpNeq

datatype ArithOp = ArithAdd | ArithSub | ArithMul | ArithDiv

record AggregateLiteral =
  agg_func :: AggFunc
  agg_var :: string
  agg_atom :: Atom
  result_var :: string

datatype StringBuiltin =
    Strlen Term CompareOp Term
  | Regex Term string
  | TrigramSimilarity Term Term CompareOp Term
  | Levenshtein Term Term CompareOp Term
  | Soundex Term CompareOp Term
  | Metaphone Term int CompareOp Term
  | JaroWinkler Term Term CompareOp Term
  | DiceSimilarity Term Term CompareOp Term

datatype TemporalFilter =
    After string
  | Before string
  | During string string
  | Within string
  | Sequence string string string string string string string
  | Consecutive int string string
  | AllenBefore string string string string
  | AllenMeets string string string string
  | AllenOverlaps string string string string
  | AllenDuring string string string string
  | AllenFinishes string string string string
  | AllenStarts string string string string
  | AllenEquals string string string string

datatype BodyLiteral =
    Positive Atom
  | Negated Atom
  | Compare Term CompareOp Term
  | StringBuiltin StringBuiltin
  | Assign string Term ArithOp Term
  | Aggregate AggregateLiteral
  | TemporalFilterLit TemporalFilter

record Rule =
  rule_head :: "Atom option"
  rule_body :: "BodyLiteral list"
  rule_text :: string
  rule_weight :: "f64 option"

record RuleSet =
  rs_name :: string
  rs_rules :: "Rule list"

definition atom_pred :: "Atom \<Rightarrow> term_id option" where
  "atom_pred atom = (case atom_p atom of Const i \<Rightarrow> Some i | _ \<Rightarrow> None)"

definition head_pred :: "Rule \<Rightarrow> term_id option" where
  "head_pred rule = (case rule_head rule of None \<Rightarrow> None | Some h \<Rightarrow> atom_pred h)"

text \<open>\<open>map.entry(k).or_default().push(v)\<close> on a map of vectors.\<close>

definition entry_push :: "'k \<Rightarrow> 'v \<Rightarrow> ('k \<rightharpoonup> 'v list) \<Rightarrow> ('k \<rightharpoonup> 'v list)" where
  "entry_push k v m = m(k \<mapsto> (case m k of None \<Rightarrow> [] | Some vs \<Rightarrow> vs) @ [v])"

text \<open>\<open>map.get(k).map(|v| v.as_slice()).unwrap_or(&[])\<close>.\<close>

definition get_list :: "('k \<rightharpoonup> 'v list) \<Rightarrow> 'k \<Rightarrow> 'v list" where
  "get_list m k = (case m k of None \<Rightarrow> [] | Some vs \<Rightarrow> vs)"

lemma get_list_entry_push [simp]:
  "get_list (entry_push k v m) k' = (if k' = k then get_list m k @ [v] else get_list m k')"
  by (simp add: entry_push_def get_list_def)

lemma get_list_fold_push:
  "get_list (fold (\<lambda>e. entry_push (f e) (g e)) es m) k
     = get_list m k @ map g (filter (\<lambda>e. f e = k) es)"
  by (induction es arbitrary: m) auto

end
