(* ===== verification/Stratify.thy ===== *)
theory Stratify
  imports Datalog_Types "HOL-Library.Multiset"
begin

text \<open>
  The stratification engine (\<open>src/src/datalog/stratify.rs\<close>): predicate dependency graph,
  Kosaraju's strongly connected components, Kahn's topological sort of the components,
  the rejection of negation cycles, and the assembly of strata. Recursive searches carry
  fuel, one unit per recursion level or queue step; the callers pass the bound that the
  theory of the correctness proofs shows to be enough, and running out is the value
  \<^const>\<open>None\<close>.
\<close>

record Stratum =
  str_rules :: "Rule list"
  str_is_recursive :: bool
  str_derived_predicates :: "term_id list"

record StratifiedProgram =
  strata :: "Stratum list"

record Edge =
  edge_from :: term_id
  edge_to :: term_id
  edge_negative :: bool

section \<open>Dependency graph\<close>

definition mk_edge :: "term_id \<Rightarrow> Atom \<Rightarrow> bool \<Rightarrow> Edge list" where
  "mk_edge h atom neg =
     (case atom_pred atom of
        Some p \<Rightarrow> [\<lparr>edge_from = h, edge_to = p, edge_negative = neg\<rparr>]
      | None \<Rightarrow> [])"

fun literal_edges :: "term_id \<Rightarrow> BodyLiteral \<Rightarrow> Edge list" where
  "literal_edges h (Positive atom) = mk_edge h atom False"
| "literal_edges h (Negated atom) = mk_edge h atom True"
| "literal_edges h (Aggregate agg) = mk_edge h (agg_atom agg) True"
| "literal_edges h _ = []"

definition rule_edges :: "Rule \<Rightarrow> Edge list" where
  "rule_edges rule =
     (case head_pred rule of
        None \<Rightarrow> []
      | Some h \<Rightarrow> concat (map (literal_edges h) (rule_body rule)))"

definition build_dependency_graph :: "Rule list \<Rightarrow> Edge list" where
  "build_dependency_graph rules = concat (map rule_edges rules)"

fun literal_preds :: "BodyLiteral \<Rightarrow> term_id set" where
  "literal_preds (Positive atom) = set_option (atom_pred atom)"
| "literal_preds (Negated atom) = set_option (atom_pred atom)"
| "literal_preds _ = {}"

definition collect_predicates :: "Rule list \<Rightarrow> term_id set" where
  "collect_predicates rules =
     fold (\<lambda>rule preds.
             fold (\<lambda>lit ps. ps \<union> literal_preds lit) (rule_body rule)
               (preds \<union> set_option (head_pred rule)))
       rules {}"

section \<open>Strongly connected components\<close>

type_synonym adjacency = "term_id \<rightharpoonup> term_id list"

definition fwd_adj :: "term_id set \<Rightarrow> Edge list \<Rightarrow> adjacency" where
  "fwd_adj nodes edges =
     fold (\<lambda>e. entry_push (edge_from e) (edge_to e)) edges
       (\<lambda>n. if n \<in> nodes then Some [] else None)"

definition rev_adj :: "term_id set \<Rightarrow> Edge list \<Rightarrow> adjacency" where
  "rev_adj nodes edges =
     fold (\<lambda>e. entry_push (edge_to e) (edge_from e)) edges
       (\<lambda>n. if n \<in> nodes then Some [] else None)"

text \<open>
  \<open>dfs1\<close> visits a list of nodes in turn, as the body of the node loop and of the neighbour
  loop do; the recursive call of the Rust function is the call on the neighbour list. The
  finish stack has its top, the last node pushed, at the head of the list.
\<close>

fun dfs1 :: "nat \<Rightarrow> adjacency \<Rightarrow> term_id list \<Rightarrow> term_id set \<Rightarrow> term_id list
               \<Rightarrow> (term_id set \<times> term_id list) option" where
  "dfs1 fuel adj [] visited stack = Some (visited, stack)"
| "dfs1 0 adj (node # nodes) visited stack =
     (if node \<in> visited then dfs1 0 adj nodes visited stack else None)"
| "dfs1 (Suc fuel) adj (node # nodes) visited stack =
     (if node \<in> visited then dfs1 (Suc fuel) adj nodes visited stack
      else (case dfs1 fuel adj (get_list adj node) (insert node visited) stack of
              None \<Rightarrow> None
            | Some (v, st) \<Rightarrow> dfs1 (Suc fuel) adj nodes v (node # st)))"

fun dfs2 :: "nat \<Rightarrow> adjacency \<Rightarrow> term_id list \<Rightarrow> term_id set \<Rightarrow> term_id list
               \<Rightarrow> (term_id set \<times> term_id list) option" where
  "dfs2 fuel radj [] visited component = Some (visited, component)"
| "dfs2 0 radj (node # nodes) visited component =
     (if node \<in> visited then dfs2 0 radj nodes visited component else None)"
| "dfs2 (Suc fuel) radj (node # nodes) visited component =
     (if node \<in> visited then dfs2 (Suc fuel) radj nodes visited component
      else (case dfs2 fuel radj (get_list radj node) (insert node visited) (component @ [node]) of
              None \<Rightarrow> None
            | Some (v, c) \<Rightarrow> dfs2 (Suc fuel) radj nodes v c))"

fun pop_components :: "nat \<Rightarrow> adjacency \<Rightarrow> term_id list \<Rightarrow> term_id set \<Rightarrow> term_id list list
                         \<Rightarrow> term_id list list option" where
  "pop_components fuel radj [] visited2 sccs = Some sccs"
| "pop_components fuel radj (node # finish_stack) visited2 sccs =
     (if node \<notin> visited2 then
        (case dfs2 fuel radj [node] visited2 [] of
           None \<Rightarrow> None
         | Some (v, component) \<Rightarrow>
             pop_components fuel radj finish_stack v
               (if component \<noteq> [] then sccs @ [component] else sccs))
      else pop_components fuel radj finish_stack visited2 sccs)"

definition graph_nodes :: "term_id set \<Rightarrow> Edge list \<Rightarrow> term_id set" where
  "graph_nodes nodes edges = nodes \<union> edge_from ` set edges \<union> edge_to ` set edges"

definition compute_sccs :: "term_id set \<Rightarrow> Edge list \<Rightarrow> term_id list list option" where
  "compute_sccs nodes edges =
     (let fuel = card (graph_nodes nodes edges);
          adj = fwd_adj nodes edges; radj = rev_adj nodes edges;
          all_nodes = sorted_list_of_set nodes in
      case dfs1 fuel adj all_nodes {} [] of
        None \<Rightarrow> None
      | Some (visited, finish_stack) \<Rightarrow> pop_components fuel radj finish_stack {} [])"


section \<open>Topological sort of the components\<close>

definition utf8_arrow :: string where
  "utf8_arrow = '' '' @ [CHR 0xE2, CHR 0x86, CHR 0x92] @ '' ''"

definition utf8_not :: string where
  "utf8_not = [CHR 0xC2, CHR 0xAC]"

definition utf8_ellipsis :: string where
  "utf8_ellipsis = [CHR 0xE2, CHR 0x80, CHR 0xA6]"

fun join :: "string \<Rightarrow> string list \<Rightarrow> string" where
  "join sep [] = []"
| "join sep [x] = x"
| "join sep (x # y # xs) = x @ sep @ join sep (y # xs)"

definition pred_name :: "term_id \<Rightarrow> string" where
  "pred_name p = ''pred_'' @ show_int p"

definition index_sccs :: "term_id list list \<Rightarrow> (term_id \<rightharpoonup> nat)" where
  "index_sccs sccs =
     fold (\<lambda>(i, scc) m. fold (\<lambda>p m. m(p \<mapsto> i)) scc m) (enumerate 0 sccs) Map.empty"

text \<open>Breadth-first search for a chain of positive edges inside a component. The scan of the
  edge list either reaches \<open>end\<close> (\<^const>\<open>Inl\<close>) or hands on the visited set and the queue.\<close>

fun path_scan :: "term_id \<Rightarrow> term_id \<Rightarrow> term_id set \<Rightarrow> string list \<Rightarrow> Edge list \<Rightarrow> term_id set
                    \<Rightarrow> (term_id \<times> string list) list
                    \<Rightarrow> string list + term_id set \<times> (term_id \<times> string list) list" where
  "path_scan current target scc_set path [] visited queue = Inr (visited, queue)"
| "path_scan current target scc_set path (e # es) visited queue =
     (if edge_from e = current \<and> \<not> edge_negative e \<and> edge_to e \<in> scc_set then
        (if edge_to e = target then Inl path
         else if edge_to e \<notin> visited then
           path_scan current target scc_set path es (insert (edge_to e) visited)
             (queue @ [(edge_to e, path @ [pred_name (edge_to e)])])
         else path_scan current target scc_set path es visited queue)
      else path_scan current target scc_set path es visited queue)"

fun path_loop :: "nat \<Rightarrow> term_id \<Rightarrow> Edge list \<Rightarrow> term_id set \<Rightarrow> term_id set
                    \<Rightarrow> (term_id \<times> string list) list \<Rightarrow> string list option option" where
  "path_loop fuel target edges scc_set visited [] = Some None"
| "path_loop 0 target edges scc_set visited (_ # _) = None"
| "path_loop (Suc fuel) target edges scc_set visited ((current, path) # queue) =
     (case path_scan current target scc_set path edges visited queue of
        Inl found \<Rightarrow> Some (Some found)
      | Inr (v, q) \<Rightarrow> path_loop fuel target edges scc_set v q)"

definition find_positive_path :: "term_id \<Rightarrow> term_id \<Rightarrow> Edge list \<Rightarrow> term_id set
                                    \<Rightarrow> string list option option" where
  "find_positive_path start target edges scc_set =
     (if start = target then Some (Some [])
      else path_loop (Suc (length edges)) target edges scc_set {start} [(start, [])])"

definition trace_negation_cycle_in_scc :: "term_id list \<Rightarrow> Edge list \<Rightarrow> string option" where
  "trace_negation_cycle_in_scc scc edges =
     (let scc_set = set scc in
      case find (\<lambda>e. edge_negative e \<and> edge_from e \<in> scc_set \<and> edge_to e \<in> scc_set) edges of
        Some ne \<Rightarrow>
          (case find_positive_path (edge_to ne) (edge_from ne) edges scc_set of
             None \<Rightarrow> None
           | Some (Some chain) \<Rightarrow>
               (let neg_label = pred_name (edge_to ne); first = pred_name (edge_from ne);
                    chain = first # neg_label # chain @ [first];
                    chain = (if 2 \<le> length chain then chain[1 := utf8_not @ chain ! 1] else chain)
                in Some (join utf8_arrow chain))
           | Some None \<Rightarrow>
               Some (pred_name (edge_from ne) @ utf8_arrow @ utf8_not @ pred_name (edge_to ne)
                     @ utf8_arrow @ utf8_ellipsis @ utf8_arrow @ pred_name (edge_from ne)))
      | None \<Rightarrow> Some (''['' @ join '', '' (map pred_name scc) @ '']''))"

fun reach_scan :: "nat \<Rightarrow> nat list \<Rightarrow> nat set \<Rightarrow> nat list \<Rightarrow> (nat set \<times> nat list) option" where
  "reach_scan target [] visited queue = Some (visited, queue)"
| "reach_scan target (x # xs) visited queue =
     (if x = target then None
      else if x \<notin> visited then reach_scan target xs (insert x visited) (queue @ [x])
      else reach_scan target xs visited queue)"

fun reach_loop :: "nat \<Rightarrow> nat hash_order \<Rightarrow> nat \<Rightarrow> nat set list \<Rightarrow> nat set \<Rightarrow> nat list
                     \<Rightarrow> bool option" where
  "reach_loop fuel ord target scc_adj visited [] = Some False"
| "reach_loop 0 ord target scc_adj visited (_ # _) = None"
| "reach_loop (Suc fuel) ord target scc_adj visited (cur # queue) =
     (if cur < length scc_adj then
        (case reach_scan target (ord (scc_adj ! cur)) visited queue of
           None \<Rightarrow> Some True
         | Some (v, q) \<Rightarrow> reach_loop fuel ord target scc_adj v q)
      else reach_loop fuel ord target scc_adj visited queue)"

definition scc_can_reach :: "nat hash_order \<Rightarrow> nat \<Rightarrow> nat \<Rightarrow> nat set list \<Rightarrow> bool option" where
  "scc_can_reach ord src dst scc_adj =
     (if src = dst then Some False
      else reach_loop (Suc (length scc_adj)) ord dst scc_adj {src} [src])"

text \<open>The edge loop of \<open>topo_sort_sccs\<close>: component adjacency and negative adjacency, or the
  message of the first negative edge inside a component.\<close>

fun scc_edges :: "term_id list list \<Rightarrow> Edge list \<Rightarrow> Edge list \<Rightarrow> nat set list \<Rightarrow> nat set list
                    \<Rightarrow> (string + nat set list \<times> nat set list) option" where
  "scc_edges sccs edges [] scc_adj scc_neg_edge = Some (Inr (scc_adj, scc_neg_edge))"
| "scc_edges sccs edges (e # es) scc_adj scc_neg_edge =
     (let src_scc = unwrap_or 0 (index_sccs sccs (edge_from e));
          dst_scc = unwrap_or 0 (index_sccs sccs (edge_to e)) in
      if src_scc = dst_scc \<and> edge_negative e then
        map_option (\<lambda>path. Inl (''datalog: unstratifiable negation cycle: '' @ path))
          (trace_negation_cycle_in_scc (sccs ! src_scc) edges)
      else if src_scc \<noteq> dst_scc then
        scc_edges sccs edges es
          (scc_adj[src_scc := insert dst_scc (scc_adj ! src_scc)])
          (if edge_negative e then scc_neg_edge[src_scc := insert dst_scc (scc_neg_edge ! src_scc)]
           else scc_neg_edge)
      else scc_edges sccs edges es scc_adj scc_neg_edge)"

definition cross_message :: "term_id list list \<Rightarrow> nat \<Rightarrow> nat \<Rightarrow> string" where
  "cross_message sccs src neg_dst =
     (let src_preds = map pred_name (sccs ! src); dst_preds = map pred_name (sccs ! neg_dst) in
      ''datalog: unstratifiable negation cycle: ['' @ join ''|'' src_preds @ '']'' @ utf8_arrow
      @ utf8_not @ ''['' @ join ''|'' dst_preds @ '']'' @ utf8_arrow @ utf8_ellipsis @ utf8_arrow
      @ ''['' @ join ''|'' src_preds @ '']'')"

fun cross_scan :: "nat hash_order \<Rightarrow> term_id list list \<Rightarrow> nat set list \<Rightarrow> (nat \<times> nat) list
                     \<Rightarrow> string option option" where
  "cross_scan ord sccs scc_adj [] = Some None"
| "cross_scan ord sccs scc_adj ((src, neg_dst) # rest) =
     (case scc_can_reach ord neg_dst src scc_adj of
        None \<Rightarrow> None
      | Some True \<Rightarrow> Some (Some (cross_message sccs src neg_dst))
      | Some False \<Rightarrow> cross_scan ord sccs scc_adj rest)"

definition init_in_degree :: "nat hash_order \<Rightarrow> nat set list \<Rightarrow> nat list" where
  "init_in_degree ord scc_adj =
     fold (\<lambda>adj. fold (\<lambda>dst d. d[dst := Suc (d ! dst)]) (ord adj)) scc_adj
       (replicate (length scc_adj) 0)"

fun kahn_scan :: "nat list \<Rightarrow> nat list \<Rightarrow> nat list \<Rightarrow> nat list \<times> nat list" where
  "kahn_scan [] in_degree queue = (in_degree, queue)"
| "kahn_scan (x # xs) in_degree queue =
     (let d = in_degree[x := in_degree ! x - 1] in
      kahn_scan xs d (if d ! x = 0 then queue @ [x] else queue))"

fun kahn_loop :: "nat \<Rightarrow> nat hash_order \<Rightarrow> nat set list \<Rightarrow> nat list \<Rightarrow> nat list \<Rightarrow> nat list
                    \<Rightarrow> nat list option" where
  "kahn_loop fuel ord scc_adj in_degree [] topo_order = Some topo_order"
| "kahn_loop 0 ord scc_adj in_degree (_ # _) topo_order = None"
| "kahn_loop (Suc fuel) ord scc_adj in_degree (scc # queue) topo_order =
     (let (d, q) = kahn_scan (ord (scc_adj ! scc)) in_degree queue in
      kahn_loop fuel ord scc_adj d q (topo_order @ [scc]))"

definition kahn_order :: "nat hash_order \<Rightarrow> nat set list \<Rightarrow> nat list option" where
  "kahn_order ord scc_adj =
     (let n = length scc_adj; in_degree = init_in_degree ord scc_adj in
      kahn_loop n ord scc_adj in_degree (filter (\<lambda>i. in_degree ! i = 0) [0..<n]) [])"

definition position_map :: "nat list \<Rightarrow> (nat \<rightharpoonup> nat)" where
  "position_map topo_order =
     fold (\<lambda>(stratum, scc_idx) m. m(scc_idx \<mapsto> stratum)) (enumerate 0 topo_order) Map.empty"

definition topo_sort_sccs :: "nat hash_order \<Rightarrow> term_id list list \<Rightarrow> Edge list
                                \<Rightarrow> (string + (term_id \<rightharpoonup> nat)) option" where
  "topo_sort_sccs ord sccs edges =
     (let n = length sccs in
      case scc_edges sccs edges edges (replicate n {}) (replicate n {}) of
        None \<Rightarrow> None
      | Some (Inl err) \<Rightarrow> Some (Inl err)
      | Some (Inr (scc_adj, scc_neg_edge)) \<Rightarrow>
          (case cross_scan ord sccs scc_adj
                  (concat (map (\<lambda>src. map (Pair src) (ord (scc_neg_edge ! src))) [0..<n])) of
             None \<Rightarrow> None
           | Some (Some err) \<Rightarrow> Some (Inl err)
           | Some None \<Rightarrow>
               (case kahn_order ord scc_adj of
                  None \<Rightarrow> None
                | Some topo_order \<Rightarrow>
                    if length topo_order \<noteq> n
                    then Some (Inl ''cyclic dependency in SCC DAG (bug in stratifier)'')
                    else (let scc_stratum = position_map topo_order in
                          Some (Inr (\<lambda>pred. map_option (\<lambda>i. unwrap_or 0 (scc_stratum i))
                                              (index_sccs sccs pred)))))))"

section \<open>Stratification\<close>

fun is_aggregate :: "BodyLiteral \<Rightarrow> bool" where
  "is_aggregate (Aggregate agg) = True"
| "is_aggregate _ = False"

fun positive_on :: "term_id \<Rightarrow> BodyLiteral \<Rightarrow> bool" where
  "positive_on h (Positive atom) = (atom_pred atom = Some h)"
| "positive_on h _ = False"

fun aggregates_on :: "term_id \<Rightarrow> BodyLiteral \<Rightarrow> bool" where
  "aggregates_on h (Aggregate agg) = (atom_pred (agg_atom agg) = Some h)"
| "aggregates_on h _ = False"

definition agg_head_error :: "Rule \<Rightarrow> string option" where
  "agg_head_error rule =
     (case head_pred rule of
        None \<Rightarrow> None
      | Some h_pred \<Rightarrow>
          (let is_recursive = list_ex (positive_on h_pred) (rule_body rule);
               has_body_agg = list_ex is_aggregate (rule_body rule) in
           if is_recursive \<and> has_body_agg then
             Some (''PT511: aggregation in recursive rule head is not supported; '' @
                   ''rule predicate '' @ show_int h_pred @
                   '' appears in both the head and a body aggregate literal; '' @
                   ''use a two-step rule: first derive the base facts, then aggregate in a '' @
                   ''non-recursive rule'')
           else if list_ex (aggregates_on h_pred) (rule_body rule) then
             Some (''PT511: DL-AGG-01: aggregation in recursive rule head is not supported; '' @
                   ''the aggregate body atom references the head predicate '' @ show_int h_pred @
                   ''; this creates a recursive aggregation cycle that produces incorrect results'')
           else None))"

fun first_error :: "('a \<Rightarrow> 'e option) \<Rightarrow> 'a list \<Rightarrow> 'e option" where
  "first_error f [] = None"
| "first_error f (x # xs) = (case f x of Some e \<Rightarrow> Some e | None \<Rightarrow> first_error f xs)"

definition rule_stratum :: "(term_id \<rightharpoonup> nat) \<Rightarrow> Rule \<Rightarrow> nat" where
  "rule_stratum pred_stratum rule =
     unwrap_or 0 (case head_pred rule of None \<Rightarrow> None | Some p \<Rightarrow> pred_stratum p)"

text \<open>Assembly of the strata. The values of \<open>pred_stratum\<close> are enumerated through its keys,
  the predicates of the components.\<close>

definition place_rules :: "(term_id \<rightharpoonup> nat) \<Rightarrow> nat \<Rightarrow> Rule list \<Rightarrow> Rule list list" where
  "place_rules pred_stratum max_stratum rules =
     (let placed = fold (\<lambda>rule sr. let stratum = rule_stratum pred_stratum rule in
                                   sr[stratum := sr ! stratum @ [rule]])
                     rules (replicate (Suc max_stratum) [])
      in fold (\<lambda>rule sr. if rule_head rule = None
                            \<and> list_all (\<lambda>r. rule_text r \<noteq> rule_text rule) (sr ! 0)
                         then sr[0 := sr ! 0 @ [rule]] else sr)
           rules placed)"

definition build_stratum :: "term_id hash_order \<Rightarrow> term_id list list \<Rightarrow> Edge list \<Rightarrow> Rule list
                               \<Rightarrow> Stratum" where
  "build_stratum pord sccs edges stratum_rules =
     (let pred_scc_map = index_sccs sccs;
          recursive_sccs = {i. i < length sccs \<and> 1 < length (sccs ! i)};
          self_loop_preds = edge_from ` {e \<in> set edges. edge_from e = edge_to e \<and> \<not> edge_negative e};
          derived = pord (set (List.map_filter head_pred stratum_rules))
      in \<lparr>str_rules = stratum_rules,
          str_is_recursive =
            list_ex (\<lambda>p. p \<in> self_loop_preds
                         \<or> (case pred_scc_map p of None \<Rightarrow> False | Some i \<Rightarrow> i \<in> recursive_sccs)) derived,
          str_derived_predicates = derived\<rparr>)"

definition stratify :: "nat hash_order \<Rightarrow> term_id hash_order \<Rightarrow> Rule list
                          \<Rightarrow> (string + StratifiedProgram) option" where
  "stratify ord pord rules =
     (if rules = [] then Some (Inr \<lparr>strata = []\<rparr>)
      else (case first_error agg_head_error rules of
              Some err \<Rightarrow> Some (Inl err)
            | None \<Rightarrow>
                (let nodes = collect_predicates rules; edges = build_dependency_graph rules in
                 case compute_sccs nodes edges of
                   None \<Rightarrow> None
                 | Some sccs \<Rightarrow>
                     (case topo_sort_sccs ord sccs edges of
                        None \<Rightarrow> None
                      | Some (Inl err) \<Rightarrow> Some (Inl err)
                      | Some (Inr pred_stratum) \<Rightarrow>
                          (let max_stratum =
                                 fold max (map (\<lambda>p. unwrap_or 0 (pred_stratum p)) (concat sccs)) 0;
                               strata_rules = place_rules pred_stratum max_stratum rules
                           in Some (Inr \<lparr>strata = map (build_stratum pord sccs edges)
                                           (filter (\<lambda>rs. rs \<noteq> []) strata_rules)\<rparr>))))))"

section \<open>Subsumption\<close>

fun positive_pred :: "BodyLiteral \<Rightarrow> term_id option" where
  "positive_pred (Positive a) = (case atom_p a of Const i \<Rightarrow> Some i | _ \<Rightarrow> None)"
| "positive_pred _ = None"

definition body_preds :: "Rule \<Rightarrow> term_id list" where
  "body_preds r = List.map_filter positive_pred (rule_body r)"

fun take_counts :: "term_id list \<Rightarrow> (term_id \<Rightarrow> nat) \<Rightarrow> bool" where
  "take_counts [] counts = True"
| "take_counts (x # xs) counts =
     (if counts x = 0 then False else take_counts xs (counts(x := counts x - 1)))"

definition is_multiset_subset :: "term_id list \<Rightarrow> term_id list \<Rightarrow> bool" where
  "is_multiset_subset a b = take_counts a (fold (\<lambda>x counts. counts(x := counts x + 1)) b (\<lambda>_. 0))"

definition subsumed_by :: "nat \<Rightarrow> Rule \<Rightarrow> term_id \<Rightarrow> nat \<times> Rule \<Rightarrow> bool" where
  "subsumed_by j r2 r2_head_pred = (\<lambda>(i, r1).
     i \<noteq> j \<and>
     (case head_pred r1 of
        None \<Rightarrow> False
      | Some r1_head_pred \<Rightarrow>
          r1_head_pred = r2_head_pred \<and>
          (let b1 = body_preds r1; b2 = body_preds r2 in
           length b1 < length b2 \<and> is_multiset_subset b1 b2
           \<or> i < j \<and> length b1 = length b2 \<and> is_multiset_subset b1 b2 \<and> is_multiset_subset b2 b1)))"

definition is_eliminated :: "Rule list \<Rightarrow> nat \<times> Rule \<Rightarrow> bool" where
  "is_eliminated rules = (\<lambda>(j, r2).
     case head_pred r2 of
       None \<Rightarrow> False
     | Some h \<Rightarrow> list_ex (subsumed_by j r2 h) (enumerate 0 rules))"

definition check_subsumption :: "Rule list \<Rightarrow> string list" where
  "check_subsumption rules =
     map (\<lambda>(j, r2). rule_text r2) (filter (is_eliminated rules) (enumerate 0 rules))"

text \<open>The caller drops a rule when its text is among the eliminated texts.\<close>

definition active_rules :: "Rule list \<Rightarrow> Rule list" where
  "active_rules all_rules =
     (let eliminated_rules = check_subsumption all_rules in
      if eliminated_rules = [] then all_rules
      else filter (\<lambda>r. rule_text r \<notin> set eliminated_rules) all_rules)"

section \<open>Aggregation stratification\<close>

fun agg_dep :: "term_id \<Rightarrow> BodyLiteral \<Rightarrow> (term_id \<times> term_id) list" where
  "agg_dep h (Aggregate agg) =
     (case atom_pred (agg_atom agg) of Some p \<Rightarrow> [(h, p)] | None \<Rightarrow> [])"
| "agg_dep h _ = []"

fun pos_dep :: "term_id \<Rightarrow> BodyLiteral \<Rightarrow> (term_id \<times> term_id) list" where
  "pos_dep h (Positive atom) = (case atom_pred atom of Some p \<Rightarrow> [(h, p)] | None \<Rightarrow> [])"
| "pos_dep h _ = []"

definition rule_deps :: "(term_id \<Rightarrow> BodyLiteral \<Rightarrow> (term_id \<times> term_id) list) \<Rightarrow> Rule list
                           \<Rightarrow> (term_id \<times> term_id) list" where
  "rule_deps dep rules =
     concat (map (\<lambda>rule. case head_pred rule of
                           None \<Rightarrow> []
                         | Some h \<Rightarrow> concat (map (dep h) (rule_body rule))) rules)"

fun enqueue_new :: "term_id list \<Rightarrow> term_id set \<Rightarrow> term_id list \<Rightarrow> term_id set \<times> term_id list" where
  "enqueue_new [] visited queue = (visited, queue)"
| "enqueue_new (x # xs) visited queue =
     (if x \<in> visited then enqueue_new xs visited queue
      else enqueue_new xs (insert x visited) (queue @ [x]))"

fun positive_loop :: "nat \<Rightarrow> term_id \<Rightarrow> (term_id \<rightharpoonup> term_id list) \<Rightarrow> term_id set \<Rightarrow> term_id list
                        \<Rightarrow> bool option" where
  "positive_loop fuel target deps visited [] = Some False"
| "positive_loop 0 target deps visited (_ # _) = None"
| "positive_loop (Suc fuel) target deps visited (cur # queue) =
     (if cur = target then Some True
      else (let (v, q) = enqueue_new (get_list deps cur) visited queue in
            positive_loop fuel target deps v q))"

definition can_reach_positive :: "nat \<Rightarrow> term_id \<Rightarrow> term_id \<Rightarrow> (term_id \<rightharpoonup> term_id list)
                                    \<Rightarrow> bool option" where
  "can_reach_positive fuel start target deps = positive_loop fuel target deps {start} [start]"

definition pt510_message :: string where
  "pt510_message =
     ''PT510: aggregation-stratification violation: '' @
     ''a derived predicate depends on another predicate via aggregation, '' @
     ''but that predicate is also derived through positive rules; '' @
     ''this creates a cycle through aggregation; '' @
     ''ensure the aggregated predicate is fully computed before the '' @
     ''aggregate rule runs''"

fun agg_scan :: "nat \<Rightarrow> (term_id \<rightharpoonup> term_id list) \<Rightarrow> (term_id \<times> term_id) list
                   \<Rightarrow> (string + unit) option" where
  "agg_scan fuel pos_deps [] = Some (Inr ())"
| "agg_scan fuel pos_deps ((head, agg_body_pred) # rest) =
     (case can_reach_positive fuel agg_body_pred head pos_deps of
        None \<Rightarrow> None
      | Some True \<Rightarrow> Some (Inl pt510_message)
      | Some False \<Rightarrow> agg_scan fuel pos_deps rest)"

definition check_aggregation_stratification :: "Rule list \<Rightarrow> (string + unit) option" where
  "check_aggregation_stratification rules =
     (let agg_deps = rule_deps agg_dep rules; pos = rule_deps pos_dep rules in
      if agg_deps = [] then Some (Inr ())
      else agg_scan (Suc (length pos))
             (fold (\<lambda>(h, p). entry_push h p) pos Map.empty) agg_deps)"

end
