(* ===== verification/Stratify_Scc.thy ===== *)
theory Stratify_Scc
  imports Stratify
begin

text \<open>
  Correctness of the component computation of the stratifier: the two depth-first
  searches are characterised by reachability among unvisited nodes, the finish stack has
  the property that makes Kosaraju's second pass work, and \<^const>\<open>compute_sccs\<close> returns the
  strongly connected components in topological order, sources first.
\<close>

section \<open>Reachability among unvisited nodes\<close>

definition white :: "(term_id \<Rightarrow> term_id list) \<Rightarrow> term_id set \<Rightarrow> (term_id \<times> term_id) set" where
  "white succ V = {(u, v). v \<in> set (succ u) \<and> u \<notin> V \<and> v \<notin> V}"

definition reach :: "(term_id \<Rightarrow> term_id list) \<Rightarrow> term_id set \<Rightarrow> term_id set \<Rightarrow> term_id set" where
  "reach succ V A = (white succ V)\<^sup>* `` (A - V)"

lemma reach_outside: "y \<in> reach succ V A \<Longrightarrow> y \<notin> V"
  by (auto simp: reach_def white_def elim: rtranclE)

lemma reach_base: "x \<in> A \<Longrightarrow> x \<notin> V \<Longrightarrow> x \<in> reach succ V A"
  by (auto simp: reach_def)

lemma reach_step: "x \<in> reach succ V A \<Longrightarrow> y \<in> set (succ x) \<Longrightarrow> y \<notin> V \<Longrightarrow> y \<in> reach succ V A"
proof -
  assume x: "x \<in> reach succ V A" and y: "y \<in> set (succ x)" "y \<notin> V"
  then have "(x, y) \<in> white succ V" using reach_outside [OF x] by (simp add: white_def)
  with x show ?thesis unfolding reach_def by (auto intro: rtrancl_into_rtrancl)
qed

lemma reach_induct [consumes 1, case_names base step]:
  assumes "y \<in> reach succ V A"
    and "\<And>x. x \<in> A \<Longrightarrow> x \<notin> V \<Longrightarrow> P x"
    and "\<And>x y. x \<in> reach succ V A \<Longrightarrow> P x \<Longrightarrow> y \<in> set (succ x) \<Longrightarrow> y \<notin> V \<Longrightarrow> P y"
  shows "P y"
proof -
  from assms(1) obtain x where x: "x \<in> A" "x \<notin> V" and "(x, y) \<in> (white succ V)\<^sup>*"
    by (auto simp: reach_def)
  from this(3) have "P y \<and> y \<in> reach succ V A"
  proof (induction rule: rtrancl_induct)
    case base
    with x assms(2) reach_base [of x A V] show ?case by blast
  next
    case (step y z)
    then have z: "z \<in> set (succ y)" "z \<notin> V" by (auto simp: white_def)
    with step.IH assms(3) reach_step [of y succ V A z] show ?case by blast
  qed
  then show ?thesis ..
qed

lemma reach_node:
  assumes "n \<notin> V"
  shows "reach succ V {n} = insert n (reach succ (insert n V) (set (succ n)))" (is "_ = insert n ?R")
proof (intro equalityI subsetI)
  fix y assume "y \<in> reach succ V {n}"
  then show "y \<in> insert n ?R"
  proof (induction rule: reach_induct)
    case (step x y)
    then show ?case
      by (cases "y = n") (auto intro: reach_base reach_step)
  qed auto
next
  fix y assume "y \<in> insert n ?R"
  moreover have "y \<in> reach succ V {n}" if "y \<in> ?R"
    using that
  proof (induction rule: reach_induct)
    case (base x)
    have "n \<in> reach succ V {n}" using assms by (auto intro: reach_base)
    with base show ?case by (auto intro: reach_step)
  next
    case (step x y)
    then show ?case by (auto intro: reach_step)
  qed
  ultimately show "y \<in> reach succ V {n}" using assms by (auto intro: reach_base)
qed

lemma reach_Un:
  "reach succ V (A \<union> B) = reach succ V A \<union> reach succ (V \<union> reach succ V A) B"
  (is "?L = ?A \<union> ?B")
proof (intro equalityI subsetI)
  fix y assume "y \<in> ?L"
  then show "y \<in> ?A \<union> ?B"
  proof (induction rule: reach_induct)
    case (base x)
    then show ?case by (cases "x \<in> ?A") (auto intro: reach_base)
  next
    case (step x y)
    show ?case
    proof (cases "x \<in> ?A \<or> y \<in> ?A")
      case True
      with step.hyps show ?thesis by (auto intro: reach_step)
    next
      case False
      with step have "x \<in> ?B" "y \<notin> V \<union> ?A" by auto
      with step.hyps(2) show ?thesis by (auto intro: reach_step)
    qed
  qed
next
  fix y assume "y \<in> ?A \<union> ?B"
  then show "y \<in> ?L"
  proof
    assume "y \<in> ?A"
    then show ?thesis
      by (induction rule: reach_induct) (auto intro: reach_base reach_step)
  next
    assume "y \<in> ?B"
    then show ?thesis
      by (induction rule: reach_induct) (auto intro: reach_base reach_step)
  qed
qed

lemma reach_visited [simp]: "A \<subseteq> V \<Longrightarrow> reach succ V A = {}"
  by (auto simp: reach_def)

lemma reach_insert_visited: "n \<in> V \<Longrightarrow> reach succ V (insert n A) = reach succ V A"
  by (auto simp: reach_def)

lemma reach_insert:
  assumes "n \<notin> V"
  shows "reach succ V (insert n A) =
    insert n (reach succ (insert n V) (set (succ n))) \<union>
    reach succ (insert n V \<union> reach succ (insert n V) (set (succ n))) A"
  using reach_Un [of succ V "{n}" A] reach_node [OF assms] by simp

section \<open>The searches\<close>

lemma dfs2_dfs1:
  "map_option fst (dfs2 fuel adj ns V c) = map_option fst (dfs1 fuel adj ns V st)"
proof (induction fuel adj ns V c arbitrary: st rule: dfs2.induct)
  case (3 fuel radj node nodes visited component)
  show ?case
  proof (cases "node \<in> visited")
    case False
    note IH = "3.IH"(2) [OF False, of st]
    show ?thesis
    proof (cases "dfs2 fuel radj (get_list radj node) (insert node visited) (component @ [node])")
      case None
      with IH False show ?thesis by simp
    next
      case (Some r)
      obtain v c where r: "r = (v, c)" by force
      with Some IH obtain s1 where
        "dfs1 fuel radj (get_list radj node) (insert node visited) st = Some (v, s1)"
        by (cases "dfs1 fuel radj (get_list radj node) (insert node visited) st") auto
      with Some r False "3.IH"(3) [OF False Some [unfolded r] refl, of "node # s1"]
      show ?thesis by simp
    qed
  qed (use "3.IH"(1) in simp)
qed auto

lemma dfs2_component:
  "dfs2 fuel adj ns V c = Some (V', c') \<Longrightarrow>
    \<exists>new. c' = c @ new \<and> V' = V \<union> set new \<and> set new \<inter> V = {} \<and> distinct new"
proof (induction fuel adj ns V c arbitrary: V' c' rule: dfs2.induct)
  case (2 radj node nodes visited component)
  then show ?case by (simp split: if_splits)
next
  case (3 fuel radj node nodes visited component)
  show ?case
  proof (cases "node \<in> visited")
    case True
    with 3 show ?thesis by simp
  next
    case False
    with 3(4) obtain v c where
      d: "dfs2 fuel radj (get_list radj node) (insert node visited) (component @ [node]) = Some (v, c)"
      and rest: "dfs2 (Suc fuel) radj nodes v c = Some (V', c')"
      by (auto split: option.splits)
    from "3.IH"(2) [OF False d] obtain n1 where n1: "c = (component @ [node]) @ n1"
      "v = insert node visited \<union> set n1" "set n1 \<inter> insert node visited = {}" "distinct n1" by blast
    from "3.IH"(3) [OF False d refl rest] obtain n2 where n2: "c' = c @ n2"
      "V' = v \<union> set n2" "set n2 \<inter> v = {}" "distinct n2" by blast
    show ?thesis
      by (rule exI [of _ "node # n1 @ n2"]) (use n1 n2 False in auto)
  qed
qed auto

text \<open>A finish segment is good for the nodes it was started among when every node that
  reaches \<open>r\<close> shares its component with a node that finished no earlier than \<open>r\<close>.\<close>

definition finish_ok :: "(term_id \<Rightarrow> term_id list) \<Rightarrow> term_id set \<Rightarrow> term_id list \<Rightarrow> bool" where
  "finish_ok succ V new \<longleftrightarrow>
     (\<forall>ys r zs y. new = ys @ r # zs \<longrightarrow> y \<in> set new \<longrightarrow> (y, r) \<in> (white succ V)\<^sup>* \<longrightarrow>
        (\<exists>z \<in> set (ys @ [r]). (y, z) \<in> (white succ V)\<^sup>* \<and> (z, y) \<in> (white succ V)\<^sup>*))"

lemma finish_okD:
  "finish_ok succ V new \<Longrightarrow> new = ys @ r # zs \<Longrightarrow> y \<in> set new \<Longrightarrow> (y, r) \<in> (white succ V)\<^sup>* \<Longrightarrow>
    \<exists>z \<in> set (ys @ [r]). (y, z) \<in> (white succ V)\<^sup>* \<and> (z, y) \<in> (white succ V)\<^sup>*"
  unfolding finish_ok_def by blast

lemma white_mono: "V \<subseteq> W \<Longrightarrow> (white succ W)\<^sup>* \<subseteq> (white succ V)\<^sup>*"
  by (rule rtrancl_mono) (auto simp: white_def)

lemma white_path_split:
  assumes "(y, r) \<in> (white succ V)\<^sup>*" "y \<notin> W" "y \<notin> V"
  shows "(y, r) \<in> (white succ (W \<union> V))\<^sup>* \<or>
    (\<exists>w \<in> W. (y, w) \<in> (white succ V)\<^sup>* \<and> (w, r) \<in> (white succ V)\<^sup>*)"
  using assms(1)
proof (induction rule: rtrancl_induct)
  case (step u v)
  then show ?case
  proof (elim disjE bexE)
    assume u: "(y, u) \<in> (white succ (W \<union> V))\<^sup>*"
    have "u \<notin> W \<union> V"
      using u assms(2,3) by (auto simp: white_def elim: rtranclE)
    show ?thesis
    proof (cases "v \<in> W")
      case True
      with step show ?thesis by (auto intro: rtrancl_into_rtrancl)
    next
      case False
      with step.hyps(2) \<open>u \<notin> W \<union> V\<close> have "(u, v) \<in> white succ (W \<union> V)" by (auto simp: white_def)
      with u show ?thesis by (auto intro: rtrancl_into_rtrancl)
    qed
  next
    fix w assume "w \<in> W" "(y, w) \<in> (white succ V)\<^sup>* \<and> (w, u) \<in> (white succ V)\<^sup>*"
    with step.hyps(2) show ?thesis by (auto intro: rtrancl_into_rtrancl)
  qed
qed simp

lemma reach_singleton_path: "y \<in> reach succ V {n} \<Longrightarrow> (n, y) \<in> (white succ V)\<^sup>*"
  by (auto simp: reach_def)

lemma finish_ok_node:
  assumes n: "n \<notin> V" and new: "set new = reach succ (insert n V) (set (succ n))"
    and ok: "finish_ok succ (insert n V) new"
  shows "finish_ok succ V (n # new)"
  unfolding finish_ok_def
proof (intro allI impI)
  fix ys r zs y
  assume split: "n # new = ys @ r # zs" and y: "y \<in> set (n # new)" and p: "(y, r) \<in> (white succ V)\<^sup>*"
  have from_n: "(n, x) \<in> (white succ V)\<^sup>*" if "x \<in> set (n # new)" for x
    using that reach_node [OF n, of succ] new by (auto intro: reach_singleton_path)
  have n_in: "n \<in> set (ys @ [r])" using split by (cases ys) auto
  have via_n: "\<exists>z \<in> set (ys @ [r]). (y, z) \<in> (white succ V)\<^sup>* \<and> (z, y) \<in> (white succ V)\<^sup>*" if "(y, n) \<in> (white succ V)\<^sup>*"
    using that from_n [OF y] n_in by blast
  show "\<exists>z \<in> set (ys @ [r]). (y, z) \<in> (white succ V)\<^sup>* \<and> (z, y) \<in> (white succ V)\<^sup>*"
  proof (cases "y = n \<or> r = n")
    case True
    then show ?thesis using p via_n by auto
  next
    case False
    from False split obtain ys' where ys: "ys = n # ys'" "new = ys' @ r # zs" by (cases ys) auto
    from False y have y': "y \<in> set new" by auto
    with new have "y \<notin> insert n V" by (auto dest: reach_outside)
    with white_path_split [OF p, of "{n}"]
    consider "(y, r) \<in> (white succ (insert n V))\<^sup>*" | "(y, n) \<in> (white succ V)\<^sup>*" by auto
    then show ?thesis
    proof cases
      case 1
      with ok ys(2) y' obtain z where "z \<in> set (ys' @ [r])"
        "(y, z) \<in> (white succ (insert n V))\<^sup>*" "(z, y) \<in> (white succ (insert n V))\<^sup>*"
        unfolding finish_ok_def by blast
      with white_mono [of V "insert n V" succ] ys(1) show ?thesis by auto
    qed (rule via_n)
  qed
qed

lemma reach_closed_path:
  "(x, y) \<in> (white succ V)\<^sup>* \<Longrightarrow> x \<in> reach succ V A \<Longrightarrow> y \<in> reach succ V A"
  by (auto simp: reach_def intro: rtrancl_trans)

lemma finish_ok_append:
  assumes n1: "set new1 = reach succ V A" and ok1: "finish_ok succ V new1"
    and n2: "set new2 \<inter> (V \<union> set new1) = {}" and ok2: "finish_ok succ (V \<union> set new1) new2"
  shows "finish_ok succ V (new2 @ new1)"
  unfolding finish_ok_def
proof (intro allI impI)
  fix ys r zs y
  assume split: "new2 @ new1 = ys @ r # zs" and y: "y \<in> set (new2 @ new1)"
    and p: "(y, r) \<in> (white succ V)\<^sup>*"
  show "\<exists>z \<in> set (ys @ [r]). (y, z) \<in> (white succ V)\<^sup>* \<and> (z, y) \<in> (white succ V)\<^sup>*"
  proof (cases "length ys < length new2")
    case True
    then obtain zs' where r: "new2 = ys @ r # zs'" "zs = zs' @ new1"
      using split by (auto simp: append_eq_append_conv2 append_eq_Cons_conv)
    have y2: "y \<notin> set new1"
      using reach_closed_path [OF p, of A] n1 n2 r(1) by auto
    with y n2 have yV: "y \<in> set new2" "y \<notin> V" by auto
    from white_path_split [OF p y2 yV(2)] have "(y, r) \<in> (white succ (set new1 \<union> V))\<^sup>*"
    proof (elim disjE bexE)
      fix w assume "w \<in> set new1" "(y, w) \<in> (white succ V)\<^sup>* \<and> (w, r) \<in> (white succ V)\<^sup>*"
      with reach_closed_path [of w r succ V A] n1 n2 r(1) show ?thesis by auto
    qed
    with ok2 r(1) yV(1) obtain z where "z \<in> set (ys @ [r])"
      "(y, z) \<in> (white succ (V \<union> set new1))\<^sup>*" "(z, y) \<in> (white succ (V \<union> set new1))\<^sup>*"
      unfolding finish_ok_def by (metis Un_commute)
    with white_mono [of V "V \<union> set new1" succ] show ?thesis by auto
  next
    case False
    then obtain ys' where r: "new1 = ys' @ r # zs" "ys = new2 @ ys'"
      using split by (auto simp: append_eq_append_conv2 Cons_eq_append_conv)
    show ?thesis
    proof (cases "y \<in> set new2")
      case True
      with r(2) show ?thesis by auto
    next
      case False
      with y ok1 r(1) p obtain z where "z \<in> set (ys' @ [r])"
        "(y, z) \<in> (white succ V)\<^sup>*" "(z, y) \<in> (white succ V)\<^sup>*"
        unfolding finish_ok_def by (metis Un_iff set_append)
      with r(2) show ?thesis by auto
    qed
  qed
qed

lemma dfs1_spec:
  "dfs1 fuel adj ns V st = Some (V', st') \<Longrightarrow>
    \<exists>new. st' = new @ st \<and> V' = V \<union> set new \<and> set new = reach (get_list adj) V (set ns)
          \<and> finish_ok (get_list adj) V new"
proof (induction fuel adj ns V st arbitrary: V' st' rule: dfs1.induct)
  case (1 fuel adj visited stack)
  then show ?case by (simp add: finish_ok_def)
next
  case (2 adj node nodes visited stack)
  then show ?case by (simp add: reach_insert_visited split: if_splits)
next
  case (3 fuel adj node nodes V st)
  show ?case
  proof (cases "node \<in> V")
    case True
    with 3 show ?thesis by (simp add: reach_insert_visited)
  next
    case False
    let ?succ = "get_list adj" and ?V1 = "insert node V"
    from False 3(4) obtain v s where
      d: "dfs1 fuel adj (get_list adj node) ?V1 st = Some (v, s)"
      and rest: "dfs1 (Suc fuel) adj nodes v (node # s) = Some (V', st')"
      by (auto split: option.splits)
    from "3.IH"(2) [OF False d] obtain n1 where n1: "s = n1 @ st" "v = ?V1 \<union> set n1"
      "set n1 = reach ?succ ?V1 (set (?succ node))" "finish_ok ?succ ?V1 n1" by blast
    from "3.IH"(3) [OF False d refl rest] obtain n2 where n2: "st' = n2 @ node # s"
      "V' = v \<union> set n2" "set n2 = reach ?succ v (set nodes)" "finish_ok ?succ v n2" by blast
    have r1: "set (node # n1) = reach ?succ V {node}" using reach_node [OF False] n1(3) by simp
    have v: "v = V \<union> set (node # n1)" using n1(2) by auto
    have "set n2 \<inter> v = {}" using n2(3) by (auto dest: reach_outside)
    then have ok: "finish_ok ?succ V (n2 @ node # n1)"
      using finish_ok_append [OF r1 finish_ok_node [OF False n1(3,4)]] n2(4) v by simp
    have "set (n2 @ node # n1) = reach ?succ V (set (node # nodes))"
      using reach_insert [OF False, of ?succ "set nodes"] n1 n2(3) v by auto
    with ok n1(1) n2(1,2) v show ?thesis by (intro exI [of _ "n2 @ node # n1"]) auto
  qed
qed

lemma dfs1_total:
  "finite U \<Longrightarrow> (\<And>x. x \<in> U \<Longrightarrow> set (get_list adj x) \<subseteq> U) \<Longrightarrow>
    set ns \<subseteq> U \<Longrightarrow> card (U - V) \<le> fuel \<Longrightarrow> dfs1 fuel adj ns V st \<noteq> None"
proof (induction fuel adj ns V st rule: dfs1.induct)
  case (2 adj node nodes V st)
  then have "node \<in> V" by auto
  with 2 show ?case by auto
next
  case (3 fuel adj node nodes V st)
  note fin = "3.prems"(1) and closed = "3.prems"(2) and sub = "3.prems"(3) and le = "3.prems"(4)
  show ?case
  proof (cases "node \<in> V")
    case True
    with "3.IH"(1) [OF True fin closed] sub le show ?thesis by auto
  next
    case False
    have "U - V = insert node (U - insert node V)" using False sub by auto
    then have "card (U - V) = Suc (card (U - insert node V))"
      using fin by (metis Diff_iff card_insert_disjoint finite_Diff insertI1)
    with le have "card (U - insert node V) \<le> fuel" by simp
    moreover have "set (get_list adj node) \<subseteq> U" using closed sub by auto
    ultimately obtain v s where
      d: "dfs1 fuel adj (get_list adj node) (insert node V) st = Some (v, s)"
      using "3.IH"(2) [OF False fin closed] by fast
    have "V \<subseteq> v" using dfs1_spec [OF d] by blast
    then have "card (U - v) \<le> card (U - V)" using fin by (intro card_mono) auto
    with "3.IH"(3) [OF False d refl fin closed] sub le False d show ?thesis by auto
  qed
qed auto

section \<open>Second pass\<close>

definition edge_rel :: "Edge list \<Rightarrow> (term_id \<times> term_id) set" where
  "edge_rel edges = (\<lambda>e. (edge_from e, edge_to e)) ` set edges"

definition mutual :: "(term_id \<times> term_id) set \<Rightarrow> term_id \<Rightarrow> term_id \<Rightarrow> bool" where
  "mutual E x y \<longleftrightarrow> (x, y) \<in> E\<^sup>* \<and> (y, x) \<in> E\<^sup>*"

lemma mutual_refl [simp]: "mutual E x x"
  and mutual_sym: "mutual E x y \<Longrightarrow> mutual E y x"
  and mutual_trans: "mutual E x y \<Longrightarrow> mutual E y z \<Longrightarrow> mutual E x z"
  by (auto simp: mutual_def)

definition pred_closed :: "(term_id \<times> term_id) set \<Rightarrow> term_id set \<Rightarrow> bool" where
  "pred_closed E V \<longleftrightarrow> (\<forall>(x, y) \<in> E. y \<in> V \<longrightarrow> x \<in> V)"

lemma pred_closed_path: "(x, y) \<in> E\<^sup>* \<Longrightarrow> pred_closed E V \<Longrightarrow> y \<in> V \<Longrightarrow> x \<in> V"
  by (induction rule: converse_rtrancl_induct) (auto simp: pred_closed_def)

text \<open>The component list after some pops: the classes found so far, in an order in which
  each prefix contains every predecessor of its members.\<close>

definition sccs_ok :: "(term_id \<times> term_id) set \<Rightarrow> term_id list list \<Rightarrow> bool" where
  "sccs_ok E sccs \<longleftrightarrow>
     distinct (concat sccs)
     \<and> (\<forall>c \<in> set sccs. c \<noteq> [] \<and> (\<forall>x \<in> set c. set c = {y. mutual E x y}))
     \<and> (\<forall>xs ys. sccs = xs @ ys \<longrightarrow> pred_closed E (set (concat xs)))"

lemma sccs_ok_append:
  assumes ok: "sccs_ok E sccs" and c: "distinct c" "c \<noteq> []" "set c \<inter> set (concat sccs) = {}"
    and cls: "set c = {y. mutual E r y}" and closed: "pred_closed E (set (concat sccs) \<union> set c)"
  shows "sccs_ok E (sccs @ [c])"
proof -
  have "set c = {y. mutual E x y}" if "x \<in> set c" for x
    using that cls by (auto intro: mutual_trans mutual_sym)
  moreover have "pred_closed E (set (concat xs))" if "sccs @ [c] = xs @ ys" for xs ys
  proof (cases ys rule: rev_cases)
    case Nil
    with that closed show ?thesis by (auto simp: Un_commute)
  next
    case (snoc zs z)
    with that have "sccs = xs @ zs" by simp
    with ok show ?thesis by (auto simp: sccs_ok_def)
  qed
  moreover have "distinct (concat (sccs @ [c]))" using ok c by (auto simp: sccs_ok_def)
  ultimately show ?thesis using ok c(2) by (auto simp: sccs_ok_def)
qed

lemma white_empty: "white succ {} = {(u, v). v \<in> set (succ u)}"
  by (simp add: white_def)

lemma reach_backward:
  assumes succ: "\<And>u. set (succ u) = {x. (x, u) \<in> E}" and closed: "pred_closed E V" and r: "r \<notin> V"
  shows "reach succ V {r} = {y. (y, r) \<in> E\<^sup>*} - V"
proof (intro equalityI subsetI)
  fix y assume "y \<in> reach succ V {r}"
  then show "y \<in> {y. (y, r) \<in> E\<^sup>*} - V"
  proof (induction rule: reach_induct)
    case (step x y)
    then show ?case using succ by (auto intro: converse_rtrancl_into_rtrancl)
  qed (use r in auto)
next
  fix y assume "y \<in> {y. (y, r) \<in> E\<^sup>*} - V"
  then have "(y, r) \<in> E\<^sup>*" "y \<notin> V" by auto
  then show "y \<in> reach succ V {r}"
  proof (induction rule: converse_rtrancl_induct)
    case base
    then show ?case by (auto intro: reach_base)
  next
    case (step y z)
    then have "z \<notin> V" using closed by (auto simp: pred_closed_def)
    with step succ show ?case by (auto intro: reach_step)
  qed
qed

lemma component_step:
  assumes fin: "\<And>ys r zs y. L = ys @ r # zs \<Longrightarrow> y \<in> set L \<Longrightarrow> (y, r) \<in> E\<^sup>* \<Longrightarrow>
      \<exists>z \<in> set (ys @ [r]). mutual E y z"
    and L: "L = ys @ r # zs" "set ys \<subseteq> V" and all: "\<And>x y. (x, y) \<in> E \<Longrightarrow> x \<in> set L"
    and closed: "pred_closed E V" and r: "r \<notin> V"
  shows "{y. (y, r) \<in> E\<^sup>*} - V = {y. mutual E r y}"
proof (intro equalityI subsetI)
  fix y assume y: "y \<in> {y. (y, r) \<in> E\<^sup>*} - V"
  then have p: "(y, r) \<in> E\<^sup>*" and yV: "y \<notin> V" by auto
  have "y \<in> set L" using p L(1) by (cases rule: converse_rtranclE) (auto dest: all)
  then obtain z where z: "z \<in> set (ys @ [r])" "mutual E y z" using fin [OF L(1)] p by blast
  have "z \<notin> set ys" using pred_closed_path [of y z E V] z(2) closed yV L(2) by (auto simp: mutual_def)
  with z show "y \<in> {y. mutual E r y}" by (auto intro: mutual_sym)
next
  fix y assume "y \<in> {y. mutual E r y}"
  then have "(r, y) \<in> E\<^sup>*" "(y, r) \<in> E\<^sup>*" by (auto simp: mutual_def)
  with pred_closed_path [OF this(1) closed] r show "y \<in> {y. (y, r) \<in> E\<^sup>*} - V" by auto
qed

lemma pop_components_spec:
  assumes fin: "\<And>ys r zs y. L = ys @ r # zs \<Longrightarrow> y \<in> set L \<Longrightarrow> (y, r) \<in> E\<^sup>* \<Longrightarrow>
      \<exists>z \<in> set (ys @ [r]). mutual E y z"
    and all: "\<And>x y. (x, y) \<in> E \<Longrightarrow> x \<in> set L"
    and radj: "\<And>u. set (get_list radj u) = {x. (x, u) \<in> E}"
    and U: "finite U" "set L \<subseteq> U" "card U \<le> fuel"
  shows "L = ys @ stack \<Longrightarrow> set ys \<subseteq> V \<Longrightarrow> V = set (concat sccs) \<Longrightarrow> sccs_ok E sccs \<Longrightarrow>
    \<exists>res. pop_components fuel radj stack V sccs = Some res \<and> sccs_ok E res
          \<and> set (concat res) = V \<union> set stack"
proof (induction stack arbitrary: ys V sccs)
  case Nil
  then show ?case by auto
next
  case (Cons r stack)
  show ?case
  proof (cases "r \<in> V")
    case True
    with Cons.IH [of "ys @ [r]" V sccs] Cons.prems show ?thesis by auto
  next
    case False
    have closed: "pred_closed E V" using Cons.prems(3,4) by (auto simp: sccs_ok_def)
    have E_U: "set (get_list radj x) \<subseteq> U" for x using radj all U(2) by auto
    have "card (U - V) \<le> fuel" using card_Diff_subset_Int [of U V] U(1,3)
      by (metis card_mono Diff_subset le_trans)
    moreover have "r \<in> U" using Cons.prems(1) U(2) by auto
    ultimately have "dfs1 fuel radj [r] V [] \<noteq> None"
      by (intro dfs1_total [OF U(1) E_U]) auto
    then obtain V' st where d1: "dfs1 fuel radj [r] V [] = Some (V', st)" by auto
    with dfs2_dfs1 [of fuel radj "[r]" V "[]" "[]"] obtain c where
      d2: "dfs2 fuel radj [r] V [] = Some (V', c)" by auto
    from dfs2_component [OF d2] have c: "V' = V \<union> set c" "set c \<inter> V = {}" "distinct c" by auto
    from dfs1_spec [OF d1] have V': "V' = V \<union> reach (get_list radj) V {r}" by auto
    have "set c = reach (get_list radj) V {r}"
      using c V' reach_outside [of _ "get_list radj" V "{r}"] by blast
    then have backward: "set c = {y. (y, r) \<in> E\<^sup>*} - V"
      using reach_backward [OF radj closed False] by simp
    then have cls: "set c = {y. mutual E r y}"
      using component_step [OF fin Cons.prems(1,2) all closed False] by simp
    have closed': "pred_closed E (set (concat sccs) \<union> set c)"
      using closed backward Cons.prems(3)
      by (auto simp: pred_closed_def intro: converse_rtrancl_into_rtrancl)
    have rc: "r \<in> set c" using cls by simp
    then have ne: "c \<noteq> []" by auto
    have ok: "sccs_ok E (sccs @ [c])"
      by (rule sccs_ok_append [OF Cons.prems(4) c(3) ne _ cls closed']) (use c(2) Cons.prems(3) in auto)
    from Cons.IH [of "ys @ [r]" V' "sccs @ [c]"] Cons.prems ok c(1) rc
    obtain res where res: "pop_components fuel radj stack V' (sccs @ [c]) = Some res"
      "sccs_ok E res" "set (concat res) = V' \<union> set stack" by auto
    have "set c \<subseteq> set L" using backward all Cons.prems(1) by (auto elim: converse_rtranclE)
    have "set (concat res) = V \<union> set (r # stack)"
      using res(3) c(1) \<open>set c \<subseteq> set L\<close> rc Cons.prems(1,2) by auto
    with res d2 False ne show ?thesis by auto
  qed
qed


lemma get_list_init [simp]: "get_list (\<lambda>n. if n \<in> nodes then Some [] else None) u = []"
  by (simp add: get_list_def)

lemma set_get_list_fwd: "set (get_list (fwd_adj nodes edges) u) = {v. (u, v) \<in> edge_rel edges}"
  by (auto simp: fwd_adj_def get_list_fold_push edge_rel_def)

lemma set_get_list_rev: "set (get_list (rev_adj nodes edges) u) = {x. (x, u) \<in> edge_rel edges}"
  by (auto simp: rev_adj_def get_list_fold_push edge_rel_def)

lemma compute_sccs_correct:
  assumes fin: "finite nodes" and src: "edge_from ` set edges \<subseteq> nodes"
  shows "\<exists>sccs. compute_sccs nodes edges = Some sccs \<and> sccs_ok (edge_rel edges) sccs
           \<and> set (concat sccs) = graph_nodes nodes edges"
proof -
  let ?E = "edge_rel edges" and ?U = "graph_nodes nodes edges"
  let ?adj = "fwd_adj nodes edges" and ?succ = "get_list (fwd_adj nodes edges)"
  have U: "finite ?U" using fin by (simp add: graph_nodes_def)
  have "dfs1 (card ?U) ?adj (sorted_list_of_set nodes) {} [] \<noteq> None"
    by (rule dfs1_total [OF U])
      (auto simp: set_get_list_fwd edge_rel_def graph_nodes_def fin)
  then obtain V st where d: "dfs1 (card ?U) ?adj (sorted_list_of_set nodes) {} [] = Some (V, st)"
    by auto
  from dfs1_spec [OF d] have st: "set st = reach ?succ {} nodes" "finish_ok ?succ {} st"
    using fin by auto
  have w: "white ?succ {} = ?E" by (auto simp: white_empty set_get_list_fwd)
  have reach_U: "reach ?succ {} nodes = ?U"
  proof (intro equalityI subsetI)
    fix y assume "y \<in> reach ?succ {} nodes"
    then show "y \<in> ?U"
      by (induction rule: reach_induct) (auto simp: graph_nodes_def set_get_list_fwd edge_rel_def)
  next
    fix y assume "y \<in> ?U"
    then consider "y \<in> nodes" | e where "e \<in> set edges" "y = edge_to e"
      using src by (auto simp: graph_nodes_def)
    then show "y \<in> reach ?succ {} nodes"
    proof cases
      case 2
      then have "edge_from e \<in> reach ?succ {} nodes" using src by (auto intro: reach_base)
      moreover have "y \<in> set (?succ (edge_from e))"
        using 2 by (auto simp: set_get_list_fwd edge_rel_def)
      ultimately show ?thesis by (rule reach_step) simp
    qed (auto intro: reach_base)
  qed
  have "\<exists>res. pop_components (card ?U) (rev_adj nodes edges) st {} [] = Some res \<and> sccs_ok ?E res
          \<and> set (concat res) = {} \<union> set st"
  proof (rule pop_components_spec [where L = st and ys = "[]" and U = ?U])
    show "\<exists>z \<in> set (ys @ [r]). mutual ?E y z"
      if "st = ys @ r # zs" "y \<in> set st" "(y, r) \<in> ?E\<^sup>*" for ys r zs y
      using finish_okD [OF st(2) that(1,2)] that(3) unfolding w mutual_def by simp
    show "x \<in> set st" if "(x, y) \<in> ?E" for x y
      using that st(1) reach_U by (auto simp: edge_rel_def graph_nodes_def)
  qed (use U st(1) reach_U in \<open>auto simp: set_get_list_rev sccs_ok_def pred_closed_def\<close>)
  with d st(1) reach_U show ?thesis by (auto simp: compute_sccs_def Let_def)
qed

end
