(* ===== verification/Stratify_Topo.thy ===== *)
theory Stratify_Topo
  imports Stratify_Scc
begin

text \<open>
  Correctness of the topological sort of the stratifier. The searches behind the error
  messages and the cross-component check end within their fuel, Kahn's algorithm lists
  every component after all components with an edge into it, and \<^const>\<open>topo_sort_sccs\<close>
  rejects exactly the graphs with a negative edge inside a component.
\<close>

section \<open>Indices\<close>

lemma index_sccs_snoc:
  "index_sccs (xs @ [c]) p = (if p \<in> set c then Some (length xs) else index_sccs xs p)"
proof -
  have "fold (\<lambda>p m. m(p \<mapsto> i)) c m p = (if p \<in> set c then Some i else m p)" for i and m :: "term_id \<rightharpoonup> nat"
    by (induction c arbitrary: m) auto
  then show ?thesis by (simp add: index_sccs_def enumerate_append_eq)
qed

lemma index_sccs_Nil [simp]: "index_sccs [] p = None"
  by (simp add: index_sccs_def)

lemma index_sccs_Some:
  "distinct (concat sccs) \<Longrightarrow> index_sccs sccs p = Some i \<longleftrightarrow> i < length sccs \<and> p \<in> set (sccs ! i)"
proof (induction sccs arbitrary: i rule: rev_induct)
  case (snoc c xs)
  have "p \<in> set c \<Longrightarrow> j < length xs \<Longrightarrow> p \<notin> set (xs ! j)" for j
    using snoc.prems by fastforce
  with snoc show ?case
    by (auto simp: index_sccs_snoc nth_append less_Suc_eq)
qed simp

lemma index_sccs_None: "index_sccs sccs p = None \<longleftrightarrow> p \<notin> set (concat sccs)"
  by (induction sccs rule: rev_induct) (auto simp: index_sccs_snoc)

lemma position_map_snoc:
  "position_map (xs @ [i]) j = (if j = i then Some (length xs) else position_map xs j)"
  by (simp add: position_map_def enumerate_append_eq)

lemma position_map_Some:
  "distinct xs \<Longrightarrow> position_map xs j = Some k \<longleftrightarrow> k < length xs \<and> xs ! k = j"
proof (induction xs arbitrary: k rule: rev_induct)
  case (snoc i xs)
  then show ?case by (auto simp: position_map_snoc nth_append less_Suc_eq in_set_conv_nth)
qed (simp add: position_map_def)

definition scc_idx :: "term_id list list \<Rightarrow> term_id \<Rightarrow> nat" where
  "scc_idx sccs p = unwrap_or 0 (index_sccs sccs p)"

lemma scc_idx_iff:
  assumes "distinct (concat sccs)" "p \<in> set (concat sccs)"
  shows "scc_idx sccs p = i \<longleftrightarrow> i < length sccs \<and> p \<in> set (sccs ! i)"
proof -
  from assms(2) index_sccs_None [of sccs p] obtain k where k: "index_sccs sccs p = Some k" by blast
  with index_sccs_Some [OF assms(1), of p] show ?thesis by (auto simp: scc_idx_def unwrap_or_def)
qed

lemma scc_idx_mutual:
  assumes ok: "sccs_ok E sccs" and p: "p \<in> set (concat sccs)" and q: "q \<in> set (concat sccs)"
  shows "scc_idx sccs p = scc_idx sccs q \<longleftrightarrow> mutual E p q"
proof -
  from ok have d: "distinct (concat sccs)" by (simp add: sccs_ok_def)
  let ?i = "scc_idx sccs p"
  have i: "?i < length sccs" "p \<in> set (sccs ! ?i)" using scc_idx_iff [OF d p] by auto
  then have "set (sccs ! ?i) = {y. mutual E p y}" using ok by (auto simp: sccs_ok_def)
  with scc_idx_iff [OF d q, of ?i] i show ?thesis by auto
qed

lemma scc_idx_edge:
  assumes ok: "sccs_ok E sccs" and e: "(p, q) \<in> E"
    and p: "p \<in> set (concat sccs)" and q: "q \<in> set (concat sccs)"
  shows "scc_idx sccs p \<le> scc_idx sccs q"
proof -
  from ok have d: "distinct (concat sccs)" by (simp add: sccs_ok_def)
  let ?j = "scc_idx sccs q"
  have j: "?j < length sccs" "q \<in> set (sccs ! ?j)" using scc_idx_iff [OF d q] by auto
  have "sccs = take (Suc ?j) sccs @ drop (Suc ?j) sccs" by simp
  with ok have "pred_closed E (set (concat (take (Suc ?j) sccs)))"
    unfolding sccs_ok_def by blast
  moreover have "q \<in> set (concat (take (Suc ?j) sccs))"
    using j by (auto simp: take_Suc_conv_app_nth)
  ultimately have "p \<in> set (concat (take (Suc ?j) sccs))" using e by (auto simp: pred_closed_def)
  then obtain c where "c \<in> set (take (Suc ?j) sccs)" "p \<in> set c" by auto
  then obtain i where i: "i < length (take (Suc ?j) sccs)" "take (Suc ?j) sccs ! i = c"
    by (metis in_set_conv_nth)
  from i(1) have "i < length sccs" "i < Suc ?j" by simp_all
  moreover from i(2) nth_take [OF this(2)] \<open>p \<in> set c\<close> have "p \<in> set (sccs ! i)" by metis
  ultimately have "scc_idx sccs p = i" using scc_idx_iff [OF d p] by blast
  with \<open>i < Suc ?j\<close> show ?thesis by linarith
qed

section \<open>Searches with enough fuel\<close>

lemma card_minus_insert:
  "finite T \<Longrightarrow> x \<in> T \<Longrightarrow> x \<notin> V \<Longrightarrow> Suc (card (T - insert x V)) = card (T - V)"
  by (metis Diff_iff Diff_insert card_Suc_Diff1 finite_Diff)

lemma path_scan_measure:
  "path_scan cur target S path es vis q = Inr (vis', q') \<Longrightarrow> finite T \<Longrightarrow> edge_to ` set es \<subseteq> T \<Longrightarrow>
    card (T - vis') + length q' = card (T - vis) + length q"
proof (induction es arbitrary: vis q)
  case (Cons e es)
  have "card (T - insert (edge_to e) vis) + Suc (length q) = card (T - vis) + length q"
    if "edge_to e \<notin> vis"
    using card_minus_insert [of T "edge_to e" vis] that Cons.prems by simp
  with Cons show ?case by (auto split: if_splits)
qed simp

lemma path_loop_total:
  "card (edge_to ` set edges - vis) + length q \<le> fuel \<Longrightarrow>
    path_loop fuel target edges S vis q \<noteq> None"
proof (induction fuel target edges S vis q rule: path_loop.induct)
  case (3 fuel target edges S vis cur path q)
  show ?case
  proof (cases "path_scan cur target S path edges vis q")
    case (Inr r)
    then obtain v q' where r: "r = (v, q')" by force
    with Inr path_scan_measure [of cur target S path edges vis q v q' "edge_to ` set edges"]
    have "card (edge_to ` set edges - v) + length q' \<le> fuel" using 3(2) by simp
    with "3.IH" [OF Inr r [symmetric]] Inr r show ?thesis by simp
  qed simp
qed auto

lemma trace_total: "trace_negation_cycle_in_scc scc edges \<noteq> None"
proof -
  have "card (edge_to ` set edges - {x}) + 1 \<le> Suc (length edges)" for x
    by (simp add: card_Diff_subset_Int)
      (meson card_image_le card_length diff_le_self le_trans List.finite_set)
  then have "find_positive_path x y edges S \<noteq> None" for x y S
    using path_loop_total [of edges "{x}" "[(x, [])]" "Suc (length edges)" y S]
    by (simp add: find_positive_path_def)
  then have "\<exists>r. find_positive_path x y edges S = Some r" for x y S by auto
  then show ?thesis
    unfolding trace_negation_cycle_in_scc_def Let_def
    by (metis (no_types, lifting) option.case_eq_if option.distinct(1))
qed

lemma reach_scan_measure:
  "target \<notin> set xs \<Longrightarrow> finite T \<Longrightarrow> set xs \<subseteq> T \<Longrightarrow>
    \<exists>vis' q'. reach_scan target xs vis q = Some (vis', q')
      \<and> card (T - vis') + length q' = card (T - vis) + length q \<and> set q' \<subseteq> set q \<union> set xs"
proof (induction xs arbitrary: vis q)
  case (Cons x xs)
  show ?case
  proof (cases "x \<in> vis")
    case True
    with Cons.IH [of vis q] Cons.prems show ?thesis by auto
  next
    case False
    with card_minus_insert [of T x vis] Cons.prems have
      "Suc (card (T - insert x vis)) = card (T - vis)" by simp
    with Cons.IH [of "insert x vis" "q @ [x]"] Cons.prems False show ?thesis by auto
  qed
qed simp

text \<open>Components are numbered so that edges lead to larger numbers; a search started above
  its target does not find it.\<close>

definition ascending :: "nat set list \<Rightarrow> bool" where
  "ascending adj \<longleftrightarrow> (\<forall>i < length adj. \<forall>j \<in> adj ! i. i < j \<and> j < length adj)"

lemma ascendingD:
  assumes "ascending adj" "i < length adj" "j \<in> adj ! i"
  shows ascending_less: "i < j" and ascending_bound: "j < length adj"
  using assms unfolding ascending_def by blast+

lemma ascending_finite:
  assumes "ascending adj" "i < length adj"
  shows "finite (adj ! i)"
proof (rule finite_subset)
  show "adj ! i \<subseteq> {..<length adj}" using ascending_bound [OF assms] by blast
qed simp

lemma reach_loop_False:
  "hash_order_ok ord \<Longrightarrow> ascending adj \<Longrightarrow> \<forall>x \<in> set q. target < x \<and> x < length adj \<Longrightarrow>
    card ({..<length adj} - vis) + length q \<le> fuel \<Longrightarrow>
    reach_loop fuel ord target adj vis q = Some False"
proof (induction fuel ord target adj vis q rule: reach_loop.induct)
  case (3 fuel ord target adj vis cur q)
  from "3.prems"(3) have cur: "target < cur" "cur < length adj" by auto
  have "set (ord (adj ! cur)) = adj ! cur"
    using "3.prems"(1) ascending_finite [OF "3.prems"(2) cur(2)] by simp
  then have ord: "set (ord (adj ! cur)) = adj ! cur" .
  have up: "\<forall>x \<in> adj ! cur. cur < x \<and> x < length adj"
    using ascendingD [OF "3.prems"(2) cur(2)] by blast
  have "target \<notin> adj ! cur" using up cur(1) by fastforce
  moreover have "adj ! cur \<subseteq> {..<length adj}" using up by blast
  ultimately obtain v q' where r: "reach_scan target (ord (adj ! cur)) vis q = Some (v, q')"
    and m: "card ({..<length adj} - v) + length q' = card ({..<length adj} - vis) + length q"
    and q': "set q' \<subseteq> set q \<union> adj ! cur"
    using reach_scan_measure [of target "ord (adj ! cur)" "{..<length adj}" vis q] unfolding ord
    by blast
  have "\<forall>x \<in> set q'. target < x \<and> x < length adj"
    using q' "3.prems"(3) cur up by (meson Un_iff less_trans list.set_intros(2) subsetD)
  with "3.IH"(1) [OF cur(2) r refl "3.prems"(1,2)] m "3.prems"(4) cur(2) r show ?case by simp
qed auto

lemma scc_can_reach_False:
  assumes "hash_order_ok ord" "ascending adj" "dst < src" "src < length adj"
  shows "scc_can_reach ord src dst adj = Some False"
proof -
  have "card ({..<length adj} - {src}) \<le> length adj"
    using card_mono [of "{..<length adj}" "{..<length adj} - {src}"] by auto
  then have "reach_loop (Suc (length adj)) ord dst adj {src} [src] = Some False"
    using assms by (intro reach_loop_False) auto
  with assms(3) show ?thesis unfolding scc_can_reach_def by (simp del: reach_loop.simps)
qed

lemma cross_scan_None:
  "hash_order_ok ord \<Longrightarrow> ascending adj \<Longrightarrow> \<forall>(i, j) \<in> set ps. i < j \<and> j < length adj \<Longrightarrow>
    cross_scan ord sccs adj ps = Some None"
proof (induction ps)
  case (Cons ij ps)
  then obtain i j where ij: "ij = (i, j)" "i < j" "j < length adj" by (cases ij) auto
  with Cons scc_can_reach_False [of ord adj i j] show ?case by simp
qed simp

section \<open>The component graph\<close>

definition neg_inside :: "term_id list list \<Rightarrow> Edge list \<Rightarrow> bool" where
  "neg_inside sccs es \<longleftrightarrow>
     (\<exists>e \<in> set es. edge_negative e \<and> scc_idx sccs (edge_from e) = scc_idx sccs (edge_to e))"

definition cross_targets :: "term_id list list \<Rightarrow> Edge set \<Rightarrow> nat \<Rightarrow> nat set" where
  "cross_targets sccs es i =
     {scc_idx sccs (edge_to e) | e. e \<in> es \<and> scc_idx sccs (edge_from e) = i
                                     \<and> scc_idx sccs (edge_to e) \<noteq> i}"

lemma scc_edges_reject: "neg_inside sccs es \<Longrightarrow> \<exists>msg. scc_edges sccs edges es A N = Some (Inl msg)"
proof (induction es arbitrary: A N)
  case (Cons e es)
  have tr: "\<exists>path. trace_negation_cycle_in_scc scc edges = Some path" for scc
    using trace_total [of scc edges] by blast
  show ?case
  proof (cases "edge_negative e \<and> scc_idx sccs (edge_from e) = scc_idx sccs (edge_to e)")
    case True
    then show ?thesis using tr [of "sccs ! scc_idx sccs (edge_to e)"]
      by (auto simp: Let_def scc_idx_def)
  next
    case False
    with Cons.prems have "neg_inside sccs es" by (auto simp: neg_inside_def)
    note IH = Cons.IH [OF this]
    from False IH show ?thesis by (auto simp: Let_def scc_idx_def)
  qed
qed (simp add: neg_inside_def)

lemma scc_edges_accept:
  "\<not> neg_inside sccs es \<Longrightarrow> \<forall>e \<in> set es. scc_idx sccs (edge_from e) < length A \<Longrightarrow>
    length N = length A \<Longrightarrow>
    \<exists>A' N'. scc_edges sccs edges es A N = Some (Inr (A', N'))
      \<and> length A' = length A \<and> length N' = length A
      \<and> (\<forall>i < length A. A' ! i = A ! i \<union> cross_targets sccs (set es) i)
      \<and> (\<forall>i < length A. N' ! i = N ! i \<union> cross_targets sccs {e \<in> set es. edge_negative e} i)"
proof (induction es arbitrary: A N)
  case Nil
  then show ?case by (simp add: cross_targets_def)
next
  case (Cons e es)
  let ?i = "scc_idx sccs (edge_from e)" and ?j = "scc_idx sccs (edge_to e)"
  define A1 where "A1 = (if ?i = ?j then A else A[?i := insert ?j (A ! ?i)])"
  define N1 where "N1 = (if ?i \<noteq> ?j \<and> edge_negative e then N[?i := insert ?j (N ! ?i)] else N)"
  from Cons.prems have acc: "\<not> (?i = ?j \<and> edge_negative e)" "\<not> neg_inside sccs es"
    and i: "?i < length A" by (auto simp: neg_inside_def)
  have len: "length A1 = length A" "length N1 = length A1"
    using Cons.prems(3) by (simp_all add: A1_def N1_def)
  have step: "scc_edges sccs edges (e # es) A N = scc_edges sccs edges es A1 N1"
    using acc(1) by (auto simp: Let_def scc_idx_def A1_def N1_def)
  have A1: "A1 ! k = A ! k \<union> cross_targets sccs {e} k" if "k < length A" for k
    using that i by (auto simp: A1_def cross_targets_def nth_list_update)
  have N1: "N1 ! k = N ! k \<union> cross_targets sccs {d. d = e \<and> edge_negative d} k" if "k < length A" for k
    using that i Cons.prems(3) by (auto simp: N1_def cross_targets_def nth_list_update)
  from Cons.IH [OF acc(2), of A1 N1] Cons.prems(2) len obtain A' N' where
    r: "scc_edges sccs edges es A1 N1 = Some (Inr (A', N'))"
    "length A' = length A" "length N' = length A"
    "\<forall>k < length A. A' ! k = A1 ! k \<union> cross_targets sccs (set es) k"
    "\<forall>k < length A. N' ! k = N1 ! k \<union> cross_targets sccs {d \<in> set es. edge_negative d} k"
    by auto
  have "cross_targets sccs (set (e # es)) k = cross_targets sccs {e} k \<union> cross_targets sccs (set es) k" for k
    by (auto simp: cross_targets_def)
  moreover have "cross_targets sccs {d \<in> set (e # es). edge_negative d} k =
      cross_targets sccs {d. d = e \<and> edge_negative d} k
      \<union> cross_targets sccs {d \<in> set es. edge_negative d} k" for k
    by (auto simp: cross_targets_def)
  ultimately show ?case using step r A1 N1 by (simp add: Un_assoc)
qed

section \<open>Kahn's algorithm\<close>

lemma fold_inc_nth:
  "v < length d \<Longrightarrow> fold (\<lambda>x d. d[x := Suc (d ! x)]) xs d ! v = d ! v + count_list xs v"
  by (induction xs arbitrary: d) (auto simp: nth_list_update)

lemma fold_inc_length [simp]: "length (fold (\<lambda>x d. d[x := Suc (d ! x)]) xs d) = length d"
  by (induction xs arbitrary: d) auto

lemma count_list_distinct: "distinct xs \<Longrightarrow> count_list xs v = of_bool (v \<in> set xs)"
  by (induction xs) auto

lemma card_Suc_split:
  "card {u. u < Suc m \<and> P u} = card {u. u < m \<and> P u} + of_bool (P m)"
proof -
  have "{u. u < Suc m \<and> P u} = {u. u < m \<and> P u} \<union> (if P m then {m} else {})"
    by (auto simp: less_Suc_eq)
  then show ?thesis by (auto simp: card_insert_if)
qed

lemma in_degree_fold:
  "hash_order_ok ord \<Longrightarrow> (\<forall>a \<in> set as. finite a) \<Longrightarrow> v < length d \<Longrightarrow>
    fold (\<lambda>a. fold (\<lambda>x d. d[x := Suc (d ! x)]) (ord a)) as d ! v
      = d ! v + card {u. u < length as \<and> v \<in> as ! u}
    \<and> length (fold (\<lambda>a. fold (\<lambda>x d. d[x := Suc (d ! x)]) (ord a)) as d) = length d"
proof (induction as rule: rev_induct)
  case (snoc a as)
  have "{u. u < length as \<and> v \<in> (as @ [a]) ! u} = {u. u < length as \<and> v \<in> as ! u}"
    by (auto simp: nth_append)
  then have "card {u. u < length (as @ [a]) \<and> v \<in> (as @ [a]) ! u}
      = card {u. u < length as \<and> v \<in> as ! u} + of_bool (v \<in> a)"
    using card_Suc_split [of "length as" "\<lambda>u. v \<in> (as @ [a]) ! u"] by simp
  with snoc show ?case by (simp add: fold_inc_nth count_list_distinct)
qed simp

lemma kahn_scan_spec:
  "distinct xs \<Longrightarrow> (\<forall>x \<in> set xs. x < length d \<and> 0 < d ! x) \<Longrightarrow>
    kahn_scan xs d q = (d', q') \<Longrightarrow>
    length d' = length d \<and> q' = q @ filter (\<lambda>x. d ! x = 1) xs
    \<and> (\<forall>v < length d. d' ! v = d ! v - of_bool (v \<in> set xs))"
proof (induction xs arbitrary: d q)
  case (Cons x xs)
  let ?d = "d[x := d ! x - 1]"
  have x: "x < length d" "0 < d ! x" "x \<notin> set xs" using Cons.prems by auto
  have eq: "kahn_scan xs ?d (if d ! x = 1 then q @ [x] else q) = (d', q')"
    using Cons.prems(3) x by (auto simp: Let_def split: if_splits)
  have "filter (\<lambda>y. ?d ! y = 1) xs = filter (\<lambda>y. d ! y = 1) xs"
    using x(3) by (intro filter_cong refl) (metis nth_list_update_neq)
  with Cons.IH [OF _ _ eq] Cons.prems(1,2) x show ?case
    by (auto simp: nth_list_update)
qed simp

text \<open>\<open>topo_prefix\<close>: every element of the list has all its predecessors before it.\<close>

definition topo_prefix :: "nat set list \<Rightarrow> nat list \<Rightarrow> bool" where
  "topo_prefix adj order \<longleftrightarrow>
     (\<forall>k < length order. \<forall>u < length adj. order ! k \<in> adj ! u \<longrightarrow> u \<in> set (take k order))"

definition open_preds :: "nat set list \<Rightarrow> nat list \<Rightarrow> nat \<Rightarrow> nat set" where
  "open_preds adj order v = {u. u < length adj \<and> u \<notin> set order \<and> v \<in> adj ! u}"

definition kahn_inv :: "nat set list \<Rightarrow> nat list \<Rightarrow> nat list \<Rightarrow> nat list \<Rightarrow> bool" where
  "kahn_inv adj d q order \<longleftrightarrow>
     length d = length adj \<and> distinct (order @ q) \<and> set (order @ q) \<subseteq> {..<length adj}
     \<and> (\<forall>v < length adj. d ! v = card (open_preds adj order v))
     \<and> (\<forall>v < length adj. v \<in> set (order @ q) \<longleftrightarrow> d ! v = 0)
     \<and> topo_prefix adj (order @ q)"

lemma topo_prefix_append:
  assumes "topo_prefix adj xs" "\<And>v u. v \<in> set ys \<Longrightarrow> u < length adj \<Longrightarrow> v \<in> adj ! u \<Longrightarrow> u \<in> set xs"
  shows "topo_prefix adj (xs @ ys)"
  unfolding topo_prefix_def
proof (intro allI impI)
  fix k u assume k: "k < length (xs @ ys)" and u: "u < length adj" "(xs @ ys) ! k \<in> adj ! u"
  show "u \<in> set (take k (xs @ ys))"
  proof (cases "k < length xs")
    case True
    with assms(1) u show ?thesis by (auto simp: topo_prefix_def nth_append)
  next
    case False
    with k have "ys ! (k - length xs) \<in> set ys" by auto
    with assms(2) [OF this u(1)] u(2) False show ?thesis by (auto simp: nth_append)
  qed
qed

lemma open_preds_finite [simp]: "finite (open_preds adj order v)"
  by (simp add: open_preds_def)

lemma open_preds_snoc:
  "open_preds adj (order @ [s]) v = open_preds adj order v - {s}"
  by (auto simp: open_preds_def)

lemma kahn_inv_step:
  assumes ord: "hash_order_ok ord" and asc: "ascending adj"
    and inv: "kahn_inv adj d (s # q) order"
    and sc: "kahn_scan (ord (adj ! s)) d q = (d', q')"
  shows "kahn_inv adj d' q' (order @ [s])"
proof -
  from inv have s: "s < length adj" "s \<notin> set order" and len: "length d = length adj"
    by (auto simp: kahn_inv_def)
  let ?xs = "ord (adj ! s)"
  have xs: "set ?xs = adj ! s" "distinct ?xs"
    using ord ascending_finite [OF asc s(1)] by simp_all
  have dv: "d ! v = card (open_preds adj order v)" if "v < length adj" for v
    using inv that by (simp add: kahn_inv_def)
  have in_s: "s \<in> open_preds adj order x" if "x \<in> adj ! s" for x
    using that s by (simp add: open_preds_def)
  have pos: "x < length adj \<and> 0 < d ! x" if "x \<in> adj ! s" for x
    using ascending_bound [OF asc s(1) that] dv [of x] in_s [OF that]
    by (metis card_gt_0_iff empty_iff open_preds_finite)
  from kahn_scan_spec [OF xs(2) _ sc] xs(1) pos len
  have sc': "length d' = length adj" "q' = q @ filter (\<lambda>x. d ! x = 1) ?xs"
    and d': "\<And>v. v < length adj \<Longrightarrow> d' ! v = d ! v - of_bool (v \<in> adj ! s)"
    by auto
  have deg: "d' ! v = card (open_preds adj (order @ [s]) v)" if "v < length adj" for v
  proof (cases "v \<in> adj ! s")
    case True
    with in_s that dv d' show ?thesis by (simp add: open_preds_snoc)
  next
    case False
    then have "s \<notin> open_preds adj order v" by (simp add: open_preds_def)
    with False that dv d' show ?thesis by (simp add: open_preds_snoc)
  qed
  have mem: "v \<in> set ((order @ [s]) @ q') \<longleftrightarrow> d' ! v = 0" if "v < length adj" for v
  proof -
    have "v \<in> set (order @ s # q) \<longleftrightarrow> d ! v = 0" using inv that by (simp add: kahn_inv_def)
    then show ?thesis using sc'(2) xs(1) d' [OF that] pos [of v] by auto
  qed
  have new: "x \<notin> set (order @ s # q)" if "x \<in> adj ! s" for x
    using inv pos [OF that] by (auto simp: kahn_inv_def)
  have "distinct ((order @ [s]) @ q')"
    using inv sc'(2) xs new by (auto simp: kahn_inv_def)
  moreover have "set ((order @ [s]) @ q') \<subseteq> {..<length adj}"
    using inv sc'(2) xs(1) pos by (auto simp: kahn_inv_def)
  moreover have "topo_prefix adj ((order @ s # q) @ filter (\<lambda>x. d ! x = 1) ?xs)"
  proof (rule topo_prefix_append)
    show "topo_prefix adj (order @ s # q)" using inv by (simp add: kahn_inv_def)
    fix v u assume v: "v \<in> set (filter (\<lambda>x. d ! x = 1) ?xs)" and u: "u < length adj" "v \<in> adj ! u"
    then have vs: "v \<in> adj ! s" "d ! v = 1" using xs(1) by auto
    with deg [of v] d' [of v] pos [of v] have "card (open_preds adj (order @ [s]) v) = 0" by simp
    then have "u \<notin> open_preds adj (order @ [s]) v" by simp
    with u show "u \<in> set (order @ s # q)" by (auto simp: open_preds_def)
  qed
  ultimately show ?thesis using sc' deg mem unfolding kahn_inv_def by simp
qed

definition topo_order_ok :: "nat set list \<Rightarrow> nat list \<Rightarrow> bool" where
  "topo_order_ok adj order \<longleftrightarrow>
     distinct order \<and> set order = {..<length adj} \<and> topo_prefix adj order"

lemma kahn_done:
  assumes asc: "ascending adj" and inv: "kahn_inv adj d [] order"
  shows "topo_order_ok adj order"
proof -
  have "v \<in> set order" if "v < length adj" for v
    using that
  proof (induction v rule: less_induct)
    case (less v)
    have "open_preds adj order v = {}"
      using less.IH ascending_less [OF asc] less.prems by (fastforce simp: open_preds_def)
    with inv less.prems show ?case by (auto simp: kahn_inv_def)
  qed
  with inv show ?thesis by (auto simp: topo_order_ok_def kahn_inv_def)
qed

lemma kahn_loop_spec:
  assumes "hash_order_ok ord" "ascending adj"
  shows "kahn_inv adj d q order \<Longrightarrow> fuel + length order = length adj \<Longrightarrow>
    \<exists>res. kahn_loop fuel ord adj d q order = Some res \<and> topo_order_ok adj res"
proof (induction fuel arbitrary: d q order)
  case 0
  then have inv: "distinct (order @ q)" "set (order @ q) \<subseteq> {..<length adj}"
    by (simp_all add: kahn_inv_def)
  then have "length (order @ q) \<le> length adj"
    by (metis card_lessThan card_mono distinct_card finite_lessThan)
  with 0 have "q = []" by simp
  with 0 kahn_done [OF assms(2)] show ?case by auto
next
  case (Suc fuel)
  show ?case
  proof (cases q)
    case Nil
    with Suc kahn_done [OF assms(2)] show ?thesis by auto
  next
    case (Cons s qs)
    obtain d' q' where sc: "kahn_scan (ord (adj ! s)) d qs = (d', q')" by force
    with Suc.IH [OF kahn_inv_step [OF assms Suc.prems(1) [unfolded Cons] sc]] Suc.prems(2) Cons
    show ?thesis by simp
  qed
qed

lemma kahn_order_correct:
  assumes "hash_order_ok ord" "ascending adj"
  shows "\<exists>order. kahn_order ord adj = Some order \<and> topo_order_ok adj order"
proof -
  let ?n = "length adj" and ?d = "init_in_degree ord adj"
  have "\<forall>a \<in> set adj. finite a" using ascending_finite [OF assms(2)] by (auto simp: in_set_conv_nth)
  from in_degree_fold [OF assms(1) this, of _ "replicate ?n 0"]
  have deg: "?d ! v = card (open_preds adj [] v)" "length ?d = ?n" if "v < ?n" for v
    using that by (auto simp: init_in_degree_def open_preds_def)
  have len: "length ?d = ?n" using deg(2) by (cases adj) (auto simp: init_in_degree_def)
  have "kahn_inv adj ?d (filter (\<lambda>i. ?d ! i = 0) [0..<?n]) []"
    unfolding kahn_inv_def
  proof (intro conjI)
    show "topo_prefix adj ([] @ filter (\<lambda>i. ?d ! i = 0) [0..<?n])"
    proof (rule topo_prefix_append)
      fix v u assume "v \<in> set (filter (\<lambda>i. ?d ! i = 0) [0..<?n])" "u < ?n" "v \<in> adj ! u"
      with deg(1) [of v] show "u \<in> set []" by (auto simp: open_preds_def)
    qed (simp add: topo_prefix_def)
  qed (use deg len in auto)
  from kahn_loop_spec [OF assms this, of ?n] show ?thesis
    by (simp add: kahn_order_def Let_def)
qed

section \<open>Stratum numbers\<close>

definition neg_cycle :: "Edge list \<Rightarrow> bool" where
  "neg_cycle edges \<longleftrightarrow>
     (\<exists>e \<in> set edges. edge_negative e \<and> (edge_to e, edge_from e) \<in> (edge_rel edges)\<^sup>*)"

text \<open>What a successful sort promises of the stratum numbers: components share a number,
  distinct components differ, and an edge that leaves its component leads to a larger
  number.\<close>

definition strata_ok :: "(term_id \<times> term_id) set \<Rightarrow> term_id set \<Rightarrow> (term_id \<rightharpoonup> nat) \<Rightarrow> bool" where
  "strata_ok E P ps \<longleftrightarrow>
     dom ps = P
     \<and> (\<forall>p \<in> P. \<forall>q \<in> P. ps p = ps q \<longleftrightarrow> mutual E p q)
     \<and> (\<forall>(p, q) \<in> E. \<not> mutual E p q \<longrightarrow> the (ps p) < the (ps q))"

lemma edge_rel_ends:
  "e \<in> set edges \<Longrightarrow> (edge_from e, edge_to e) \<in> edge_rel edges"
  by (auto simp: edge_rel_def)

lemma neg_inside_iff:
  assumes ok: "sccs_ok (edge_rel edges) sccs"
    and ends: "\<And>p q. (p, q) \<in> edge_rel edges \<Longrightarrow> p \<in> set (concat sccs) \<and> q \<in> set (concat sccs)"
  shows "neg_inside sccs edges \<longleftrightarrow> neg_cycle edges"
proof -
  have "scc_idx sccs (edge_from e) = scc_idx sccs (edge_to e)
      \<longleftrightarrow> (edge_to e, edge_from e) \<in> (edge_rel edges)\<^sup>*" if e: "e \<in> set edges" for e
    using scc_idx_mutual [OF ok] ends [OF edge_rel_ends [OF e]] edge_rel_ends [OF e]
    unfolding mutual_def by blast
  then show ?thesis unfolding neg_inside_def neg_cycle_def by blast
qed

lemma topo_index_less:
  assumes ok: "topo_order_ok adj order" and u: "u < length adj" and v: "v \<in> adj ! u" "v < length adj"
    and pu: "position_map order u = Some i" and pv: "position_map order v = Some j"
  shows "i < j"
proof -
  from ok have d: "distinct order" by (simp add: topo_order_ok_def)
  from pu pv have i: "i < length order" "order ! i = u" and j: "j < length order" "order ! j = v"
    using position_map_Some [OF d] by auto
  from ok j v(1) u have "u \<in> set (take j order)" by (auto simp: topo_order_ok_def topo_prefix_def)
  then obtain k where "k < length (take j order)" "take j order ! k = u" by (metis in_set_conv_nth)
  then have k: "k < j" "order ! k = u" by auto
  with i j(1) d have "k = i" by (metis less_trans nth_eq_iff_index_eq)
  with k show ?thesis by simp
qed

lemma topo_sort_accept:
  assumes ord: "hash_order_ok ord" and ok: "sccs_ok (edge_rel edges) sccs"
    and ends: "\<And>p q. (p, q) \<in> edge_rel edges \<Longrightarrow> p \<in> set (concat sccs) \<and> q \<in> set (concat sccs)"
    and neg: "\<not> neg_inside sccs edges"
  shows "\<exists>ps. topo_sort_sccs ord sccs edges = Some (Inr ps)
           \<and> strata_ok (edge_rel edges) (set (concat sccs)) ps"
proof -
  let ?n = "length sccs" and ?E = "edge_rel edges" and ?P = "set (concat sccs)"
  from ok have dist: "distinct (concat sccs)" by (simp add: sccs_ok_def)
  have idx: "scc_idx sccs p < ?n" if "p \<in> ?P" for p using scc_idx_iff [OF dist that] by blast
  have e_ends: "edge_from e \<in> ?P" "edge_to e \<in> ?P" if "e \<in> set edges" for e
    using ends [OF edge_rel_ends [OF that]] by auto
  have "\<forall>e \<in> set edges. scc_idx sccs (edge_from e) < length (replicate ?n ({} :: nat set))"
    using idx e_ends by simp
  from scc_edges_accept [OF neg this, of "replicate ?n {}" edges] obtain A N where
    r: "scc_edges sccs edges edges (replicate ?n {}) (replicate ?n {}) = Some (Inr (A, N))"
    and len: "length A = ?n" "length N = ?n"
    and A: "\<And>i. i < ?n \<Longrightarrow> A ! i = cross_targets sccs (set edges) i"
    and N: "\<And>i. i < ?n \<Longrightarrow> N ! i = cross_targets sccs {e \<in> set edges. edge_negative e} i"
    by auto
  have cross: "i < j \<and> j < ?n" if "j \<in> cross_targets sccs (set edges) i" for i j
  proof -
    from that obtain e where e: "e \<in> set edges" "scc_idx sccs (edge_from e) = i"
      "scc_idx sccs (edge_to e) = j" "j \<noteq> i" by (auto simp: cross_targets_def)
    then show ?thesis
      using scc_idx_edge [OF ok edge_rel_ends [OF e(1)]] e_ends [OF e(1)] idx [of "edge_to e"] by auto
  qed
  have asc: "ascending A" using cross A len unfolding ascending_def by auto
  have Nsub: "N ! i \<subseteq> A ! i" if "i < ?n" for i using A N that by (auto simp: cross_targets_def)
  let ?ps = "concat (map (\<lambda>src. map (Pair src) (ord (N ! src))) [0..<?n])"
  have "\<forall>(i, j) \<in> set ?ps. i < j \<and> j < length A"
  proof (clarsimp simp: len)
    fix i j assume i: "i < ?n" and j: "j \<in> set (ord (N ! i))"
    have "finite (N ! i)" using Nsub [OF i] ascending_finite [OF asc] i len by (metis finite_subset)
    with j ord Nsub [OF i] have "j \<in> A ! i" by auto
    with cross A i show "i < j \<and> j < ?n" by auto
  qed
  note cs = cross_scan_None [OF ord asc this, of sccs]
  from kahn_order_correct [OF ord asc] obtain order where
    k: "kahn_order ord A = Some order" "topo_order_ok A order" by auto
  then have order: "distinct order" "set order = {..<?n}" by (auto simp: topo_order_ok_def len)
  then have olen: "length order = ?n" by (metis card_lessThan distinct_card)
  define ps where "ps = (\<lambda>pred. map_option (\<lambda>i. unwrap_or 0 (position_map order i)) (index_sccs sccs pred))"
  have res: "topo_sort_sccs ord sccs edges = Some (Inr ps)"
    using r cs k(1) olen by (simp add: topo_sort_sccs_def Let_def ps_def)
  have pos: "\<exists>k. position_map order i = Some k" if "i < ?n" for i
    using position_map_Some [OF order(1), of i] that order(2) by (metis in_set_conv_nth lessThan_iff)
  have psv: "ps p = position_map order (scc_idx sccs p)" if "p \<in> ?P" for p
    using that index_sccs_None [of sccs p] pos [OF idx [OF that]]
    by (auto simp: ps_def scc_idx_def unwrap_or_def split: option.splits)
  have inj: "position_map order i = position_map order j \<Longrightarrow> i = j" if "i < ?n" "j < ?n" for i j
    using pos [OF that(1)] position_map_Some [OF order(1)] by metis
  have "dom ps = ?P" using index_sccs_None [of sccs] by (auto simp: ps_def dom_def)
  moreover have "ps p = ps q \<longleftrightarrow> mutual ?E p q" if "p \<in> ?P" "q \<in> ?P" for p q
    using psv [OF that(1)] psv [OF that(2)] inj [OF idx [OF that(1)] idx [OF that(2)]]
      scc_idx_mutual [OF ok that] by metis
  moreover have "the (ps p) < the (ps q)" if e: "(p, q) \<in> ?E" "\<not> mutual ?E p q" for p q
  proof -
    from ends [OF e(1)] have pq: "p \<in> ?P" "q \<in> ?P" by auto
    with scc_idx_mutual [OF ok pq] e have mem: "scc_idx sccs q \<in> A ! scc_idx sccs p"
      using A [OF idx [OF pq(1)]] by (auto simp: cross_targets_def edge_rel_def)
    obtain i j where i: "position_map order (scc_idx sccs p) = Some i"
      and j: "position_map order (scc_idx sccs q) = Some j"
      using pos [OF idx [OF pq(1)]] pos [OF idx [OF pq(2)]] by blast
    have "i < j"
      using topo_index_less [OF k(2) _ mem _ i j] idx [OF pq(1)] idx [OF pq(2)] len by simp
    with psv [OF pq(1)] psv [OF pq(2)] i j show ?thesis by simp
  qed
  ultimately have "strata_ok ?E ?P ps" by (auto simp: strata_ok_def)
  with res show ?thesis by blast
qed

lemma topo_sort_reject:
  assumes "neg_inside sccs edges"
  shows "\<exists>msg. topo_sort_sccs ord sccs edges = Some (Inl msg)"
  using scc_edges_reject [OF assms, of edges "replicate (length sccs) {}" "replicate (length sccs) {}"]
  by (auto simp: topo_sort_sccs_def Let_def)

end
