(* ===== verification/Stratify_Correct.thy ===== *)
theory Stratify_Correct
  imports Stratify_Topo
begin

text \<open>
  The properties of the stratifier: which programs it accepts, what the strata it returns
  contain and in which order, when a stratum is marked recursive, which rules the
  subsumption check removes, and which programs the aggregation check refuses.
\<close>

section \<open>The dependency graph of a program\<close>

abbreviation deps :: "Rule list \<Rightarrow> (term_id \<times> term_id) set" where
  "deps rules \<equiv> edge_rel (build_dependency_graph rules)"

lemma collect_predicates_eq:
  "collect_predicates rules =
     (\<Union>rule \<in> set rules. set_option (head_pred rule) \<union> (\<Union>lit \<in> set (rule_body rule). literal_preds lit))"
proof -
  have inner: "fold (\<lambda>lit ps. ps \<union> literal_preds lit) ls S = S \<union> (\<Union>lit \<in> set ls. literal_preds lit)"
    for ls S by (induction ls arbitrary: S) auto
  have "fold (\<lambda>rule preds. fold (\<lambda>lit ps. ps \<union> literal_preds lit) (rule_body rule)
               (preds \<union> set_option (head_pred rule))) rules S
      = S \<union> (\<Union>rule \<in> set rules. set_option (head_pred rule)
                \<union> (\<Union>lit \<in> set (rule_body rule). literal_preds lit))" for S
    by (induction rules arbitrary: S) (auto simp: inner)
  then show ?thesis by (simp add: collect_predicates_def)
qed

lemma finite_literal_preds [simp]: "finite (literal_preds lit)"
  by (cases lit) auto

lemma finite_collect [simp]: "finite (collect_predicates rules)"
  by (auto simp: collect_predicates_eq)

lemma literal_edges_from: "e \<in> set (literal_edges h lit) \<Longrightarrow> edge_from e = h"
  by (cases lit) (auto simp: mk_edge_def split: option.splits)

lemma edges_from_heads: "edge_from ` set (build_dependency_graph rules) \<subseteq> collect_predicates rules"
proof (rule image_subsetI)
  fix e assume "e \<in> set (build_dependency_graph rules)"
  then obtain r where r: "r \<in> set rules" "e \<in> set (rule_edges r)"
    by (auto simp: build_dependency_graph_def)
  then have "head_pred r = Some (edge_from e)"
    by (auto simp: rule_edges_def dest: literal_edges_from split: option.splits)
  with r(1) show "edge_from e \<in> collect_predicates rules" by (force simp: collect_predicates_eq)
qed

abbreviation program_preds :: "Rule list \<Rightarrow> term_id set" where
  "program_preds rules \<equiv> graph_nodes (collect_predicates rules) (build_dependency_graph rules)"

lemma head_in_preds: "r \<in> set rules \<Longrightarrow> head_pred r = Some h \<Longrightarrow> h \<in> program_preds rules"
  by (force simp: graph_nodes_def collect_predicates_eq)

lemma deps_ends: "(p, q) \<in> edge_rel edges \<Longrightarrow> p \<in> graph_nodes nodes edges \<and> q \<in> graph_nodes nodes edges"
  by (auto simp: edge_rel_def graph_nodes_def)

section \<open>Placement of rules\<close>

lemma place_fold:
  "(\<forall>r \<in> set rules. f r < length sr) \<Longrightarrow>
    length (fold (\<lambda>r sr. sr[f r := sr ! f r @ [r]]) rules sr) = length sr
    \<and> (\<forall>k < length sr. fold (\<lambda>r sr. sr[f r := sr ! f r @ [r]]) rules sr ! k
                        = sr ! k @ filter (\<lambda>r. f r = k) rules)"
proof (induction rules arbitrary: sr)
  case (Cons r rules)
  then show ?case using Cons.IH [of "sr[f r := sr ! f r @ [r]]"] by (auto simp: nth_list_update)
qed simp

lemma fold_skip: "(\<And>x. x \<in> set xs \<Longrightarrow> f x s = s) \<Longrightarrow> fold f xs s = s"
  by (induction xs) auto

lemma place_rules_eq:
  assumes "\<forall>r \<in> set rules. rule_stratum ps r \<le> m"
  shows "place_rules ps m rules = map (\<lambda>k. filter (\<lambda>r. rule_stratum ps r = k) rules) [0..<Suc m]"
proof -
  let ?f = "\<lambda>r sr. sr[rule_stratum ps r := sr ! rule_stratum ps r @ [r]]"
  let ?placed = "fold ?f rules (replicate (Suc m) [])"
  have eq: "?placed = map (\<lambda>k. filter (\<lambda>r. rule_stratum ps r = k) rules) [0..<Suc m]"
    using place_fold [of rules "rule_stratum ps" "replicate (Suc m) []"] assms
    by (intro nth_equalityI) (auto simp: less_Suc_eq_le simp del: upt_Suc replicate.simps)
  have "r \<in> set (?placed ! 0)" if "r \<in> set rules" "rule_head r = None" for r
  proof -
    have "rule_stratum ps r = 0" using that(2) by (simp add: rule_stratum_def head_pred_def unwrap_or_def)
    with that(1) show ?thesis unfolding eq by (simp del: upt_Suc)
  qed
  then show ?thesis
    unfolding place_rules_def Let_def eq [symmetric]
    by (intro fold_skip) (auto simp: list_all_iff)
qed

lemma mset_partition:
  "(\<forall>r \<in> set rs. f r < n) \<Longrightarrow>
    mset (concat (map (\<lambda>k. filter (\<lambda>r. f r = k) rs) [0..<n])) = mset rs"
proof (induction rs)
  case (Cons r rs)
  have "mset (concat (map (\<lambda>k. filter (\<lambda>r. f r = k) (r # rs)) [0..<n]))
      = (\<Sum>k \<leftarrow> [0..<n]. if f r = k then {#r#} else {#})
        + mset (concat (map (\<lambda>k. filter (\<lambda>r. f r = k) rs) [0..<n]))"
    by (induction n) (auto simp: ac_simps)
  moreover have "(\<Sum>k \<leftarrow> [0..<n]. if f r = k then {#r#} else {#}) = (if f r < n then {#r#} else {#})"
    by (induction n) auto
  ultimately show ?case using Cons by simp
qed simp

section \<open>Accepted programs\<close>

definition accepted :: "Rule list \<Rightarrow> bool" where
  "accepted rules \<longleftrightarrow>
     (\<forall>r \<in> set rules. agg_head_error r = None) \<and> \<not> neg_cycle (build_dependency_graph rules)"

lemma first_error_None: "first_error f xs = None \<longleftrightarrow> (\<forall>x \<in> set xs. f x = None)"
  by (induction xs) (auto split: option.splits)

text \<open>The rules of stratum number \<open>k\<close>, and the shape of an accepted program's result.\<close>

definition layer :: "(term_id \<rightharpoonup> nat) \<Rightarrow> Rule list \<Rightarrow> nat \<Rightarrow> Rule list" where
  "layer ps rules k = filter (\<lambda>r. rule_stratum ps r = k) rules"

definition layers :: "(term_id \<rightharpoonup> nat) \<Rightarrow> Rule list \<Rightarrow> nat \<Rightarrow> Rule list list" where
  "layers ps rules m = filter (\<lambda>rs. rs \<noteq> []) (map (layer ps rules) [0..<Suc m])"

lemma fold_max_ge: "x \<in> set xs \<Longrightarrow> x \<le> fold max xs (d :: nat)"
  using Max.set_eq_fold [of d xs] by (metis List.finite_set Max_ge list.set_intros(2))

lemma stratify_accepted:
  assumes ord: "hash_order_ok ord" and ne: "rules \<noteq> []" and acc: "accepted rules"
  obtains ps sccs m where
    "stratify ord pord rules = Some (Inr \<lparr>strata =
       map (build_stratum pord sccs (build_dependency_graph rules)) (layers ps rules m)\<rparr>)"
    "sccs_ok (deps rules) sccs" "set (concat sccs) = program_preds rules"
    "strata_ok (deps rules) (program_preds rules) ps"
    "\<forall>r \<in> set rules. rule_stratum ps r \<le> m"
proof -
  let ?edges = "build_dependency_graph rules"
  obtain sccs where sccs: "compute_sccs (collect_predicates rules) ?edges = Some sccs"
    "sccs_ok (deps rules) sccs" "set (concat sccs) = program_preds rules"
    using compute_sccs_correct [OF finite_collect edges_from_heads] by blast
  have ends: "p \<in> set (concat sccs) \<and> q \<in> set (concat sccs)" if "(p, q) \<in> deps rules" for p q
    using deps_ends [OF that] sccs(3) by blast
  have "\<not> neg_inside sccs ?edges"
    using neg_inside_iff [OF sccs(2) ends] acc by (simp add: accepted_def)
  from topo_sort_accept [OF ord sccs(2) ends this] obtain ps where
    ps: "topo_sort_sccs ord sccs ?edges = Some (Inr ps)" "strata_ok (deps rules) (program_preds rules) ps"
    using sccs(3) by auto
  define m where "m = fold max (map (\<lambda>p. unwrap_or 0 (ps p)) (concat sccs)) 0"
  have le: "rule_stratum ps r \<le> m" if "r \<in> set rules" for r
  proof (cases "head_pred r")
    case None
    then show ?thesis by (simp add: rule_stratum_def unwrap_or_def)
  next
    case (Some h)
    then have "h \<in> set (concat sccs)" using head_in_preds that sccs(3) by blast
    then show ?thesis unfolding m_def
      by (intro fold_max_ge) (auto simp: rule_stratum_def Some)
  qed
  then have "\<forall>r \<in> set rules. rule_stratum ps r \<le> m" by blast
  then have pl: "filter (\<lambda>rs. rs \<noteq> []) (place_rules ps m rules) = layers ps rules m"
    unfolding layers_def layer_def by (simp only: place_rules_eq)
  have "first_error agg_head_error rules = None" using acc by (simp add: accepted_def first_error_None)
  with ne sccs(1) ps(1) have "stratify ord pord rules = Some (Inr \<lparr>strata =
       map (build_stratum pord sccs ?edges) (layers ps rules m)\<rparr>)"
    unfolding stratify_def by (simp add: Let_def pl flip: m_def)
  from this sccs(2,3) ps(2) \<open>\<forall>r \<in> set rules. rule_stratum ps r \<le> m\<close> show thesis by (rule that)
qed

lemma stratify_rejected:
  assumes ord: "hash_order_ok ord" and ne: "rules \<noteq> []" and rej: "\<not> accepted rules"
  shows "\<exists>msg. stratify ord pord rules = Some (Inl msg)"
proof (cases "first_error agg_head_error rules")
  case None
  let ?edges = "build_dependency_graph rules"
  obtain sccs where sccs: "compute_sccs (collect_predicates rules) ?edges = Some sccs"
    "sccs_ok (deps rules) sccs" "set (concat sccs) = program_preds rules"
    using compute_sccs_correct [OF finite_collect edges_from_heads] by blast
  have ends: "p \<in> set (concat sccs) \<and> q \<in> set (concat sccs)" if "(p, q) \<in> deps rules" for p q
    using deps_ends [OF that] sccs(3) by blast
  have "neg_inside sccs ?edges"
    using neg_inside_iff [OF sccs(2) ends] rej None by (auto simp: accepted_def first_error_None)
  from topo_sort_reject [OF this] obtain msg where "topo_sort_sccs ord sccs ?edges = Some (Inl msg)"
    by blast
  with ne None sccs(1) show ?thesis by (simp add: stratify_def Let_def)
qed (use ne in \<open>simp add: stratify_def\<close>)

lemma accepted_Nil [simp]: "accepted []"
  by (simp add: accepted_def neg_cycle_def build_dependency_graph_def)

text \<open>Property C1. For every enumeration order of the hash containers the stratifier returns,
  and it returns a stratified program exactly when no rule aggregates inside its own
  recursion and no predicate depends on itself through a negated or aggregated literal;
  otherwise it returns an error.\<close>

theorem stratify_accepts_iff:
  assumes "hash_order_ok ord"
  shows "((\<exists>prog. stratify ord pord rules = Some (Inr prog)) \<longleftrightarrow>
           (\<forall>r \<in> set rules. agg_head_error r = None) \<and> \<not> neg_cycle (build_dependency_graph rules))
         \<and> stratify ord pord rules \<noteq> None"
proof (cases "accepted rules")
  case True
  then have "\<exists>prog. stratify ord pord rules = Some (Inr prog)"
    by (cases "rules = []") (simp add: stratify_def, metis stratify_accepted [OF assms])
  with True show ?thesis by (auto simp: accepted_def)
next
  case False
  then have "rules \<noteq> []" by auto
  from stratify_rejected [OF assms this False] obtain msg where
    "stratify ord pord rules = Some (Inl msg)" by blast
  with False show ?thesis by (auto simp: accepted_def)
qed

definition make_rule :: "term_id \<Rightarrow> term_id \<Rightarrow> bool \<Rightarrow> Rule" where
  "make_rule head_p body_p negated =
     (let atom = (\<lambda>p. \<lparr>atom_s = Var ''x'', atom_p = Const p, atom_o = Var ''y'', atom_g = DefaultGraph\<rparr>)
      in \<lparr>rule_head = Some (atom head_p),
          rule_body = [if negated then Negated (atom body_p) else Positive (atom body_p)],
          rule_text = [], rule_weight = None\<rparr>)"

lemma hash_order_sorted_nat: "hash_order_ok (sorted_list_of_set :: nat hash_order)"
  by (simp add: hash_order_ok_def)

lemma make_rule_simps [simp]:
  "head_pred (make_rule h b n) = Some h"
  "rule_edges (make_rule h b n) = [\<lparr>edge_from = h, edge_to = b, edge_negative = n\<rparr>]"
  "agg_head_error (make_rule h b n) = None"
  by (simp_all add: make_rule_def head_pred_def atom_pred_def rule_edges_def mk_edge_def
      agg_head_error_def Let_def)

theorem stratify_accepts_iff_witness:
  "(\<exists>prog. stratify sorted_list_of_set sorted_list_of_set
             [make_rule 10 20 False, make_rule 30 10 True] = Some (Inr prog))
   \<and> \<not> (\<exists>prog. stratify sorted_list_of_set sorted_list_of_set [make_rule 10 10 True] = Some (Inr prog))"
proof -
  have "\<not> neg_cycle (build_dependency_graph [make_rule 10 20 False, make_rule 30 10 True])"
    using pred_closed_path [of 10 30 "{(10, 20), (30, 10)}" "{30}"]
    by (auto simp: neg_cycle_def build_dependency_graph_def edge_rel_def pred_closed_def)
  moreover have "neg_cycle (build_dependency_graph [make_rule 10 10 True])"
    by (simp add: neg_cycle_def build_dependency_graph_def)
  ultimately show ?thesis
    using stratify_accepts_iff [OF hash_order_sorted_nat, of sorted_list_of_set] by simp
qed

section \<open>Contents and order of the strata\<close>

lemma stratify_result:
  assumes ord: "hash_order_ok ord" and res: "stratify ord pord rules = Some (Inr prog)"
  obtains ps sccs m where
    "strata prog = map (build_stratum pord sccs (build_dependency_graph rules)) (layers ps rules m)"
    "sccs_ok (deps rules) sccs" "set (concat sccs) = program_preds rules"
    "strata_ok (deps rules) (program_preds rules) ps"
    "\<forall>r \<in> set rules. rule_stratum ps r \<le> m"
    "accepted rules"
proof (cases "rules = []")
  case True
  show thesis
  proof (rule that [where sccs = "[]" and ps = Map.empty and m = 0])
    show "strata_ok (deps rules) (program_preds rules) Map.empty"
      by (simp add: strata_ok_def True graph_nodes_def collect_predicates_def build_dependency_graph_def
          edge_rel_def)
  qed (use True res in \<open>auto simp: stratify_def layers_def layer_def sccs_ok_def pred_closed_def
        graph_nodes_def collect_predicates_def build_dependency_graph_def edge_rel_def\<close>)
next
  case False
  have acc: "accepted rules"
    using stratify_rejected [OF ord False, of pord] res by (cases "accepted rules") auto
  obtain ps sccs m where r: "stratify ord pord rules = Some (Inr \<lparr>strata =
       map (build_stratum pord sccs (build_dependency_graph rules)) (layers ps rules m)\<rparr>)"
    and rest: "sccs_ok (deps rules) sccs" "set (concat sccs) = program_preds rules"
    "strata_ok (deps rules) (program_preds rules) ps" "\<forall>r \<in> set rules. rule_stratum ps r \<le> m"
    by (rule stratify_accepted [OF ord False acc, of pord])
  from r res have "strata prog = map (build_stratum pord sccs (build_dependency_graph rules)) (layers ps rules m)"
    by simp
  from that [OF this rest acc] show thesis .
qed

lemma layer_member: "L \<in> set (layers ps rules m) \<Longrightarrow> \<exists>k. L = layer ps rules k \<and> L \<noteq> []"
  by (auto simp: layers_def simp del: upt_Suc)

lemma layers_sorted:
  "sorted_wrt (\<lambda>a b. \<forall>r \<in> set a. \<forall>r' \<in> set b. rule_stratum ps r < rule_stratum ps r') (layers ps rules m)"
  unfolding layers_def
  by (intro sorted_wrt_filter)
    (auto simp: sorted_wrt_map layer_def simp del: upt_Suc intro: sorted_wrt_mono_rel [OF _ sorted_wrt_upt])

lemma layers_stratum:
  assumes "i < length (layers ps rules m)" "j < length (layers ps rules m)"
    and "r \<in> set (layers ps rules m ! i)" "r' \<in> set (layers ps rules m ! j)"
  shows "i = j \<longleftrightarrow> rule_stratum ps r = rule_stratum ps r'"
    and "i < j \<longleftrightarrow> rule_stratum ps r < rule_stratum ps r'"
proof -
  have eq: "rule_stratum ps r = rule_stratum ps r'" if "i = j"
    using layer_member [OF nth_mem [OF assms(1)]] assms(3,4) that by (auto simp: layer_def)
  have less: "rule_stratum ps a < rule_stratum ps b"
    if "k < l" "l < length (layers ps rules m)" "a \<in> set (layers ps rules m ! k)"
      "b \<in> set (layers ps rules m ! l)" for k l a b
    using sorted_wrt_nth_less [OF layers_sorted that(1,2)] that(3,4) by blast
  show "i = j \<longleftrightarrow> rule_stratum ps r = rule_stratum ps r'"
    and "i < j \<longleftrightarrow> rule_stratum ps r < rule_stratum ps r'"
    using eq less [of i j r r'] less [of j i r' r] assms by (metis less_irrefl linorder_neqE_nat less_asym)+
qed

lemma str_rules_build [simp]: "str_rules (build_stratum pord sccs edges rs) = rs"
  by (simp add: build_stratum_def Let_def)

lemma derived_build:
  "hash_order_ok pord \<Longrightarrow> distinct (str_derived_predicates (build_stratum pord sccs edges rs))
    \<and> set (str_derived_predicates (build_stratum pord sccs edges rs)) = set (List.map_filter head_pred rs)"
  by (simp add: build_stratum_def Let_def)

lemma mset_concat_filter: "concat (filter (\<lambda>rs. rs \<noteq> []) xss) = concat xss"
  by (induction xss) auto

lemma stratify_mset:
  assumes "hash_order_ok ord" "stratify ord pord rules = Some (Inr prog)"
  shows "mset (concat (map str_rules (strata prog))) = mset rules"
proof -
  from stratify_result [OF assms] obtain ps sccs m where
    st: "strata prog = map (build_stratum pord sccs (build_dependency_graph rules)) (layers ps rules m)"
    and le: "\<forall>r \<in> set rules. rule_stratum ps r \<le> m" by metis
  have "map str_rules (strata prog) = layers ps rules m" using st by (simp add: comp_def)
  moreover have "mset (concat (layers ps rules m)) = mset rules"
    unfolding layers_def mset_concat_filter layer_def
    by (rule mset_partition) (use le in \<open>auto simp: less_Suc_eq_le\<close>)
  ultimately show ?thesis by simp
qed

text \<open>Property C3. Stratification neither loses nor duplicates a rule: the strata are
  non-empty, together they hold every rule of the program exactly as often as the program
  does, and the derived predicates of a stratum are the head predicates of its rules, each
  once.\<close>

theorem stratify_partitions:
  assumes "hash_order_ok ord" "hash_order_ok pord" "stratify ord pord rules = Some (Inr prog)"
  shows "mset (concat (map str_rules (strata prog))) = mset rules
    \<and> (\<forall>s \<in> set (strata prog).
          str_rules s \<noteq> [] \<and> distinct (str_derived_predicates s)
          \<and> set (str_derived_predicates s) = {h. \<exists>r \<in> set (str_rules s). head_pred r = Some h})"
proof -
  from stratify_result [OF assms(1,3)] obtain ps sccs m where
    st: "strata prog = map (build_stratum pord sccs (build_dependency_graph rules)) (layers ps rules m)"
    and le: "\<forall>r \<in> set rules. rule_stratum ps r \<le> m" by metis
  have "mset (concat (map str_rules (strata prog))) = mset rules" by (rule stratify_mset [OF assms(1,3)])
  moreover have "str_rules s \<noteq> [] \<and> distinct (str_derived_predicates s)
          \<and> set (str_derived_predicates s) = {h. \<exists>r \<in> set (str_rules s). head_pred r = Some h}"
    if "s \<in> set (strata prog)" for s
  proof -
    from that st obtain L where L: "L \<in> set (layers ps rules m)"
      "s = build_stratum pord sccs (build_dependency_graph rules) L" by auto
    have "set (List.map_filter head_pred L) = {h. \<exists>r \<in> set L. head_pred r = Some h}"
      by (force simp: map_filter_def)
    with L(2) layer_member [OF L(1)] derived_build [OF assms(2), of sccs "build_dependency_graph rules" L]
    show ?thesis by simp
  qed
  ultimately show ?thesis by simp
qed

lemma stratify_returns: "hash_order_ok ord \<Longrightarrow> accepted rules \<Longrightarrow> \<exists>prog. stratify ord pord rules = Some (Inr prog)"
  by (cases "rules = []") (simp add: stratify_def, metis stratify_accepted)

lemma accepted_chain: "accepted [make_rule 10 20 False, make_rule 30 10 False]"
  by (simp add: accepted_def neg_cycle_def build_dependency_graph_def)

lemma accepted_loop: "accepted [make_rule 10 10 False]"
  by (simp add: accepted_def neg_cycle_def build_dependency_graph_def)

theorem stratify_partitions_witness:
  "\<exists>prog. stratify sorted_list_of_set sorted_list_of_set
            [make_rule 10 20 False, make_rule 30 10 False] = Some (Inr prog)
          \<and> mset (concat (map str_rules (strata prog)))
              = {#make_rule 10 20 False, make_rule 30 10 False#}"
  using stratify_returns [OF hash_order_sorted_nat accepted_chain, of sorted_list_of_set]
    stratify_partitions [OF hash_order_sorted_nat hash_order_sorted,
      of "[make_rule 10 20 False, make_rule 30 10 False]"]
  by auto

lemma strata_ok_path:
  assumes ok: "strata_ok E P ps" and E: "\<And>x y. (x, y) \<in> E \<Longrightarrow> x \<in> P \<and> y \<in> P"
  shows "(p, q) \<in> E\<^sup>* \<Longrightarrow> the (ps p) \<le> the (ps q)"
proof (induction rule: rtrancl_induct)
  case (step y z)
  have "the (ps y) \<le> the (ps z)"
  proof (cases "mutual E y z")
    case True
    with ok E [OF step.hyps(2)] have "ps y = ps z" unfolding strata_ok_def by blast
    then show ?thesis by simp
  next
    case False
    with ok step.hyps(2) have "the (ps y) < the (ps z)" unfolding strata_ok_def by blast
    then show ?thesis by simp
  qed
  with step.IH show ?case by simp
qed simp

lemma rule_stratum_head:
  assumes "strata_ok E P ps" "head_pred r = Some h" "h \<in> P"
  shows "ps h = Some (rule_stratum ps r)"
  using assms by (auto simp: strata_ok_def rule_stratum_def unwrap_or_def)

text \<open>Property C2. The order of the strata: two rules share a stratum exactly when their head
  predicates depend on each other, and a rule whose head depends, directly or through other
  rules, on a predicate of another stratum stands in an earlier stratum than the rules that
  derive that predicate. The stratum a rule reads from therefore never precedes it.\<close>

theorem stratify_order:
  assumes "hash_order_ok ord" "stratify ord pord rules = Some (Inr prog)"
    and "i < length (strata prog)" "r \<in> set (str_rules (strata prog ! i))" "head_pred r = Some h"
    and "j < length (strata prog)" "r' \<in> set (str_rules (strata prog ! j))" "head_pred r' = Some h'"
  shows "(i = j \<longleftrightarrow> mutual (edge_rel (build_dependency_graph rules)) h h')
         \<and> ((h, h') \<in> (edge_rel (build_dependency_graph rules))\<^sup>* \<longrightarrow> i \<le> j)"
proof -
  from stratify_result [OF assms(1,2)] obtain ps sccs m where
    st: "strata prog = map (build_stratum pord sccs (build_dependency_graph rules)) (layers ps rules m)"
    and ok: "strata_ok (deps rules) (program_preds rules) ps" by metis
  have mem: "r \<in> set (layers ps rules m ! i)" "r' \<in> set (layers ps rules m ! j)"
    and len: "i < length (layers ps rules m)" "j < length (layers ps rules m)"
    using assms(3,4,6,7) st by auto
  have "r \<in> set rules" "r' \<in> set rules"
    using layer_member [OF nth_mem [OF len(1)]] layer_member [OF nth_mem [OF len(2)]] mem
    by (auto simp: layer_def)
  then have P: "h \<in> program_preds rules" "h' \<in> program_preds rules"
    using head_in_preds assms(5,8) by blast+
  note ps = rule_stratum_head [OF ok assms(5) P(1)] rule_stratum_head [OF ok assms(8) P(2)]
  have "i = j \<longleftrightarrow> ps h = ps h'" using layers_stratum(1) [OF len mem] ps by simp
  also have "\<dots> \<longleftrightarrow> mutual (deps rules) h h'" using ok P unfolding strata_ok_def by blast
  finally have 1: "i = j \<longleftrightarrow> mutual (deps rules) h h'" .
  have "i \<le> j" if "(h, h') \<in> (deps rules)\<^sup>*"
    using strata_ok_path [OF ok deps_ends that] ps layers_stratum(2) [OF len(2,1) mem(2,1)] by auto
  with 1 show ?thesis by blast
qed

theorem stratify_order_witness:
  "\<exists>prog. stratify sorted_list_of_set sorted_list_of_set
            [make_rule 10 20 False, make_rule 30 10 False] = Some (Inr prog)
      \<and> (\<forall>i j. i < length (strata prog) \<longrightarrow> j < length (strata prog) \<longrightarrow>
            make_rule 30 10 False \<in> set (str_rules (strata prog ! i)) \<longrightarrow>
            make_rule 10 20 False \<in> set (str_rules (strata prog ! j)) \<longrightarrow> i \<le> j)"
proof -
  let ?rules = "[make_rule 10 20 False, make_rule 30 10 False]"
  obtain prog where p: "stratify sorted_list_of_set sorted_list_of_set ?rules = Some (Inr prog)"
    using stratify_returns [OF hash_order_sorted_nat accepted_chain] by blast
  have "(30, 10) \<in> (edge_rel (build_dependency_graph ?rules))\<^sup>*"
    by (rule r_into_rtrancl) (simp add: edge_rel_def build_dependency_graph_def)
  with stratify_order [OF hash_order_sorted_nat p, where h = 30 and h' = 10] p show ?thesis
    by (intro exI [of _ prog]) auto
qed

lemma cycle_iff:
  assumes ok: "sccs_ok (deps rules) sccs" and p: "p \<in> set (concat sccs)" and acc: "accepted rules"
  shows "(p, p) \<in> (deps rules)\<^sup>+ \<longleftrightarrow>
    (\<exists>e \<in> set (build_dependency_graph rules). edge_from e = p \<and> edge_to e = p \<and> \<not> edge_negative e)
    \<or> 1 < length (sccs ! scc_idx sccs p)" (is "?L \<longleftrightarrow> ?self \<or> ?big")
proof -
  from ok have d: "distinct (concat sccs)" by (simp add: sccs_ok_def)
  let ?c = "sccs ! scc_idx sccs p"
  have c: "scc_idx sccs p < length sccs" "p \<in> set ?c" using scc_idx_iff [OF d p] by auto
  then have cls: "set ?c = {y. mutual (deps rules) p y}" and dc: "distinct ?c"
    using ok d by (auto simp: sccs_ok_def distinct_concat_iff)
  have big: "?big \<longleftrightarrow> (\<exists>q. q \<noteq> p \<and> q \<in> set ?c)"
    using c(2) dc by (metis card_1_singletonE card_gt_0_iff distinct_card empty_iff
        List.finite_set less_one linorder_neqE_nat singletonD card_le_Suc0_iff_eq not_le One_nat_def)
  have "?self \<or> ?big" if "(p, p) \<in> (deps rules)\<^sup>+"
  proof -
    from that obtain q where q: "(p, q) \<in> deps rules" "(q, p) \<in> (deps rules)\<^sup>*" by (meson tranclD)
    then obtain e where e: "e \<in> set (build_dependency_graph rules)" "edge_from e = p" "edge_to e = q"
      by (auto simp: edge_rel_def)
    with q acc have "\<not> edge_negative e" by (auto simp: accepted_def neg_cycle_def)
    moreover have "mutual (deps rules) p q" using q by (auto simp: mutual_def)
    ultimately show ?thesis using e big cls by (cases "q = p") auto
  qed
  moreover have "(p, p) \<in> (deps rules)\<^sup>+" if ?self
    using that by (metis edge_rel_ends r_into_trancl')
  moreover have "(p, p) \<in> (deps rules)\<^sup>+" if ?big
  proof -
    from that big cls obtain q where "q \<noteq> p" "mutual (deps rules) p q" by blast
    then have "(p, q) \<in> (deps rules)\<^sup>+" "(q, p) \<in> (deps rules)\<^sup>*"
      by (auto simp: mutual_def dest: rtranclD)
    then show ?thesis by (rule trancl_rtrancl_trancl)
  qed
  ultimately show ?thesis by blast
qed

text \<open>A stratum is marked recursive exactly when one of its head predicates
  depends on itself.\<close>

lemma stratify_recursive_iff:
  assumes "hash_order_ok ord" "hash_order_ok pord" "stratify ord pord rules = Some (Inr prog)"
    and "s \<in> set (strata prog)"
  shows "str_is_recursive s \<longleftrightarrow>
    (\<exists>r \<in> set (str_rules s). \<exists>h. head_pred r = Some h
        \<and> (h, h) \<in> (edge_rel (build_dependency_graph rules))\<^sup>+)"
proof -
  let ?edges = "build_dependency_graph rules"
  from stratify_result [OF assms(1,3)] obtain ps sccs m where
    st: "strata prog = map (build_stratum pord sccs ?edges) (layers ps rules m)"
    and ok: "sccs_ok (deps rules) sccs" "set (concat sccs) = program_preds rules" "accepted rules" by metis
  from ok(1) have d: "distinct (concat sccs)" by (simp add: sccs_ok_def)
  from assms(4) st obtain L where L: "L \<in> set (layers ps rules m)" "s = build_stratum pord sccs ?edges L"
    by auto
  have sub: "set L \<subseteq> set rules" using layer_member [OF L(1)] by (auto simp: layer_def)
  define rec_pred where "rec_pred = (\<lambda>p. p \<in> edge_from ` {e \<in> set ?edges. edge_from e = edge_to e \<and> \<not> edge_negative e}
      \<or> (case index_sccs sccs p of None \<Rightarrow> False | Some i \<Rightarrow> i \<in> {i. i < length sccs \<and> 1 < length (sccs ! i)}))"
  have rec: "rec_pred p \<longleftrightarrow> (p, p) \<in> (deps rules)\<^sup>+" if "p \<in> set (concat sccs)" for p
  proof -
    from that index_sccs_None [of sccs p] obtain i where i: "index_sccs sccs p = Some i" by blast
    then have "scc_idx sccs p = i" by (simp add: scc_idx_def unwrap_or_def)
    moreover have "i < length sccs" using i index_sccs_Some [OF d] by blast
    moreover have "p \<in> edge_from ` {e \<in> set ?edges. edge_from e = edge_to e \<and> \<not> edge_negative e}
        \<longleftrightarrow> (\<exists>e \<in> set ?edges. edge_from e = p \<and> edge_to e = p \<and> \<not> edge_negative e)"
      by (auto simp: image_iff)
    ultimately show ?thesis using i cycle_iff [OF ok(1) that ok(3)] by (simp add: rec_pred_def)
  qed
  have "str_is_recursive s \<longleftrightarrow> (\<exists>p \<in> set (str_derived_predicates s). rec_pred p)"
    unfolding L(2) build_stratum_def Let_def list_ex_iff rec_pred_def by simp
  also have "set (str_derived_predicates s) = {h. \<exists>r \<in> set L. head_pred r = Some h}"
    using derived_build [OF assms(2), of sccs ?edges L] L(2) by (force simp: map_filter_def)
  finally have "str_is_recursive s \<longleftrightarrow> (\<exists>p \<in> {h. \<exists>r \<in> set L. head_pred r = Some h}. rec_pred p)" .
  moreover have "p \<in> set (concat sccs)" if "r \<in> set L" "head_pred r = Some p" for r p
    using that head_in_preds sub ok(2) by blast
  moreover have "str_rules s = L" using L(2) by simp
  ultimately show ?thesis using rec by blast
qed

lemma stratify_recursive_iff_witness:
  "\<exists>prog. stratify sorted_list_of_set sorted_list_of_set [make_rule 10 10 False] = Some (Inr prog)
          \<and> (\<forall>s \<in> set (strata prog). make_rule 10 10 False \<in> set (str_rules s) \<longrightarrow> str_is_recursive s)"
proof -
  obtain prog where p: "stratify sorted_list_of_set sorted_list_of_set [make_rule 10 10 False] = Some (Inr prog)"
    using stratify_returns [OF hash_order_sorted_nat accepted_loop] by blast
  have "(10, 10) \<in> (edge_rel (build_dependency_graph [make_rule 10 10 False]))\<^sup>+"
    by (rule r_into_trancl') (simp add: edge_rel_def build_dependency_graph_def)
  with stratify_recursive_iff [OF hash_order_sorted_nat hash_order_sorted p] p show ?thesis
    by (intro exI [of _ prog]) force
qed

section \<open>Subsumption\<close>

lemma fold_counts: "fold (\<lambda>x counts. counts(x := counts x + 1)) b c x = c x + count (mset b) x"
  for c :: "term_id \<Rightarrow> nat"
  by (induction b arbitrary: c) auto

lemma take_counts_iff: "take_counts a c \<longleftrightarrow> (\<forall>x. count (mset a) x \<le> c x)"
proof (induction a arbitrary: c)
  case (Cons y a)
  show ?case
  proof (cases "c y = 0")
    case True
    then show ?thesis by (auto intro!: exI [of _ y])
  next
    case False
    have "(\<forall>x. count (mset a) x \<le> (c(y := c y - 1)) x) \<longleftrightarrow> (\<forall>x. count (mset (y # a)) x \<le> c x)"
      by (rule iff_allI) (use False in auto)
    with Cons False show ?thesis by simp
  qed
qed simp

lemma is_multiset_subset_iff: "is_multiset_subset a b \<longleftrightarrow> mset a \<subseteq># mset b"
  unfolding is_multiset_subset_def take_counts_iff fold_counts by (simp add: subseteq_mset_def)

definition body_mset :: "Rule \<Rightarrow> term_id multiset" where
  "body_mset r = mset (body_preds r)"

lemma subsumed_by_iff:
  "subsumed_by j r2 h (i, r1) \<longleftrightarrow> i \<noteq> j \<and> head_pred r1 = Some h
     \<and> (body_mset r1 \<subset># body_mset r2 \<or> i < j \<and> body_mset r1 = body_mset r2)"
proof -
  have len: "length (body_preds r) = size (body_mset r)" for r by (simp add: body_mset_def)
  have "length (body_preds r1) < length (body_preds r2) \<and> is_multiset_subset (body_preds r1) (body_preds r2)
      \<longleftrightarrow> body_mset r1 \<subset># body_mset r2"
    unfolding len is_multiset_subset_iff body_mset_def [symmetric]
    by (metis mset_subset_size nat_neq_iff subset_mset.le_less)
  moreover have "length (body_preds r1) = length (body_preds r2)
      \<and> is_multiset_subset (body_preds r1) (body_preds r2) \<and> is_multiset_subset (body_preds r2) (body_preds r1)
      \<longleftrightarrow> body_mset r1 = body_mset r2"
    unfolding len is_multiset_subset_iff body_mset_def [symmetric] by (auto dest: subset_mset.antisym)
  ultimately show ?thesis unfolding subsumed_by_def Let_def by (auto split: option.splits)
qed

lemma is_eliminated_iff:
  "is_eliminated rules (j, r2) \<longleftrightarrow>
     (\<exists>i h. i < length rules \<and> i \<noteq> j \<and> head_pred r2 = Some h \<and> head_pred (rules ! i) = Some h
       \<and> (body_mset (rules ! i) \<subset># body_mset r2 \<or> i < j \<and> body_mset (rules ! i) = body_mset r2))"
  by (auto simp: is_eliminated_def list_ex_iff in_set_enumerate_eq subsumed_by_iff Bex_def
      split: option.splits)

text \<open>The subsumption check on its predicate abstraction: a rule is eliminated
  exactly when another rule with the same head predicate has a smaller multiset of positive
  body predicates, or the same one at an earlier position, and every rule with a constant
  head predicate keeps a rule of that kind that is not eliminated.\<close>

lemma check_subsumption_correct:
  shows "check_subsumption rules =
           map rule_text (map snd (filter (is_eliminated rules) (enumerate 0 rules)))
    \<and> (\<forall>j r2. is_eliminated rules (j, r2) \<longleftrightarrow>
         (\<exists>i h. i < length rules \<and> i \<noteq> j \<and> head_pred r2 = Some h \<and> head_pred (rules ! i) = Some h
           \<and> (mset (body_preds (rules ! i)) \<subset># mset (body_preds r2)
              \<or> i < j \<and> mset (body_preds (rules ! i)) = mset (body_preds r2))))
    \<and> (\<forall>j h. j < length rules \<longrightarrow> head_pred (rules ! j) = Some h \<longrightarrow>
         (\<exists>i < length rules. \<not> is_eliminated rules (i, rules ! i) \<and> head_pred (rules ! i) = Some h
            \<and> mset (body_preds (rules ! i)) \<subseteq># mset (body_preds (rules ! j))))"
proof (intro conjI allI impI)
  show "check_subsumption rules = map rule_text (map snd (filter (is_eliminated rules) (enumerate 0 rules)))"
    by (simp add: check_subsumption_def case_prod_unfold comp_def)
next
  fix j r2
  show "is_eliminated rules (j, r2) \<longleftrightarrow>
         (\<exists>i h. i < length rules \<and> i \<noteq> j \<and> head_pred r2 = Some h \<and> head_pred (rules ! i) = Some h
           \<and> (mset (body_preds (rules ! i)) \<subset># mset (body_preds r2)
              \<or> i < j \<and> mset (body_preds (rules ! i)) = mset (body_preds r2)))"
    by (simp add: is_eliminated_iff body_mset_def)
next
  fix j h assume "j < length rules" "head_pred (rules ! j) = Some h"
  then show "\<exists>i < length rules. \<not> is_eliminated rules (i, rules ! i) \<and> head_pred (rules ! i) = Some h
            \<and> mset (body_preds (rules ! i)) \<subseteq># mset (body_preds (rules ! j))"
  proof (induction "(size (body_mset (rules ! j)), j)" arbitrary: j
      rule: wf_induct_rule [OF wf_lex_prod [OF wf_less_than wf_less_than]])
    case (1 j)
    show ?case
    proof (cases "is_eliminated rules (j, rules ! j)")
      case True
      with 1(3) obtain i where i: "i < length rules" "head_pred (rules ! i) = Some h"
        and sub: "body_mset (rules ! i) \<subset># body_mset (rules ! j)
                  \<or> i < j \<and> body_mset (rules ! i) = body_mset (rules ! j)"
        by (auto simp: is_eliminated_iff)
      then have "((size (body_mset (rules ! i)), i), size (body_mset (rules ! j)), j)
          \<in> less_than <*lex*> less_than"
        by (auto dest: mset_subset_size)
      from 1(1) [OF this i] obtain k where k: "k < length rules" "\<not> is_eliminated rules (k, rules ! k)"
        "head_pred (rules ! k) = Some h" "body_mset (rules ! k) \<subseteq># body_mset (rules ! i)"
        unfolding body_mset_def by blast
      have "body_mset (rules ! i) \<subseteq># body_mset (rules ! j)" using sub by auto
      with k show ?thesis unfolding body_mset_def by (meson subset_mset.order_trans)
    qed (use 1 in auto)
  qed
qed

lemma check_subsumption_correct_witness:
  "head_pred (make_rule 10 20 False) = Some 10
   \<and> (\<exists>i < 2. \<not> is_eliminated [make_rule 10 20 False, make_rule 10 20 False] (i, [make_rule 10 20 False, make_rule 10 20 False] ! i))"
proof -
  let ?R = "[make_rule 10 20 False, make_rule 10 20 False]"
  have h: "head_pred (?R ! 1) = Some 10" by simp
  from check_subsumption_correct [of ?R]
  have "1 < length ?R \<longrightarrow> head_pred (?R ! 1) = Some 10 \<longrightarrow>
      (\<exists>i < length ?R. \<not> is_eliminated ?R (i, ?R ! i) \<and> head_pred (?R ! i) = Some 10
         \<and> mset (body_preds (?R ! i)) \<subseteq># mset (body_preds (?R ! 1)))"
    by blast
  moreover have "length ?R = 2" by simp
  ultimately show ?thesis using h by (auto simp del: list.size)
qed

text \<open>The facts one application of a rule derives, for rules whose body consists of positive
  atoms: a substitution of the variables that maps every body atom into the facts.\<close>

fun inst :: "(string \<Rightarrow> term_id) \<Rightarrow> Term \<Rightarrow> term_id option" where
  "inst \<sigma> (Var v) = Some (\<sigma> v)"
| "inst \<sigma> (Const c) = Some c"
| "inst \<sigma> _ = None"

definition inst_atom :: "(string \<Rightarrow> term_id) \<Rightarrow> Atom \<Rightarrow> term_id option \<times> term_id option \<times> term_id option" where
  "inst_atom \<sigma> a = (inst \<sigma> (atom_s a), inst \<sigma> (atom_p a), inst \<sigma> (atom_o a))"

definition derives :: "Rule \<Rightarrow> (term_id \<times> term_id \<times> term_id) set \<Rightarrow> term_id \<times> term_id \<times> term_id \<Rightarrow> bool" where
  "derives r facts = (\<lambda>(s, p, o').
     \<exists>\<sigma> h. rule_head r = Some h \<and> inst_atom \<sigma> h = (Some s, Some p, Some o')
       \<and> (\<forall>lit \<in> set (rule_body r). \<exists>a s p o'. lit = Positive a
            \<and> inst_atom \<sigma> a = (Some s, Some p, Some o') \<and> (s, p, o') \<in> facts))"

definition inverse_rule :: "term_id \<Rightarrow> term_id \<Rightarrow> string \<Rightarrow> Rule" where
  "inverse_rule head_p body_p txt =
     \<lparr>rule_head = Some \<lparr>atom_s = Var ''y'', atom_p = Const head_p, atom_o = Var ''x'', atom_g = DefaultGraph\<rparr>,
      rule_body = [Positive \<lparr>atom_s = Var ''x'', atom_p = Const body_p, atom_o = Var ''y'', atom_g = DefaultGraph\<rparr>],
      rule_text = txt, rule_weight = None\<rparr>"

lemma inverse_rule_simps [simp]:
  "head_pred (inverse_rule h b t) = Some h" "body_preds (inverse_rule h b t) = [b]"
  "rule_text (inverse_rule h b t) = t"
  by (simp_all add: inverse_rule_def head_pred_def atom_pred_def body_preds_def List.map_filter_simps)

lemma make_rule_body [simp]:
  "body_preds (make_rule h b False) = [b]" "rule_text (make_rule h b n) = []"
  by (simp_all add: make_rule_def body_preds_def List.map_filter_simps Let_def)

text \<open>The subsumption check does not look at the arguments of the atoms: of the
  rules \<open>x h y :- x b y\<close> and \<open>y h x :- x b y\<close> the second is dropped, and a fact it derives is
  derived by no rule that remains. The check is thus no sound optimisation.\<close>

lemma check_subsumption_unsound:
  assumes "txt \<noteq> []" "u \<noteq> v"
  shows "active_rules [make_rule h b False, inverse_rule h b txt] = [make_rule h b False]
    \<and> derives (inverse_rule h b txt) {(u, b, v)} (v, h, u)
    \<and> \<not> derives (make_rule h b False) {(u, b, v)} (v, h, u)"
proof (intro conjI)
  show "active_rules [make_rule h b False, inverse_rule h b txt] = [make_rule h b False]"
    using assms(1)
    by (simp add: active_rules_def check_subsumption_def is_eliminated_def subsumed_by_def Let_def
        is_multiset_subset_def)
  show "derives (inverse_rule h b txt) {(u, b, v)} (v, h, u)"
    by (auto simp: derives_def inverse_rule_def inst_atom_def
        intro!: exI [of _ "\<lambda>x. if x = ''x'' then u else v"])
  show "\<not> derives (make_rule h b False) {(u, b, v)} (v, h, u)"
    using assms(2) by (auto simp: derives_def make_rule_def inst_atom_def Let_def)
qed

lemma check_subsumption_unsound_witness:
  "active_rules [make_rule 10 20 False, inverse_rule 10 20 ''r2''] = [make_rule 10 20 False]
    \<and> derives (inverse_rule 10 20 ''r2'') {(1, 20, 2)} (2, 10, 1)
    \<and> \<not> derives (make_rule 10 20 False) {(1, 20, 2)} (2, 10, 1)"
  by (rule check_subsumption_unsound) simp_all

text \<open>A rule that occurs twice with the same text is lost altogether, since the
  caller drops every rule whose text was eliminated.\<close>

lemma duplicate_rule_lost:
  assumes "head_pred r = Some h"
  shows "active_rules [r, r] = []"
proof -
  have "is_multiset_subset (body_preds r) (body_preds r)" by (simp add: is_multiset_subset_iff)
  with assms show ?thesis
    by (simp add: active_rules_def check_subsumption_def is_eliminated_def subsumed_by_def Let_def)
qed

lemma duplicate_rule_lost_witness:
  "head_pred (make_rule 10 20 False) = Some 10
   \<and> active_rules [make_rule 10 20 False, make_rule 10 20 False] = []"
  using duplicate_rule_lost [of "make_rule 10 20 False" 10] by simp

section \<open>Aggregation stratification\<close>

lemma enqueue_new_spec:
  "enqueue_new xs vis q = (vis', q') \<Longrightarrow>
    vis' = vis \<union> set xs \<and> set q' = set q \<union> (set xs - vis)
    \<and> (finite T \<longrightarrow> set xs \<subseteq> T \<longrightarrow> card (T - vis') + length q' = card (T - vis) + length q)"
proof (induction xs arbitrary: vis q)
  case (Cons x xs)
  show ?case
  proof (cases "x \<in> vis")
    case True
    with Cons.IH [of vis q] Cons.prems show ?thesis by auto
  next
    case False
    have "Suc (card (T - insert x vis)) = card (T - vis)" if "finite T" "x \<in> T"
      using card_minus_insert [OF that False] .
    with Cons.IH [of "insert x vis" "q @ [x]"] Cons.prems False show ?thesis by auto
  qed
qed simp

definition list_rel :: "(term_id \<rightharpoonup> term_id list) \<Rightarrow> (term_id \<times> term_id) set" where
  "list_rel m = {(x, y). y \<in> set (get_list m x)}"

lemma closed_path: "(x, y) \<in> R\<^sup>* \<Longrightarrow> x \<in> S \<Longrightarrow> (\<And>u v. u \<in> S \<Longrightarrow> (u, v) \<in> R \<Longrightarrow> v \<in> S) \<Longrightarrow> y \<in> S"
  by (induction rule: rtrancl_induct) auto

text \<open>The breadth-first search decides whether the target is reachable from a visited node,
  provided the nodes it has finished have visited successors.\<close>

lemma positive_loop_spec:
  assumes T: "finite T" "\<And>x. set (get_list m x) \<subseteq> T"
  shows "card (T - vis) + length q \<le> fuel \<Longrightarrow> set q \<subseteq> vis \<Longrightarrow>
    \<forall>x \<in> vis - set q. x \<noteq> target \<and> set (get_list m x) \<subseteq> vis \<Longrightarrow>
    positive_loop fuel target m vis q = Some (\<exists>x \<in> vis. (x, target) \<in> (list_rel m)\<^sup>*)"
proof (induction fuel arbitrary: vis q)
  case 0
  then have "q = []" by simp
  moreover from this 0 have "(x, target) \<notin> (list_rel m)\<^sup>*" if "x \<in> vis" for x
    using closed_path [of x target "list_rel m" vis] that by (auto simp: list_rel_def)
  ultimately show ?case by auto
next
  case (Suc fuel)
  show ?case
  proof (cases q)
    case Nil
    with Suc.prems have "(x, target) \<notin> (list_rel m)\<^sup>*" if "x \<in> vis" for x
      using closed_path [of x target "list_rel m" vis] that by (auto simp: list_rel_def)
    with Nil show ?thesis by auto
  next
    case (Cons cur qs)
    show ?thesis
    proof (cases "cur = target")
      case True
      with Cons Suc.prems(2) show ?thesis by auto
    next
      case False
      obtain v q' where e: "enqueue_new (get_list m cur) vis qs = (v, q')" by force
      note sp = enqueue_new_spec [OF e, of T]
      have cur: "cur \<in> vis" using Suc.prems(2) Cons by simp
      have v: "v = vis \<union> set (get_list m cur)" "set q' = set qs \<union> (set (get_list m cur) - vis)"
        using sp by auto
      have "positive_loop fuel target m v q' = Some (\<exists>x \<in> v. (x, target) \<in> (list_rel m)\<^sup>*)"
      proof (rule Suc.IH)
        have "card (T - v) + length q' = card (T - vis) + length qs" using sp T by blast
        then show "card (T - v) + length q' \<le> fuel" using Suc.prems(1) Cons by simp
        show "set q' \<subseteq> v" using v Suc.prems(2) Cons by auto
        show "\<forall>x \<in> v - set q'. x \<noteq> target \<and> set (get_list m x) \<subseteq> v"
          using v Suc.prems(3) Cons False by auto
      qed
      moreover have "(\<exists>x \<in> v. (x, target) \<in> (list_rel m)\<^sup>*) \<longleftrightarrow> (\<exists>x \<in> vis. (x, target) \<in> (list_rel m)\<^sup>*)"
        using v(1) cur by (auto simp: list_rel_def intro: converse_rtrancl_into_rtrancl)
      ultimately show ?thesis using Cons False e by simp
    qed
  qed
qed

lemma get_list_empty: "get_list Map.empty k = []"
  by (simp add: get_list_def)

lemma get_list_pairs:
  "get_list (fold (\<lambda>(h, p). entry_push h p) ps m) k = get_list m k @ map snd (filter (\<lambda>e. fst e = k) ps)"
  using get_list_fold_push [of fst snd ps m k] by (simp add: case_prod_unfold)

lemma list_rel_pairs: "list_rel (fold (\<lambda>(h, p). entry_push h p) ps Map.empty) = set ps"
  unfolding list_rel_def get_list_pairs by (force simp: get_list_empty)

lemma can_reach_positive_iff:
  "can_reach_positive (Suc (length ps)) x y (fold (\<lambda>(h, p). entry_push h p) ps Map.empty)
     = Some ((x, y) \<in> (set ps)\<^sup>*)"
proof -
  let ?m = "fold (\<lambda>(h, p). entry_push h p) ps Map.empty"
  have "card (snd ` set ps - {x}) \<le> length ps"
    by (meson card_Diff1_le card_image_le card_length List.finite_set le_trans)
  then have "positive_loop (Suc (length ps)) y ?m {x} [x] = Some (\<exists>x \<in> {x}. (x, y) \<in> (list_rel ?m)\<^sup>*)"
    by (intro positive_loop_spec [where T = "snd ` set ps"]) (auto simp: get_list_pairs get_list_empty)
  then show ?thesis unfolding can_reach_positive_def list_rel_pairs by simp
qed

lemma agg_scan_iff:
  "agg_scan (Suc (length ps)) (fold (\<lambda>(h, p). entry_push h p) ps Map.empty) ds =
     Some (if \<exists>(h, p) \<in> set ds. (p, h) \<in> (set ps)\<^sup>* then Inl pt510_message else Inr ())"
proof (induction ds)
  case (Cons d ds)
  obtain h p where d: "d = (h, p)" by force
  show ?case
  proof (cases "(p, h) \<in> (set ps)\<^sup>*")
    case True
    with d show ?thesis by (simp add: can_reach_positive_iff)
  next
    case False
    with d Cons show ?thesis by (simp add: can_reach_positive_iff)
  qed
qed simp

text \<open>The aggregation check always returns, and refuses a program exactly when an
  aggregated predicate reaches the head of the aggregating rule through positive literals.\<close>

lemma check_aggregation_correct:
  "check_aggregation_stratification rules =
     Some (if \<exists>(h, p) \<in> set (rule_deps agg_dep rules). (p, h) \<in> (set (rule_deps pos_dep rules))\<^sup>*
           then Inl pt510_message else Inr ())"
  unfolding check_aggregation_stratification_def Let_def agg_scan_iff by auto

end
