(* ===== verification/Shmem.thy ===== *)
theory Shmem
  imports Prelude
begin

unbundle bit_operations_syntax

text \<open>
  The shared-memory objects of \<open>src/src/shmem.rs\<close>: the counter of unmerged delta rows, the
  counting Bloom filter that tells which predicates may have delta rows, and the 4-way
  set-associative encode cache. Every operation is a no-op until shared memory is ready.
  Words keep their width: the filter is 16 words of 64 bits with 1024 saturating 8-bit
  counters, a cache entry a 128-bit hash whose top two bits hold the age. Lock acquisition
  is not modelled: each operation holds its locks for its whole body.
\<close>

type_synonym u128 = "128 word"

record shmem =
  shmem_ready :: bool
  total_delta_rows :: i64
  delta_bloom :: "u64 list"
  delta_bloom_counters :: "8 word list"
  encode_cache_s0 :: "u128 list list"
  encode_cache_ids :: "i64 list list"
  cache_hits :: u64
  cache_misses :: u64
  cache_evictions :: u64
  my_database_id :: "32 word"

definition ENCODE_CACHE_SETS :: nat where
  "ENCODE_CACHE_SETS = 1024"

definition shmem_init :: "32 word \<Rightarrow> shmem" where
  "shmem_init oid = \<lparr>shmem_ready = True, total_delta_rows = 0, delta_bloom = replicate 16 0,
     delta_bloom_counters = replicate 1024 0,
     encode_cache_s0 = replicate ENCODE_CACHE_SETS (replicate 4 0),
     encode_cache_ids = replicate ENCODE_CACHE_SETS (replicate 4 0),
     cache_hits = 0, cache_misses = 0, cache_evictions = 0, my_database_id = oid\<rparr>"

section \<open>Delta row counter\<close>

definition record_delta_inserts :: "i64 \<Rightarrow> shmem \<Rightarrow> shmem" where
  "record_delta_inserts n sh =
     (if \<not> shmem_ready sh then sh else sh\<lparr>total_delta_rows := total_delta_rows sh + n\<rparr>)"

definition reset_delta_count :: "shmem \<Rightarrow> shmem" where
  "reset_delta_count sh = (if \<not> shmem_ready sh then sh else sh\<lparr>total_delta_rows := 0\<rparr>)"

definition delta_is_empty :: "shmem \<Rightarrow> bool" where
  "delta_is_empty sh = (if \<not> shmem_ready sh then False else total_delta_rows sh = 0)"

section \<open>Bloom filter\<close>

definition bloom_bits :: "i64 \<Rightarrow> nat \<times> nat" where
  "bloom_bits pred_id =
     (let h = pred_id :: u64;
          pos1 = drop_bit 54 (h * 0x9E3779B97F4A7C15);
          pos2 = drop_bit 54 (h * 0x6C62272E07BB0142)
      in (unat pos1, unat pos2))"

definition saturating_add1 :: "8 word \<Rightarrow> 8 word" where
  "saturating_add1 c = (if c = 255 then 255 else c + 1)"

definition saturating_sub1 :: "8 word \<Rightarrow> 8 word" where
  "saturating_sub1 c = (if c = 0 then 0 else c - 1)"

definition set_bit_at :: "nat \<Rightarrow> u64 list \<Rightarrow> u64 list" where
  "set_bit_at p bits = bits[p div 64 := bits ! (p div 64) OR push_bit (p mod 64) 1]"

definition clear_bit_at :: "nat \<Rightarrow> u64 list \<Rightarrow> u64 list" where
  "clear_bit_at p bits = bits[p div 64 := bits ! (p div 64) AND NOT (push_bit (p mod 64) 1)]"

definition test_bit_at :: "nat \<Rightarrow> u64 list \<Rightarrow> bool" where
  "test_bit_at p bits \<longleftrightarrow> drop_bit (p mod 64) (bits ! (p div 64)) AND 1 = 1"

definition set_predicate_delta_bit :: "i64 \<Rightarrow> shmem \<Rightarrow> shmem" where
  "set_predicate_delta_bit pred_id sh =
     (if \<not> shmem_ready sh then sh
      else (let (p1, p2) = bloom_bits pred_id;
                bits = set_bit_at p2 (set_bit_at p1 (delta_bloom sh));
                counters = delta_bloom_counters sh;
                counters = counters[p1 := saturating_add1 (counters ! p1)];
                counters = counters[p2 := saturating_add1 (counters ! p2)]
            in sh\<lparr>delta_bloom := bits, delta_bloom_counters := counters\<rparr>))"

definition clear_predicate_delta_bit :: "i64 \<Rightarrow> shmem \<Rightarrow> shmem" where
  "clear_predicate_delta_bit pred_id sh =
     (if \<not> shmem_ready sh then sh
      else (let (p1, p2) = bloom_bits pred_id;
                counters = delta_bloom_counters sh;
                counters = counters[p1 := saturating_sub1 (counters ! p1)];
                counters = counters[p2 := saturating_sub1 (counters ! p2)];
                bits = delta_bloom sh;
                bits = (if counters ! p1 = 0 then clear_bit_at p1 bits else bits);
                bits = (if counters ! p2 = 0 then clear_bit_at p2 bits else bits)
            in sh\<lparr>delta_bloom := bits, delta_bloom_counters := counters\<rparr>))"

definition predicate_may_have_delta :: "i64 \<Rightarrow> shmem \<Rightarrow> bool" where
  "predicate_may_have_delta pred_id sh =
     (if \<not> shmem_ready sh then True
      else (let (p1, p2) = bloom_bits pred_id in
            test_bit_at p1 (delta_bloom sh) \<or> test_bit_at p2 (delta_bloom sh)))"

definition reset_bloom_filter :: "shmem \<Rightarrow> shmem" where
  "reset_bloom_filter sh = (if \<not> shmem_ready sh then sh else sh\<lparr>delta_bloom := replicate 16 0\<rparr>)"

section \<open>Encode cache\<close>

definition age_mask :: u128 where
  "age_mask = 0x3FFFFFFFFFFFFFFFFFFFFFFFFFFFFFFF"

definition db_scoped_hash :: "32 word \<Rightarrow> u128 \<Rightarrow> u128" where
  "db_scoped_hash db_oid hash128 = hash128 XOR (ucast db_oid * 0x9E3779B97F4A7C15)"

definition set_index :: "u128 \<Rightarrow> nat" where
  "set_index hash128 = unat (drop_bit 118 hash128) mod ENCODE_CACHE_SETS"

definition extract_age :: "u128 \<Rightarrow> 8 word" where
  "extract_age way_hash = ucast (drop_bit 126 way_hash) AND 3"

definition pack_age :: "u128 \<Rightarrow> 8 word \<Rightarrow> u128" where
  "pack_age hash age = (hash AND age_mask) OR push_bit 126 (ucast age)"

fun find_way :: "u128 \<Rightarrow> u128 list \<Rightarrow> i64 list \<Rightarrow> nat option" where
  "find_way search (h # hs) (i # is) =
     (if h AND age_mask = search \<and> i \<noteq> 0 then Some 0 else map_option Suc (find_way search hs is))"
| "find_way search _ _ = None"

definition age_way :: "u128 \<Rightarrow> i64 \<Rightarrow> u128" where
  "age_way way_hash i =
     (if i \<noteq> 0 then
        (let age = extract_age way_hash in
         if age < 3 then pack_age (way_hash AND age_mask) (age + 1) else way_hash)
      else way_hash)"

definition encode_cache_lookup :: "u128 \<Rightarrow> shmem \<Rightarrow> i64 option \<times> shmem" where
  "encode_cache_lookup hash128 sh =
     (if \<not> shmem_ready sh then (None, sh)
      else (let scoped = db_scoped_hash (my_database_id sh) hash128;
                set_idx = set_index scoped;
                search_hash = scoped AND age_mask;
                set_hashes = encode_cache_s0 sh ! set_idx;
                set_ids = encode_cache_ids sh ! set_idx in
            case find_way search_hash set_hashes set_ids of
              Some way_idx \<Rightarrow>
                (Some (set_ids ! way_idx),
                 sh\<lparr>encode_cache_s0 := (encode_cache_s0 sh)
                      [set_idx := set_hashes[way_idx := pack_age search_hash 0]],
                    cache_hits := cache_hits sh + 1\<rparr>)
            | None \<Rightarrow>
                (None,
                 sh\<lparr>encode_cache_s0 := (encode_cache_s0 sh)
                      [set_idx := map2 age_way set_hashes set_ids],
                    cache_misses := cache_misses sh + 1\<rparr>)))"

fun empty_way :: "i64 list \<Rightarrow> nat option" where
  "empty_way [] = None"
| "empty_way (i # is) = (if i = 0 then Some 0 else map_option Suc (empty_way is))"

definition victim_way :: "u128 list \<Rightarrow> nat" where
  "victim_way set_hashes =
     fst (fold (\<lambda>way_idx (victim_idx, max_age).
                  let age = extract_age (set_hashes ! way_idx) in
                  if max_age < age then (way_idx, age) else (victim_idx, max_age))
            [1..<length set_hashes] (0, extract_age (set_hashes ! 0)))"

definition encode_cache_insert :: "u128 \<Rightarrow> i64 \<Rightarrow> shmem \<Rightarrow> shmem" where
  "encode_cache_insert hash128 i sh =
     (if \<not> shmem_ready sh then sh
      else (let scoped = db_scoped_hash (my_database_id sh) hash128;
                set_idx = set_index scoped;
                clean_hash = scoped AND age_mask;
                set_hashes = encode_cache_s0 sh ! set_idx;
                set_ids = encode_cache_ids sh ! set_idx;
                put = (\<lambda>w. sh\<lparr>encode_cache_s0 := (encode_cache_s0 sh)[set_idx := set_hashes[w := clean_hash]],
                             encode_cache_ids := (encode_cache_ids sh)[set_idx := set_ids[w := i]]\<rparr>) in
            case empty_way set_ids of
              Some way_idx \<Rightarrow> put way_idx
            | None \<Rightarrow> (put (victim_way set_hashes))\<lparr>cache_evictions := cache_evictions sh + 1\<rparr>))"

definition encode_cache_evict :: "u128 \<Rightarrow> shmem \<Rightarrow> shmem" where
  "encode_cache_evict hash128 sh =
     (if \<not> shmem_ready sh then sh
      else (let scoped = db_scoped_hash (my_database_id sh) hash128;
                set_idx = set_index scoped;
                search_hash = scoped AND age_mask;
                set_hashes = encode_cache_s0 sh ! set_idx;
                set_ids = encode_cache_ids sh ! set_idx in
            case find_way search_hash set_hashes set_ids of
              Some way_idx \<Rightarrow>
                sh\<lparr>encode_cache_s0 := (encode_cache_s0 sh)[set_idx := set_hashes[way_idx := 0]],
                   encode_cache_ids := (encode_cache_ids sh)[set_idx := set_ids[way_idx := 0]]\<rparr>
            | None \<Rightarrow> sh))"

definition encode_cache_clear_all :: "shmem \<Rightarrow> shmem" where
  "encode_cache_clear_all sh =
     (if \<not> shmem_ready sh then sh
      else sh\<lparr>encode_cache_s0 := replicate ENCODE_CACHE_SETS (replicate 4 0),
              encode_cache_ids := replicate ENCODE_CACHE_SETS (replicate 4 0)\<rparr>)"

text \<open>\<open>get_cache_stats\<close> up to its last division: hits, misses, evictions and the number of
  occupied ways, which the source divides by the capacity.\<close>

definition get_cache_stats :: "shmem \<Rightarrow> u64 \<times> u64 \<times> u64 \<times> nat" where
  "get_cache_stats sh =
     (if \<not> shmem_ready sh then (0, 0, 0, 0)
      else (cache_hits sh, cache_misses sh, cache_evictions sh,
            sum_list (map (\<lambda>set. length (filter (\<lambda>i. i \<noteq> 0) set)) (encode_cache_ids sh))))"

definition reset_cache_stats :: "shmem \<Rightarrow> shmem" where
  "reset_cache_stats sh =
     (if \<not> shmem_ready sh then sh
      else sh\<lparr>cache_hits := 0, cache_misses := 0, cache_evictions := 0\<rparr>)"

section \<open>The filter has no false negatives\<close>

lemma bloom_bits_bound: "fst (bloom_bits p) < 1024" "snd (bloom_bits p) < 1024"
proof -
  have "unat (drop_bit 54 (x :: 64 word)) < 1024" for x
    using unsigned_less [of x, where 'a = nat] unfolding unsigned_drop_bit_eq
    by (simp add: drop_bit_eq_div take_bit_eq_mod less_mult_imp_div_less)
  then show "fst (bloom_bits p) < 1024" "snd (bloom_bits p) < 1024"
    by (simp_all add: bloom_bits_def Let_def)
qed

lemma test_bit_at_bit: "test_bit_at p bits \<longleftrightarrow> bit (bits ! (p div 64)) (p mod 64)"
  by (simp add: test_bit_at_def bit_iff_and_drop_bit_eq_1)

lemma bit_pow2: "k < 64 \<Longrightarrow> bit (2 ^ k :: u64) j \<longleftrightarrow> j = k"
  by (auto simp: bit_exp_iff)

lemma div_mod_eq: "q div 64 = p div 64 \<Longrightarrow> q mod 64 = p mod 64 \<Longrightarrow> q = (p :: nat)"
  by (metis div_mult_mod_eq)

lemma test_set_bit_at:
  assumes "p < 1024" "length bits = 16"
  shows "test_bit_at q (set_bit_at p bits) \<longleftrightarrow> q = p \<or> test_bit_at q bits"
proof -
  have "p div 64 < length bits" using assms by simp
  then show ?thesis
    by (cases "q div 64 = p div 64")
      (auto simp: test_bit_at_bit set_bit_at_def bit_or_iff bit_pow2 dest: div_mod_eq)
qed

lemma test_clear_bit_at:
  assumes "p < 1024" "length bits = 16"
  shows "test_bit_at q (clear_bit_at p bits) \<longleftrightarrow> q \<noteq> p \<and> test_bit_at q bits"
proof -
  have "p div 64 < length bits" using assms by simp
  moreover have "bit w k \<Longrightarrow> k < 64" for w :: u64 and k
    using bit_imp_le_length [of w k] by simp
  ultimately show ?thesis
    by (cases "q div 64 = p div 64")
      (auto simp: test_bit_at_bit clear_bit_at_def bit_and_iff bit_not_iff bit_pow2 dest: div_mod_eq)
qed

lemma length_bits [simp]: "length (set_bit_at p bits) = length bits" "length (clear_bit_at p bits) = length bits"
  by (simp_all add: set_bit_at_def clear_bit_at_def)

lemma unat_saturating: 
  "unat (saturating_add1 c) = min 255 (unat c + 1)" "unat (saturating_sub1 c) = unat c - 1"
proof -
  have "unat c < 256" using unsigned_less [of c, where 'a = nat] by simp
  moreover have "c \<noteq> 255 \<Longrightarrow> unat c \<noteq> 255" using word_eq_iff_unsigned [of c 255, where 'a = nat] by auto
  ultimately show "unat (saturating_add1 c) = min 255 (unat c + 1)"
    by (auto simp: saturating_add1_def unat_word_ariths)
  show "unat (saturating_sub1 c) = unat c - 1"
    by (simp add: saturating_sub1_def unat_minus_one)
qed

definition hits :: "i64 \<Rightarrow> nat \<Rightarrow> nat" where
  "hits p b = of_bool (fst (bloom_bits p) = b) + of_bool (snd (bloom_bits p) = b)"

definition load :: "i64 set \<Rightarrow> nat \<Rightarrow> nat" where
  "load P b = (\<Sum>p \<in> P. hits p b)"

text \<open>The states of the filter in use: a row is written to the delta table of a predicate, a
  predicate with delta rows is merged, all deltas are compacted. \<open>P\<close> is the set of predicates
  that have delta rows. A counter has room for 255 of them per bit.\<close>

inductive delta_run :: "shmem \<Rightarrow> i64 set \<Rightarrow> bool" where
  start: "delta_run (shmem_init oid) {}"
| insert_row: "delta_run sh P \<Longrightarrow> \<forall>b. load (insert p P) b \<le> 255 \<Longrightarrow>
    delta_run (set_predicate_delta_bit p sh) (insert p P)"
| merged: "delta_run sh P \<Longrightarrow> p \<in> P \<Longrightarrow> delta_run (clear_predicate_delta_bit p sh) (P - {p})"
| compacted: "delta_run sh {} \<Longrightarrow> delta_run (reset_bloom_filter sh) {}"

definition bloom_inv :: "shmem \<Rightarrow> i64 set \<Rightarrow> bool" where
  "bloom_inv sh P \<longleftrightarrow>
     shmem_ready sh \<and> length (delta_bloom sh) = 16 \<and> length (delta_bloom_counters sh) = 1024 \<and> finite P
     \<and> (\<forall>b < 1024. load P b \<le> unat (delta_bloom_counters sh ! b)
           \<and> (0 < load P b \<longrightarrow> test_bit_at b (delta_bloom sh)))"

lemma load_insert: "finite P \<Longrightarrow> p \<notin> P \<Longrightarrow> load (insert p P) b = load P b + hits p b"
  by (simp add: load_def)

lemma load_remove: "finite P \<Longrightarrow> p \<in> P \<Longrightarrow> load P b = load (P - {p}) b + hits p b"
  unfolding load_def by (subst sum.remove) (auto simp: add.commute)

lemma bloom_set_counter:
  assumes "length (delta_bloom_counters sh) = 1024" "shmem_ready sh" "b < 1024"
  shows "unat (delta_bloom_counters (set_predicate_delta_bit p sh) ! b)
      = min 255 (unat (delta_bloom_counters sh ! b) + hits p b)"
  using assms bloom_bits_bound [of p] unsigned_less [of "delta_bloom_counters sh ! b", where 'a = nat]
  by (auto simp: set_predicate_delta_bit_def Let_def case_prod_unfold hits_def nth_list_update unat_saturating)

lemma bloom_clear_counter:
  assumes "length (delta_bloom_counters sh) = 1024" "shmem_ready sh" "b < 1024"
  shows "unat (delta_bloom_counters (clear_predicate_delta_bit p sh) ! b)
      = unat (delta_bloom_counters sh ! b) - hits p b"
  using assms bloom_bits_bound [of p]
  by (auto simp: clear_predicate_delta_bit_def Let_def case_prod_unfold hits_def nth_list_update unat_saturating)

lemma bloom_set_bit:
  assumes "length (delta_bloom sh) = 16" "shmem_ready sh"
  shows "test_bit_at b (delta_bloom (set_predicate_delta_bit p sh))
      \<longleftrightarrow> 0 < hits p b \<or> test_bit_at b (delta_bloom sh)"
  using assms bloom_bits_bound [of p]
  by (auto simp: set_predicate_delta_bit_def Let_def case_prod_unfold hits_def test_set_bit_at)

lemma bloom_clear_bit:
  assumes "length (delta_bloom sh) = 16" "length (delta_bloom_counters sh) = 1024" "shmem_ready sh"
    and "test_bit_at b (delta_bloom sh)" "b < 1024"
    and "0 < unat (delta_bloom_counters (clear_predicate_delta_bit p sh) ! b)"
  shows "test_bit_at b (delta_bloom (clear_predicate_delta_bit p sh))"
  using assms bloom_bits_bound [of p]
  by (auto simp: clear_predicate_delta_bit_def Let_def case_prod_unfold test_clear_bit_at)

lemma bloom_inv_run: "delta_run sh P \<Longrightarrow> bloom_inv sh P"
proof (induction rule: delta_run.induct)
  case (start oid)
  then show ?case by (simp add: bloom_inv_def shmem_init_def load_def)
next
  case (insert_row sh P p)
  let ?sh = "set_predicate_delta_bit p sh"
  have inv: "bloom_inv sh P" by (rule insert_row.IH)
  then have basic: "shmem_ready ?sh" "length (delta_bloom ?sh) = 16" "length (delta_bloom_counters ?sh) = 1024"
    by (simp_all add: bloom_inv_def set_predicate_delta_bit_def Let_def case_prod_unfold)
  have "load (insert p P) b \<le> unat (delta_bloom_counters ?sh ! b)
      \<and> (0 < load (insert p P) b \<longrightarrow> test_bit_at b (delta_bloom ?sh))" if b: "b < 1024" for b
  proof -
    have "load (insert p P) b \<le> load P b + hits p b"
      using inv by (cases "p \<in> P") (simp_all add: insert_absorb load_insert bloom_inv_def)
    moreover have "load (insert p P) b \<le> 255" using insert_row.hyps by blast
    moreover have "unat (delta_bloom_counters ?sh ! b) = min 255 (unat (delta_bloom_counters sh ! b) + hits p b)"
      using bloom_set_counter [OF _ _ b] inv by (simp add: bloom_inv_def)
    moreover have "load P b \<le> unat (delta_bloom_counters sh ! b)" using inv b by (simp add: bloom_inv_def)
    moreover have "0 < load P b \<Longrightarrow> test_bit_at b (delta_bloom sh)" using inv b by (simp add: bloom_inv_def)
    ultimately show ?thesis
      using bloom_set_bit [of sh b p] inv by (auto simp: bloom_inv_def)
  qed
  with basic inv show ?case by (simp add: bloom_inv_def)
next
  case (merged sh P p)
  let ?sh = "clear_predicate_delta_bit p sh"
  have inv: "bloom_inv sh P" by (rule merged.IH)
  then have basic: "shmem_ready ?sh" "length (delta_bloom ?sh) = 16" "length (delta_bloom_counters ?sh) = 1024"
    by (simp_all add: bloom_inv_def clear_predicate_delta_bit_def Let_def case_prod_unfold)
  have "load (P - {p}) b \<le> unat (delta_bloom_counters ?sh ! b)
      \<and> (0 < load (P - {p}) b \<longrightarrow> test_bit_at b (delta_bloom ?sh))" if b: "b < 1024" for b
  proof -
    have l: "load P b = load (P - {p}) b + hits p b"
      using load_remove inv merged.hyps(2) by (simp add: bloom_inv_def)
    have "unat (delta_bloom_counters ?sh ! b) = unat (delta_bloom_counters sh ! b) - hits p b"
      using bloom_clear_counter [OF _ _ b] inv by (simp add: bloom_inv_def)
    moreover have "load P b \<le> unat (delta_bloom_counters sh ! b)" using inv b by (simp add: bloom_inv_def)
    ultimately have le: "load (P - {p}) b \<le> unat (delta_bloom_counters ?sh ! b)" using l by simp
    have "test_bit_at b (delta_bloom ?sh)" if "0 < load (P - {p}) b"
      using that le l inv b by (intro bloom_clear_bit) (auto simp: bloom_inv_def)
    with le show ?thesis by blast
  qed
  with basic inv show ?case by (simp add: bloom_inv_def)
next
  case (compacted sh)
  then show ?case by (auto simp: bloom_inv_def reset_bloom_filter_def load_def)
qed



section \<open>The encode cache answers with dictionary identifiers\<close>

lemma age_mask_eq: "age_mask = mask 126"
  by (simp add: age_mask_def mask_eq_exp_minus_1)

lemma clean_idem [simp]: "(h AND age_mask) AND age_mask = h AND age_mask"
  by (simp add: and.assoc)

lemma clean_pack_age [simp]: "pack_age h a AND age_mask = h AND age_mask"
  by (rule bit_word_eqI) (auto simp: pack_age_def age_mask_eq bit_simps)

lemma clean_age_way [simp]: "age_way h i AND age_mask = h AND age_mask"
  by (simp add: age_way_def Let_def)

lemma clean_zero [simp]: "(0 :: u128) AND age_mask = 0"
  by simp

text \<open>Set index and the lower 126 bits determine a hash: the index contains the two bits the
  age field overlays.\<close>

lemma unat_drop_bit_less: "unat (drop_bit 118 (h :: u128)) < 1024"
proof -
  have "unat h < 2 ^ 128" using unsigned_less [of h, where 'a = nat] by simp
  then show ?thesis unfolding unsigned_drop_bit_eq
    by (simp add: drop_bit_eq_div take_bit_eq_mod less_mult_imp_div_less)
qed

lemma hash_determined:
  assumes "set_index h = set_index h'" "h AND age_mask = h' AND age_mask"
  shows "h = h'"
proof (rule bit_word_eqI)
  fix n assume n: "n < LENGTH(128)"
  from assms(1) unat_drop_bit_less have "unat (drop_bit 118 h) = unat (drop_bit 118 h')"
    by (simp add: set_index_def ENCODE_CACHE_SETS_def)
  then have hi: "drop_bit 118 h = drop_bit 118 h'"
    by (simp add: word_eq_iff_unsigned [where 'a = nat])
  show "bit h n \<longleftrightarrow> bit h' n"
  proof (cases "n < 126")
    case True
    from arg_cong [OF assms(2), of "\<lambda>w. bit w n"] True show ?thesis
      by (simp add: age_mask_eq bit_simps)
  next
    case False
    then have "bit (drop_bit 118 w) (n - 118) = bit w n" for w :: u128
      by (simp only: bit_drop_bit_eq comp_apply) simp
    with hi show ?thesis by metis
  qed
qed

lemma xor_cancel: "(a XOR k) XOR k = (a :: u128)"
  by (simp add: xor.assoc)

lemma db_scoped_hash_inj: "db_scoped_hash oid h = db_scoped_hash oid h' \<Longrightarrow> h = h'"
proof -
  let ?k = "ucast oid * 0x9E3779B97F4A7C15 :: u128"
  assume "db_scoped_hash oid h = db_scoped_hash oid h'"
  then have "(h XOR ?k) XOR ?k = (h' XOR ?k) XOR ?k" unfolding db_scoped_hash_def by (rule arg_cong)
  then show ?thesis unfolding xor_cancel .
qed

definition shape_ok :: "shmem \<Rightarrow> bool" where
  "shape_ok sh \<longleftrightarrow>
     length (encode_cache_s0 sh) = ENCODE_CACHE_SETS \<and> length (encode_cache_ids sh) = ENCODE_CACHE_SETS
     \<and> (\<forall>k < ENCODE_CACHE_SETS. length (encode_cache_s0 sh ! k) = 4 \<and> length (encode_cache_ids sh ! k) = 4)"

text \<open>\<open>cache_ok D\<close>: every occupied way holds the identifier that \<open>D\<close> gives the hash stored there.\<close>

definition entry_ok :: "(u128 \<Rightarrow> i64) \<Rightarrow> 32 word \<Rightarrow> nat \<Rightarrow> u128 \<Rightarrow> i64 \<Rightarrow> bool" where
  "entry_ok D oid k way i \<longleftrightarrow>
     (i \<noteq> 0 \<longrightarrow> (\<exists>h. set_index (db_scoped_hash oid h) = k
                   \<and> way AND age_mask = db_scoped_hash oid h AND age_mask \<and> i = D h))"

definition cache_ok :: "(u128 \<Rightarrow> i64) \<Rightarrow> shmem \<Rightarrow> bool" where
  "cache_ok D sh \<longleftrightarrow> shape_ok sh \<and>
     (\<forall>k < ENCODE_CACHE_SETS. \<forall>w < 4.
        entry_ok D (my_database_id sh) k (encode_cache_s0 sh ! k ! w) (encode_cache_ids sh ! k ! w))"

lemma find_way_Some:
  "find_way s hs is = Some w \<Longrightarrow> w < length hs \<and> w < length is \<and> hs ! w AND age_mask = s \<and> is ! w \<noteq> 0"
  by (induction s hs "is" arbitrary: w rule: find_way.induct) (auto split: if_splits)

lemma find_way_None:
  "find_way s hs is = None \<Longrightarrow> w < length hs \<Longrightarrow> w < length is \<Longrightarrow> hs ! w AND age_mask = s \<Longrightarrow> is ! w = 0"
proof (induction s hs "is" arbitrary: w rule: find_way.induct)
  case (1 search h hs i "is")
  then show ?case by (cases w) (auto split: if_splits)
qed auto

lemma empty_way_Some: "empty_way is = Some w \<Longrightarrow> w < length is \<and> is ! w = 0"
  by (induction "is" arbitrary: w) (auto split: if_splits)

lemma victim_way_bound: "hs \<noteq> [] \<Longrightarrow> victim_way hs < length hs"
proof -
  assume "hs \<noteq> []"
  have "fst (fold (\<lambda>j (v, m). let age = extract_age (hs ! j) in if m < age then (j, age) else (v, m)) js (v0, m0))
      < length hs" if "\<forall>j \<in> set js. j < length hs" "v0 < length hs" for js v0 m0
    using that by (induction js arbitrary: v0 m0) (auto simp: Let_def split: if_splits)
  from this [of "[1..<length hs]" 0] \<open>hs \<noteq> []\<close> show ?thesis by (simp add: victim_way_def)
qed

lemma set_index_bound [simp]: "set_index h < ENCODE_CACHE_SETS"
  by (simp add: set_index_def ENCODE_CACHE_SETS_def)

lemma entry_ok_same_hash: "h AND age_mask = h' AND age_mask \<Longrightarrow> entry_ok D oid k h i = entry_ok D oid k h' i"
  by (simp add: entry_ok_def)

lemma cache_ok_entry:
  "cache_ok D sh \<Longrightarrow> k < ENCODE_CACHE_SETS \<Longrightarrow> w < 4 \<Longrightarrow>
    entry_ok D (my_database_id sh) k (encode_cache_s0 sh ! k ! w) (encode_cache_ids sh ! k ! w)"
  by (simp add: cache_ok_def)

text \<open>Replacing one set keeps the invariant when the new set is well-formed.\<close>

lemma cache_ok_update:
  assumes ok: "cache_ok D sh" and k: "k < ENCODE_CACHE_SETS" and len: "length hs = 4" "length is = 4"
    and new: "\<And>w. w < 4 \<Longrightarrow> entry_ok D (my_database_id sh) k (hs ! w) (is ! w)"
  shows "cache_ok D (sh\<lparr>encode_cache_s0 := (encode_cache_s0 sh)[k := hs],
                       encode_cache_ids := (encode_cache_ids sh)[k := is]\<rparr>)"
  using assms by (auto simp: cache_ok_def shape_ok_def nth_list_update)

lemma cache_ok_cong:
  "encode_cache_s0 sh' = encode_cache_s0 sh \<Longrightarrow> encode_cache_ids sh' = encode_cache_ids sh \<Longrightarrow>
    my_database_id sh' = my_database_id sh \<Longrightarrow> cache_ok D sh' = cache_ok D sh"
  by (simp add: cache_ok_def shape_ok_def)

lemma lookup_keeps_cache:
  assumes ok: "cache_ok D sh" and l: "encode_cache_lookup h sh = (r, sh')"
  shows "cache_ok D sh'"
proof (cases "shmem_ready sh")
  case True
  define scoped where "scoped = db_scoped_hash (my_database_id sh) h"
  define k where "k = set_index scoped"
  let ?hs = "encode_cache_s0 sh ! k" and ?is = "encode_cache_ids sh ! k"
  have k: "k < ENCODE_CACHE_SETS" by (simp add: k_def)
  have len: "length ?hs = 4" "length ?is = 4" using ok k by (auto simp: cache_ok_def shape_ok_def)
  have keep: "cache_ok D (sh\<lparr>encode_cache_s0 := (encode_cache_s0 sh)[k := hs]\<rparr>)"
    if "length hs = 4" "\<And>w. w < 4 \<Longrightarrow> hs ! w AND age_mask = ?hs ! w AND age_mask" for hs
  proof -
    have "cache_ok D (sh\<lparr>encode_cache_s0 := (encode_cache_s0 sh)[k := hs],
                        encode_cache_ids := (encode_cache_ids sh)[k := ?is]\<rparr>)"
      by (rule cache_ok_update [OF ok k that(1) len(2)])
        (use cache_ok_entry [OF ok k] entry_ok_same_hash that(2) in blast)
    then show ?thesis by (simp add: cache_ok_def shape_ok_def)
  qed
  show ?thesis
  proof (cases "find_way (scoped AND age_mask) ?hs ?is")
    case None
    then have "sh' = sh\<lparr>encode_cache_s0 := (encode_cache_s0 sh)[k := map2 age_way ?hs ?is],
                      cache_misses := cache_misses sh + 1\<rparr>"
      using l True by (auto simp: encode_cache_lookup_def Let_def k_def scoped_def)
    moreover have "cache_ok D (sh\<lparr>encode_cache_s0 := (encode_cache_s0 sh)[k := map2 age_way ?hs ?is]\<rparr>)"
      by (rule keep) (use len in auto)
    ultimately show ?thesis by (simp add: cache_ok_def shape_ok_def)
  next
    case (Some w)
    then have "sh' = sh\<lparr>encode_cache_s0 := (encode_cache_s0 sh)[k := ?hs[w := pack_age (scoped AND age_mask) 0]],
                      cache_hits := cache_hits sh + 1\<rparr>"
      using l True by (auto simp: encode_cache_lookup_def Let_def k_def scoped_def)
    moreover have "cache_ok D (sh\<lparr>encode_cache_s0 := (encode_cache_s0 sh)
                                    [k := ?hs[w := pack_age (scoped AND age_mask) 0]]\<rparr>)"
      by (rule keep) (use len find_way_Some [OF Some] in \<open>auto simp: nth_list_update\<close>)
    ultimately show ?thesis by (simp add: cache_ok_def shape_ok_def)
  qed
qed (use assms in \<open>simp add: encode_cache_lookup_def\<close>)

lemma lookup_sound:
  assumes ok: "cache_ok D sh" and l: "encode_cache_lookup h sh = (Some i, sh')"
  shows "i = D h"
proof -
  define scoped where "scoped = db_scoped_hash (my_database_id sh) h"
  define k where "k = set_index scoped"
  have ready: "shmem_ready sh" using l by (auto simp: encode_cache_lookup_def split: if_splits)
  then obtain w where w: "find_way (scoped AND age_mask) (encode_cache_s0 sh ! k) (encode_cache_ids sh ! k) = Some w"
    and i: "i = encode_cache_ids sh ! k ! w"
    using l by (auto simp: encode_cache_lookup_def Let_def k_def scoped_def split: option.splits)
  have k: "k < ENCODE_CACHE_SETS" by (simp add: k_def)
  with ok find_way_Some [OF w] have w4: "w < 4" by (auto simp: cache_ok_def shape_ok_def)
  from cache_ok_entry [OF ok k w4] find_way_Some [OF w] i obtain h' where
    "set_index (db_scoped_hash (my_database_id sh) h') = k"
    "scoped AND age_mask = db_scoped_hash (my_database_id sh) h' AND age_mask" "i = D h'"
    by (auto simp: entry_ok_def)
  then show ?thesis
    using hash_determined [of scoped "db_scoped_hash (my_database_id sh) h'"] db_scoped_hash_inj
    unfolding scoped_def k_def by metis
qed

lemma insert_keeps_cache:
  assumes ok: "cache_ok D sh" and i: "i = D h"
  shows "cache_ok D (encode_cache_insert h i sh)"
proof (cases "shmem_ready sh")
  case True
  define scoped where "scoped = db_scoped_hash (my_database_id sh) h"
  define k where "k = set_index scoped"
  let ?hs = "encode_cache_s0 sh ! k" and ?is = "encode_cache_ids sh ! k"
  have k: "k < ENCODE_CACHE_SETS" by (simp add: k_def)
  have len: "length ?hs = 4" "length ?is = 4" using ok k by (auto simp: cache_ok_def shape_ok_def)
  have new: "entry_ok D (my_database_id sh) k (scoped AND age_mask) i"
    unfolding entry_ok_def using i k_def scoped_def by auto
  have put: "cache_ok D (sh\<lparr>encode_cache_s0 := (encode_cache_s0 sh)[k := ?hs[w := scoped AND age_mask]],
                           encode_cache_ids := (encode_cache_ids sh)[k := ?is[w := i]]\<rparr>)" for w
  proof (rule cache_ok_update [OF ok k])
    fix v assume v: "v < (4::nat)"
    show "entry_ok D (my_database_id sh) k (?hs[w := scoped AND age_mask] ! v) (?is[w := i] ! v)"
      using len new cache_ok_entry [OF ok k v] v by (cases "v = w") auto
  qed (use len in auto)
  show ?thesis
    using True put
    by (auto simp: encode_cache_insert_def Let_def cache_ok_def shape_ok_def
        simp flip: scoped_def k_def split: option.splits)
qed (use ok in \<open>simp add: encode_cache_insert_def\<close>)

lemma insert_then_lookup:
  assumes ok: "cache_ok D sh" and i: "i = D h" "i \<noteq> 0" and ready: "shmem_ready sh"
  shows "fst (encode_cache_lookup h (encode_cache_insert h i sh)) = Some i"
proof -
  let ?sh = "encode_cache_insert h i sh"
  define scoped where "scoped = db_scoped_hash (my_database_id sh) h"
  define k where "k = set_index scoped"
  let ?hs = "encode_cache_s0 sh ! k" and ?is = "encode_cache_ids sh ! k"
  have k: "k < ENCODE_CACHE_SETS" by (simp add: k_def)
  have len: "length ?hs = 4" "length ?is = 4" "k < length (encode_cache_s0 sh)" "k < length (encode_cache_ids sh)"
    using ok k by (auto simp: cache_ok_def shape_ok_def)
  define w where "w = (case empty_way ?is of Some w \<Rightarrow> w | None \<Rightarrow> victim_way ?hs)"
  have "?hs \<noteq> []" using len(1) by auto
  then have w: "w < 4" using len victim_way_bound [of ?hs]
    by (auto simp: w_def dest!: empty_way_Some split: option.splits)
  have s0: "encode_cache_s0 ?sh ! k = ?hs[w := scoped AND age_mask]"
    and ids: "encode_cache_ids ?sh ! k = ?is[w := i]"
    and same: "my_database_id ?sh = my_database_id sh" "shmem_ready ?sh"
    using ready len
    by (auto simp: encode_cache_insert_def Let_def w_def simp flip: scoped_def k_def split: option.splits)
  have "find_way (scoped AND age_mask) (?hs[w := scoped AND age_mask]) (?is[w := i]) \<noteq> None"
    using find_way_None [of "scoped AND age_mask" "?hs[w := scoped AND age_mask]" "?is[w := i]" w] w len i(2)
    by auto
  then obtain j sh' where l: "encode_cache_lookup h ?sh = (Some j, sh')"
    using same s0 ids by (auto simp: encode_cache_lookup_def Let_def simp flip: scoped_def k_def)
  with lookup_sound [OF insert_keeps_cache [OF ok i(1)] l] i show ?thesis by simp
qed

lemma evict_keeps_cache: "cache_ok D sh \<Longrightarrow> cache_ok D (encode_cache_evict h sh)"
proof -
  assume ok: "cache_ok D sh"
  define scoped where "scoped = db_scoped_hash (my_database_id sh) h"
  define k where "k = set_index scoped"
  have k: "k < ENCODE_CACHE_SETS" by (simp add: k_def)
  have "cache_ok D (sh\<lparr>encode_cache_s0 := (encode_cache_s0 sh)[k := (encode_cache_s0 sh ! k)[w := 0]],
                      encode_cache_ids := (encode_cache_ids sh)[k := (encode_cache_ids sh ! k)[w := 0]]\<rparr>)" for w
  proof (rule cache_ok_update [OF ok k])
    fix v assume v: "v < (4::nat)"
    have "length (encode_cache_s0 sh ! k) = 4" "length (encode_cache_ids sh ! k) = 4"
      using ok k by (auto simp: cache_ok_def shape_ok_def)
    then show "entry_ok D (my_database_id sh) k ((encode_cache_s0 sh ! k)[w := 0] ! v)
        ((encode_cache_ids sh ! k)[w := 0] ! v)"
      using cache_ok_entry [OF ok k v] v by (cases "v = w") (auto simp: entry_ok_def)
  qed (use ok k in \<open>auto simp: cache_ok_def shape_ok_def\<close>)
  with ok show ?thesis
    by (auto simp: encode_cache_evict_def Let_def simp flip: scoped_def k_def split: option.splits)
qed

lemma clear_keeps_cache: "cache_ok D sh \<Longrightarrow> cache_ok D (encode_cache_clear_all sh)"
  by (auto simp: encode_cache_clear_all_def cache_ok_def shape_ok_def entry_ok_def)

lemma init_cache_ok: "cache_ok D (shmem_init oid)"
  by (simp add: cache_ok_def shape_ok_def entry_ok_def shmem_init_def)

text \<open>Property C39. If the cache holds only identifiers the dictionary \<open>D\<close> gives to their hashes,
  a hit returns the identifier of the hash that was looked up, never that of another hash
  that fell into the same set, and the operations keep the cache in that condition; an
  inserted entry is found by the next lookup of its hash.\<close>

theorem encode_cache_correct:
  assumes "cache_ok D sh"
  shows "(\<forall>h i sh'. encode_cache_lookup h sh = (Some i, sh') \<longrightarrow> i = D h)
    \<and> (\<forall>h. cache_ok D (snd (encode_cache_lookup h sh)))
    \<and> (\<forall>h. cache_ok D (encode_cache_insert h (D h) sh)
          \<and> (shmem_ready sh \<and> D h \<noteq> 0 \<longrightarrow>
               fst (encode_cache_lookup h (encode_cache_insert h (D h) sh)) = Some (D h)))
    \<and> (\<forall>h. cache_ok D (encode_cache_evict h sh)) \<and> cache_ok D (encode_cache_clear_all sh)"
proof (intro conjI allI impI)
  fix h i sh' assume "encode_cache_lookup h sh = (Some i, sh')"
  then show "i = D h" by (rule lookup_sound [OF assms])
next
  fix h show "cache_ok D (snd (encode_cache_lookup h sh))"
    by (rule lookup_keeps_cache [OF assms, of h "fst (encode_cache_lookup h sh)"]) simp
next
  fix h assume "shmem_ready sh \<and> D h \<noteq> 0"
  then show "fst (encode_cache_lookup h (encode_cache_insert h (D h) sh)) = Some (D h)"
    by (intro insert_then_lookup [OF assms]) auto
qed (auto intro: insert_keeps_cache evict_keeps_cache clear_keeps_cache assms)

theorem encode_cache_correct_witness:
  "cache_ok (\<lambda>h. ucast h + 1) (shmem_init 5)
   \<and> fst (encode_cache_lookup 17 (encode_cache_insert 17 18 (shmem_init 5))) = Some 18"
proof -
  let ?D = "\<lambda>h :: u128. ucast h + 1 :: i64"
  have ready: "shmem_ready (shmem_init 5)" by (simp add: shmem_init_def)
  have ok: "cache_ok ?D (shmem_init 5)" by (rule init_cache_ok)
  have D: "?D 17 = 18" by simp
  from encode_cache_correct [OF ok] have "shmem_ready (shmem_init 5) \<and> ?D 17 \<noteq> 0 \<longrightarrow>
      fst (encode_cache_lookup 17 (encode_cache_insert 17 (?D 17) (shmem_init 5))) = Some (?D 17)" by blast
  with ready ok show ?thesis unfolding D by simp
qed

end
