(* ===== verification/Htap_Store.thy ===== *)
theory Htap_Store
  imports Shmem "HOL-Library.Product_Lexorder"
begin

text \<open>
  The triple store (\<open>src/src/storage\<close>): vertical-partition tables split into delta, main and
  tombstones (\<open>merge.rs\<close>), the table of rare predicates (\<open>vp_rare_io.rs\<close>), promotion
  (\<open>promote.rs\<close>), insertion, deletion and scans (\<open>ops/mod.rs\<close>, \<open>ops/scan.rs\<close>,
  \<open>ops/dedup.rs\<close>) and the mutation journal (\<open>mutation_journal.rs\<close>).

  The code works through SQL statements. A table is a list of rows, and each statement is
  the list function it denotes: a \<open>UNIQUE\<close> constraint with its \<open>ON CONFLICT\<close> clause is the
  case distinction on whether the key occurs, \<open>LEFT JOIN ... WHERE t.s IS NULL\<close> is the
  anti-join, \<open>DISTINCT ON (s, o, g) ... ORDER BY s, o, g, i\<close> keeps the first row of each key
  in that order, a column default \<open>nextval\<close> draws the next number of the sequence (also when
  the insert then conflicts). Statements run one after the other in one transaction; the
  advisory locks, indexes, \<open>ANALYZE\<close>, \<open>VACUUM\<close>, notifications and row-level security of the
  source do not change rows and have no counterpart. Terms come already encoded.
\<close>

section \<open>Tables\<close>

record vp_row =
  row_s :: term_id
  row_o :: term_id
  row_g :: term_id
  row_i :: int
  row_source :: int

type_synonym sog = "term_id \<times> term_id \<times> term_id"

definition row_key :: "vp_row \<Rightarrow> sog" where
  "row_key r = (row_s r, row_o r, row_g r)"

definition mk_row :: "term_id \<Rightarrow> term_id \<Rightarrow> term_id \<Rightarrow> int \<Rightarrow> vp_row" where
  "mk_row s ob g i = \<lparr>row_s = s, row_o = ob, row_g = g, row_i = i, row_source = 0\<rparr>"

record vp_table =
  vp_delta :: "vp_row list"
  vp_main :: "vp_row list"
  vp_tombs :: "(sog \<times> int) list"
  vp_view_tombs :: bool

definition empty_vp :: vp_table where
  "empty_vp = \<lparr>vp_delta = [], vp_main = [], vp_tombs = [], vp_view_tombs = True\<rparr>"

record pred_row =
  pr_table_oid :: bool
  pr_triple_count :: int
  pr_htap :: bool
  pr_tombstone_count :: int
  pr_promoting :: bool

datatype WriteKind = WriteInsert | WriteDelete

record temporal_fact =
  tf_s :: term_id
  tf_p :: term_id
  tf_o :: term_id
  tf_g :: term_id
  tf_valid_from :: int
  tf_valid_to :: "int option"

record store =
  st_vp :: "term_id \<Rightarrow> vp_table"
  st_rare :: "(term_id \<times> vp_row) list"
  st_predicates :: "(term_id \<times> pred_row) list"
  st_seq :: int
  st_statements :: "(term_id \<times> int \<times> int) list"
  st_schema_generation :: int
  st_shmem :: shmem
  st_journal :: "(term_id \<times> WriteKind) list"
  st_has_rules :: bool
  st_temporal :: "term_id \<rightharpoonup> string"
  st_temporal_facts :: "temporal_fact list"
  st_confidence :: "int list"
  st_subject_patterns :: "term_id \<rightharpoonup> term_id list"
  st_object_patterns :: "term_id \<rightharpoonup> term_id list"

text \<open>\<open>st_confidence\<close> holds the \<open>statement_id\<close> of each row of the confidence side table, the pattern
  maps the rows of \<open>subject_patterns\<close> and \<open>object_patterns\<close> by their primary key.\<close>

text \<open>The settings the storage code reads.\<close>

record storage_gucs =
  VPP_THRESHOLD :: int
  DEDUP_ON_MERGE :: bool
  TOMBSTONE_RETENTION_SECONDS :: int
  TEMPORAL_CDC_ENABLED :: bool
  BULK_LOAD_USE_COPY :: bool
  EXPORT_BATCH_SIZE :: nat

definition upd_vp :: "term_id \<Rightarrow> (vp_table \<Rightarrow> vp_table) \<Rightarrow> store \<Rightarrow> store" where
  "upd_vp p f st = st\<lparr>st_vp := (st_vp st)(p := f (st_vp st p))\<rparr>"

text \<open>\<open>UPDATE _pg_ripple.predicates SET ... WHERE id = $1\<close>.\<close>

definition upd_pred :: "term_id \<Rightarrow> (pred_row \<Rightarrow> pred_row) \<Rightarrow> store \<Rightarrow> store" where
  "upd_pred p f st =
     st\<lparr>st_predicates := map (\<lambda>(k, r). if k = p then (k, f r) else (k, r)) (st_predicates st)\<rparr>"

definition pred_lookup :: "store \<Rightarrow> term_id \<Rightarrow> pred_row option" where
  "pred_lookup st p = map_of (st_predicates st) p"

definition get_dedicated_vp_table :: "term_id \<Rightarrow> store \<Rightarrow> bool" where
  "get_dedicated_vp_table p st =
     (case pred_lookup st p of Some r \<Rightarrow> pr_table_oid r | None \<Rightarrow> False)"

definition is_htap :: "term_id \<Rightarrow> store \<Rightarrow> bool" where
  "is_htap p st = (case pred_lookup st p of Some r \<Rightarrow> pr_htap r | None \<Rightarrow> False)"

text \<open>\<open>SELECT id FROM _pg_ripple.predicates WHERE table_oid IS NOT NULL\<close>.\<close>

definition dedicated_ids :: "store \<Rightarrow> term_id list" where
  "dedicated_ids st = map fst (filter (\<lambda>(k, r). pr_table_oid r) (st_predicates st))"

definition nextval :: "store \<Rightarrow> int \<times> store" where
  "nextval st = (st_seq st + 1, st\<lparr>st_seq := st_seq st + 1\<rparr>)"

section \<open>The read view\<close>

definition order_key :: "vp_row \<Rightarrow> sog \<times> int" where
  "order_key r = (row_key r, row_i r)"

function first_of_groups :: "vp_row list \<Rightarrow> vp_row list" where
  "first_of_groups [] = []"
| "first_of_groups (r # rs) = r # first_of_groups (dropWhile (\<lambda>q. row_key q = row_key r) rs)"
  by pat_completeness auto
termination by (relation "measure length") (auto simp: less_Suc_eq_le length_dropWhile_le)

definition distinct_on_key :: "vp_row list \<Rightarrow> vp_row list" where
  "distinct_on_key rows = first_of_groups (sort_key order_key rows)"

definition live_main :: "vp_table \<Rightarrow> vp_row list" where
  "live_main t = filter (\<lambda>r. row_key r \<notin> fst ` set (vp_tombs t)) (vp_main t)"

text \<open>\<open>htap_view_sql\<close>: the rows the view returns, in its tombstone-aware and its
  tombstone-free form.\<close>

definition htap_view_rows :: "bool \<Rightarrow> vp_table \<Rightarrow> vp_row list" where
  "htap_view_rows has_tombstones t =
     (if has_tombstones then distinct_on_key (live_main t @ vp_delta t)
      else distinct_on_key (vp_main t @ vp_delta t))"

definition view_rows :: "vp_table \<Rightarrow> vp_row list" where
  "view_rows t = htap_view_rows (vp_view_tombs t) t"

definition rebuild_htap_view :: "term_id \<Rightarrow> bool \<Rightarrow> store \<Rightarrow> store" where
  "rebuild_htap_view p has_tombstones st = upd_vp p (\<lambda>t. t\<lparr>vp_view_tombs := has_tombstones\<rparr>) st"

section \<open>Journal, temporal facts\<close>

definition record_write :: "term_id \<Rightarrow> store \<Rightarrow> store" where
  "record_write g st = (if \<not> st_has_rules st then st
     else st\<lparr>st_journal := st_journal st @ [(g, WriteInsert)]\<rparr>)"

definition record_delete :: "term_id \<Rightarrow> store \<Rightarrow> store" where
  "record_delete g st = (if \<not> st_has_rules st then st
     else st\<lparr>st_journal := st_journal st @ [(g, WriteDelete)]\<rparr>)"

definition journal_clear :: "store \<Rightarrow> store" where
  "journal_clear st = st\<lparr>st_journal := []\<rparr>"

definition push_new :: "'a \<Rightarrow> 'a list \<Rightarrow> 'a list" where
  "push_new x xs = (if x \<in> set xs then xs else xs @ [x])"

text \<open>\<open>flush\<close>: the graphs to retract from and to write to, in the order the hooks run
  (deletes first); the hooks of the CONSTRUCT rules are the caller's.\<close>

definition journal_flush :: "store \<Rightarrow> (term_id list \<times> term_id list) \<times> store" where
  "journal_flush st =
     (let entries = st_journal st in
      if entries = [] then (([], []), st)
      else (let (ins, del) = fold (\<lambda>(g, k) (ins, del).
                    case k of WriteInsert \<Rightarrow> (push_new g ins, del) | WriteDelete \<Rightarrow> (ins, push_new g del))
                  entries ([], [])
            in ((del, ins), journal_clear st)))"

definition maybe_insert_temporal_cdc :: "storage_gucs \<Rightarrow> int \<Rightarrow> term_id \<Rightarrow> term_id \<Rightarrow> term_id \<Rightarrow> term_id
                                          \<Rightarrow> store \<Rightarrow> store" where
  "maybe_insert_temporal_cdc cfg now s p ob g st =
     (if \<not> TEMPORAL_CDC_ENABLED cfg then st
      else (case st_temporal st p of
              None \<Rightarrow> st
            | Some data_model \<Rightarrow>
                (let facts = (if data_model = ''snapshot''
                              then map (\<lambda>f. if tf_s f = s \<and> tf_p f = p \<and> tf_g f = g \<and> tf_valid_to f = None
                                            then f\<lparr>tf_valid_to := Some now\<rparr> else f) (st_temporal_facts st)
                              else st_temporal_facts st)
                 in st\<lparr>st_temporal_facts := facts @
                        [\<lparr>tf_s = s, tf_p = p, tf_o = ob, tf_g = g, tf_valid_from = now, tf_valid_to = None\<rparr>]\<rparr>)))"

section \<open>Creation and promotion of dedicated tables\<close>

text \<open>\<open>ensure_htap_tables\<close>: \<open>CREATE TABLE IF NOT EXISTS\<close> leaves existing rows alone, the view
  is replaced by its tombstone-aware form, and the catalog row is inserted or updated.\<close>

definition ensure_htap_tables :: "term_id \<Rightarrow> store \<Rightarrow> store" where
  "ensure_htap_tables p st =
     (let st = rebuild_htap_view p True st in
      case pred_lookup st p of
        None \<Rightarrow> st\<lparr>st_predicates := st_predicates st @
                  [(p, \<lparr>pr_table_oid = True, pr_triple_count = 0, pr_htap = True,
                        pr_tombstone_count = 0, pr_promoting = False\<rparr>)]\<rparr>
      | Some _ \<Rightarrow> upd_pred p (\<lambda>r. r\<lparr>pr_table_oid := True, pr_htap := True\<rparr>) st)"

definition bump_schema_generation :: "store \<Rightarrow> store" where
  "bump_schema_generation st = st\<lparr>st_schema_generation := st_schema_generation st + 1\<rparr>"

definition ensure_vp_table :: "term_id \<Rightarrow> store \<Rightarrow> store" where
  "ensure_vp_table p st =
     (if get_dedicated_vp_table p st then st
      else bump_schema_generation (ensure_htap_tables p st))"

text \<open>\<open>INSERT INTO delta ... ON CONFLICT (s, o, g) DO NOTHING\<close> for rows that bring their \<open>i\<close>.\<close>

definition insert_skip :: "vp_row \<Rightarrow> vp_row list \<Rightarrow> vp_row list" where
  "insert_skip r rows = (if row_key r \<in> row_key ` set rows then rows else rows @ [r])"

definition promote_predicate :: "term_id \<Rightarrow> store \<Rightarrow> store" where
  "promote_predicate p st =
     (let st = upd_pred p (\<lambda>r. r\<lparr>pr_promoting := True\<rparr>) st;
          st = ensure_vp_table p st;
          moved = map snd (filter (\<lambda>(q, r). q = p) (st_rare st));
          st = st\<lparr>st_rare := filter (\<lambda>(q, r). q \<noteq> p) (st_rare st)\<rparr>;
          st = upd_vp p (\<lambda>t. t\<lparr>vp_delta := fold insert_skip moved (vp_delta t)\<rparr>) st;
          st = upd_pred p (\<lambda>r. r\<lparr>pr_triple_count := int (length (vp_delta (st_vp st p))),
                                 pr_table_oid := True, pr_promoting := False\<rparr>) st
      in bump_schema_generation st)"

definition recover_interrupted_promotions :: "store \<Rightarrow> int \<times> store" where
  "recover_interrupted_promotions st =
     (let promoting_ids = sort (map fst (filter (\<lambda>(k, r). pr_promoting r) (st_predicates st)))
      in (int (length promoting_ids), fold promote_predicate promoting_ids st))"

definition promote_rare_predicates :: "storage_gucs \<Rightarrow> store \<Rightarrow> int \<times> store" where
  "promote_rare_predicates cfg st =
     (let pred_ids = filter (\<lambda>p. VPP_THRESHOLD cfg \<le> int (length (filter (\<lambda>(q, r). q = p) (st_rare st))))
                       (remdups (map fst (st_rare st)))
      in (int (length pred_ids), fold promote_predicate pred_ids st))"

section \<open>Insertion\<close>

definition insert_into_vp_rare :: "term_id \<Rightarrow> term_id \<Rightarrow> term_id \<Rightarrow> term_id \<Rightarrow> store \<Rightarrow> int \<times> store" where
  "insert_into_vp_rare p s ob g st =
     (let (i, st) = nextval st in
      if (p, s, ob, g) \<in> (\<lambda>(q, r). (q, row_key r)) ` set (st_rare st) then (0, st)
      else (let st = st\<lparr>st_rare := st_rare st @ [(p, mk_row s ob g i)]\<rparr>;
                st = (case pred_lookup st p of
                        None \<Rightarrow> st\<lparr>st_predicates := st_predicates st @
                                  [(p, \<lparr>pr_table_oid = False, pr_triple_count = 1, pr_htap = False,
                                        pr_tombstone_count = 0, pr_promoting = False\<rparr>)]\<rparr>
                      | Some _ \<Rightarrow> upd_pred p (\<lambda>r. r\<lparr>pr_triple_count := pr_triple_count r + 1\<rparr>) st)
            in (i, st)))"

text \<open>\<open>INSERT INTO delta ... ON CONFLICT (s, o, g) DO UPDATE SET i = EXCLUDED.i RETURNING i\<close>.\<close>

definition upsert_delta :: "term_id \<Rightarrow> term_id \<Rightarrow> term_id \<Rightarrow> int \<Rightarrow> vp_row list \<Rightarrow> vp_row list" where
  "upsert_delta s ob g i rows =
     (if (s, ob, g) \<in> row_key ` set rows
      then map (\<lambda>r. if row_key r = (s, ob, g) then r\<lparr>row_i := i\<rparr> else r) rows
      else rows @ [mk_row s ob g i])"

definition insert_encoded_triple :: "term_id \<Rightarrow> term_id \<Rightarrow> term_id \<Rightarrow> term_id \<Rightarrow> store \<Rightarrow> int \<times> store" where
  "insert_encoded_triple s p ob g st =
     (if get_dedicated_vp_table p st then
        (let (i, st) = nextval st;
             st = upd_vp p (\<lambda>t. t\<lparr>vp_delta := upsert_delta s ob g i (vp_delta t)\<rparr>) st;
             st = upd_pred p (\<lambda>r. r\<lparr>pr_triple_count := pr_triple_count r + 1\<rparr>) st;
             st = st\<lparr>st_shmem := set_predicate_delta_bit (word_of_int p)
                                  (record_delta_inserts 1 (st_shmem st))\<rparr>
         in (i, st))
      else insert_into_vp_rare p s ob g st)"

definition insert_triple :: "storage_gucs \<Rightarrow> int \<Rightarrow> term_id \<Rightarrow> term_id \<Rightarrow> term_id \<Rightarrow> term_id
                               \<Rightarrow> store \<Rightarrow> int \<times> store" where
  "insert_triple cfg now s p ob g st =
     (if get_dedicated_vp_table p st then
        (let (i, st) = insert_encoded_triple s p ob g st
         in (i, maybe_insert_temporal_cdc cfg now s p ob g st))
      else
        (let (i, st) = insert_into_vp_rare p s ob g st;
             new_count = (case pred_lookup st p of Some r \<Rightarrow> pr_triple_count r | None \<Rightarrow> 0);
             st = (if VPP_THRESHOLD cfg \<le> new_count then promote_predicate p st else st)
         in (i, maybe_insert_temporal_cdc cfg now s p ob g st)))"

definition insert_triple_by_ids :: "term_id \<Rightarrow> term_id \<Rightarrow> term_id \<Rightarrow> term_id \<Rightarrow> store \<Rightarrow> int \<times> store" where
  "insert_triple_by_ids s p ob g st =
     (let (i, st) = insert_encoded_triple s p ob g st in (i, record_write g st))"

text \<open>Bulk insertion. Both forms of the delta insert skip rows whose key is present, also
  within the batch; every candidate row draws a sequence number.\<close>

definition insert_new_rows :: "sog list \<Rightarrow> vp_row list \<Rightarrow> int \<Rightarrow> vp_row list \<times> int" where
  "insert_new_rows rows tbl seq =
     fold (\<lambda>(s, ob, g) (tbl, i). (insert_skip (mk_row s ob g (i + 1)) tbl, i + 1)) rows (tbl, seq)"

definition copy_into_vp :: "term_id \<Rightarrow> sog list \<Rightarrow> store \<Rightarrow> store" where
  "copy_into_vp p rows st =
     (if rows = [] then st
      else (let (tbl, i) = insert_new_rows rows (vp_delta (st_vp st p)) (st_seq st)
            in (upd_vp p (\<lambda>t. t\<lparr>vp_delta := tbl\<rparr>) st)\<lparr>st_seq := i\<rparr>))"

definition add_count :: "term_id \<Rightarrow> int \<Rightarrow> store \<Rightarrow> store" where
  "add_count p cnt st = upd_pred p (\<lambda>r. r\<lparr>pr_triple_count := pr_triple_count r + cnt\<rparr>) st"

definition batch_insert_encoded :: "storage_gucs \<Rightarrow> term_id \<Rightarrow> sog list \<Rightarrow> store \<Rightarrow> int \<times> store" where
  "batch_insert_encoded cfg p rows st =
     (if rows = [] then (0, st)
      else
        (let cnt = int (length rows);
             st = (if get_dedicated_vp_table p st then
                     (let st = (if BULK_LOAD_USE_COPY cfg then copy_into_vp p rows st
                                else (let (tbl, i) = insert_new_rows rows (vp_delta (st_vp st p)) (st_seq st)
                                      in (upd_vp p (\<lambda>t. t\<lparr>vp_delta := tbl\<rparr>) st)\<lparr>st_seq := i\<rparr>));
                          st = add_count p cnt st
                      in st\<lparr>st_shmem := set_predicate_delta_bit (word_of_int p)
                                         (record_delta_inserts (word_of_int cnt) (st_shmem st))\<rparr>)
                   else
                     (let unique_rows = rev (remdups (rev rows));
                          fresh = filter (\<lambda>(s, ob, g). (p, s, ob, g) \<notin> (\<lambda>(q, r). (q, row_key r)) ` set (st_rare st))
                                    unique_rows;
                          st = st\<lparr>st_rare := st_rare st @
                                    map (\<lambda>(k, (s, ob, g)). (p, mk_row s ob g (st_seq st + 1 + int k)))
                                      (enumerate 0 fresh),
                                  st_seq := st_seq st + int (length fresh)\<rparr>
                      in (case pred_lookup st p of
                            None \<Rightarrow> st\<lparr>st_predicates := st_predicates st @
                                      [(p, \<lparr>pr_table_oid = False, pr_triple_count = cnt, pr_htap = False,
                                            pr_tombstone_count = 0, pr_promoting = False\<rparr>)]\<rparr>
                          | Some _ \<Rightarrow> add_count p cnt st)))
         in (cnt, if st_has_rules st then fold (\<lambda>(s, ob, g). record_write g) rows st else st)))"

section \<open>Deletion\<close>

definition sub_count :: "term_id \<Rightarrow> int \<Rightarrow> store \<Rightarrow> store" where
  "sub_count p d st = upd_pred p (\<lambda>r. r\<lparr>pr_triple_count := max 0 (pr_triple_count r - d)\<rparr>) st"

text \<open>\<open>UPDATE ... SET tombstone_count = tombstone_count + n RETURNING tombstone_count - n\<close>, and
  the switch back to the tombstone-aware view when that was 0. The tombstone tables have no
  unique constraint, so that \<open>ON CONFLICT DO NOTHING\<close> never applies.\<close>

definition count_tombstones :: "term_id \<Rightarrow> int \<Rightarrow> store \<Rightarrow> store" where
  "count_tombstones p n st =
     (let prev_count = (case pred_lookup st p of Some r \<Rightarrow> pr_tombstone_count r | None \<Rightarrow> 1);
          st = upd_pred p (\<lambda>r. r\<lparr>pr_tombstone_count := pr_tombstone_count r + n\<rparr>) st
      in if prev_count = 0 then rebuild_htap_view p True st else st)"

definition count_key :: "sog \<Rightarrow> vp_row list \<Rightarrow> int" where
  "count_key k rows = int (length (filter (\<lambda>r. row_key r = k) rows))"

definition delete_from_vp :: "term_id \<Rightarrow> term_id \<Rightarrow> term_id \<Rightarrow> term_id \<Rightarrow> store \<Rightarrow> int \<times> store" where
  "delete_from_vp s p ob g st =
     (let k = (s, ob, g);
          d = count_key k (vp_delta (st_vp st p));
          st = upd_vp p (\<lambda>t. t\<lparr>vp_delta := filter (\<lambda>r. row_key r \<noteq> k) (vp_delta t)\<rparr>) st;
          (deleted, st) =
            (if 0 < d then (d, st)
             else (let (i, st) = nextval st;
                       st = upd_vp p (\<lambda>t. t\<lparr>vp_tombs := vp_tombs t @ [(k, i)]\<rparr>) st;
                       st = count_tombstones p 1 st
                   in (count_key k (vp_main (st_vp st p)), st)))
      in (deleted, if 0 < deleted then sub_count p deleted st else st))"

definition delete_from_rare :: "term_id \<Rightarrow> term_id \<Rightarrow> term_id \<Rightarrow> term_id \<Rightarrow> store \<Rightarrow> int \<times> store" where
  "delete_from_rare s p ob g st =
     (let hit = (\<lambda>(q, r). q = p \<and> row_key r = (s, ob, g));
          d = int (length (filter hit (st_rare st)));
          st = st\<lparr>st_rare := filter (\<lambda>x. \<not> hit x) (st_rare st)\<rparr>
      in (d, if 0 < d then sub_count p d st else st))"

definition delete_triple :: "term_id \<Rightarrow> term_id \<Rightarrow> term_id \<Rightarrow> term_id \<Rightarrow> store \<Rightarrow> int \<times> store" where
  "delete_triple s p ob g st =
     (let (deleted, st) = (if get_dedicated_vp_table p st then delete_from_vp s p ob g st else (0, st));
          (d, st) = delete_from_rare s p ob g st
      in (deleted + d, st))"

definition delete_triple_by_ids :: "term_id \<Rightarrow> term_id \<Rightarrow> term_id \<Rightarrow> term_id \<Rightarrow> store \<Rightarrow> int \<times> store" where
  "delete_triple_by_ids s p ob g st =
     (let (deleted, st) = delete_triple s p ob g st
      in (deleted, if 0 < deleted then record_delete g st else st))"

text \<open>Dropping a graph from one dedicated table: delete from delta, tombstone the main rows.\<close>

definition tombstone_graph :: "term_id \<Rightarrow> term_id \<Rightarrow> store \<Rightarrow> (int \<times> int) \<times> store" where
  "tombstone_graph g p st =
     (let t = st_vp st p;
          d_delta = int (length (filter (\<lambda>r. row_g r = g) (vp_delta t)));
          doomed = filter (\<lambda>r. row_g r = g) (vp_main t);
          d_main = int (length doomed);
          st = upd_vp p (\<lambda>t. t\<lparr>vp_delta := filter (\<lambda>r. row_g r \<noteq> g) (vp_delta t),
                               vp_tombs := vp_tombs t @
                                 map (\<lambda>(n, r). (row_key r, st_seq st + 1 + int n)) (enumerate 0 doomed)\<rparr>) st;
          st = st\<lparr>st_seq := st_seq st + d_main\<rparr>;
          d = d_delta + d_main
      in ((d_delta, d_main), if 0 < d then sub_count p d st else st))"

definition clear_rare_graph :: "term_id \<Rightarrow> store \<Rightarrow> int \<times> store" where
  "clear_rare_graph g st =
     (int (length (filter (\<lambda>(p, r). row_g r = g) (st_rare st))),
      st\<lparr>st_rare := filter (\<lambda>(p, r). row_g r \<noteq> g) (st_rare st)\<rparr>)"

definition clear_graph_by_id :: "term_id \<Rightarrow> store \<Rightarrow> int \<times> store" where
  "clear_graph_by_id g st =
     (let (deleted, st) =
            fold (\<lambda>p (deleted, st).
                    let ((d_delta, d_main), st) = tombstone_graph g p st;
                        st = (if 0 < d_main then count_tombstones p d_main st else st)
                    in (deleted + (d_delta + d_main), st))
              (dedicated_ids st) (0, st);
          (d, st) = clear_rare_graph g st
      in (deleted + d, st))"

definition drop_graph :: "term_id \<Rightarrow> store \<Rightarrow> int \<times> store" where
  "drop_graph g st =
     (let (deleted, st) =
            fold (\<lambda>p (deleted, st).
                    let ((d_delta, d_main), st) = tombstone_graph g p st
                    in (deleted + (d_delta + d_main), st))
              (dedicated_ids st) (0, st);
          (d, st) = clear_rare_graph g st
      in (deleted + d, st))"

section \<open>Merge\<close>

definition build_main_new :: "storage_gucs \<Rightarrow> vp_table \<Rightarrow> vp_row list" where
  "build_main_new cfg t =
     (if DEDUP_ON_MERGE cfg then distinct_on_key (live_main t @ vp_delta t)
      else sort_key row_s (live_main t @ vp_delta t))"

definition update_statements :: "term_id \<Rightarrow> vp_row list \<Rightarrow> (term_id \<times> int \<times> int) list \<Rightarrow> (term_id \<times> int \<times> int) list" where
  "update_statements p main stmts =
     (let sids = map row_i main;
          new_sid_min = (if sids = [] then 0 else Min (set sids));
          new_sid_max = (if sids = [] then 0 else Max (set sids)) in
      if 0 < new_sid_min \<and> new_sid_min \<le> new_sid_max
      then filter (\<lambda>(q, lo, hi). lo \<noteq> new_sid_min) (filter (\<lambda>(q, lo, hi). q \<noteq> p) stmts)
             @ [(p, new_sid_min, new_sid_max)]
      else stmts)"

definition clear_tombstones :: "storage_gucs \<Rightarrow> term_id \<Rightarrow> int \<Rightarrow> store \<Rightarrow> store" where
  "clear_tombstones cfg p max_sid st =
     (if TOMBSTONE_RETENTION_SECONDS cfg = 0 then
        rebuild_htap_view p False
          (upd_pred p (\<lambda>r. r\<lparr>pr_tombstone_count := 0\<rparr>) (upd_vp p (\<lambda>t. t\<lparr>vp_tombs := []\<rparr>) st))
      else
        (let st = upd_vp p (\<lambda>t. t\<lparr>vp_tombs := filter (\<lambda>(k, i). max_sid < i) (vp_tombs t)\<rparr>) st in
         if vp_tombs (st_vp st p) = []
         then rebuild_htap_view p False (upd_pred p (\<lambda>r. r\<lparr>pr_tombstone_count := 0\<rparr>) st)
         else st))"

definition merge_predicate :: "storage_gucs \<Rightarrow> term_id \<Rightarrow> store \<Rightarrow> int \<times> store" where
  "merge_predicate cfg p st =
     (if \<not> is_htap p st then (0, st)
      else (let max_sid_at_snapshot = st_seq st;
                main_new = build_main_new cfg (st_vp st p);
                row_count = int (length main_new);
                st = upd_vp p (\<lambda>t. t\<lparr>vp_main := main_new, vp_view_tombs := True\<rparr>) st;
                st = st\<lparr>st_statements := update_statements p main_new (st_statements st)\<rparr>;
                st = upd_vp p (\<lambda>t. t\<lparr>vp_delta := []\<rparr>) st;
                st = clear_tombstones cfg p max_sid_at_snapshot st;
                st = st\<lparr>st_shmem := clear_predicate_delta_bit (word_of_int p) (st_shmem st)\<rparr>;
                st = upd_pred p (\<lambda>r. r\<lparr>pr_triple_count := row_count\<rparr>) st
            in (row_count, st)))"

text \<open>The sweep of the confidence table at the end of \<open>merge_all\<close>: a row goes when its statement is
  not in \<open>vp_rare\<close> and no catalog row has a \<open>table_oid\<close> naming a relation \<open>LIKE 'vp_%_delta'\<close>;
  \<open>table_oid\<close> is the OID of the view \<open>vp_{id}\<close> (\<open>ensure_htap_tables\<close>).\<close>

fun dec_of_nat :: "nat \<Rightarrow> string" where
  "dec_of_nat n = (if n < 10 then [char_of (48 + n)] else dec_of_nat (n div 10) @ [char_of (48 + n mod 10)])"

declare dec_of_nat.simps [simp del]

definition vp_relname :: "term_id \<Rightarrow> string" where
  "vp_relname p = ''vp_'' @ (if p < 0 then ''-'' else []) @ dec_of_nat (nat \<bar>p\<bar>)"

definition like_vp_delta :: "string \<Rightarrow> bool" where
  "like_vp_delta name \<longleftrightarrow> 9 \<le> length name \<and> take 2 name = ''vp'' \<and> drop (length name - 5) name = ''delta''"

definition purge_confidence :: "store \<Rightarrow> store" where
  "purge_confidence st =
     st\<lparr>st_confidence := filter (\<lambda>sid. sid \<in> (\<lambda>(p, r). row_i r) ` set (st_rare st)
          \<or> (\<exists>p \<in> set (dedicated_ids st). like_vp_delta (vp_relname p))) (st_confidence st)\<rparr>"

definition merge_all :: "storage_gucs \<Rightarrow> store \<Rightarrow> int \<times> store" where
  "merge_all cfg st =
     (let (total, st) =
            fold (\<lambda>p (total, st).
                    if vp_delta (st_vp st p) \<noteq> []
                    then (let (n, st) = merge_predicate cfg p st in (total + n, st)) else (total, st))
              (map fst (filter (\<lambda>(k, r). pr_htap r) (st_predicates st))) (0, st)
      in (total, purge_confidence st))"

text \<open>\<open>INSERT ... SELECT s, array_agg(DISTINCT p ORDER BY p) ... GROUP BY s ON CONFLICT (s) DO UPDATE\<close>:
  keys that occur in some view get a new row, other rows stay.\<close>

definition patterns :: "(vp_row \<Rightarrow> term_id) \<Rightarrow> store \<Rightarrow> (term_id \<rightharpoonup> term_id list) \<Rightarrow> (term_id \<rightharpoonup> term_id list)" where
  "patterns col st old =
     (\<lambda>x. let ps = sort (remdups (filter (\<lambda>p. x \<in> col ` set (view_rows (st_vp st p))) (dedicated_ids st)))
          in if ps = [] then old x else Some ps)"

definition rebuild_subject_patterns :: "store \<Rightarrow> store" where
  "rebuild_subject_patterns st =
     (if dedicated_ids st = [] then st
      else st\<lparr>st_subject_patterns := patterns row_s st (st_subject_patterns st)\<rparr>)"

definition rebuild_object_patterns :: "store \<Rightarrow> store" where
  "rebuild_object_patterns st =
     (if dedicated_ids st = [] then st
      else st\<lparr>st_object_patterns := patterns row_o st (st_object_patterns st)\<rparr>)"

definition compact :: "storage_gucs \<Rightarrow> store \<Rightarrow> int \<times> store" where
  "compact cfg st =
     (let (merged, st) = merge_all cfg st;
          st = rebuild_object_patterns (rebuild_subject_patterns st)
      in (merged, st\<lparr>st_shmem := reset_bloom_filter (reset_delta_count (st_shmem st))\<rparr>))"

section \<open>Deduplication\<close>

definition min_sid :: "sog \<Rightarrow> vp_row list \<Rightarrow> int" where
  "min_sid k rows = Min (row_i ` {r \<in> set rows. row_key r = k})"

definition dedup_delta :: "vp_row list \<Rightarrow> vp_row list" where
  "dedup_delta rows =
     filter (\<lambda>r. \<not> (1 < count_key (row_key r) rows \<and> row_i r \<noteq> min_sid (row_key r) rows)) rows"

definition main_dupes :: "vp_row list \<Rightarrow> sog list" where
  "main_dupes rows = filter (\<lambda>k. 1 < count_key k rows) (remdups (map row_key rows))"

definition dedup_rare :: "(term_id \<Rightarrow> bool) \<Rightarrow> (term_id \<times> vp_row) list \<Rightarrow> (term_id \<times> vp_row) list" where
  "dedup_rare P rows =
     (let keep = (\<lambda>(p, r). min_sid (row_key r) (map snd (filter (\<lambda>(q, _). q = p) rows)))
                   ` {(p, r) \<in> set rows. P p}
      in filter (\<lambda>(p, r). \<not> (P p \<and> row_i r \<notin> keep)) rows)"

definition deduplicate_predicate :: "term_id \<Rightarrow> store \<Rightarrow> int \<times> store" where
  "deduplicate_predicate p st =
     (if get_dedicated_vp_table p st then
        (let t = st_vp st p;
             delta = dedup_delta (vp_delta t);
             delta_removed = int (length (vp_delta t)) - int (length delta);
             dupes = main_dupes (vp_main t);
             st = upd_vp p (\<lambda>t. t\<lparr>vp_delta := delta,
                                  vp_tombs := vp_tombs t @
                                    map (\<lambda>(n, k). (k, st_seq st + 1 + int n)) (enumerate 0 dupes)\<rparr>) st;
             st = st\<lparr>st_seq := st_seq st + int (length dupes)\<rparr>
         in (delta_removed + int (length dupes), st))
      else
        (let rare = dedup_rare (\<lambda>q. q = p) (st_rare st)
         in (int (length (st_rare st)) - int (length rare), st\<lparr>st_rare := rare\<rparr>)))"

definition deduplicate_all :: "store \<Rightarrow> int \<times> store" where
  "deduplicate_all st =
     (let (total, st) = fold (\<lambda>p (total, st). let (n, st) = deduplicate_predicate p st in (total + n, st))
                          (map fst (st_predicates st)) (0, st);
          rare = dedup_rare (\<lambda>_. True) (st_rare st)
      in (total + (int (length (st_rare st)) - int (length rare)), st\<lparr>st_rare := rare\<rparr>))"

section \<open>Scans\<close>

type_synonym quad = "term_id \<times> term_id \<times> term_id \<times> term_id"

definition matches :: "term_id option \<Rightarrow> term_id \<Rightarrow> bool" where
  "matches pat v \<longleftrightarrow> (case pat of None \<Rightarrow> True | Some w \<Rightarrow> v = w)"

text \<open>The scans return encoded quads \<open>(s, p, o, g)\<close>; the source decodes them with the
  dictionary.\<close>

definition scan_vp_table :: "term_id \<Rightarrow> term_id option \<Rightarrow> term_id option \<Rightarrow> term_id \<Rightarrow> store \<Rightarrow> quad list" where
  "scan_vp_table p s_id o_id g st =
     map (\<lambda>r. (row_s r, p, row_o r, g))
       (filter (\<lambda>r. row_g r = g \<and> matches s_id (row_s r) \<and> matches o_id (row_o r)) (view_rows (st_vp st p)))"

definition scan_vp_rare :: "term_id option \<Rightarrow> term_id option \<Rightarrow> term_id option \<Rightarrow> term_id \<Rightarrow> store \<Rightarrow> quad list" where
  "scan_vp_rare p_id s_id o_id g st =
     map (\<lambda>(p, r). (row_s r, p, row_o r, g))
       (filter (\<lambda>(p, r). row_g r = g \<and> matches p_id p \<and> matches s_id (row_s r) \<and> matches o_id (row_o r))
          (st_rare st))"

definition find_triples :: "term_id option \<Rightarrow> term_id option \<Rightarrow> term_id option \<Rightarrow> term_id option \<Rightarrow> store \<Rightarrow> quad list" where
  "find_triples s_id p_id o_id graph st =
     (let g = (case graph of None \<Rightarrow> 0 | Some g \<Rightarrow> g) in
      case p_id of
        Some p \<Rightarrow> (if get_dedicated_vp_table p st then scan_vp_table p s_id o_id g st else [])
                  @ scan_vp_rare (Some p) s_id o_id g st
      | None \<Rightarrow> concat (map (\<lambda>p. scan_vp_table p s_id o_id g st) (dedicated_ids st))
                @ scan_vp_rare None s_id o_id g st)"

definition all_encoded_triples :: "term_id option \<Rightarrow> store \<Rightarrow> quad list" where
  "all_encoded_triples graph st =
     concat (map (\<lambda>p. map (\<lambda>r. (row_s r, p, row_o r, row_g r))
                        (filter (\<lambda>r. matches graph (row_g r)) (view_rows (st_vp st p))))
               (dedicated_ids st))
     @ map (\<lambda>(p, r). (row_s r, p, row_o r, row_g r)) (filter (\<lambda>(p, r). matches graph (row_g r)) (st_rare st))"

text \<open>The keyset pagination of \<open>for_each_encoded_triple_batch\<close>: the pages handed to the
  callback. The loop ends on a page shorter than the batch size; running out of fuel is
  \<^const>\<open>None\<close>.\<close>

fun pages :: "nat \<Rightarrow> nat \<Rightarrow> (term_id \<times> vp_row) list \<Rightarrow> int option \<Rightarrow> (term_id \<times> vp_row) list list option" where
  "pages 0 batch_size rows last_i = None"
| "pages (Suc fuel) batch_size rows last_i =
     (let rest = filter (\<lambda>(p, r). case last_i of None \<Rightarrow> True | Some i \<Rightarrow> i < row_i r) rows;
          page = take batch_size (sort_key (\<lambda>(p, r). row_i r) rest);
          last_i' = (if page = [] then last_i else Some (row_i (snd (last page))));
          out = (if page = [] then [] else [page]) in
      if length page < batch_size then Some out
      else map_option ((@) out) (pages fuel batch_size rows last_i'))"

definition emit_pages :: "storage_gucs \<Rightarrow> term_id option \<Rightarrow> (term_id \<times> vp_row) list \<Rightarrow> quad list list option" where
  "emit_pages cfg graph rows =
     (let rows = filter (\<lambda>(p, r). matches graph (row_g r)) rows in
      map_option (map (map (\<lambda>(p, r). (row_s r, p, row_o r, row_g r))))
        (pages (Suc (length rows)) (EXPORT_BATCH_SIZE cfg) rows None))"

fun sequence_pages :: "quad list list option list \<Rightarrow> quad list list option" where
  "sequence_pages [] = Some []"
| "sequence_pages (x # xs) =
     (case x of None \<Rightarrow> None | Some ps \<Rightarrow> map_option ((@) ps) (sequence_pages xs))"

definition for_each_encoded_triple_batch :: "storage_gucs \<Rightarrow> term_id option \<Rightarrow> store \<Rightarrow> quad list list option" where
  "for_each_encoded_triple_batch cfg graph st =
     sequence_pages
       (map (\<lambda>p. emit_pages cfg graph (map (Pair p) (view_rows (st_vp st p)))) (dedicated_ids st)
        @ [emit_pages cfg graph (st_rare st)])"

definition total_triple_count :: "store \<Rightarrow> int" where
  "total_triple_count st = sum_list (map (\<lambda>(k, r). pr_triple_count r) (st_predicates st))"

definition triple_count_in_graph :: "term_id \<Rightarrow> store \<Rightarrow> int" where
  "triple_count_in_graph g st =
     sum_list (map (\<lambda>p. int (length (filter (\<lambda>r. row_g r = g) (view_rows (st_vp st p))))) (dedicated_ids st))
     + int (length (filter (\<lambda>(p, r). row_g r = g) (st_rare st)))"

definition all_graph_ids :: "store \<Rightarrow> term_id set" where
  "all_graph_ids st =
     (\<Union>p \<in> set (dedicated_ids st). row_g ` set (vp_delta (st_vp st p)) \<union> row_g ` set (vp_main (st_vp st p)))
     \<union> (\<lambda>(p, r). row_g r) ` set (st_rare st)"

definition triples_for_subject :: "term_id \<Rightarrow> store \<Rightarrow> (term_id \<times> term_id) list" where
  "triples_for_subject subject_id st =
     concat (map (\<lambda>p. map (\<lambda>r. (p, row_o r)) (filter (\<lambda>r. row_s r = subject_id) (view_rows (st_vp st p))))
               (dedicated_ids st))
     @ map (\<lambda>(p, r). (p, row_o r)) (filter (\<lambda>(p, r). row_s r = subject_id) (st_rare st))"

definition triples_for_object :: "term_id \<Rightarrow> store \<Rightarrow> (term_id \<times> term_id) list" where
  "triples_for_object object_id st =
     concat (map (\<lambda>p. map (\<lambda>r. (row_s r, p)) (filter (\<lambda>r. row_o r = object_id) (view_rows (st_vp st p))))
               (dedicated_ids st))
     @ map (\<lambda>(p, r). (row_s r, p)) (filter (\<lambda>(p, r). row_o r = object_id) (st_rare st))"

section \<open>Statement identifiers\<close>

definition statement_id_for_triple :: "term_id \<Rightarrow> term_id \<Rightarrow> term_id \<Rightarrow> store \<Rightarrow> int option" where
  "statement_id_for_triple s p ob st =
     (let in_vp = (if get_dedicated_vp_table p st
                   then map_option row_i (find (\<lambda>r. row_s r = s \<and> row_o r = ob) (view_rows (st_vp st p)))
                   else None) in
      case in_vp of
        Some i \<Rightarrow> Some i
      | None \<Rightarrow> map_option (row_i \<circ> snd) (find (\<lambda>(q, r). q = p \<and> row_s r = s \<and> row_o r = ob) (st_rare st)))"

definition fetch_sog_by_sid :: "term_id \<Rightarrow> int \<Rightarrow> store \<Rightarrow> sog option" where
  "fetch_sog_by_sid p sid st = map_option row_key (find (\<lambda>r. row_i r = sid) (view_rows (st_vp st p)))"

definition sid_catalog :: "int \<Rightarrow> store \<Rightarrow> term_id option" where
  "sid_catalog sid st =
     (let hits = filter (\<lambda>(p, lo, hi). lo \<le> sid \<and> sid \<le> hi) (st_statements st) in
      if hits = [] then None
      else map_option fst (find (\<lambda>(p, lo, hi). lo = Max ((\<lambda>(p, lo, hi). lo) ` set hits)) hits))"

fun first_fetch :: "int \<Rightarrow> store \<Rightarrow> term_id list \<Rightarrow> quad option" where
  "first_fetch sid st [] = None"
| "first_fetch sid st (p # ps) =
     (case fetch_sog_by_sid p sid st of
        Some (s, ob, g) \<Rightarrow> Some (s, p, ob, g)
      | None \<Rightarrow> first_fetch sid st ps)"

definition get_statement_by_sid :: "int \<Rightarrow> store \<Rightarrow> quad option" where
  "get_statement_by_sid sid st =
     (case (case sid_catalog sid st of None \<Rightarrow> None | Some p \<Rightarrow> first_fetch sid st [p]) of
        Some q \<Rightarrow> Some q
      | None \<Rightarrow>
          (case first_fetch sid st (dedicated_ids st) of
             Some q \<Rightarrow> Some q
           | None \<Rightarrow> map_option (\<lambda>(p, r). (row_s r, p, row_o r, row_g r))
                       (find (\<lambda>(p, r). row_i r = sid) (st_rare st))))"

end
