(* ===== verification/Htap_Refine.thy ===== *)
theory Htap_Refine
  imports Htap_Store "HOL-Library.Multiset"
begin

text \<open>
  The triple store implements a set of quads. \<open>quads\<close> is the set of quads a scan returns;
  insertion, promotion, merging and graph clearing refine the corresponding set
  operations under the store invariant, deletion does so when no copy of the triple is
  left in main, and the theorems at the end exhibit the operations that do not.
\<close>

section \<open>Keys of the view\<close>

lemma keys_first_of_groups [simp]: "row_key ` set (first_of_groups rs) = row_key ` set rs"
proof (induction rs rule: first_of_groups.induct)
  case (2 r rs)
  have "row_key ` set (r # rs) = insert (row_key r) (row_key ` set (dropWhile (\<lambda>q. row_key q = row_key r) rs))"
    by (induction rs) auto
  with 2 show ?case by simp
qed simp

lemma keys_distinct_on_key [simp]: "row_key ` set (distinct_on_key rs) = row_key ` set rs"
  by (simp add: distinct_on_key_def)

lemma set_first_of_groups: "set (first_of_groups rs) \<subseteq> set rs"
proof (induction rs rule: first_of_groups.induct)
  case (2 r rs)
  then show ?case by (auto dest: set_dropWhileD)
qed simp

lemma set_distinct_on_key: "set (distinct_on_key rs) \<subseteq> set rs"
  using set_first_of_groups [of "sort_key order_key rs"] by (simp add: distinct_on_key_def)

definition delta_keys :: "vp_table \<Rightarrow> sog set" where
  "delta_keys t = row_key ` set (vp_delta t)"

definition main_keys :: "vp_table \<Rightarrow> sog set" where
  "main_keys t = row_key ` set (vp_main t)"

definition tomb_keys :: "vp_table \<Rightarrow> sog set" where
  "tomb_keys t = fst ` set (vp_tombs t)"

definition shown_main :: "vp_table \<Rightarrow> sog set" where
  "shown_main t = (if vp_view_tombs t then main_keys t - tomb_keys t else main_keys t)"

lemma image_minus: "f ` {x \<in> A. f x \<notin> B} = f ` A - B"
  by auto

lemma live_main_keys: "row_key ` set (live_main t) = main_keys t - tomb_keys t"
  unfolding live_main_def main_keys_def tomb_keys_def set_filter image_minus ..

lemma view_keys: "row_key ` set (view_rows t) = shown_main t \<union> delta_keys t"
  by (auto simp: view_rows_def htap_view_rows_def shown_main_def delta_keys_def main_keys_def
      image_Un live_main_keys)

definition rare_keys :: "store \<Rightarrow> term_id \<Rightarrow> sog set" where
  "rare_keys st p = row_key ` snd ` {x \<in> set (st_rare st). fst x = p}"

definition vp_shown :: "store \<Rightarrow> term_id \<Rightarrow> sog set" where
  "vp_shown st p = (if get_dedicated_vp_table p st then shown_main (st_vp st p) \<union> delta_keys (st_vp st p) else {})"

definition shown :: "store \<Rightarrow> term_id \<Rightarrow> sog set" where
  shown_split: "shown st p = vp_shown st p \<union> rare_keys st p"

lemmas shown_def = shown_split [unfolded vp_shown_def]

definition quads :: "store \<Rightarrow> quad set" where
  "quads st = {(s, p, ob, g). (s, ob, g) \<in> shown st p}"

lemma quads_cong: "(\<And>p. shown st' p = shown st p) \<Longrightarrow> quads st' = quads st"
  by (simp add: quads_def)

lemma in_quads [simp]: "(s, p, ob, g) \<in> quads st \<longleftrightarrow> (s, ob, g) \<in> shown st p"
  by (simp add: quads_def)

text \<open>One key more or less for one predicate is one quad more or less.\<close>

lemma quads_insert:
  assumes "\<And>q. q \<noteq> p \<Longrightarrow> shown st' q = shown st q" "shown st' p = insert (s, ob, g) (shown st p)"
  shows "quads st' = insert (s, p, ob, g) (quads st)"
proof -
  have "(a, q, b, c) \<in> quads st' \<longleftrightarrow> (a, q, b, c) \<in> insert (s, p, ob, g) (quads st)" for a q b c
    using assms by (cases "q = p") auto
  then show ?thesis by (auto simp only: split_paired_all set_eq_iff)
qed

lemma quads_remove:
  assumes "\<And>q. q \<noteq> p \<Longrightarrow> shown st' q = shown st q" "shown st' p = shown st p - {(s, ob, g)}"
  shows "quads st' = quads st - {(s, p, ob, g)}"
proof -
  have "(a, q, b, c) \<in> quads st' \<longleftrightarrow> (a, q, b, c) \<in> quads st - {(s, p, ob, g)}" for a q b c
    using assms by (cases "q = p") auto
  then show ?thesis by (auto simp only: split_paired_all set_eq_iff)
qed

section \<open>Invariant\<close>

definition vp_ok :: "int \<Rightarrow> vp_table \<Rightarrow> bool" where
  "vp_ok seq t \<longleftrightarrow>
     distinct (map row_key (vp_delta t)) \<and> (\<not> vp_view_tombs t \<longrightarrow> vp_tombs t = [])
     \<and> (\<forall>x \<in> set (vp_tombs t). snd x \<le> seq)
     \<and> (\<forall>r \<in> set (vp_delta t) \<union> set (vp_main t). row_i r \<le> seq)"

definition rare_ok :: "int \<Rightarrow> (term_id \<times> vp_row) list \<Rightarrow> bool" where
  "rare_ok seq rows \<longleftrightarrow> distinct (map (\<lambda>x. (fst x, row_key (snd x))) rows) \<and> (\<forall>x \<in> set rows. row_i (snd x) \<le> seq)"

definition store_ok :: "store \<Rightarrow> bool" where
  "store_ok st \<longleftrightarrow>
     distinct (map fst (st_predicates st))
     \<and> rare_ok (st_seq st) (st_rare st)
     \<and> (\<forall>p. vp_ok (st_seq st) (st_vp st p))
     \<and> (\<forall>p r. pred_lookup st p = Some r \<longrightarrow>
          (pr_table_oid r \<longrightarrow> pr_htap r)
          \<and> (\<not> vp_view_tombs (st_vp st p) \<longrightarrow> pr_tombstone_count r = 0))
     \<and> (\<forall>p. \<not> get_dedicated_vp_table p st \<longrightarrow>
          vp_delta (st_vp st p) = [] \<and> vp_main (st_vp st p) = [] \<and> vp_tombs (st_vp st p) = [])"

lemma pred_lookup_upd [simp]:
  "pred_lookup (upd_pred p f st) q = (if q = p then map_option f (pred_lookup st p) else pred_lookup st q)"
proof -
  have "map_of (map (\<lambda>(k, r). if k = p then (k, f r) else (k, r)) ps) q
      = (if q = p then map_option f (map_of ps p) else map_of ps q)" for ps :: "(term_id \<times> pred_row) list"
    by (induction ps) auto
  then show ?thesis by (simp add: pred_lookup_def upd_pred_def)
qed

lemma upd_pred_fields [simp]:
  "st_vp (upd_pred p f st) = st_vp st" "st_rare (upd_pred p f st) = st_rare st"
  "st_seq (upd_pred p f st) = st_seq st" "st_shmem (upd_pred p f st) = st_shmem st"
  "st_statements (upd_pred p f st) = st_statements st" "st_has_rules (upd_pred p f st) = st_has_rules st"
  "map fst (st_predicates (upd_pred p f st)) = map fst (st_predicates st)"
  by (auto simp: upd_pred_def case_prod_unfold)

lemma upd_vp_fields [simp]:
  "st_vp (upd_vp p f st) = (st_vp st)(p := f (st_vp st p))" "st_rare (upd_vp p f st) = st_rare st"
  "st_seq (upd_vp p f st) = st_seq st" "st_predicates (upd_vp p f st) = st_predicates st"
  "pred_lookup (upd_vp p f st) = pred_lookup st" "st_shmem (upd_vp p f st) = st_shmem st"
  "get_dedicated_vp_table q (upd_vp p f st) = get_dedicated_vp_table q st"
  by (auto simp: upd_vp_def pred_lookup_def get_dedicated_vp_table_def fun_eq_iff)

lemma dedicated_upd_pred [simp]:
  "(\<And>r. pr_table_oid (f r) = pr_table_oid r) \<Longrightarrow>
    get_dedicated_vp_table q (upd_pred p f st) = get_dedicated_vp_table q st"
  by (auto simp: get_dedicated_vp_table_def split: option.splits)

lemma rare_keys_cong: "st_rare st' = st_rare st \<Longrightarrow> rare_keys st' p = rare_keys st p"
  by (simp add: rare_keys_def)

lemma store_okD:
  assumes "store_ok st"
  shows store_ok_rare: "rare_ok (st_seq st) (st_rare st)"
    and store_ok_preds: "distinct (map fst (st_predicates st))"
    and store_ok_vp: "vp_ok (st_seq st) (st_vp st p)"
    and store_ok_empty: "\<not> get_dedicated_vp_table p st \<Longrightarrow>
          vp_delta (st_vp st p) = [] \<and> vp_main (st_vp st p) = [] \<and> vp_tombs (st_vp st p) = []"
    and store_ok_count: "pred_lookup st p = Some r \<Longrightarrow> \<not> vp_view_tombs (st_vp st p) \<Longrightarrow> pr_tombstone_count r = 0"
    and store_ok_htap: "pred_lookup st p = Some r \<Longrightarrow> pr_table_oid r \<Longrightarrow> pr_htap r"
  using assms unfolding store_ok_def by blast+

lemma rare_ok_mono: "rare_ok n rows \<Longrightarrow> n \<le> m \<Longrightarrow> rare_ok m rows"
  unfolding rare_ok_def by (meson order_trans)

lemma vp_ok_mono: "vp_ok n t \<Longrightarrow> n \<le> m \<Longrightarrow> vp_ok m t"
  unfolding vp_ok_def by (meson order_trans)

text \<open>Updates of fields other than the tables, the catalog and the sequence change neither the
  quads nor the invariant.\<close>

lemma aux_fields:
  assumes "st_vp st' = st_vp st" "st_rare st' = st_rare st" "st_predicates st' = st_predicates st"
    "st_seq st' = st_seq st"
  shows "quads st' = quads st" "store_ok st' = store_ok st"
proof -
  have "pred_lookup st' = pred_lookup st" using assms(3) by (simp add: pred_lookup_def fun_eq_iff)
  moreover from this have "get_dedicated_vp_table q st' = get_dedicated_vp_table q st" for q
    by (simp add: get_dedicated_vp_table_def)
  ultimately have eqs: "pred_lookup st' = pred_lookup st" "\<And>q. get_dedicated_vp_table q st' = get_dedicated_vp_table q st"
    by auto
  show "quads st' = quads st" by (rule quads_cong) (simp add: shown_def rare_keys_def assms eqs)
  show "store_ok st' = store_ok st" unfolding store_ok_def assms eqs ..
qed

text \<open>A change of one table and of the catalog row of its predicate.\<close>

lemma store_ok_change:
  assumes ok: "store_ok st"
    and vp: "\<And>q. q \<noteq> p \<Longrightarrow> st_vp st' q = st_vp st q"
    and rare: "rare_ok (st_seq st') (st_rare st')" and seq: "st_seq st \<le> st_seq st'"
    and preds: "distinct (map fst (st_predicates st'))" "\<And>q. q \<noteq> p \<Longrightarrow> pred_lookup st' q = pred_lookup st q"
    and vp_p: "vp_ok (st_seq st') (st_vp st' p)"
    and pred_p: "\<And>r. pred_lookup st' p = Some r \<Longrightarrow> (pr_table_oid r \<longrightarrow> pr_htap r)
          \<and> (\<not> vp_view_tombs (st_vp st' p) \<longrightarrow> pr_tombstone_count r = 0)"
    and empty_p: "\<not> get_dedicated_vp_table p st' \<Longrightarrow>
          vp_delta (st_vp st' p) = [] \<and> vp_main (st_vp st' p) = [] \<and> vp_tombs (st_vp st' p) = []"
  shows "store_ok st'"
proof -
  have ded: "get_dedicated_vp_table q st' = get_dedicated_vp_table q st" if "q \<noteq> p" for q
    using preds(2) [OF that] by (simp add: get_dedicated_vp_table_def)
  have "vp_ok (st_seq st') (st_vp st' q)" for q
    using vp_p vp vp_ok_mono [OF store_ok_vp [OF ok] seq] by (cases "q = p") auto
  moreover have "(pr_table_oid r \<longrightarrow> pr_htap r) \<and> (\<not> vp_view_tombs (st_vp st' q) \<longrightarrow> pr_tombstone_count r = 0)"
    if "pred_lookup st' q = Some r" for q r
    using that pred_p vp preds(2) store_ok_count [OF ok] store_ok_htap [OF ok] by (cases "q = p") auto
  moreover have "vp_delta (st_vp st' q) = [] \<and> vp_main (st_vp st' q) = [] \<and> vp_tombs (st_vp st' q) = []"
    if "\<not> get_dedicated_vp_table q st'" for q
    using that empty_p vp ded store_ok_empty [OF ok, of q] by (cases "q = p") auto
  ultimately show ?thesis using ok rare preds(1) unfolding store_ok_def by simp
qed

section \<open>Insertion\<close>

lemma row_key_mk_row [simp]: "row_key (mk_row s ob g i) = (s, ob, g)"
  by (simp add: row_key_def mk_row_def)

lemma row_i_mk_row [simp]: "row_i (mk_row s ob g i) = i"
  by (simp add: mk_row_def)

lemma map_key_renumber: "map row_key (map (\<lambda>r. if row_key r = k then r\<lparr>row_i := i\<rparr> else r) rows) = map row_key rows"
proof (induction rows)
  case (Cons r rows)
  have "row_key (r\<lparr>row_i := i\<rparr>) = row_key r" by (simp add: row_key_def)
  with Cons show ?case by (simp del: map_map)
qed simp

lemma map_key_upsert:
  "map row_key (upsert_delta s ob g i rows) =
     (if (s, ob, g) \<in> set (map row_key rows) then map row_key rows else map row_key rows @ [(s, ob, g)])"
  using map_key_renumber [of "(s, ob, g)" i rows] by (simp add: upsert_delta_def del: map_map)

lemma keys_upsert: "row_key ` set (upsert_delta s ob g i rows) = insert (s, ob, g) (row_key ` set rows)"
  using arg_cong [OF map_key_upsert [of s ob g i rows], of set] by auto

lemma distinct_upsert:
  "distinct (map row_key rows) \<Longrightarrow> distinct (map row_key (upsert_delta s ob g i rows))"
  by (simp only: map_key_upsert) simp

lemma sids_upsert:
  "\<forall>r \<in> set rows. row_i r \<le> n \<Longrightarrow> \<forall>r \<in> set (upsert_delta s ob g (n + 1) rows). row_i r \<le> n + 1"
  by (auto simp: upsert_delta_def split: if_splits)

lemma nextval_simps [simp]:
  "fst (nextval st) = st_seq st + 1" "st_vp (snd (nextval st)) = st_vp st"
  "st_rare (snd (nextval st)) = st_rare st" "st_predicates (snd (nextval st)) = st_predicates st"
  "st_seq (snd (nextval st)) = st_seq st + 1" "pred_lookup (snd (nextval st)) = pred_lookup st"
  "get_dedicated_vp_table q (snd (nextval st)) = get_dedicated_vp_table q st"
  by (simp_all add: nextval_def pred_lookup_def get_dedicated_vp_table_def fun_eq_iff)

lemma aux_updates [simp]:
  "pred_lookup (st\<lparr>st_shmem := m\<rparr>) = pred_lookup st" "pred_lookup (st\<lparr>st_seq := n\<rparr>) = pred_lookup st"
  "pred_lookup (st\<lparr>st_rare := rr\<rparr>) = pred_lookup st" "pred_lookup (st\<lparr>st_statements := ss\<rparr>) = pred_lookup st"
  "get_dedicated_vp_table q (st\<lparr>st_shmem := m\<rparr>) = get_dedicated_vp_table q st"
  "get_dedicated_vp_table q (st\<lparr>st_seq := n\<rparr>) = get_dedicated_vp_table q st"
  "get_dedicated_vp_table q (st\<lparr>st_rare := rr\<rparr>) = get_dedicated_vp_table q st"
  "get_dedicated_vp_table q (st\<lparr>st_statements := ss\<rparr>) = get_dedicated_vp_table q st"
  "pred_lookup (st\<lparr>st_schema_generation := n\<rparr>) = pred_lookup st"
  "get_dedicated_vp_table q (st\<lparr>st_schema_generation := n\<rparr>) = get_dedicated_vp_table q st"
  by (simp_all add: pred_lookup_def get_dedicated_vp_table_def fun_eq_iff)

lemma insert_encoded_dedicated_eq:
  assumes "get_dedicated_vp_table p st"
  shows "snd (insert_encoded_triple s p ob g st) =
    (let st1 = upd_pred p (\<lambda>r. r\<lparr>pr_triple_count := pr_triple_count r + 1\<rparr>)
       (upd_vp p (\<lambda>t. t\<lparr>vp_delta := upsert_delta s ob g (st_seq st + 1) (vp_delta t)\<rparr>) (snd (nextval st)))
     in st1\<lparr>st_shmem := set_predicate_delta_bit (word_of_int p) (record_delta_inserts 1 (st_shmem st1))\<rparr>)"
  using assms by (simp add: insert_encoded_triple_def Let_def case_prod_unfold)

lemma insert_encoded_dedicated:
  fixes s ob g :: term_id
  assumes ok: "store_ok st" and ded: "get_dedicated_vp_table p st"
  defines "st' \<equiv> snd (insert_encoded_triple s p ob g st)"
  shows "quads st' = insert (s, p, ob, g) (quads st)" "store_ok st'"
proof -
  let ?i = "st_seq st + 1"
  let ?t = "(st_vp st p)\<lparr>vp_delta := upsert_delta s ob g ?i (vp_delta (st_vp st p))\<rparr>"
  note st' = insert_encoded_dedicated_eq [OF ded, of s ob g, folded st'_def]
  have vp: "st_vp st' = (st_vp st)(p := ?t)" and rare: "st_rare st' = st_rare st"
    and seq: "st_seq st' = st_seq st + 1"
    and fsts: "map fst (st_predicates st') = map fst (st_predicates st)"
    by (simp_all add: st' Let_def)
  have preds: "pred_lookup st' q = (if q = p then map_option (\<lambda>r. r\<lparr>pr_triple_count := pr_triple_count r + 1\<rparr>)
      (pred_lookup st p) else pred_lookup st q)" for q
    by (simp add: st' Let_def)
  have ded': "get_dedicated_vp_table q st' = get_dedicated_vp_table q st" for q
    by (simp add: st' Let_def)
  have shown_main: "shown_main ?t = shown_main (st_vp st p)"
    by (simp add: shown_main_def main_keys_def tomb_keys_def)
  have delta: "delta_keys ?t = insert (s, ob, g) (delta_keys (st_vp st p))"
    by (simp add: delta_keys_def keys_upsert)
  show "quads st' = insert (s, p, ob, g) (quads st)"
    by (rule quads_insert) (auto simp: shown_def ded' ded vp rare_keys_cong [OF rare] shown_main delta)
  show "store_ok st'"
  proof (rule store_ok_change [OF ok, where p = p])
    show "vp_ok (st_seq st') (st_vp st' p)"
      using vp_ok_mono [OF store_ok_vp [OF ok, of p], of "st_seq st + 1"] store_ok_vp [OF ok, of p]
        sids_upsert [of "vp_delta (st_vp st p)" "st_seq st" s ob g]
      by (simp add: vp seq vp_ok_def distinct_upsert ball_Un)
    show "(pr_table_oid r \<longrightarrow> pr_htap r) \<and> (\<not> vp_view_tombs (st_vp st' p) \<longrightarrow> pr_tombstone_count r = 0)"
      if "pred_lookup st' p = Some r" for r
      using that store_ok_count [OF ok] store_ok_htap [OF ok] by (auto simp: preds vp)
  qed (use ok rare_ok_mono [OF store_ok_rare [OF ok], of "st_seq st + 1"] in
       \<open>simp_all add: vp rare seq fsts preds ded' ded store_ok_preds\<close>)
qed

text \<open>Into the table of rare predicates.\<close>

lemma rare_mem: "(p, s, ob, g) \<in> (\<lambda>(q, r). (q, row_key r)) ` set (st_rare st) \<longleftrightarrow> (s, ob, g) \<in> rare_keys st p"
  by (force simp: rare_keys_def)

definition rare_count_row :: "term_id \<Rightarrow> store \<Rightarrow> store" where
  "rare_count_row p st =
     (case pred_lookup st p of
        None \<Rightarrow> st\<lparr>st_predicates := st_predicates st @
                  [(p, \<lparr>pr_table_oid = False, pr_triple_count = 1, pr_htap = False,
                        pr_tombstone_count = 0, pr_promoting = False\<rparr>)]\<rparr>
      | Some _ \<Rightarrow> upd_pred p (\<lambda>r. r\<lparr>pr_triple_count := pr_triple_count r + 1\<rparr>) st)"

lemma pred_lookup_append:
  "st_predicates st0 = ps \<Longrightarrow> pred_lookup (st\<lparr>st_predicates := ps @ [(p, r)]\<rparr>) q =
     (case pred_lookup st0 q of None \<Rightarrow> if q = p then Some r else None | Some x \<Rightarrow> Some x)"
  by (auto simp: pred_lookup_def map_add_def split: option.splits)

lemma rare_count_row_simps [simp]:
  "st_vp (rare_count_row p st) = st_vp st" "st_rare (rare_count_row p st) = st_rare st"
  "st_seq (rare_count_row p st) = st_seq st"
  "q \<noteq> p \<Longrightarrow> pred_lookup (rare_count_row p st) q = pred_lookup st q"
  "get_dedicated_vp_table q (rare_count_row p st) = get_dedicated_vp_table q st"
  by (auto simp: rare_count_row_def pred_lookup_append [OF refl] get_dedicated_vp_table_def split: option.splits)

lemma rare_count_row_lookup:
  "pred_lookup (rare_count_row p st) p = Some r \<Longrightarrow>
     pred_lookup st p = None \<and> \<not> pr_table_oid r \<and> pr_tombstone_count r = 0
     \<or> (\<exists>r'. pred_lookup st p = Some r' \<and> pr_table_oid r = pr_table_oid r' \<and> pr_htap r = pr_htap r'
           \<and> pr_tombstone_count r = pr_tombstone_count r')"
  by (cases "pred_lookup st p") (auto simp: rare_count_row_def pred_lookup_append [OF refl])

lemma rare_count_row_distinct:
  "distinct (map fst (st_predicates st)) \<Longrightarrow> distinct (map fst (st_predicates (rare_count_row p st)))"
  by (auto simp: rare_count_row_def pred_lookup_def map_of_eq_None_iff split: option.splits)

lemma insert_into_vp_rare_eq:
  "insert_into_vp_rare p s ob g st =
     (if (s, ob, g) \<in> rare_keys st p then (0, snd (nextval st))
      else (st_seq st + 1,
            rare_count_row p ((snd (nextval st))\<lparr>st_rare := st_rare st @ [(p, mk_row s ob g (st_seq st + 1))]\<rparr>)))"
  using rare_mem [of p s ob g "snd (nextval st)"]
  by (simp add: insert_into_vp_rare_def rare_count_row_def Let_def case_prod_unfold rare_keys_def)

lemma rare_keys_append:
  "st_rare st' = st_rare st @ [(p, mk_row s ob g i)] \<Longrightarrow>
     rare_keys st' q = (if q = p then insert (s, ob, g) (rare_keys st q) else rare_keys st q)"
proof -
  assume "st_rare st' = st_rare st @ [(p, mk_row s ob g i)]"
  then have "{x \<in> set (st_rare st'). fst x = q} =
      (if q = p then insert (p, mk_row s ob g i) {x \<in> set (st_rare st). fst x = q}
       else {x \<in> set (st_rare st). fst x = q})"
    by auto
  then show ?thesis by (simp add: rare_keys_def)
qed

lemma rare_ok_append:
  "rare_ok (st_seq st) (st_rare st) \<Longrightarrow> (s, ob, g) \<notin> rare_keys st p \<Longrightarrow>
     rare_ok (st_seq st + 1) (st_rare st @ [(p, mk_row s ob g (st_seq st + 1))])"
  by (force simp: rare_ok_def rare_keys_def image_iff)

lemma insert_into_vp_rare:
  fixes p s ob g :: term_id
  assumes ok: "store_ok st"
  defines "st' \<equiv> snd (insert_into_vp_rare p s ob g st)"
  shows "quads st' = insert (s, p, ob, g) (quads st)" "store_ok st'"
    "st_vp st' = st_vp st" "get_dedicated_vp_table q st' = get_dedicated_vp_table q st"
proof -
  have seq: "st_seq st' = st_seq st + 1" and vp: "st_vp st' = st_vp st"
    and ded: "get_dedicated_vp_table q st' = get_dedicated_vp_table q st" for q
    by (simp_all add: st'_def insert_into_vp_rare_eq)
  have other: "pred_lookup st' q = pred_lookup st q" if "q \<noteq> p" for q
    using that by (simp add: st'_def insert_into_vp_rare_eq)
  have keys: "rare_keys st' q = (if q = p then insert (s, ob, g) (rare_keys st q) else rare_keys st q)" for q
  proof (cases "(s, ob, g) \<in> rare_keys st p")
    case True
    then have "st_rare st' = st_rare st" by (simp add: st'_def insert_into_vp_rare_eq)
    with True show ?thesis using rare_keys_cong [of st' st] by auto
  qed (simp add: rare_keys_append st'_def insert_into_vp_rare_eq)
  show "st_vp st' = st_vp st" "get_dedicated_vp_table q st' = get_dedicated_vp_table q st"
    by (fact vp ded)+
  show "quads st' = insert (s, p, ob, g) (quads st)"
    by (rule quads_insert) (auto simp: shown_def ded vp keys)
  have lookup: "pred_lookup st p = None \<and> \<not> pr_table_oid r \<and> pr_tombstone_count r = 0
     \<or> (\<exists>r'. pred_lookup st p = Some r' \<and> pr_table_oid r = pr_table_oid r' \<and> pr_htap r = pr_htap r'
           \<and> pr_tombstone_count r = pr_tombstone_count r')" if "pred_lookup st' p = Some r" for r
    using that rare_count_row_lookup by (fastforce simp: st'_def insert_into_vp_rare_eq split: if_splits)
  show "store_ok st'"
  proof (rule store_ok_change [OF ok, where p = p])
    show "rare_ok (st_seq st') (st_rare st')"
      using store_ok_rare [OF ok] rare_ok_mono [OF store_ok_rare [OF ok], of "st_seq st + 1"]
      by (simp add: st'_def insert_into_vp_rare_eq rare_ok_append)
    show "distinct (map fst (st_predicates st'))"
      using store_ok_preds [OF ok] by (simp add: st'_def insert_into_vp_rare_eq rare_count_row_distinct)
    show "(pr_table_oid r \<longrightarrow> pr_htap r) \<and> (\<not> vp_view_tombs (st_vp st' p) \<longrightarrow> pr_tombstone_count r = 0)"
      if "pred_lookup st' p = Some r" for r
      using lookup [OF that] store_ok_count [OF ok] store_ok_htap [OF ok] by (auto simp: vp)
    show "vp_ok (st_seq st') (st_vp st' p)"
      using vp_ok_mono [OF store_ok_vp [OF ok, of p], of "st_seq st + 1"] by (simp add: vp seq)
  qed (use store_ok_empty [OF ok] in \<open>simp_all add: vp seq other ded\<close>)
qed

section \<open>Promotion\<close>

lemma keys_insert_skip: "row_key ` set (insert_skip r rows) = insert (row_key r) (row_key ` set rows)"
  by (auto simp: insert_skip_def)

lemma keys_fold_insert_skip:
  "row_key ` set (fold insert_skip rs rows) = row_key ` set rs \<union> row_key ` set rows"
  by (induction rs arbitrary: rows) (auto simp: keys_insert_skip)

lemma distinct_insert_skip: "distinct (map row_key rows) \<Longrightarrow> distinct (map row_key (insert_skip r rows))"
  by (simp add: insert_skip_def)

lemma distinct_fold_insert_skip:
  "distinct (map row_key rows) \<Longrightarrow> distinct (map row_key (fold insert_skip rs rows))"
  by (induction rs arbitrary: rows) (simp_all add: distinct_insert_skip)

lemma set_fold_insert_skip: "set (fold insert_skip rs rows) \<subseteq> set rs \<union> set rows"
proof (induction rs arbitrary: rows)
  case (Cons r rs)
  from Cons [of "insert_skip r rows"] show ?case by (auto simp: insert_skip_def split: if_splits)
qed simp

lemma ensure_vp_table_simps [simp]:
  "st_rare (ensure_vp_table p st) = st_rare st" "st_seq (ensure_vp_table p st) = st_seq st"
  "q \<noteq> p \<Longrightarrow> st_vp (ensure_vp_table p st) q = st_vp st q"
  "q \<noteq> p \<Longrightarrow> pred_lookup (ensure_vp_table p st) q = pred_lookup st q"
  "vp_delta (st_vp (ensure_vp_table p st) p) = vp_delta (st_vp st p)"
  "vp_main (st_vp (ensure_vp_table p st) p) = vp_main (st_vp st p)"
  "vp_tombs (st_vp (ensure_vp_table p st) p) = vp_tombs (st_vp st p)"
  by (auto simp: ensure_vp_table_def ensure_htap_tables_def bump_schema_generation_def rebuild_htap_view_def
      Let_def pred_lookup_append [OF refl] split: option.splits)

lemma ensure_vp_table_view:
  "get_dedicated_vp_table p st \<Longrightarrow> st_vp (ensure_vp_table p st) = st_vp st"
  "\<not> get_dedicated_vp_table p st \<Longrightarrow> vp_view_tombs (st_vp (ensure_vp_table p st) p)"
  by (auto simp: ensure_vp_table_def ensure_htap_tables_def bump_schema_generation_def rebuild_htap_view_def
      Let_def split: option.splits)

lemma ensure_vp_table_lookup:
  "\<exists>r. pred_lookup (ensure_vp_table p st) p = Some r \<and> pr_table_oid r
     \<and> (get_dedicated_vp_table p st \<longrightarrow> pred_lookup st p = Some r) \<and> (\<not> get_dedicated_vp_table p st \<longrightarrow> pr_htap r)"
  by (auto simp: ensure_vp_table_def ensure_htap_tables_def bump_schema_generation_def rebuild_htap_view_def
      Let_def pred_lookup_append [OF refl] get_dedicated_vp_table_def split: option.splits)

lemma ensure_vp_table_distinct:
  "distinct (map fst (st_predicates st)) \<Longrightarrow> distinct (map fst (st_predicates (ensure_vp_table p st)))"
  by (auto simp: ensure_vp_table_def ensure_htap_tables_def bump_schema_generation_def rebuild_htap_view_def
      Let_def pred_lookup_def map_of_eq_None_iff split: option.splits)

definition moved_rows :: "term_id \<Rightarrow> store \<Rightarrow> vp_row list" where
  "moved_rows p st = map snd (filter (\<lambda>(q, r). q = p) (st_rare st))"

lemma moved_keys: "row_key ` set (moved_rows p st) = rare_keys st p"
  by (auto simp: moved_rows_def rare_keys_def image_iff case_prod_unfold)

lemma promote_predicate_fields:
  fixes p q :: term_id
  defines "st' \<equiv> \<lambda>st. promote_predicate p st"
  shows "st_rare (st' st) = filter (\<lambda>(q, r). q \<noteq> p) (st_rare st)"
    "st_seq (st' st) = st_seq st"
    "q \<noteq> p \<Longrightarrow> st_vp (st' st) q = st_vp st q"
    "q \<noteq> p \<Longrightarrow> pred_lookup (st' st) q = pred_lookup st q"
    "vp_delta (st_vp (st' st) p) = fold insert_skip (moved_rows p st) (vp_delta (st_vp st p))"
    "vp_main (st_vp (st' st) p) = vp_main (st_vp st p)" "vp_tombs (st_vp (st' st) p) = vp_tombs (st_vp st p)"
    "vp_view_tombs (st_vp (st' st) p) =
       (if get_dedicated_vp_table p st then vp_view_tombs (st_vp st p) else True)"
  by (simp_all add: st'_def promote_predicate_def Let_def bump_schema_generation_def moved_rows_def
      ensure_vp_table_view)

lemma promote_predicate_lookup:
  "\<exists>r. pred_lookup (promote_predicate p st) p = Some r \<and> pr_table_oid r
     \<and> (get_dedicated_vp_table p st \<longrightarrow>
          (\<exists>r'. pred_lookup st p = Some r' \<and> pr_table_oid r' \<and> pr_htap r = pr_htap r'
              \<and> pr_tombstone_count r = pr_tombstone_count r'))
     \<and> (\<not> get_dedicated_vp_table p st \<longrightarrow> pr_htap r)"
proof -
  let ?st = "upd_pred p (\<lambda>r. r\<lparr>pr_promoting := True\<rparr>) st"
  obtain r where r: "pred_lookup (ensure_vp_table p ?st) p = Some r" "pr_table_oid r"
    "get_dedicated_vp_table p st \<longrightarrow> pred_lookup ?st p = Some r" "\<not> get_dedicated_vp_table p st \<longrightarrow> pr_htap r"
    using ensure_vp_table_lookup [of p ?st] by auto
  show ?thesis
    using r by (auto simp: promote_predicate_def Let_def bump_schema_generation_def)
qed

lemma promote_predicate_distinct:
  "distinct (map fst (st_predicates st)) \<Longrightarrow> distinct (map fst (st_predicates (promote_predicate p st)))"
  using ensure_vp_table_distinct [of "upd_pred p (\<lambda>r. r\<lparr>pr_promoting := True\<rparr>) st" p]
  by (simp add: promote_predicate_def Let_def bump_schema_generation_def)

lemma promote_predicate_dedicated:
  "get_dedicated_vp_table q (promote_predicate p st) \<longleftrightarrow> q = p \<or> get_dedicated_vp_table q st"
proof (cases "q = p")
  case True
  with promote_predicate_lookup [of p st] show ?thesis by (auto simp: get_dedicated_vp_table_def)
next
  case False
  then show ?thesis by (simp add: get_dedicated_vp_table_def promote_predicate_fields)
qed

lemma promote_predicate:
  fixes p :: term_id
  assumes ok: "store_ok st"
  defines "st' \<equiv> promote_predicate p st"
  shows "quads st' = quads st" "store_ok st'"
proof -
  note fields = promote_predicate_fields [where p = p and st = st, folded st'_def]
  note ded = promote_predicate_dedicated [where p = p and st = st, folded st'_def]
  have delta: "delta_keys (st_vp st' p) = rare_keys st p \<union> delta_keys (st_vp st p)"
    by (simp add: delta_keys_def fields keys_fold_insert_skip moved_keys)
  have rare: "rare_keys st' q = (if q = p then {} else rare_keys st q)" for q
    by (auto simp: rare_keys_def fields image_iff)
  have main: "shown_main (st_vp st' p) = (if get_dedicated_vp_table p st then shown_main (st_vp st p) else {})"
    using store_ok_empty [OF ok, of p]
    by (auto simp: shown_main_def main_keys_def tomb_keys_def fields)
  have empty: "delta_keys (st_vp st p) = {}" if "\<not> get_dedicated_vp_table p st"
    using store_ok_empty [OF ok that] by (simp add: delta_keys_def)
  have "shown st' q = shown st q" for q
    using empty by (cases "q = p") (auto simp: shown_def rare main delta ded fields(3))
  then show "quads st' = quads st" by (rule quads_cong)
  have moved: "\<forall>r \<in> set (moved_rows p st). row_i r \<le> st_seq st"
    using store_ok_rare [OF ok] by (auto simp: rare_ok_def moved_rows_def)
  have okp: "vp_ok (st_seq st) (st_vp st p)" using store_ok_vp [OF ok] .
  show "store_ok st'"
  proof (rule store_ok_change [OF ok, where p = p])
    have "row_i r \<le> st_seq st" if "r \<in> set (fold insert_skip (moved_rows p st) (vp_delta (st_vp st p)))" for r
      using subsetD [OF set_fold_insert_skip that] moved okp by (auto simp: vp_ok_def)
    then show "vp_ok (st_seq st') (st_vp st' p)"
      using okp store_ok_empty [OF ok, of p]
      by (auto simp: vp_ok_def fields distinct_fold_insert_skip)
    show "rare_ok (st_seq st') (st_rare st')"
      using store_ok_rare [OF ok] by (simp add: rare_ok_def fields distinct_map_filter)
    show "distinct (map fst (st_predicates st'))"
      using promote_predicate_distinct store_ok_preds [OF ok] by (simp add: st'_def)
    show "(pr_table_oid r \<longrightarrow> pr_htap r) \<and> (\<not> vp_view_tombs (st_vp st' p) \<longrightarrow> pr_tombstone_count r = 0)"
      if "pred_lookup st' p = Some r" for r
      using that promote_predicate_lookup [of p st, folded st'_def] store_ok_count [OF ok] store_ok_htap [OF ok]
      by (auto simp: fields)
  qed (simp_all add: fields ded)
qed

lemma promote_fold:
  "store_ok st \<Longrightarrow> quads (fold promote_predicate ps st) = quads st \<and> store_ok (fold promote_predicate ps st)"
  by (induction ps arbitrary: st) (simp_all add: promote_predicate)

lemma insert_triple_eq:
  "insert_triple cfg now s p ob g st =
     (let (i, st') = insert_encoded_triple s p ob g st;
          st' = (if \<not> get_dedicated_vp_table p st
                   \<and> VPP_THRESHOLD cfg \<le> (case pred_lookup st' p of Some r \<Rightarrow> pr_triple_count r | None \<Rightarrow> 0)
                 then promote_predicate p st' else st')
      in (i, maybe_insert_temporal_cdc cfg now s p ob g st'))"
  by (simp add: insert_triple_def insert_encoded_triple_def case_prod_unfold Let_def)

lemma temporal_quads [simp]:
  "quads (maybe_insert_temporal_cdc cfg now s p ob g st) = quads st"
  "store_ok (maybe_insert_temporal_cdc cfg now s p ob g st) = store_ok st"
  by (rule aux_fields; simp add: maybe_insert_temporal_cdc_def Let_def split: option.split)+

lemma record_quads [simp]:
  "quads (record_write g st) = quads st" "store_ok (record_write g st) = store_ok st"
  "quads (record_delete g st) = quads st" "store_ok (record_delete g st) = store_ok st"
  by (rule aux_fields; simp add: record_write_def record_delete_def)+

lemma insert_encoded_refines:
  assumes "store_ok st"
  shows "quads (snd (insert_encoded_triple s p ob g st)) = insert (s, p, ob, g) (quads st)"
    "store_ok (snd (insert_encoded_triple s p ob g st))"
proof -
  have "\<not> get_dedicated_vp_table p st \<Longrightarrow> insert_encoded_triple s p ob g st = insert_into_vp_rare p s ob g st"
    by (simp add: insert_encoded_triple_def)
  then show "quads (snd (insert_encoded_triple s p ob g st)) = insert (s, p, ob, g) (quads st)"
    "store_ok (snd (insert_encoded_triple s p ob g st))"
    using insert_encoded_dedicated [OF assms] insert_into_vp_rare [OF assms]
    by (cases "get_dedicated_vp_table p st"; simp)+
qed

section \<open>Merge\<close>

lemma main_new_keys: "row_key ` set (build_main_new cfg t) = (main_keys t - tomb_keys t) \<union> delta_keys t"
  by (auto simp: build_main_new_def image_Un live_main_keys delta_keys_def)

lemma set_main_new: "set (build_main_new cfg t) \<subseteq> set (vp_main t) \<union> set (vp_delta t)"
  using set_distinct_on_key [of "live_main t @ vp_delta t"] by (auto simp: build_main_new_def live_main_def)

lemma shown_main_ok: "vp_ok n t \<Longrightarrow> shown_main t = main_keys t - tomb_keys t"
  by (auto simp: shown_main_def vp_ok_def tomb_keys_def)

text \<open>Every tombstone was written before the merge took its snapshot of the sequence, so that
  either way of clearing them empties the table and the view is rebuilt without them.\<close>

lemma clear_tombstones_all:
  assumes "\<forall>x \<in> set (vp_tombs (st_vp st p)). snd x \<le> n"
  shows "clear_tombstones cfg p n st =
     rebuild_htap_view p False (upd_pred p (\<lambda>r. r\<lparr>pr_tombstone_count := 0\<rparr>) (upd_vp p (\<lambda>t. t\<lparr>vp_tombs := []\<rparr>) st))"
proof -
  have "filter (\<lambda>(k, i). n < i) (vp_tombs (st_vp st p)) = []"
    using assms by (auto simp: filter_empty_conv)
  then have "upd_vp p (\<lambda>t. t\<lparr>vp_tombs := filter (\<lambda>(k, i). n < i) (vp_tombs t)\<rparr>) st = upd_vp p (\<lambda>t. t\<lparr>vp_tombs := []\<rparr>) st"
    by (simp add: upd_vp_def)
  then show ?thesis by (simp add: clear_tombstones_def Let_def)
qed

lemma merged_table:
  "t\<lparr>vp_main := m, vp_delta := [], vp_tombs := [], vp_view_tombs := False\<rparr> =
     \<lparr>vp_delta = [], vp_main = m, vp_tombs = [], vp_view_tombs = False\<rparr>"
  by (cases t) simp

lemma merge_predicate_fields:
  fixes p :: term_id and cfg :: storage_gucs
  assumes ok: "store_ok st" and htap: "is_htap p st"
  defines "st' \<equiv> snd (merge_predicate cfg p st)"
  shows "st_vp st' = (st_vp st)(p := \<lparr>vp_delta = [], vp_main = build_main_new cfg (st_vp st p), vp_tombs = [],
                                      vp_view_tombs = False\<rparr>)"
    "st_rare st' = st_rare st" "st_seq st' = st_seq st"
    "map fst (st_predicates st') = map fst (st_predicates st)"
    "pred_lookup st' q = (if q = p then map_option (\<lambda>r. r\<lparr>pr_tombstone_count := 0,
                                     pr_triple_count := int (length (build_main_new cfg (st_vp st p)))\<rparr>) (pred_lookup st p)
                          else pred_lookup st q)"
    "get_dedicated_vp_table q st' = get_dedicated_vp_table q st"
    "fst (merge_predicate cfg p st) = int (length (build_main_new cfg (st_vp st p)))"
proof -
  have "\<forall>x \<in> set (vp_tombs (st_vp st p)). snd x \<le> st_seq st"
    using store_ok_vp [OF ok, of p] by (simp add: vp_ok_def)
  then show "st_vp st' = (st_vp st)(p := \<lparr>vp_delta = [], vp_main = build_main_new cfg (st_vp st p), vp_tombs = [],
                                      vp_view_tombs = False\<rparr>)"
    "st_rare st' = st_rare st" "st_seq st' = st_seq st"
    "map fst (st_predicates st') = map fst (st_predicates st)"
    "pred_lookup st' q = (if q = p then map_option (\<lambda>r. r\<lparr>pr_tombstone_count := 0,
                                     pr_triple_count := int (length (build_main_new cfg (st_vp st p)))\<rparr>) (pred_lookup st p)
                          else pred_lookup st q)"
    "get_dedicated_vp_table q st' = get_dedicated_vp_table q st"
    "fst (merge_predicate cfg p st) = int (length (build_main_new cfg (st_vp st p)))"
    using htap clear_tombstones_all [where n = "st_seq st" and p = p]
    by (simp_all add: st'_def merge_predicate_def Let_def rebuild_htap_view_def option.map_comp comp_def merged_table)
qed

lemma merge_predicate_refines:
  fixes p :: term_id and cfg :: storage_gucs
  assumes ok: "store_ok st"
  defines "st' \<equiv> snd (merge_predicate cfg p st)"
  shows "quads st' = quads st" "store_ok st'"
proof -
  have "quads st' = quads st \<and> store_ok st'"
  proof (cases "is_htap p st")
    case False
    then show ?thesis using ok by (simp add: st'_def merge_predicate_def)
  next
    case True
    note fields = merge_predicate_fields [OF ok True, where cfg = cfg, folded st'_def]
    let ?t = "st_vp st p"
    have okp: "vp_ok (st_seq st) ?t" using store_ok_vp [OF ok] .
    have "shown_main (st_vp st' p) \<union> delta_keys (st_vp st' p) = shown_main ?t \<union> delta_keys ?t"
      using main_new_keys [of cfg ?t]
      by (auto simp: fields shown_main_ok [OF okp]) (auto simp: shown_main_def main_keys_def delta_keys_def)
    then have "shown st' q = shown st q" for q
      by (cases "q = p") (simp_all add: shown_def fields rare_keys_cong [OF fields(2)])
    then have "quads st' = quads st" by (rule quads_cong)
    moreover have "store_ok st'"
    proof (rule store_ok_change [OF ok, where p = p])
      show "vp_ok (st_seq st') (st_vp st' p)"
        using set_main_new [of cfg ?t] okp by (auto simp: vp_ok_def fields)
      show "(pr_table_oid r \<longrightarrow> pr_htap r) \<and> (\<not> vp_view_tombs (st_vp st' p) \<longrightarrow> pr_tombstone_count r = 0)"
        if "pred_lookup st' p = Some r" for r
        using that store_ok_htap [OF ok] by (auto simp: fields)
      show "vp_delta (st_vp st' p) = [] \<and> vp_main (st_vp st' p) = [] \<and> vp_tombs (st_vp st' p) = []"
        if "\<not> get_dedicated_vp_table p st'"
        using that store_ok_empty [OF ok, of p] set_main_new [of cfg ?t] by (auto simp: fields)
    qed (use store_ok_preds [OF ok] store_ok_rare [OF ok] in \<open>simp_all add: fields\<close>)
    ultimately show ?thesis by simp
  qed
  then show "quads st' = quads st" "store_ok st'" by auto
qed

lemma fold_pair_refines:
  assumes "store_ok st" and "\<And>p x. store_ok (snd x) \<Longrightarrow> quads (snd (f p x)) = quads (snd x) \<and> store_ok (snd (f p x))"
  shows "quads (snd (fold f ps (n, st))) = quads st \<and> store_ok (snd (fold f ps (n, st)))"
proof -
  have "store_ok (snd x) \<Longrightarrow> quads (snd (fold f ps x)) = quads (snd x) \<and> store_ok (snd (fold f ps x))" for x
    using assms(2) by (induction ps arbitrary: x) simp_all
  from this [of "(n, st)"] assms(1) show ?thesis by simp
qed

lemma purge_quads [simp]:
  "quads (purge_confidence st) = quads st" "store_ok (purge_confidence st) = store_ok st"
  by (rule aux_fields; simp add: purge_confidence_def)+

lemma merge_all_refines:
  assumes "store_ok st"
  shows "quads (snd (merge_all cfg st)) = quads st" "store_ok (snd (merge_all cfg st))"
proof -
  let ?f = "\<lambda>p (total, st). if vp_delta (st_vp st p) \<noteq> []
      then (let (n, st) = merge_predicate cfg p st in (total + n, st)) else (total, st)"
  have "quads (snd (fold ?f ps (0, st))) = quads st \<and> store_ok (snd (fold ?f ps (0, st)))" for ps
    by (rule fold_pair_refines [OF assms]) (simp add: case_prod_unfold Let_def merge_predicate_refines)
  then show "quads (snd (merge_all cfg st)) = quads st" "store_ok (snd (merge_all cfg st))"
    by (simp_all add: merge_all_def case_prod_unfold Let_def)
qed

lemma shmem_quads [simp]:
  "quads (st\<lparr>st_shmem := m\<rparr>) = quads st" "store_ok (st\<lparr>st_shmem := m\<rparr>) = store_ok st"
  by (rule aux_fields; simp)+

lemma patterns_quads [simp]:
  "quads (rebuild_subject_patterns st) = quads st" "store_ok (rebuild_subject_patterns st) = store_ok st"
  "quads (rebuild_object_patterns st) = quads st" "store_ok (rebuild_object_patterns st) = store_ok st"
  by (rule aux_fields; simp add: rebuild_subject_patterns_def rebuild_object_patterns_def)+

lemma compact_refines:
  assumes "store_ok st"
  shows "quads (snd (compact cfg st)) = quads st" "store_ok (snd (compact cfg st))"
  by (simp_all add: compact_def case_prod_unfold Let_def merge_all_refines [OF assms])

section \<open>Deletion\<close>

lemma count_key_pos: "0 < count_key k rows \<longleftrightarrow> k \<in> row_key ` set rows"
  by (auto simp: count_key_def filter_empty_conv)

lemma sub_count_fields [simp]:
  "st_vp (sub_count p d st) = st_vp st" "st_rare (sub_count p d st) = st_rare st"
  "st_seq (sub_count p d st) = st_seq st"
  "map fst (st_predicates (sub_count p d st)) = map fst (st_predicates st)"
  "get_dedicated_vp_table q (sub_count p d st) = get_dedicated_vp_table q st"
  "pred_lookup (sub_count p d st) q =
     (if q = p then map_option (\<lambda>r. r\<lparr>pr_triple_count := max 0 (pr_triple_count r - d)\<rparr>) (pred_lookup st p)
      else pred_lookup st q)"
  by (simp_all add: sub_count_def)

lemma sub_count_shown [simp]:
  "rare_keys (sub_count p d st) q = rare_keys st q" "vp_shown (sub_count p d st) q = vp_shown st q"
  by (simp_all add: vp_shown_def rare_keys_def)

lemma sub_count_quads [simp]:
  "quads (sub_count p d st) = quads st" "store_ok st \<Longrightarrow> store_ok (sub_count p d st)"
proof -
  show "quads (sub_count p d st) = quads st"
    by (rule quads_cong) (simp add: shown_split)
  assume ok: "store_ok st"
  show "store_ok (sub_count p d st)"
    using store_ok_preds [OF ok] store_ok_rare [OF ok] store_ok_vp [OF ok] store_ok_empty [OF ok]
      store_ok_count [OF ok] store_ok_htap [OF ok]
    by (intro store_ok_change [OF ok, where p = p]) auto
qed

lemma count_tombstones_fields:
  assumes "get_dedicated_vp_table p st"
  shows "st_rare (count_tombstones p n st) = st_rare st" "st_seq (count_tombstones p n st) = st_seq st"
    "map fst (st_predicates (count_tombstones p n st)) = map fst (st_predicates st)"
    "get_dedicated_vp_table q (count_tombstones p n st) = get_dedicated_vp_table q st"
    "q \<noteq> p \<Longrightarrow> st_vp (count_tombstones p n st) q = st_vp st q"
    "vp_delta (st_vp (count_tombstones p n st) p) = vp_delta (st_vp st p)"
    "vp_main (st_vp (count_tombstones p n st) p) = vp_main (st_vp st p)"
    "vp_tombs (st_vp (count_tombstones p n st) p) = vp_tombs (st_vp st p)"
    "pred_lookup (count_tombstones p n st) q =
       (if q = p then map_option (\<lambda>r. r\<lparr>pr_tombstone_count := pr_tombstone_count r + n\<rparr>) (pred_lookup st p)
        else pred_lookup st q)"
  using assms by (simp_all add: count_tombstones_def Let_def rebuild_htap_view_def)

lemma count_tombstones_view:
  assumes "get_dedicated_vp_table p st"
    and "\<And>r. pred_lookup st p = Some r \<Longrightarrow> \<not> vp_view_tombs (st_vp st p) \<Longrightarrow> pr_tombstone_count r = 0"
  shows "vp_view_tombs (st_vp (count_tombstones p n st) p)"
  using assms by (auto simp: count_tombstones_def Let_def rebuild_htap_view_def get_dedicated_vp_table_def
      split: option.splits)

lemma vp_ok_parts:
  assumes "vp_ok n t" "set (vp_delta t') \<subseteq> set (vp_delta t)" "distinct (map row_key (vp_delta t'))"
    "vp_main t' = vp_main t" "\<forall>x \<in> set (vp_tombs t'). snd x \<le> m" "n \<le> m" "\<not> vp_view_tombs t' \<Longrightarrow> vp_tombs t' = []"
  shows "vp_ok m t'"
  using vp_ok_mono [OF assms(1,6)] assms(2-5,7) unfolding vp_ok_def by auto

text \<open>The triple in delta: the row goes, main stays as it is.\<close>

lemma delete_delta_fields:
  assumes "(s, ob, g) \<in> delta_keys (st_vp st p)"
  shows "snd (delete_from_vp s p ob g st) =
    sub_count p (count_key (s, ob, g) (vp_delta (st_vp st p)))
      (upd_vp p (\<lambda>t. t\<lparr>vp_delta := filter (\<lambda>r. row_key r \<noteq> (s, ob, g)) (vp_delta t)\<rparr>) st)"
  using assms count_key_pos [of "(s, ob, g)" "vp_delta (st_vp st p)"]
  by (simp add: delete_from_vp_def Let_def delta_keys_def)

text \<open>The triple not in delta: a tombstone is written, whether or not main has the triple.\<close>

definition bury :: "term_id \<Rightarrow> sog \<Rightarrow> store \<Rightarrow> store" where
  "bury p k st = count_tombstones p 1 (upd_vp p (\<lambda>t. t\<lparr>vp_tombs := vp_tombs t @ [(k, st_seq st + 1)]\<rparr>)
     (snd (nextval (upd_vp p (\<lambda>t. t\<lparr>vp_delta := filter (\<lambda>r. row_key r \<noteq> k) (vp_delta t)\<rparr>) st))))"

lemma delete_main_fields:
  assumes "(s, ob, g) \<notin> delta_keys (st_vp st p)"
  shows "snd (delete_from_vp s p ob g st) = bury p (s, ob, g) st
    \<or> (\<exists>d. snd (delete_from_vp s p ob g st) = sub_count p d (bury p (s, ob, g) st))"
  using assms count_key_pos [of "(s, ob, g)" "vp_delta (st_vp st p)"]
  by (auto simp: delete_from_vp_def Let_def delta_keys_def bury_def case_prod_unfold)

lemma bury:
  fixes p :: term_id and k :: sog
  assumes ok: "store_ok st" and ded: "get_dedicated_vp_table p st"
  defines "st' \<equiv> bury p k st"
  shows "store_ok st'" "q \<noteq> p \<Longrightarrow> vp_shown st' q = vp_shown st q" "vp_shown st' p = vp_shown st p - {k}"
    "get_dedicated_vp_table q st' = get_dedicated_vp_table q st" "st_rare st' = st_rare st"
proof -
  let ?t = "st_vp st p" and ?st0 = "upd_vp p (\<lambda>t. t\<lparr>vp_tombs := vp_tombs t @ [(k, st_seq st + 1)]\<rparr>)
     (snd (nextval (upd_vp p (\<lambda>t. t\<lparr>vp_delta := filter (\<lambda>r. row_key r \<noteq> k) (vp_delta t)\<rparr>) st)))"
  have ded0: "get_dedicated_vp_table p ?st0" using ded by simp
  note fields = count_tombstones_fields [OF ded0, where n = 1, folded bury_def, folded st'_def]
  have view: "vp_view_tombs (st_vp st' p)" unfolding st'_def bury_def
    by (rule count_tombstones_view [OF ded0]) (use store_ok_count [OF ok] in simp)
  have main: "shown_main (st_vp st' p) = shown_main ?t - {k}"
    using store_ok_vp [OF ok, of p] view
    by (auto simp: shown_main_def main_keys_def tomb_keys_def fields vp_ok_def)
  have delta: "delta_keys (st_vp st' p) = delta_keys ?t - {k}"
    by (auto simp: delta_keys_def fields)
  show ded': "get_dedicated_vp_table q st' = get_dedicated_vp_table q st" for q
    by (simp add: fields)
  show rare: "st_rare st' = st_rare st" by (simp add: fields)
  show "q \<noteq> p \<Longrightarrow> vp_shown st' q = vp_shown st q"
    by (simp add: vp_shown_def ded' fields)
  show "vp_shown st' p = vp_shown st p - {k}"
    by (auto simp: vp_shown_def ded' ded main delta)
  have okp: "vp_ok (st_seq st) ?t" using store_ok_vp [OF ok] .
  show "store_ok st'"
  proof (rule store_ok_change [OF ok, where p = p])
    show "vp_ok (st_seq st') (st_vp st' p)"
      by (rule vp_ok_parts [OF okp]) (use okp view in \<open>auto simp: fields vp_ok_def distinct_map_filter\<close>)
    show "rare_ok (st_seq st') (st_rare st')"
      using rare_ok_mono [OF store_ok_rare [OF ok], of "st_seq st'"] by (simp add: fields)
    show "(pr_table_oid r \<longrightarrow> pr_htap r) \<and> (\<not> vp_view_tombs (st_vp st' p) \<longrightarrow> pr_tombstone_count r = 0)"
      if "pred_lookup st' p = Some r" for r
      using that view store_ok_htap [OF ok] by (auto simp: fields)
  qed (use store_ok_preds [OF ok] ded in \<open>simp_all add: fields ded'\<close>)
qed

lemma delete_delta:
  fixes p :: term_id
  assumes ok: "store_ok st" and ded: "get_dedicated_vp_table p st" and k: "(s, ob, g) \<in> delta_keys (st_vp st p)"
  defines "st' \<equiv> snd (delete_from_vp s p ob g st)"
  shows "store_ok st'" "q \<noteq> p \<Longrightarrow> vp_shown st' q = vp_shown st q"
    "vp_shown st' p = shown_main (st_vp st p) \<union> (delta_keys (st_vp st p) - {(s, ob, g)})"
    "get_dedicated_vp_table q st' = get_dedicated_vp_table q st" "st_rare st' = st_rare st"
proof -
  note st' = delete_delta_fields [OF k, folded st'_def]
  let ?t = "st_vp st p" and ?st0 = "upd_vp p (\<lambda>t. t\<lparr>vp_delta := filter (\<lambda>r. row_key r \<noteq> (s, ob, g)) (vp_delta t)\<rparr>) st"
  show ded': "get_dedicated_vp_table q st' = get_dedicated_vp_table q st" for q
    by (simp add: st')
  show rare: "st_rare st' = st_rare st" by (simp add: st')
  show "q \<noteq> p \<Longrightarrow> vp_shown st' q = vp_shown st q"
    by (simp add: vp_shown_def ded') (simp add: st')
  have "shown_main (st_vp st' p) = shown_main ?t" "delta_keys (st_vp st' p) = delta_keys ?t - {(s, ob, g)}"
    by (auto simp: st' shown_main_def main_keys_def tomb_keys_def delta_keys_def)
  then show "vp_shown st' p = shown_main ?t \<union> (delta_keys ?t - {(s, ob, g)})"
    by (simp add: vp_shown_def ded' ded)
  have okp: "vp_ok (st_seq st) ?t" using store_ok_vp [OF ok] .
  have "store_ok ?st0"
  proof (rule store_ok_change [OF ok, where p = p])
    show "vp_ok (st_seq ?st0) (st_vp ?st0 p)"
      by (rule vp_ok_parts [OF okp]) (use okp in \<open>auto simp: vp_ok_def distinct_map_filter\<close>)
    show "(pr_table_oid r \<longrightarrow> pr_htap r) \<and> (\<not> vp_view_tombs (st_vp ?st0 p) \<longrightarrow> pr_tombstone_count r = 0)"
      if "pred_lookup ?st0 p = Some r" for r
      using that store_ok_count [OF ok] store_ok_htap [OF ok] by simp
  qed (use store_ok_preds [OF ok] store_ok_rare [OF ok] ded in simp_all)
  then show "store_ok st'" by (simp add: st')
qed

lemma rare_keys_filter:
  "st_rare st' = filter (\<lambda>(q, r). P q (row_key r)) (st_rare st) \<Longrightarrow> rare_keys st' q = {k \<in> rare_keys st q. P q k}"
  by (auto simp: rare_keys_def image_iff)

lemma rare_ok_filter: "rare_ok n rows \<Longrightarrow> rare_ok n (filter P rows)"
  by (simp add: rare_ok_def distinct_map_filter)

lemma store_ok_rare_change:
  assumes ok: "store_ok st" and "rare_ok (st_seq st) rows"
  shows "store_ok (st\<lparr>st_rare := rows\<rparr>)"
  using assms(2) store_ok_preds [OF ok] store_ok_vp [OF ok] store_ok_empty [OF ok] store_ok_count [OF ok]
    store_ok_htap [OF ok]
  by (intro store_ok_change [OF ok]) auto

lemma delete_rare:
  fixes s p ob g :: term_id
  assumes ok: "store_ok st"
  defines "st' \<equiv> snd (delete_from_rare s p ob g st)"
  shows "store_ok st'" "st_vp st' = st_vp st" "get_dedicated_vp_table q st' = get_dedicated_vp_table q st"
    "rare_keys st' q = (if q = p then rare_keys st p - {(s, ob, g)} else rare_keys st q)"
proof -
  let ?st0 = "st\<lparr>st_rare := filter (\<lambda>(q, r). \<not> (q = p \<and> row_key r = (s, ob, g))) (st_rare st)\<rparr>"
  have cases: "st' = ?st0 \<or> (\<exists>d. st' = sub_count p d ?st0)"
    by (auto simp: st'_def delete_from_rare_def Let_def case_prod_unfold)
  have ok0: "store_ok ?st0" by (rule store_ok_rare_change [OF ok rare_ok_filter [OF store_ok_rare [OF ok]]])
  then show "store_ok st'" using cases by auto
  show "rare_keys st' q = (if q = p then rare_keys st p - {(s, ob, g)} else rare_keys st q)"
    using cases rare_keys_filter [of st' "\<lambda>q k. \<not> (q = p \<and> k = (s, ob, g))" st q] by auto
  show "st_vp st' = st_vp st" "get_dedicated_vp_table q st' = get_dedicated_vp_table q st"
    using cases by auto
qed

text \<open>A copy of the triple in delta hides its copy in main from the deletion.\<close>

definition masked :: "term_id \<Rightarrow> sog \<Rightarrow> store \<Rightarrow> bool" where
  "masked p k st \<longleftrightarrow> get_dedicated_vp_table p st \<and> k \<in> delta_keys (st_vp st p) \<and> k \<in> shown_main (st_vp st p)"

definition del_vp :: "term_id \<Rightarrow> term_id \<Rightarrow> term_id \<Rightarrow> term_id \<Rightarrow> store \<Rightarrow> store" where
  "del_vp s p ob g st = (if get_dedicated_vp_table p st then snd (delete_from_vp s p ob g st) else st)"

lemma del_vp:
  fixes s p ob g :: term_id
  assumes ok: "store_ok st"
  defines "k \<equiv> (s, ob, g)" and "st' \<equiv> del_vp s p ob g st"
  shows "store_ok st' \<and> st_rare st' = st_rare st \<and> (\<forall>q. q \<noteq> p \<longrightarrow> vp_shown st' q = vp_shown st q)
    \<and> vp_shown st' p = (if masked p k st then vp_shown st p else vp_shown st p - {k})"
proof (cases "get_dedicated_vp_table p st")
  case False
  then show ?thesis using ok by (simp add: st'_def del_vp_def masked_def vp_shown_def)
next
  case ded: True
  show ?thesis
  proof (cases "k \<in> delta_keys (st_vp st p)")
    case True
    note d = delete_delta [OF ok ded True [unfolded k_def], folded k_def]
    have "shown_main (st_vp st p) \<union> (delta_keys (st_vp st p) - {k}) =
        (if masked p k st then vp_shown st p else vp_shown st p - {k})"
      using ded True by (auto simp: masked_def vp_shown_def)
    then show ?thesis using d ded by (simp add: st'_def del_vp_def k_def)
  next
    case False
    obtain d where "st' = bury p k st \<or> st' = sub_count p d (bury p k st)"
      using delete_main_fields [OF False [unfolded k_def]] ded by (auto simp: st'_def del_vp_def k_def)
    moreover have "\<not> masked p k st" using False by (simp add: masked_def)
    ultimately show ?thesis using bury [OF ok ded, where k = k] by auto
  qed
qed

lemma delete_triple_eq: "snd (delete_triple s p ob g st) = snd (delete_from_rare s p ob g (del_vp s p ob g st))"
  by (simp add: delete_triple_def del_vp_def case_prod_unfold Let_def)

lemma Un_minus_member: "k \<in> V \<Longrightarrow> V \<union> (R - {k}) = V \<union> R"
  by blast

lemma delete_triple_refines:
  fixes s p ob g :: term_id
  assumes ok: "store_ok st"
  defines "st' \<equiv> snd (delete_triple s p ob g st)"
  shows "quads st' = (if masked p (s, ob, g) st then quads st else quads st - {(s, p, ob, g)})" "store_ok st'"
proof -
  let ?st1 = "del_vp s p ob g st" and ?k = "(s, ob, g)"
  have d: "store_ok ?st1" "st_rare ?st1 = st_rare st" "\<And>q. q \<noteq> p \<Longrightarrow> vp_shown ?st1 q = vp_shown st q"
    "vp_shown ?st1 p = (if masked p ?k st then vp_shown st p else vp_shown st p - {?k})"
    using del_vp [OF ok, of s p ob g] by auto
  note r = delete_rare [OF d(1), where s = s and p = p and ob = ob and g = g, folded delete_triple_eq, folded st'_def]
  show "store_ok st'" using r(1) .
  have rare1: "rare_keys ?st1 q = rare_keys st q" for q by (rule rare_keys_cong [OF d(2)])
  have vp: "vp_shown st' q = vp_shown ?st1 q" for q by (simp add: vp_shown_def r)
  have masked: "masked p ?k st \<Longrightarrow> ?k \<in> vp_shown st p" by (simp add: masked_def vp_shown_def)
  have other: "shown st' q = shown st q" if "q \<noteq> p" for q
    using that by (simp add: shown_split vp r rare1 d)
  have at: "shown st' p = (if masked p ?k st then shown st p else shown st p - {?k})"
  proof -
    have "shown st' p = (if masked p ?k st then vp_shown st p else vp_shown st p - {?k}) \<union> (rare_keys st p - {?k})"
      by (simp only: shown_split vp r(4) rare1 d(4) simp_thms if_True)
    with masked show ?thesis unfolding shown_split
      by (cases "masked p ?k st") (simp_all only: if_True if_False Un_minus_member Un_Diff)
  qed
  show "quads st' = (if masked p ?k st then quads st else quads st - {(s, p, ob, g)})"
  proof (cases "masked p ?k st")
    case True
    with other at have "shown st' q = shown st q" for q by (cases "q = p") auto
    then have "quads st' = quads st" by (rule quads_cong)
    with True show ?thesis by simp
  next
    case False
    then have "shown st' p = shown st p - {?k}" using at by simp
    with other have "quads st' = quads st - {(s, p, ob, g)}" by (rule quads_remove)
    with False show ?thesis by simp
  qed
qed

end
