(* ===== verification/Htap_Scan.thy ===== *)
theory Htap_Scan
  imports Htap_Refine
begin

text \<open>
  Graph-wide removal, bulk insertion and the scans of the triple store against the set of
  quads: what \<open>clear_graph_by_id\<close> and \<open>drop_graph\<close> remove, what \<open>find_triples\<close> and
  \<open>all_encoded_triples\<close> return, and that the keyset pagination of
  \<open>for_each_encoded_triple_batch\<close> visits every row once.
\<close>

section \<open>Clearing a graph\<close>

definition graph_keys :: "term_id \<Rightarrow> sog set" where
  "graph_keys g = {k. snd (snd k) = g}"

lemma row_key_graph [simp]: "row_key r \<in> graph_keys g \<longleftrightarrow> row_g r = g"
  by (simp add: graph_keys_def row_key_def)

lemma keys_filter_graph: "row_key ` set (filter (\<lambda>r. row_g r \<noteq> g) rows) = row_key ` set rows - graph_keys g"
  by auto

lemma enumerate_keys: "fst ` set (map (\<lambda>(n, r). (f r, c + int n)) (enumerate m rs)) = f ` set rs"
proof -
  have "(\<lambda>x. f (snd x)) ` set (enumerate m rs) = f ` snd ` set (enumerate m rs)"
    by (simp only: image_image)
  also have "snd ` set (enumerate m rs) = set rs"
    by (simp only: set_map [symmetric] map_snd_enumerate)
  finally have "(\<lambda>x. f (snd x)) ` set (enumerate m rs) = f ` set rs" .
  then show ?thesis by (simp add: image_image case_prod_unfold)
qed

lemma enumerate_sids:
  "\<forall>x \<in> set (map (\<lambda>(n, r). (f r, c + 1 + int n)) (enumerate 0 rs)). snd x \<le> c + int (length rs)"
  by (auto simp: in_set_enumerate_eq)

lemma tombstone_graph_fields:
  fixes p g :: term_id
  defines "st' \<equiv> \<lambda>st. snd (tombstone_graph g p st)"
  shows "st_rare (st' st) = st_rare st" "get_dedicated_vp_table q (st' st) = get_dedicated_vp_table q st"
    "q \<noteq> p \<Longrightarrow> st_vp (st' st) q = st_vp st q"
    "vp_main (st_vp (st' st) q) = vp_main (st_vp st q)"
    "vp_view_tombs (st_vp (st' st) q) = vp_view_tombs (st_vp st q)"
    "delta_keys (st_vp (st' st) p) = delta_keys (st_vp st p) - graph_keys g"
    "tomb_keys (st_vp (st' st) p) = tomb_keys (st_vp st p) \<union> (main_keys (st_vp st p) \<inter> graph_keys g)"
    "dedicated_ids (st' st) = dedicated_ids st"
proof -
  have main: "row_key ` {r \<in> set rows. row_g r = g} = row_key ` set rows \<inter> graph_keys g" for rows
    by auto
  show "tomb_keys (st_vp (st' st) p) = tomb_keys (st_vp st p) \<union> (main_keys (st_vp st p) \<inter> graph_keys g)"
    using enumerate_keys [of row_key "st_seq st + 1" 0 "filter (\<lambda>r. row_g r = g) (vp_main (st_vp st p))"]
    by (simp add: st'_def tombstone_graph_def Let_def tomb_keys_def main_keys_def image_Un main)
  have ids: "map fst (filter (\<lambda>(k, r). pr_table_oid r) (map (\<lambda>(k, r). if k = p then (k, f r) else (k, r)) ps))
      = map fst (filter (\<lambda>(k, r). pr_table_oid r) ps)" if "\<And>r. pr_table_oid (f r) = pr_table_oid r"
    for f :: "pred_row \<Rightarrow> pred_row" and ps :: "(term_id \<times> pred_row) list"
    by (induction ps) (simp_all add: that case_prod_unfold)
  show "dedicated_ids (st' st) = dedicated_ids st"
    by (simp add: st'_def tombstone_graph_def Let_def dedicated_ids_def sub_count_def upd_pred_def ids)
qed (simp_all add: st'_def tombstone_graph_def Let_def delta_keys_def keys_filter_graph [simplified])

lemma fold_snd:
  assumes "\<And>p n st. snd (f p (n, st)) = g p st"
  shows "snd (fold f ps (n, st)) = fold g ps st"
proof -
  have step: "snd (f p x) = g p (snd x)" for p x using assms [of p "fst x" "snd x"] by simp
  have "snd (fold f ps x) = fold g ps (snd x)" for x
    by (induction ps arbitrary: x) (simp_all add: step)
  from this [of "(n, st)"] show ?thesis by simp
qed

lemma drop_graph_eq:
  "snd (drop_graph g st) =
     snd (clear_rare_graph g (fold (\<lambda>p st. snd (tombstone_graph g p st)) (dedicated_ids st) st))"
proof -
  have "snd (fold (\<lambda>p (deleted, st). let ((d_delta, d_main), st) = tombstone_graph g p st
          in (deleted + (d_delta + d_main), st)) ps (0, st))
      = fold (\<lambda>p st. snd (tombstone_graph g p st)) ps st" for ps
    by (rule fold_snd) (simp add: case_prod_unfold Let_def)
  then show ?thesis by (simp add: drop_graph_def case_prod_unfold Let_def)
qed

lemma drop_fold:
  fixes g :: term_id
  defines "st' \<equiv> \<lambda>ps st. fold (\<lambda>p st. snd (tombstone_graph g p st)) ps st"
  shows "st_rare (st' ps st) = st_rare st \<and> get_dedicated_vp_table q (st' ps st) = get_dedicated_vp_table q st
    \<and> main_keys (st_vp (st' ps st) q) = main_keys (st_vp st q)
    \<and> vp_view_tombs (st_vp (st' ps st) q) = vp_view_tombs (st_vp st q)
    \<and> delta_keys (st_vp (st' ps st) q) = delta_keys (st_vp st q) - (if q \<in> set ps then graph_keys g else {})
    \<and> tomb_keys (st_vp (st' ps st) q) = tomb_keys (st_vp st q) \<union>
        (if q \<in> set ps then main_keys (st_vp st q) \<inter> graph_keys g else {})"
  unfolding st'_def
proof (induction ps arbitrary: st)
  case (Cons p ps)
  note f = tombstone_graph_fields [where p = p and g = g and st = st]
  have main: "main_keys (st_vp (snd (tombstone_graph g p st)) q) = main_keys (st_vp st q)"
    by (simp add: main_keys_def f)
  show ?case using Cons [of "snd (tombstone_graph g p st)"] main f
    by (cases "q = p") (auto simp: f)
qed simp

lemma dedicated_ids_iff: "distinct (map fst (st_predicates st)) \<Longrightarrow> p \<in> set (dedicated_ids st) \<longleftrightarrow> get_dedicated_vp_table p st"
proof -
  assume d: "distinct (map fst (st_predicates st))"
  have "p \<in> set (dedicated_ids st) \<longleftrightarrow> (\<exists>r. (p, r) \<in> set (st_predicates st) \<and> pr_table_oid r)"
    by (force simp: dedicated_ids_def)
  also have "\<dots> \<longleftrightarrow> (\<exists>r. map_of (st_predicates st) p = Some r \<and> pr_table_oid r)"
    using d by simp
  finally show ?thesis by (auto simp: get_dedicated_vp_table_def pred_lookup_def split: option.split)
qed

lemma clear_rare_graph_keys:
  "rare_keys (snd (clear_rare_graph g st)) p = rare_keys st p - graph_keys g"
  "vp_shown (snd (clear_rare_graph g st)) p = vp_shown st p"
proof -
  have "st_rare (snd (clear_rare_graph g st)) = filter (\<lambda>(q, r). (\<lambda>_ k. k \<notin> graph_keys g) q (row_key r)) (st_rare st)"
    by (simp add: clear_rare_graph_def)
  from rare_keys_filter [OF this] show "rare_keys (snd (clear_rare_graph g st)) p = rare_keys st p - graph_keys g"
    by auto
qed (simp add: vp_shown_def clear_rare_graph_def)

text \<open>What \<open>drop_graph\<close> leaves of the graph: the main rows of the tables whose view skips
  tombstones.\<close>

definition left_by_drop :: "term_id \<Rightarrow> store \<Rightarrow> quad set" where
  "left_by_drop g st = {(s, p, ob, h). h = g \<and> get_dedicated_vp_table p st
     \<and> \<not> vp_view_tombs (st_vp st p) \<and> (s, ob, g) \<in> main_keys (st_vp st p)}"

definition in_graph :: "term_id \<Rightarrow> quad set" where
  "in_graph g = {(s, p, ob, h). h = g}"

lemma drop_graph_refines:
  assumes ok: "store_ok st"
  shows "quads (snd (drop_graph g st)) = quads st - in_graph g \<union> left_by_drop g st"
proof -
  let ?st1 = "fold (\<lambda>p st. snd (tombstone_graph g p st)) (dedicated_ids st) st"
  have vp: "vp_shown ?st1 p = vp_shown st p - graph_keys g
      \<union> (if get_dedicated_vp_table p st \<and> \<not> vp_view_tombs (st_vp st p) then main_keys (st_vp st p) \<inter> graph_keys g else {})" for p
    using drop_fold [where ps = "dedicated_ids st" and g = g and st = st and q = p]
    unfolding vp_shown_def shown_main_def dedicated_ids_iff [OF store_ok_preds [OF ok]]
    by (cases "get_dedicated_vp_table p st"; cases "vp_view_tombs (st_vp st p)") (simp_all, blast+)
  have rare: "rare_keys ?st1 p = rare_keys st p" for p
    using drop_fold [where ps = "dedicated_ids st" and g = g and st = st] by (simp add: rare_keys_cong [of ?st1 st])
  have "shown (snd (drop_graph g st)) p = shown st p - graph_keys g
      \<union> (if get_dedicated_vp_table p st \<and> \<not> vp_view_tombs (st_vp st p) then main_keys (st_vp st p) \<inter> graph_keys g else {})" for p
    unfolding shown_split drop_graph_eq clear_rare_graph_keys vp rare by blast
  then show ?thesis
    by (auto simp: left_by_drop_def in_graph_def quads_def graph_keys_def split: if_splits)
qed

definition clear_step :: "term_id \<Rightarrow> term_id \<Rightarrow> store \<Rightarrow> store" where
  "clear_step g p st =
     (let ((d_delta, d_main), st) = tombstone_graph g p st
      in if 0 < d_main then count_tombstones p d_main st else st)"

lemma clear_graph_eq:
  "snd (clear_graph_by_id g st) = snd (clear_rare_graph g (fold (clear_step g) (dedicated_ids st) st))"
proof -
  have "snd (fold (\<lambda>p (deleted, st). let ((d_delta, d_main), st) = tombstone_graph g p st;
              st = (if 0 < d_main then count_tombstones p d_main st else st)
          in (deleted + (d_delta + d_main), st)) ps (0, st)) = fold (clear_step g) ps st" for ps
    by (rule fold_snd) (simp add: case_prod_unfold Let_def clear_step_def)
  then show ?thesis by (simp add: clear_graph_by_id_def case_prod_unfold Let_def)
qed

lemma tombstone_graph_store:
  "fst (tombstone_graph g p st) = (int (length (filter (\<lambda>r. row_g r = g) (vp_delta (st_vp st p)))),
      int (length (filter (\<lambda>r. row_g r = g) (vp_main (st_vp st p)))))"
  "st_seq (snd (tombstone_graph g p st)) = st_seq st + int (length (filter (\<lambda>r. row_g r = g) (vp_main (st_vp st p))))"
  "vp_delta (st_vp (snd (tombstone_graph g p st)) p) = filter (\<lambda>r. row_g r \<noteq> g) (vp_delta (st_vp st p))"
  "vp_tombs (st_vp (snd (tombstone_graph g p st)) p) = vp_tombs (st_vp st p) @
     map (\<lambda>(n, r). (row_key r, st_seq st + 1 + int n)) (enumerate 0 (filter (\<lambda>r. row_g r = g) (vp_main (st_vp st p))))"
  "map fst (st_predicates (snd (tombstone_graph g p st))) = map fst (st_predicates st)"
  "q \<noteq> p \<Longrightarrow> pred_lookup (snd (tombstone_graph g p st)) q = pred_lookup st q"
  "pred_lookup (snd (tombstone_graph g p st)) p = Some r \<Longrightarrow>
     \<exists>r'. pred_lookup st p = Some r' \<and> pr_table_oid r = pr_table_oid r' \<and> pr_htap r = pr_htap r'
          \<and> pr_tombstone_count r = pr_tombstone_count r'"
  by (auto simp: tombstone_graph_def Let_def split: if_splits)

lemma clear_step_fields:
  fixes g p :: term_id
  assumes ok: "store_ok st" and ded: "get_dedicated_vp_table p st"
  defines "st' \<equiv> clear_step g p st"
  shows "st_rare st' = st_rare st \<and> get_dedicated_vp_table q st' = get_dedicated_vp_table q st
    \<and> (q \<noteq> p \<longrightarrow> st_vp st' q = st_vp st q \<and> pred_lookup st' q = pred_lookup st q)
    \<and> vp_delta (st_vp st' p) = filter (\<lambda>r. row_g r \<noteq> g) (vp_delta (st_vp st p))
    \<and> vp_main (st_vp st' p) = vp_main (st_vp st p)
    \<and> vp_tombs (st_vp st' p) = vp_tombs (st_vp (snd (tombstone_graph g p st)) p)
    \<and> (vp_view_tombs (st_vp st' p) \<or> \<not> vp_view_tombs (st_vp st p) \<and> main_keys (st_vp st p) \<inter> graph_keys g = {})
    \<and> st_seq st' = st_seq (snd (tombstone_graph g p st))
    \<and> map fst (st_predicates st') = map fst (st_predicates st)
    \<and> (\<forall>r. pred_lookup st' p = Some r \<longrightarrow> (\<exists>r'. pred_lookup st p = Some r' \<and> pr_table_oid r = pr_table_oid r' \<and> pr_htap r = pr_htap r'
          \<and> (vp_view_tombs (st_vp st' p) \<or> pr_tombstone_count r = pr_tombstone_count r')))"
proof -
  let ?st1 = "snd (tombstone_graph g p st)" and ?d = "snd (fst (tombstone_graph g p st))"
  note f = tombstone_graph_fields [where p = p and g = g and st = st] and t = tombstone_graph_store [where g = g and p = p and st = st]
  have ded1: "get_dedicated_vp_table p ?st1" using ded by (simp add: f)
  note c = count_tombstones_fields [OF ded1]
  have st': "st' = (if 0 < ?d then count_tombstones p ?d ?st1 else ?st1)"
    by (simp add: st'_def clear_step_def case_prod_unfold Let_def)
  have view: "vp_view_tombs (st_vp (count_tombstones p ?d ?st1) p)"
    by (rule count_tombstones_view [OF ded1]) (use t(7) store_ok_count [OF ok] in \<open>auto simp: f\<close>)
  show ?thesis
  proof (cases "0 < ?d")
    case True
    then show ?thesis using view by (auto simp: st' c f t(1-6) dest!: t(7))
  next
    case False
    then have "filter (\<lambda>r. row_g r = g) (vp_main (st_vp st p)) = []" by (simp add: t)
    then have "main_keys (st_vp st p) \<inter> graph_keys g = {}" by (auto simp: main_keys_def filter_empty_conv)
    then show ?thesis using False by (auto simp: st' f t(1-6) dest!: t(7))
  qed
qed

lemma clear_step:
  fixes g p :: term_id
  assumes ok: "store_ok st" and ded: "get_dedicated_vp_table p st"
  shows "store_ok (clear_step g p st)"
    "vp_shown (clear_step g p st) q = vp_shown st q - (if q = p then graph_keys g else {})"
proof -
  let ?st' = "clear_step g p st" and ?st1 = "snd (tombstone_graph g p st)"
  note f = clear_step_fields [OF ok ded, where g = g] and t = tombstone_graph_store [where g = g and p = p and st = st]
  have okp: "vp_ok (st_seq st) (st_vp st p)" using store_ok_vp [OF ok] .
  have tombs: "tomb_keys (st_vp ?st' p) = tomb_keys (st_vp st p) \<union> (main_keys (st_vp st p) \<inter> graph_keys g)"
    using f [of p] tombstone_graph_fields(7) [of g p st] by (simp add: tomb_keys_def)
  have sids: "\<forall>x \<in> set (vp_tombs (st_vp ?st' p)). snd x \<le> st_seq ?st'"
    using f [of p] t(2,4) okp enumerate_sids [of row_key "st_seq st" "filter (\<lambda>r. row_g r = g) (vp_main (st_vp st p))"]
    by (auto simp: vp_ok_def ball_Un)
  have le: "st_seq st \<le> st_seq ?st'" using f [of p] t(2) by simp
  have no_tombs: "vp_tombs (st_vp ?st' p) = []" if "\<not> vp_view_tombs (st_vp ?st' p)"
  proof -
    have "tomb_keys (st_vp ?st' p) = {}" using that f [of p] okp unfolding tombs by (auto simp: vp_ok_def tomb_keys_def)
    then show ?thesis by (simp add: tomb_keys_def)
  qed
  show "store_ok ?st'"
  proof (rule store_ok_change [OF ok, where p = p])
    show "vp_ok (st_seq ?st') (st_vp ?st' p)"
      by (rule vp_ok_parts [OF okp]) (use f [of p] okp sids le no_tombs in \<open>simp_all add: vp_ok_def distinct_map_filter\<close>)
    show "rare_ok (st_seq ?st') (st_rare ?st')"
      using rare_ok_mono [OF store_ok_rare [OF ok] le] f [of p] by simp
    show "(pr_table_oid r \<longrightarrow> pr_htap r) \<and> (\<not> vp_view_tombs (st_vp ?st' p) \<longrightarrow> pr_tombstone_count r = 0)"
      if "pred_lookup ?st' p = Some r" for r
    proof -
      from that f [of p] obtain r' where r': "pred_lookup st p = Some r'" "pr_table_oid r = pr_table_oid r'"
        "pr_htap r = pr_htap r'" "vp_view_tombs (st_vp ?st' p) \<or> pr_tombstone_count r = pr_tombstone_count r'"
        by blast
      have "\<not> vp_view_tombs (st_vp ?st' p) \<Longrightarrow> \<not> vp_view_tombs (st_vp st p)" using f [of p] by blast
      with r' store_ok_htap [OF ok r'(1)] store_ok_count [OF ok r'(1)] show ?thesis by auto
    qed
  qed (use f le store_ok_preds [OF ok] ded in \<open>simp_all\<close>)
  have main: "main_keys (st_vp ?st' p) = main_keys (st_vp st p)" and delta: "delta_keys (st_vp ?st' p) = delta_keys (st_vp st p) - graph_keys g"
    using f [of p] keys_filter_graph [of g "vp_delta (st_vp st p)"] by (simp_all add: main_keys_def delta_keys_def)
  have "shown_main (st_vp ?st' p) = shown_main (st_vp st p) - graph_keys g"
  proof (cases "vp_view_tombs (st_vp ?st' p)")
    case True
    then have "shown_main (st_vp ?st' p) = main_keys (st_vp st p) - (tomb_keys (st_vp st p) \<union> (main_keys (st_vp st p) \<inter> graph_keys g))"
      by (simp only: shown_main_def main tombs if_True)
    then show ?thesis unfolding shown_main_ok [OF okp] by blast
  next
    case False
    with f [of p] have "main_keys (st_vp st p) \<inter> graph_keys g = {}" "\<not> vp_view_tombs (st_vp st p)" by auto
    then have "shown_main (st_vp st p) - graph_keys g = main_keys (st_vp st p)"
      by (simp only: shown_main_def if_False) blast
    with False show ?thesis by (simp only: shown_main_def main if_False)
  qed
  then show "vp_shown ?st' q = vp_shown st q - (if q = p then graph_keys g else {})"
    using f [of q] delta by (simp add: vp_shown_def Un_Diff)
qed

lemma clear_fold:
  assumes "store_ok st" "\<forall>p \<in> set ps. get_dedicated_vp_table p st"
  shows "store_ok (fold (clear_step g) ps st) \<and> st_rare (fold (clear_step g) ps st) = st_rare st
    \<and> vp_shown (fold (clear_step g) ps st) q = vp_shown st q - (if q \<in> set ps then graph_keys g else {})"
  using assms
proof (induction ps arbitrary: st)
  case (Cons p ps)
  have ok: "store_ok st" "get_dedicated_vp_table p st" using Cons.prems by auto
  have "\<forall>q \<in> set ps. get_dedicated_vp_table q (clear_step g p st)"
    using clear_step_fields [OF ok, where g = g] Cons.prems by auto
  then show ?case
    using Cons.IH [OF clear_step(1) [OF ok]] clear_step [OF ok] clear_step_fields [OF ok, where g = g] by auto
qed simp

lemma clear_graph_refines:
  assumes ok: "store_ok st"
  shows "quads (snd (clear_graph_by_id g st)) = quads st - in_graph g" "store_ok (snd (clear_graph_by_id g st))"
proof -
  let ?st1 = "fold (clear_step g) (dedicated_ids st) st"
  have ids: "\<forall>p \<in> set (dedicated_ids st). get_dedicated_vp_table p st"
    using dedicated_ids_iff [OF store_ok_preds [OF ok]] by simp
  note c = clear_fold [OF ok ids, of g]
  have rare: "rare_keys ?st1 q = rare_keys st q" for q using c by (simp add: rare_keys_cong [of ?st1 st])
  have vp: "vp_shown ?st1 q = vp_shown st q - graph_keys g" for q
    using c [of q] dedicated_ids_iff [OF store_ok_preds [OF ok], of q] by (auto simp: vp_shown_def)
  have "shown (snd (clear_graph_by_id g st)) p = shown st p - graph_keys g" for p
    unfolding shown_split clear_graph_eq clear_rare_graph_keys rare vp by blast
  then show "quads (snd (clear_graph_by_id g st)) = quads st - in_graph g"
    by (auto simp: in_graph_def quads_def graph_keys_def)
  have ok1: "store_ok ?st1" using c by simp
  show "store_ok (snd (clear_graph_by_id g st))"
    using store_ok_rare_change [OF ok1 rare_ok_filter [OF store_ok_rare [OF ok1]]]
    by (simp add: clear_graph_eq clear_rare_graph_def)
qed

section \<open>Scans\<close>

lemma matches_simps [simp]: "matches None v" "matches (Some w) v \<longleftrightarrow> v = w"
  by (simp_all add: matches_def)

lemma scan_vp_table_set:
  "set (scan_vp_table p s_id o_id g st) =
     {(s, q, ob, h). q = p \<and> h = g \<and> matches s_id s \<and> matches o_id ob
        \<and> (s, ob, g) \<in> shown_main (st_vp st p) \<union> delta_keys (st_vp st p)}"
  unfolding view_keys [symmetric] scan_vp_table_def by (force simp: row_key_def)

lemma scan_vp_rare_set:
  "set (scan_vp_rare p_id s_id o_id g st) =
     {(s, p, ob, h). h = g \<and> matches p_id p \<and> matches s_id s \<and> matches o_id ob \<and> (s, ob, g) \<in> rare_keys st p}"
  unfolding scan_vp_rare_def rare_keys_def by (force simp: row_key_def)

definition graph_of :: "term_id option \<Rightarrow> term_id" where
  "graph_of graph = (case graph of None \<Rightarrow> 0 | Some g \<Rightarrow> g)"

lemma find_triples_set:
  assumes ok: "store_ok st"
  shows "set (find_triples s_id p_id o_id graph st) =
    {(s, p, ob, g) \<in> quads st. g = graph_of graph \<and> matches s_id s \<and> matches p_id p \<and> matches o_id ob}"
proof (cases p_id)
  case None
  then show ?thesis
    by (auto simp: find_triples_def Let_def scan_vp_table_set scan_vp_rare_set dedicated_ids_iff [OF store_ok_preds [OF ok]]
        graph_of_def shown_def split: if_splits)
next
  case (Some p)
  then show ?thesis
    by (auto simp: find_triples_def Let_def scan_vp_table_set scan_vp_rare_set graph_of_def shown_def split: if_splits)
qed

lemma all_encoded_triples_set:
  assumes ok: "store_ok st"
  shows "set (all_encoded_triples graph st) = {(s, p, ob, g) \<in> quads st. matches graph g}"
proof -
  have vp: "(s, p, ob, g) \<in> (\<lambda>r. (row_s r, p, row_o r, row_g r)) ` {r \<in> set (view_rows (st_vp st p)). matches graph (row_g r)}
      \<longleftrightarrow> matches graph g \<and> (s, ob, g) \<in> shown_main (st_vp st p) \<union> delta_keys (st_vp st p)" for s p ob g
    unfolding view_keys [symmetric] by (force simp: row_key_def)
  have rare: "(s, p, ob, g) \<in> (\<lambda>(p, r). (row_s r, p, row_o r, row_g r)) ` {x \<in> set (st_rare st). matches graph (row_g (snd x))}
      \<longleftrightarrow> matches graph g \<and> (s, ob, g) \<in> rare_keys st p" for s p ob g
    unfolding rare_keys_def by (force simp: row_key_def)
  have "(s, p, ob, g) \<in> set (all_encoded_triples graph st) \<longleftrightarrow> (s, p, ob, g) \<in> quads st \<and> matches graph g" for s p ob g
    using vp [of s p ob g] rare [of s p ob g]
    by (auto simp: all_encoded_triples_def dedicated_ids_iff [OF store_ok_preds [OF ok]] shown_def case_prod_unfold split: if_splits)
  then show ?thesis by auto
qed

section \<open>Keyset pagination\<close>

lemma filter_after_page:
  assumes "sorted (map f S)" "distinct (map f S)" "0 < b" "b \<le> length S"
  shows "filter (\<lambda>x. f (last (take b S)) < (f x :: int)) S = drop b S"
proof -
  have l: "last (take b S) = S ! (b - 1)" using assms by (subst last_conv_nth) auto
  have "f (S ! (b - 1)) < f x" if x: "x \<in> set (drop b S)" for x
  proof -
    from x obtain j where j: "j < length S - b" "x = S ! (b + j)" by (auto simp: in_set_conv_nth)
    with assms have "f (S ! (b - 1)) \<le> f x" "f (S ! (b - 1)) \<noteq> f x"
      using sorted_nth_mono [OF assms(1), of "b - 1" "b + j"] nth_eq_iff_index_eq [OF assms(2), of "b - 1" "b + j"] by auto
    then show ?thesis by simp
  qed
  moreover have "\<not> f (S ! (b - 1)) < f x" if x: "x \<in> set (take b S)" for x
  proof -
    from x obtain j where j: "j < b" "j < length S" "x = S ! j" by (auto simp: in_set_conv_nth)
    then have "j \<le> b - 1" "b - 1 < length (map f S)" using assms by auto
    from sorted_nth_mono [OF assms(1) this] j(2,3) assms(3,4) show ?thesis by auto
  qed
  ultimately have "filter (\<lambda>x. f (S ! (b - 1)) < f x) (take b S @ drop b S) = drop b S"
    by (simp only: filter_append) (simp add: filter_False)
  then show ?thesis by (simp add: l)
qed

definition sid_of :: "term_id \<times> vp_row \<Rightarrow> int" where
  "sid_of x = row_i (snd x)"

definition beyond :: "int option \<Rightarrow> term_id \<times> vp_row \<Rightarrow> bool" where
  "beyond last_i x = (case last_i of None \<Rightarrow> True | Some i \<Rightarrow> i < sid_of x)"

lemma pages_step:
  "pages (Suc fuel) b rows last_i =
     (let page = take b (filter (beyond last_i) (sort_key sid_of rows));
          out = (if page = [] then [] else [page]) in
      if length page < b then Some out
      else map_option ((@) out) (pages fuel b rows (if page = [] then last_i else Some (sid_of (last page)))))"
proof -
  have "(\<lambda>(p, r). case last_i of None \<Rightarrow> True | Some i \<Rightarrow> i < row_i r) = beyond last_i"
    "(\<lambda>(p :: term_id, r). row_i r) = sid_of"
    by (auto simp: beyond_def sid_of_def fun_eq_iff split: option.splits)
  then show ?thesis by (simp add: Let_def filter_sort sid_of_def del: filter_sort [symmetric])
qed

declare pages.simps(2) [simp del]

lemma beyond_simps: "beyond None = (\<lambda>x. True)" "beyond (Some i) = (\<lambda>x. i < sid_of x)"
  by (simp_all add: beyond_def fun_eq_iff)

lemmas beyond_Some = beyond_simps(2)

lemma filter_stronger: "(\<And>x. Q x \<Longrightarrow> P x) \<Longrightarrow> filter Q (filter P xs) = filter Q xs"
  by (induction xs) auto

lemma pages_cover:
  assumes "0 < b" "distinct (map sid_of rows)" "length (filter (beyond last_i) rows) < fuel"
  shows "\<exists>ps. pages fuel b rows last_i = Some ps \<and> concat ps = filter (beyond last_i) (sort_key sid_of rows)
     \<and> (\<forall>page \<in> set ps. page \<noteq> [] \<and> length page \<le> b)"
  using assms(3)
proof (induction fuel arbitrary: last_i)
  case (Suc fuel)
  define S where "S = filter (beyond last_i) (sort_key sid_of rows)"
  have S: "sorted (map sid_of S)" "distinct (map sid_of S)"
    using assms(2) by (auto simp: S_def sorted_filter distinct_map intro: inj_on_subset)
  show ?case
  proof (cases "length (take b S) < b")
    case True
    then have "length S < b" by simp
    with True show ?thesis by (auto simp: pages_step Let_def simp flip: S_def)
  next
    case False
    then have le: "b \<le> length S" and ne: "take b S \<noteq> []" using assms(1) by auto
    let ?l = "Some (sid_of (last (take b S)))"
    have "last (take b S) \<in> set S" using ne by (meson in_set_takeD last_in_set)
    then have after: "beyond ?l x \<Longrightarrow> beyond last_i x" for x
      by (auto simp: S_def beyond_def split: option.splits)
    have rest: "filter (beyond ?l) (sort_key sid_of rows) = drop b S"
    proof -
      have "filter (beyond ?l) (filter (beyond last_i) (sort_key sid_of rows)) = filter (beyond ?l) (sort_key sid_of rows)"
        by (rule filter_stronger) (rule after)
      then have "filter (beyond ?l) (sort_key sid_of rows) = filter (beyond ?l) S"
        unfolding S_def [symmetric] ..
      also have "\<dots> = drop b S" using filter_after_page [OF S assms(1) le] by (simp add: beyond_Some)
      finally show ?thesis .
    qed
    have len: "length (filter (beyond l) rows) = length (filter (beyond l) (sort_key sid_of rows))" for l
      by (metis mset_filter mset_sort size_mset)
    have "length (filter (beyond ?l) rows) < fuel"
      using Suc.prems assms(1) le unfolding len rest S_def [symmetric] by simp
    from Suc.IH [OF this] obtain ps where ps: "pages fuel b rows ?l = Some ps" "concat ps = drop b S"
      "\<forall>page \<in> set ps. page \<noteq> [] \<and> length page \<le> b"
      unfolding rest by blast
    have "pages (Suc fuel) b rows last_i = Some (take b S # ps)"
      using False ne ps(1) by (simp add: pages_step Let_def flip: S_def)
    then show ?thesis using ps ne by (auto simp flip: S_def)
  qed
qed simp

definition quad_of :: "term_id \<times> vp_row \<Rightarrow> quad" where
  "quad_of x = (row_s (snd x), fst x, row_o (snd x), row_g (snd x))"

lemma emit_pages_cover:
  assumes "0 < EXPORT_BATCH_SIZE cfg" "distinct (map sid_of rows)"
  shows "\<exists>qs. emit_pages cfg graph rows = Some qs
     \<and> mset (concat qs) = mset (map quad_of (filter (\<lambda>x. matches graph (row_g (snd x))) rows))
     \<and> (\<forall>q \<in> set qs. q \<noteq> [] \<and> length q \<le> EXPORT_BATCH_SIZE cfg)"
proof -
  let ?rows = "filter (\<lambda>x. matches graph (row_g (snd x))) rows"
  have "distinct (map sid_of ?rows)" using assms(2) by (rule distinct_map_filter)
  from pages_cover [OF assms(1) this, of None "Suc (length ?rows)"]
  obtain ps where ps: "pages (Suc (length ?rows)) (EXPORT_BATCH_SIZE cfg) ?rows None = Some ps"
    "concat ps = sort_key sid_of ?rows" "\<forall>page \<in> set ps. page \<noteq> [] \<and> length page \<le> EXPORT_BATCH_SIZE cfg"
    by (auto simp: beyond_simps)
  have "emit_pages cfg graph rows = Some (map (map quad_of) ps)"
    using ps(1) by (simp add: emit_pages_def Let_def case_prod_unfold quad_of_def)
  moreover have "mset (concat (map (map quad_of) ps)) = mset (map quad_of ?rows)"
    by (simp add: ps(2) flip: map_concat)
  ultimately show ?thesis using ps(3) by auto
qed

lemma sequence_pages_cover:
  assumes "\<forall>x \<in> set xs. \<exists>qs. e x = Some qs \<and> mset (concat qs) = mset (f x) \<and> (\<forall>q \<in> set qs. q \<noteq> [] \<and> length q \<le> n)"
  shows "\<exists>qs. sequence_pages (map e xs) = Some qs \<and> mset (concat qs) = mset (concat (map f xs))
     \<and> (\<forall>q \<in> set qs. q \<noteq> [] \<and> length q \<le> n)"
  using assms
proof (induction xs)
  case (Cons x xs)
  then obtain qs qs' where "e x = Some qs" "mset (concat qs) = mset (f x)" "\<forall>q \<in> set qs. q \<noteq> [] \<and> length q \<le> n"
    "sequence_pages (map e xs) = Some qs'" "mset (concat qs') = mset (concat (map f xs))"
    "\<forall>q \<in> set qs'. q \<noteq> [] \<and> length q \<le> n" by auto
  then show ?case by (intro exI [of _ "qs @ qs'"]) auto
qed simp

definition table_rows :: "store \<Rightarrow> (term_id \<times> vp_row) list list" where
  "table_rows st = map (\<lambda>p. map (Pair p) (view_rows (st_vp st p))) (dedicated_ids st) @ [st_rare st]"

lemma for_each_encoded_triple_batch_cover:
  assumes "0 < EXPORT_BATCH_SIZE cfg" "\<forall>rows \<in> set (table_rows st). distinct (map sid_of rows)"
  shows "\<exists>qs. for_each_encoded_triple_batch cfg graph st = Some qs
     \<and> mset (concat qs) = mset (all_encoded_triples graph st)
     \<and> (\<forall>q \<in> set qs. q \<noteq> [] \<and> length q \<le> EXPORT_BATCH_SIZE cfg)"
proof -
  let ?f = "\<lambda>rows. map quad_of (filter (\<lambda>x. matches graph (row_g (snd x))) rows)"
  have each: "for_each_encoded_triple_batch cfg graph st = sequence_pages (map (emit_pages cfg graph) (table_rows st))"
    by (simp add: for_each_encoded_triple_batch_def table_rows_def comp_def)
  have all: "all_encoded_triples graph st = concat (map ?f (table_rows st))"
    by (simp add: all_encoded_triples_def table_rows_def quad_of_def [abs_def] comp_def case_prod_unfold filter_map)
  show ?thesis unfolding each all
    by (rule sequence_pages_cover) (use assms emit_pages_cover in blast)
qed

section \<open>Bulk insertion\<close>

lemma insert_new_rows:
  assumes "distinct (map row_key tbl)" "\<forall>r \<in> set tbl. row_i r \<le> i"
  shows "snd (insert_new_rows rows tbl i) = i + int (length rows)
    \<and> row_key ` set (fst (insert_new_rows rows tbl i)) = set rows \<union> row_key ` set tbl
    \<and> distinct (map row_key (fst (insert_new_rows rows tbl i)))
    \<and> (\<forall>r \<in> set (fst (insert_new_rows rows tbl i)). row_i r \<le> i + int (length rows))"
  using assms
proof (induction rows arbitrary: tbl i)
  case (Cons x rows)
  obtain s ob g where x: "x = (s, ob, g)" by (cases x)
  let ?tbl = "insert_skip (mk_row s ob g (i + 1)) tbl"
  have "distinct (map row_key ?tbl)" "\<forall>r \<in> set ?tbl. row_i r \<le> i + 1"
    using Cons.prems by (auto simp: insert_skip_def)
  from Cons.IH [OF this] show ?case
    by (auto simp: x insert_new_rows_def keys_insert_skip)
qed (simp add: insert_new_rows_def)

lemma fold_record_write [simp]:
  "quads (fold (\<lambda>(s, ob, g). record_write g) rows st) = quads st"
  "store_ok (fold (\<lambda>(s, ob, g). record_write g) rows st) = store_ok st"
  by (induction rows arbitrary: st) (simp_all add: case_prod_unfold)

definition batch_quads :: "term_id \<Rightarrow> sog list \<Rightarrow> quad set" where
  "batch_quads p rows = (\<lambda>(s, ob, g). (s, p, ob, g)) ` set rows"

lemma batch_quads_iff: "(s, q, ob, g) \<in> batch_quads p rows \<longleftrightarrow> q = p \<and> (s, ob, g) \<in> set rows"
  by (force simp: batch_quads_def)

lemma quads_batch:
  assumes "\<And>q. q \<noteq> p \<Longrightarrow> shown st' q = shown st q" "shown st' p = set rows \<union> shown st p"
  shows "quads st' = batch_quads p rows \<union> quads st"
proof -
  have "(a, q, b, c) \<in> quads st' \<longleftrightarrow> (a, q, b, c) \<in> batch_quads p rows \<union> quads st" for a q b c
    using assms by (cases "q = p") (auto simp: batch_quads_iff)
  then show ?thesis by (auto simp only: split_paired_all set_eq_iff)
qed

definition bulk_delta :: "term_id \<Rightarrow> sog list \<Rightarrow> store \<Rightarrow> store" where
  "bulk_delta p rows st =
     (let (tbl, i) = insert_new_rows rows (vp_delta (st_vp st p)) (st_seq st)
      in (upd_vp p (\<lambda>t. t\<lparr>vp_delta := tbl\<rparr>) st)\<lparr>st_seq := i\<rparr>)"

lemma bulk_delta:
  fixes p :: term_id and rows :: "sog list"
  assumes ok: "store_ok st" and ded: "get_dedicated_vp_table p st"
  defines "st' \<equiv> bulk_delta p rows st"
  shows "quads st' = batch_quads p rows \<union> quads st" "store_ok st'"
proof -
  let ?t = "st_vp st p"
  have okp: "vp_ok (st_seq st) ?t" using store_ok_vp [OF ok] .
  then have n: "snd (insert_new_rows rows (vp_delta ?t) (st_seq st)) = st_seq st + int (length rows)"
    "row_key ` set (fst (insert_new_rows rows (vp_delta ?t) (st_seq st))) = set rows \<union> delta_keys ?t"
    "distinct (map row_key (fst (insert_new_rows rows (vp_delta ?t) (st_seq st))))"
    "\<forall>r \<in> set (fst (insert_new_rows rows (vp_delta ?t) (st_seq st))). row_i r \<le> st_seq st + int (length rows)"
    using insert_new_rows [of "vp_delta ?t" "st_seq st" rows] by (auto simp: vp_ok_def delta_keys_def)
  have st': "st' = (upd_vp p (\<lambda>t. t\<lparr>vp_delta := fst (insert_new_rows rows (vp_delta ?t) (st_seq st))\<rparr>) st)
      \<lparr>st_seq := st_seq st + int (length rows)\<rparr>"
    by (simp add: st'_def bulk_delta_def case_prod_unfold n)
  have rare: "rare_keys st' q = rare_keys st q" for q by (rule rare_keys_cong) (simp add: st')
  have vp: "vp_shown st' q = (if q = p then set rows \<union> vp_shown st p else vp_shown st q)" for q
    using ded n(2) by (auto simp: st' vp_shown_def delta_keys_def shown_main_def main_keys_def tomb_keys_def)
  show "quads st' = batch_quads p rows \<union> quads st"
    by (rule quads_batch) (auto simp: shown_split rare vp)
  show "store_ok st'"
  proof (rule store_ok_change [OF ok, where p = p])
    show "vp_ok (st_seq st') (st_vp st' p)"
      using vp_ok_mono [OF okp, of "st_seq st'"] n by (auto simp: st' vp_ok_def)
    show "rare_ok (st_seq st') (st_rare st')"
      using rare_ok_mono [OF store_ok_rare [OF ok], of "st_seq st'"] by (simp add: st')
    show "(pr_table_oid r \<longrightarrow> pr_htap r) \<and> (\<not> vp_view_tombs (st_vp st' p) \<longrightarrow> pr_tombstone_count r = 0)"
      if "pred_lookup st' p = Some r" for r
      using that store_ok_count [OF ok] store_ok_htap [OF ok] by (auto simp: st')
  qed (use store_ok_preds [OF ok] ded in \<open>simp_all add: st'\<close>)
qed

lemma upd_count_refines:
  assumes f: "\<And>r. pr_table_oid (f r) = pr_table_oid r \<and> pr_htap (f r) = pr_htap r \<and> pr_tombstone_count (f r) = pr_tombstone_count r"
  shows "quads (upd_pred p f st) = quads st" "store_ok st \<Longrightarrow> store_ok (upd_pred p f st)"
proof -
  have ded: "get_dedicated_vp_table q (upd_pred p f st) = get_dedicated_vp_table q st" for q
    using f by (simp add: dedicated_upd_pred)
  show "quads (upd_pred p f st) = quads st"
    by (rule quads_cong) (simp add: shown_def rare_keys_def ded)
  assume ok: "store_ok st"
  show "store_ok (upd_pred p f st)"
    using store_ok_preds [OF ok] store_ok_rare [OF ok] store_ok_vp [OF ok] store_ok_empty [OF ok]
      store_ok_count [OF ok] store_ok_htap [OF ok] f
    by (intro store_ok_change [OF ok, where p = p]) (auto simp: ded)
qed

definition new_rare :: "term_id \<Rightarrow> sog list \<Rightarrow> store \<Rightarrow> store" where
  "new_rare p fresh st = st\<lparr>st_rare := st_rare st @
       map (\<lambda>(k, (s, ob, g)). (p, mk_row s ob g (st_seq st + 1 + int k))) (enumerate 0 fresh),
     st_seq := st_seq st + int (length fresh)\<rparr>"

definition fresh_rows :: "term_id \<Rightarrow> sog list \<Rightarrow> store \<Rightarrow> sog list" where
  "fresh_rows p rows st = filter (\<lambda>k. k \<notin> rare_keys st p) (rev (remdups (rev rows)))"

lemma map_new_rare:
  "map (\<lambda>x. (fst x, row_key (snd x))) (map (\<lambda>(k, (s, ob, g)). (p, mk_row s ob g (c + int k))) (enumerate m fresh))
     = map (Pair p) fresh"
  by (induction fresh arbitrary: m) (auto simp: case_prod_unfold)

lemma rare_keys_map: "rare_keys st p = {k. (p, k) \<in> set (map (\<lambda>x. (fst x, row_key (snd x))) (st_rare st))}"
  by (auto simp: rare_keys_def image_iff)

lemma new_rare:
  assumes ok: "store_ok st" and fresh: "distinct fresh" "set fresh \<inter> rare_keys st p = {}"
  shows "rare_keys (new_rare p fresh st) q = (if q = p then set fresh else {}) \<union> rare_keys st q"
    "store_ok (new_rare p fresh st)"
proof -
  let ?st' = "new_rare p fresh st"
  have keys: "map (\<lambda>x. (fst x, row_key (snd x))) (st_rare ?st') = map (\<lambda>x. (fst x, row_key (snd x))) (st_rare st) @ map (Pair p) fresh"
    using map_new_rare [of p "st_seq st + 1" 0 fresh] by (simp add: new_rare_def)
  show "rare_keys ?st' q = (if q = p then set fresh else {}) \<union> rare_keys st q"
    unfolding rare_keys_map keys by auto
  have "\<forall>x \<in> set (st_rare ?st'). row_i (snd x) \<le> st_seq ?st'"
    using store_ok_rare [OF ok] by (fastforce simp: new_rare_def rare_ok_def in_set_enumerate_eq)
  moreover have "distinct (map (\<lambda>x. (fst x, row_key (snd x))) (st_rare ?st'))"
    unfolding keys using store_ok_rare [OF ok] fresh
    by (auto simp: rare_ok_def distinct_map inj_on_def rare_keys_map)
  ultimately have r: "rare_ok (st_seq ?st') (st_rare ?st')" by (simp add: rare_ok_def)
  show "store_ok ?st'"
  proof (rule store_ok_change [OF ok, where p = p])
    show "rare_ok (st_seq ?st') (st_rare ?st')" by (rule r)
    show "vp_ok (st_seq ?st') (st_vp ?st' p)"
      using vp_ok_mono [OF store_ok_vp [OF ok, of p], of "st_seq ?st'"] by (simp add: new_rare_def)
    show "(pr_table_oid r \<longrightarrow> pr_htap r) \<and> (\<not> vp_view_tombs (st_vp ?st' p) \<longrightarrow> pr_tombstone_count r = 0)"
      if "pred_lookup ?st' p = Some r" for r
      using that store_ok_count [OF ok] store_ok_htap [OF ok] by (auto simp: new_rare_def)
  qed (use store_ok_preds [OF ok] store_ok_empty [OF ok] in \<open>simp_all add: new_rare_def\<close>)
qed

text \<open>The catalog row of the rare branch: inserted with the batch count, or incremented.\<close>

definition batch_count_row :: "term_id \<Rightarrow> int \<Rightarrow> store \<Rightarrow> store" where
  "batch_count_row p cnt st =
     (case pred_lookup st p of
        None \<Rightarrow> st\<lparr>st_predicates := st_predicates st @
                  [(p, \<lparr>pr_table_oid = False, pr_triple_count = cnt, pr_htap = False,
                        pr_tombstone_count = 0, pr_promoting = False\<rparr>)]\<rparr>
      | Some _ \<Rightarrow> add_count p cnt st)"

lemma batch_count_row:
  "quads (batch_count_row p cnt st) = quads st" "store_ok st \<Longrightarrow> store_ok (batch_count_row p cnt st)"
proof -
  have ded: "get_dedicated_vp_table q (batch_count_row p cnt st) = get_dedicated_vp_table q st" for q
    by (auto simp: batch_count_row_def add_count_def get_dedicated_vp_table_def pred_lookup_append [OF refl] split: option.splits)
  have vp: "st_vp (batch_count_row p cnt st) = st_vp st" "st_rare (batch_count_row p cnt st) = st_rare st"
    "st_seq (batch_count_row p cnt st) = st_seq st"
    by (simp_all add: batch_count_row_def add_count_def split: option.split)
  show "quads (batch_count_row p cnt st) = quads st"
    by (rule quads_cong) (simp add: shown_def rare_keys_def ded vp)
  assume ok: "store_ok st"
  have "distinct (map fst (st_predicates (batch_count_row p cnt st)))"
    using store_ok_preds [OF ok]
    by (auto simp: batch_count_row_def add_count_def pred_lookup_def map_of_eq_None_iff split: option.splits)
  moreover have "(pr_table_oid r \<longrightarrow> pr_htap r) \<and> (\<not> vp_view_tombs (st_vp st p) \<longrightarrow> pr_tombstone_count r = 0)"
    if "pred_lookup (batch_count_row p cnt st) p = Some r" for r
    using that store_ok_count [OF ok] store_ok_htap [OF ok]
    by (cases "pred_lookup st p") (auto simp: batch_count_row_def add_count_def pred_lookup_append [OF refl])
  moreover have "q \<noteq> p \<Longrightarrow> pred_lookup (batch_count_row p cnt st) q = pred_lookup st q" for q
    by (auto simp: batch_count_row_def add_count_def pred_lookup_append [OF refl] split: option.split)
  ultimately show "store_ok (batch_count_row p cnt st)"
    using store_ok_rare [OF ok] store_ok_vp [OF ok] store_ok_empty [OF ok]
    by (intro store_ok_change [OF ok, where p = p]) (auto simp: vp ded)
qed

definition batch_target :: "term_id \<Rightarrow> sog list \<Rightarrow> store \<Rightarrow> store" where
  "batch_target p rows st =
     (if get_dedicated_vp_table p st then add_count p (int (length rows)) (bulk_delta p rows st)
      else batch_count_row p (int (length rows)) (new_rare p (fresh_rows p rows st) st))"

lemma batch_insert_eq:
  assumes "rows \<noteq> []"
  shows "quads (snd (batch_insert_encoded cfg p rows st)) = quads (batch_target p rows st)"
    "store_ok (snd (batch_insert_encoded cfg p rows st)) = store_ok (batch_target p rows st)"
proof -
  have fresh: "fresh_rows p rows st = filter (\<lambda>(s, ob, g). (p, s, ob, g) \<notin> (\<lambda>(q, r). (q, row_key r)) ` set (st_rare st))
      (rev (remdups (rev rows)))"
    unfolding fresh_rows_def by (rule filter_cong) (auto simp: rare_mem)
  have "\<exists>m. snd (batch_insert_encoded cfg p rows st) =
      (let st' = (if get_dedicated_vp_table p st then (batch_target p rows st)\<lparr>st_shmem := m\<rparr> else batch_target p rows st)
       in if st_has_rules st' then fold (\<lambda>(s, ob, g). record_write g) rows st' else st')"
    using assms by (simp add: batch_insert_encoded_def batch_target_def Let_def bulk_delta_def copy_into_vp_def
        new_rare_def batch_count_row_def fresh) blast
  then obtain m where "snd (batch_insert_encoded cfg p rows st) =
      (let st' = (if get_dedicated_vp_table p st then (batch_target p rows st)\<lparr>st_shmem := m\<rparr> else batch_target p rows st)
       in if st_has_rules st' then fold (\<lambda>(s, ob, g). record_write g) rows st' else st')" ..
  then show "quads (snd (batch_insert_encoded cfg p rows st)) = quads (batch_target p rows st)"
    "store_ok (snd (batch_insert_encoded cfg p rows st)) = store_ok (batch_target p rows st)"
    by (simp_all add: Let_def)
qed

lemma batch_insert_refines:
  assumes ok: "store_ok st"
  shows "quads (snd (batch_insert_encoded cfg p rows st)) = batch_quads p rows \<union> quads st"
    "store_ok (snd (batch_insert_encoded cfg p rows st))"
proof -
  let ?fresh = "fresh_rows p rows st"
  have add: "quads (add_count p n st') = quads st'" "store_ok st' \<Longrightarrow> store_ok (add_count p n st')" for n st'
    by (simp_all add: add_count_def upd_count_refines)
  have fresh: "distinct ?fresh" "set ?fresh \<inter> rare_keys st p = {}" "set ?fresh = set rows - rare_keys st p"
    by (auto simp: fresh_rows_def)
  note new = new_rare [OF ok fresh(1,2)]
  have vp: "vp_shown (new_rare p ?fresh st) q = vp_shown st q" for q
    by (simp add: vp_shown_def new_rare_def)
  have "quads (new_rare p ?fresh st) = batch_quads p rows \<union> quads st"
    by (rule quads_batch) (auto simp: shown_split new vp fresh(3))
  then have target: "quads (batch_target p rows st) = batch_quads p rows \<union> quads st" "store_ok (batch_target p rows st)"
    using bulk_delta [OF ok, of p rows] new(2) by (simp_all add: batch_target_def add batch_count_row)
  have "rows = [] \<Longrightarrow> snd (batch_insert_encoded cfg p rows st) = st" by (simp add: batch_insert_encoded_def)
  then show "quads (snd (batch_insert_encoded cfg p rows st)) = batch_quads p rows \<union> quads st"
    "store_ok (snd (batch_insert_encoded cfg p rows st))"
    using target batch_insert_eq [of rows cfg p st] ok by (cases "rows = []"; simp add: batch_quads_def)+
qed

end
