(* ===== verification/Htap_Contract.thy ===== *)
theory Htap_Contract
  imports Htap_Scan
begin

text \<open>
  The contract of the triple store. The locale \<open>quad_contract\<close> states what a client relies
  on: an operation changes the contents as its specification says and keeps the invariant.
  It is interpreted on the operations of \<open>src/src/storage\<close>, a history of which
  then computes the history of set operations. The properties of the storage component and
  the operations that break the contract follow.
\<close>

section \<open>Contract\<close>

locale quad_contract =
  fixes contents :: "'s \<Rightarrow> 'q set" and ok :: "'s \<Rightarrow> bool" and perform :: "'op \<Rightarrow> 's \<Rightarrow> 's"
    and effect :: "'op \<Rightarrow> 'q set \<Rightarrow> 'q set" and allowed :: "'op \<Rightarrow> 's \<Rightarrow> bool"
  assumes refines: "ok s \<Longrightarrow> allowed c s \<Longrightarrow> contents (perform c s) = effect c (contents s)"
    and keeps: "ok s \<Longrightarrow> allowed c s \<Longrightarrow> ok (perform c s)"
begin

inductive history :: "'s \<Rightarrow> 'op list \<Rightarrow> 's \<Rightarrow> bool" where
  start: "history s [] s"
| step: "history s cs t \<Longrightarrow> allowed c t \<Longrightarrow> history s (cs @ [c]) (perform c t)"

lemma history_refines: "history s cs t \<Longrightarrow> ok s \<Longrightarrow> ok t \<and> contents t = fold effect cs (contents s)"
  by (induction rule: history.induct) (auto simp: refines keeps)

lemma history_append: "history t cs' u \<Longrightarrow> history s cs t \<Longrightarrow> history s (cs @ cs') u"
proof (induction rule: history.induct)
  case (step t cs' u c)
  then show ?case using history.step [of s "cs @ cs'" u c] by simp
qed simp

text \<open>Maintenance between two points of a history is invisible.\<close>

lemma maintenance_invisible:
  assumes "history s cs t" "ok s" "\<And>c A. c \<in> set cs \<Longrightarrow> effect c A = A"
  shows "contents t = contents s"
proof -
  have "fold effect cs A = A" for A using assms(3) by (induction cs arbitrary: A) auto
  then show ?thesis using history_refines [OF assms(1,2)] by simp
qed

end

datatype store_op =
    InsertTriple term_id term_id term_id term_id
  | InsertByIds term_id term_id term_id term_id
  | BatchInsert term_id "sog list"
  | DeleteTriple term_id term_id term_id term_id
  | DeleteByIds term_id term_id term_id term_id
  | ClearGraph term_id
  | PromoteRare
  | RecoverPromotions
  | MergePredicate term_id
  | MergeAll
  | Compact

fun perform_op :: "storage_gucs \<Rightarrow> int \<Rightarrow> store_op \<Rightarrow> store \<Rightarrow> store" where
  "perform_op cfg now (InsertTriple s p ob g) st = snd (insert_triple cfg now s p ob g st)"
| "perform_op cfg now (InsertByIds s p ob g) st = snd (insert_triple_by_ids s p ob g st)"
| "perform_op cfg now (BatchInsert p rows) st = snd (batch_insert_encoded cfg p rows st)"
| "perform_op cfg now (DeleteTriple s p ob g) st = snd (delete_triple s p ob g st)"
| "perform_op cfg now (DeleteByIds s p ob g) st = snd (delete_triple_by_ids s p ob g st)"
| "perform_op cfg now (ClearGraph g) st = snd (clear_graph_by_id g st)"
| "perform_op cfg now PromoteRare st = snd (promote_rare_predicates cfg st)"
| "perform_op cfg now RecoverPromotions st = snd (recover_interrupted_promotions st)"
| "perform_op cfg now (MergePredicate p) st = snd (merge_predicate cfg p st)"
| "perform_op cfg now MergeAll st = snd (merge_all cfg st)"
| "perform_op cfg now Compact st = snd (compact cfg st)"

fun op_effect :: "store_op \<Rightarrow> quad set \<Rightarrow> quad set" where
  "op_effect (InsertTriple s p ob g) A = insert (s, p, ob, g) A"
| "op_effect (InsertByIds s p ob g) A = insert (s, p, ob, g) A"
| "op_effect (BatchInsert p rows) A = batch_quads p rows \<union> A"
| "op_effect (DeleteTriple s p ob g) A = A - {(s, p, ob, g)}"
| "op_effect (DeleteByIds s p ob g) A = A - {(s, p, ob, g)}"
| "op_effect (ClearGraph g) A = A - in_graph g"
| "op_effect _ A = A"

fun op_allowed :: "store_op \<Rightarrow> store \<Rightarrow> bool" where
  "op_allowed (DeleteTriple s p ob g) st \<longleftrightarrow> \<not> masked p (s, ob, g) st"
| "op_allowed (DeleteByIds s p ob g) st \<longleftrightarrow> \<not> masked p (s, ob, g) st"
| "op_allowed _ st \<longleftrightarrow> True"

lemma insert_triple_refines:
  assumes ok: "store_ok st"
  shows "quads (snd (insert_triple cfg now s p ob g st)) = insert (s, p, ob, g) (quads st)"
    "store_ok (snd (insert_triple cfg now s p ob g st))"
  using insert_encoded_refines [OF ok, of s p ob g] promote_predicate [OF insert_encoded_refines(2) [OF ok]]
  by (simp_all add: insert_triple_eq case_prod_unfold Let_def)

lemma insert_by_ids_refines:
  assumes ok: "store_ok st"
  shows "quads (snd (insert_triple_by_ids s p ob g st)) = insert (s, p, ob, g) (quads st)"
    "store_ok (snd (insert_triple_by_ids s p ob g st))"
  using insert_encoded_refines [OF ok, of s p ob g] by (simp_all add: insert_triple_by_ids_def case_prod_unfold Let_def)

lemma delete_by_ids_eq:
  "quads (snd (delete_triple_by_ids s p ob g st)) = quads (snd (delete_triple s p ob g st))"
  "store_ok (snd (delete_triple_by_ids s p ob g st)) = store_ok (snd (delete_triple s p ob g st))"
  by (simp_all add: delete_triple_by_ids_def case_prod_unfold Let_def)

lemma perform_op_refines:
  assumes ok: "store_ok st" and "op_allowed c st"
  shows "quads (perform_op cfg now c st) = op_effect c (quads st) \<and> store_ok (perform_op cfg now c st)"
proof (cases c)
  case (DeleteTriple s p ob g)
  then show ?thesis using delete_triple_refines [OF ok, where s = s and p = p and ob = ob and g = g] assms(2) by simp
next
  case (DeleteByIds s p ob g)
  then show ?thesis using delete_triple_refines [OF ok, where s = s and p = p and ob = ob and g = g] assms(2)
    by (simp add: delete_by_ids_eq)
qed (use ok in \<open>simp_all add: insert_triple_refines insert_by_ids_refines batch_insert_refines clear_graph_refines
      promote_rare_predicates_def recover_interrupted_promotions_def promote_fold Let_def
      merge_predicate_refines merge_all_refines compact_refines\<close>)

text \<open>An operation comes with the time it runs at.\<close>

interpretation htap: quad_contract quads store_ok "\<lambda>(now, c). perform_op cfg now c" "\<lambda>(now, c). op_effect c"
  "\<lambda>(now, c). op_allowed c" for cfg
  by unfold_locales (auto simp: perform_op_refines)

section \<open>Properties\<close>

definition empty_store :: store where
  "empty_store = \<lparr>st_vp = (\<lambda>_. empty_vp), st_rare = [], st_predicates = [], st_seq = 0, st_statements = [],
     st_schema_generation = 0, st_shmem = (shmem_init 0)\<lparr>shmem_ready := False\<rparr>, st_journal = [],
     st_has_rules = False, st_temporal = (\<lambda>_. None), st_temporal_facts = [],
     st_confidence = [], st_subject_patterns = (\<lambda>_. None), st_object_patterns = (\<lambda>_. None)\<rparr>"

lemma empty_store_ok: "store_ok empty_store"
  by (simp add: store_ok_def empty_store_def vp_ok_def rare_ok_def empty_vp_def pred_lookup_def)

lemma empty_store_quads: "quads empty_store = {}"
  by (simp add: quads_def shown_def rare_keys_def empty_store_def get_dedicated_vp_table_def pred_lookup_def)

definition demo_storage_gucs :: storage_gucs where
  "demo_storage_gucs = \<lparr>VPP_THRESHOLD = 1, DEDUP_ON_MERGE = True, TOMBSTONE_RETENTION_SECONDS = 0,
     TEMPORAL_CDC_ENABLED = False, BULK_LOAD_USE_COPY = False, EXPORT_BATCH_SIZE = 2\<rparr>"

text \<open>The store after inserting a triple past the promotion threshold and merging it.\<close>

definition demo_store :: store where
  "demo_store = snd (merge_predicate demo_storage_gucs 2 (snd (insert_triple demo_storage_gucs 0 1 2 3 0 empty_store)))"

lemma demo_store_ok: "store_ok demo_store"
  by (simp add: demo_store_def merge_predicate_refines insert_triple_refines empty_store_ok)

lemma demo_store_quads: "quads demo_store = {(1, 2, 3, 0)}"
  by (simp add: demo_store_def merge_predicate_refines insert_triple_refines empty_store_ok empty_store_quads)

lemma demo_masked: "\<not> masked 2 (1, 3, 0) demo_store"
  by code_simp

text \<open>
  Property C24. A history of store operations (inserts, bulk inserts, deletes of triples that
  delta does not mask, graph clearing, promotion, merge, compaction) starting from a
  well-formed store ends in a well-formed store whose readable quads are those of the same
  history of set operations: merging, promoting and compacting never change what is read.
\<close>

theorem store_refines_quad_set:
  assumes "htap.history cfg st cs st'" "store_ok st"
  shows "store_ok st' \<and> quads st' = fold (\<lambda>(now, c). op_effect c) cs (quads st)"
  using htap.history_refines [OF assms] .

theorem store_refines_quad_set_witness:
  "store_ok empty_store
   \<and> htap.history demo_storage_gucs empty_store [(0, InsertTriple 1 2 3 0), (0, MergePredicate 2), (1, DeleteTriple 1 2 3 0),
        (1, InsertTriple 7 2 3 0)]
       (snd (insert_triple demo_storage_gucs 1 7 2 3 0 (snd (delete_triple 1 2 3 0 demo_store))))
   \<and> quads (snd (insert_triple demo_storage_gucs 1 7 2 3 0 (snd (delete_triple 1 2 3 0 demo_store)))) = {(7, 2, 3, 0)}"
proof -
  let ?s1 = "snd (insert_triple demo_storage_gucs 0 1 2 3 0 empty_store)"
  let ?s3 = "snd (delete_triple 1 2 3 0 demo_store)"
  let ?s4 = "snd (insert_triple demo_storage_gucs 1 7 2 3 0 ?s3)"
  have "htap.history demo_storage_gucs empty_store [(0, InsertTriple 1 2 3 0)] ?s1"
    using htap.history.step [OF htap.history.start, of "(0, InsertTriple 1 2 3 0)" empty_store demo_storage_gucs] by simp
  from htap.history.step [OF this, of "(0, MergePredicate 2)"]
  have "htap.history demo_storage_gucs empty_store [(0, InsertTriple 1 2 3 0), (0, MergePredicate 2)] demo_store"
    by (simp add: demo_store_def)
  from htap.history.step [OF this, of "(1, DeleteTriple 1 2 3 0)"] demo_masked
  have "htap.history demo_storage_gucs empty_store [(0, InsertTriple 1 2 3 0), (0, MergePredicate 2), (1, DeleteTriple 1 2 3 0)] ?s3"
    by simp
  from htap.history.step [OF this, of "(1, InsertTriple 7 2 3 0)"]
  have h: "htap.history demo_storage_gucs empty_store [(0, InsertTriple 1 2 3 0), (0, MergePredicate 2), (1, DeleteTriple 1 2 3 0),
        (1, InsertTriple 7 2 3 0)] ?s4"
    by simp
  show ?thesis using store_refines_quad_set [OF h empty_store_ok] h empty_store_ok by (simp add: empty_store_quads)
qed

text \<open>
  Property C25. A pattern query returns exactly the matching quads of the queried graph (the
  default graph when none is named), from the dedicated tables and the rare table together.
\<close>

theorem find_triples_exact:
  assumes "store_ok st"
  shows "set (find_triples s_id p_id o_id graph st) =
    {(s, p, ob, g) \<in> quads st. g = graph_of graph \<and> matches s_id s \<and> matches p_id p \<and> matches o_id ob}"
  using find_triples_set [OF assms] .

theorem find_triples_exact_witness:
  "store_ok demo_store \<and> set (find_triples None (Some 2) None None demo_store) = {(1, 2, 3, 0)}"
  using find_triples_exact [OF demo_store_ok, of None "Some 2" None None] demo_store_ok
  by (auto simp: demo_store_quads graph_of_def simp del: in_quads)

text \<open>
  Property C27. Deleting a triple removes it and nothing else, unless delta holds a copy of
  a triple that main also shows: then only the copy goes and every quad stays readable.
\<close>

theorem delete_triple_exact:
  assumes "store_ok st"
  shows "quads (snd (delete_triple s p ob g st)) =
      (if masked p (s, ob, g) st then quads st else quads st - {(s, p, ob, g)})
    \<and> store_ok (snd (delete_triple s p ob g st))"
  using delete_triple_refines [OF assms] by simp

theorem delete_triple_exact_witness:
  "store_ok demo_store \<and> quads (snd (delete_triple 1 2 3 0 demo_store)) = {}"
  using delete_triple_exact [OF demo_store_ok, of 1 2 3 0] demo_store_ok demo_masked by (simp add: demo_store_quads)


lemma first_of_groups_increasing:
  "sorted (map row_key rs) \<Longrightarrow> sorted_wrt (<) (map row_key (first_of_groups rs))"
proof (induction rs rule: first_of_groups.induct)
  case (2 r rs)
  have tail: "sorted (map row_key (dropWhile (\<lambda>q. row_key q = row_key r) rs))"
    using 2(2) by (simp add: sorted_dropWhile sorted_wrt_map)
  have "row_key r < row_key q" if q: "q \<in> set (dropWhile (\<lambda>q. row_key q = row_key r) rs)" for q
  proof -
    obtain d ds where d: "dropWhile (\<lambda>q. row_key q = row_key r) rs = d # ds"
      using q by (cases "dropWhile (\<lambda>q. row_key q = row_key r) rs") auto
    have "row_key d \<noteq> row_key r" using hd_dropWhile [of "\<lambda>q. row_key q = row_key r" rs] d by auto
    moreover have "d \<in> set rs" using d by (metis list.set_intros(1) set_dropWhileD)
    then have "row_key r \<le> row_key d" using 2(2) by simp
    moreover have "row_key d \<le> row_key q" using tail q unfolding d by auto
    ultimately show ?thesis by simp
  qed
  then show ?case using 2(1) [OF tail] set_first_of_groups by (fastforce simp: sorted_wrt_map)
qed simp

lemma strict_sorted_imp_distinct: "sorted_wrt (<) (xs :: 'a :: linorder list) \<Longrightarrow> distinct xs"
  by (induction xs) auto

lemma distinct_on_key_distinct: "distinct (map row_key (distinct_on_key rs))"
proof -
  have mono: "row_key x \<le> row_key y" if "order_key x \<le> order_key y" for x y
    using that [unfolded less_eq_prod_def [of "order_key x"]] by (auto simp: order_key_def)
  have "sorted_wrt (\<lambda>x y. order_key x \<le> order_key y) (sort_key order_key rs)"
    unfolding sorted_wrt_map [symmetric] by simp
  then have "sorted_wrt (\<lambda>x y. row_key x \<le> row_key y) (sort_key order_key rs)"
    by (rule sorted_wrt_mono_rel [rotated]) (rule mono)
  then have "sorted (map row_key (sort_key order_key rs))" by (simp add: sorted_wrt_map)
  from first_of_groups_increasing [OF this] show ?thesis
    unfolding distinct_on_key_def by (rule strict_sorted_imp_distinct)
qed

text \<open>
  Property C26. Merging a predicate leaves every quad readable, empties its delta and its
  tombstones, and, when it deduplicates, returns and records the number of distinct quads
  the predicate has in its dedicated table.
\<close>

theorem merge_predicate_exact:
  assumes "store_ok st" "is_htap p st"
  shows "quads (snd (merge_predicate cfg p st)) = quads st
    \<and> vp_delta (st_vp (snd (merge_predicate cfg p st)) p) = [] \<and> vp_tombs (st_vp (snd (merge_predicate cfg p st)) p) = []
    \<and> store_ok (snd (merge_predicate cfg p st))
    \<and> (DEDUP_ON_MERGE cfg \<and> get_dedicated_vp_table p st \<longrightarrow>
         fst (merge_predicate cfg p st) = int (card (vp_shown st p))
         \<and> map_option pr_triple_count (pred_lookup (snd (merge_predicate cfg p st)) p) = Some (int (card (vp_shown st p))))"
proof -
  note f = merge_predicate_fields [OF assms, where cfg = cfg]
  have "length (build_main_new cfg (st_vp st p)) = card (vp_shown st p)"
    if "DEDUP_ON_MERGE cfg" "get_dedicated_vp_table p st"
  proof -
    have "distinct (map row_key (build_main_new cfg (st_vp st p)))"
      using that by (simp add: build_main_new_def distinct_on_key_distinct)
    then have "card (row_key ` set (build_main_new cfg (st_vp st p))) = length (build_main_new cfg (st_vp st p))"
      using distinct_card by fastforce
    then show ?thesis using that
      by (simp add: main_new_keys vp_shown_def shown_main_ok [OF store_ok_vp [OF assms(1)]])
  qed
  moreover have "get_dedicated_vp_table p st \<Longrightarrow> pred_lookup st p \<noteq> None"
    by (auto simp: get_dedicated_vp_table_def split: option.splits)
  ultimately show ?thesis using merge_predicate_refines [OF assms(1)] by (auto simp: f)
qed

theorem merge_predicate_exact_witness:
  "store_ok demo_store \<and> is_htap 2 demo_store \<and> quads (snd (merge_predicate demo_storage_gucs 2 demo_store)) = {(1, 2, 3, 0)}"
proof -
  have "is_htap 2 demo_store" by code_simp
  with merge_predicate_exact [OF demo_store_ok this, of demo_storage_gucs] demo_store_ok show ?thesis
    by (simp add: demo_store_quads)
qed

text \<open>
  Clearing a graph removes exactly the quads of that graph.
\<close>

lemma clear_graph_exact:
  assumes "store_ok st"
  shows "quads (snd (clear_graph_by_id g st)) = quads st - in_graph g \<and> store_ok (snd (clear_graph_by_id g st))"
  using clear_graph_refines [OF assms] by simp

lemma clear_graph_exact_witness:
  "store_ok demo_store \<and> quads (snd (clear_graph_by_id 0 demo_store)) = {}"
  using clear_graph_exact [OF demo_store_ok, of 0] demo_store_ok by (simp add: demo_store_quads in_graph_def)

text \<open>
  Property C29. Dropping a graph also removes nothing of another graph, but it leaves the
  quads of the dropped graph that are in the main table of a predicate whose view skips
  tombstones, as every view does after a merge.
\<close>

theorem drop_graph_exact:
  assumes "store_ok st"
  shows "quads (snd (drop_graph g st)) = quads st - in_graph g \<union> left_by_drop g st"
  using drop_graph_refines [OF assms] .

theorem drop_graph_exact_witness:
  "store_ok demo_store \<and> quads (snd (drop_graph 0 demo_store)) = {(1, 2, 3, 0)}"
proof -
  have "left_by_drop 0 demo_store \<subseteq> quads demo_store"
    by (auto simp: left_by_drop_def shown_def shown_main_def)
  moreover have "get_dedicated_vp_table 2 demo_store \<and> \<not> vp_view_tombs (st_vp demo_store 2)
      \<and> (1, 3, 0) \<in> main_keys (st_vp demo_store 2)"
    by code_simp
  ultimately have "left_by_drop 0 demo_store = {(1, 2, 3, 0)}"
    by (auto simp: demo_store_quads left_by_drop_def)
  with drop_graph_exact [OF demo_store_ok, of 0] demo_store_ok show ?thesis
    by (simp add: demo_store_quads in_graph_def)
qed

text \<open>
  Property C31. A bulk insert adds exactly the rows of the batch, whichever way it loads them.
\<close>

theorem batch_insert_exact:
  assumes "store_ok st"
  shows "quads (snd (batch_insert_encoded cfg p rows st)) = batch_quads p rows \<union> quads st
    \<and> store_ok (snd (batch_insert_encoded cfg p rows st))"
  using batch_insert_refines [OF assms] by simp

theorem batch_insert_exact_witness:
  "store_ok demo_store
   \<and> quads (snd (batch_insert_encoded demo_storage_gucs 2 [(5, 6, 0), (5, 6, 0)] demo_store)) = {(1, 2, 3, 0), (5, 2, 6, 0)}"
  using batch_insert_exact [OF demo_store_ok, of demo_storage_gucs 2 "[(5, 6, 0), (5, 6, 0)]"] demo_store_ok
  by (simp add: demo_store_quads batch_quads_def)

text \<open>
  Property C30. The export loop ends and hands over every row exactly once: with a positive
  batch size and distinct statement identifiers in each table, the pages are non-empty, at
  most a batch long, and together are a permutation of what the one-shot scan returns.
\<close>

theorem export_batches_cover:
  assumes "0 < EXPORT_BATCH_SIZE cfg" "\<forall>rows \<in> set (table_rows st). distinct (map sid_of rows)"
  shows "\<exists>pages. for_each_encoded_triple_batch cfg graph st = Some pages
    \<and> mset (concat pages) = mset (all_encoded_triples graph st)
    \<and> (\<forall>page \<in> set pages. page \<noteq> [] \<and> length page \<le> EXPORT_BATCH_SIZE cfg)"
  using for_each_encoded_triple_batch_cover [OF assms] .

theorem export_batches_cover_witness:
  "0 < EXPORT_BATCH_SIZE demo_storage_gucs \<and> list_all (\<lambda>rows. distinct (map sid_of rows)) (table_rows demo_store)
   \<and> (\<exists>pages. for_each_encoded_triple_batch demo_storage_gucs None demo_store = Some pages
        \<and> mset (concat pages) = {#(1, 2, 3, 0)#})"
proof -
  have pos: "0 < EXPORT_BATCH_SIZE demo_storage_gucs" by (simp add: demo_storage_gucs_def)
  have d: "\<forall>rows \<in> set (table_rows demo_store). distinct (map sid_of rows)" by code_simp
  have "all_encoded_triples None demo_store = [(1, 2, 3, 0)]" by code_simp
  with export_batches_cover [OF pos d, of None] pos d show ?thesis by (auto simp: list_all_iff)
qed

lemma keys_dedup_delta: "row_key ` set (dedup_delta rows) = row_key ` set rows"
proof
  show "row_key ` set (dedup_delta rows) \<subseteq> row_key ` set rows" by (auto simp: dedup_delta_def)
  show "row_key ` set rows \<subseteq> row_key ` set (dedup_delta rows)"
  proof
    fix k
    assume "k \<in> row_key ` set rows"
    then obtain r where r: "r \<in> set rows" "row_key r = k" by auto
    have "min_sid k rows \<in> row_i ` {r \<in> set rows. row_key r = k}"
      unfolding min_sid_def by (rule Min_in) (use r in auto)
    then obtain r' where "r' \<in> set rows" "row_key r' = k" "row_i r' = min_sid k rows" by auto
    then have "r' \<in> set (dedup_delta rows)" by (simp add: dedup_delta_def)
    with \<open>row_key r' = k\<close> show "k \<in> row_key ` set (dedup_delta rows)" by auto
  qed
qed

text \<open>
  Property C32. Deduplicating a predicate and merging it loses every triple that main held
  more than once: a tombstone hides all copies of its key, the one to keep included. What
  is left of main are the triples it held exactly once, besides those still in delta.
\<close>

theorem deduplicate_then_merge:
  assumes "get_dedicated_vp_table p st" "is_htap p st"
  shows "main_keys (st_vp (snd (merge_predicate cfg p (snd (deduplicate_predicate p st)))) p) =
     {k \<in> main_keys (st_vp st p) - tomb_keys (st_vp st p). count_key k (vp_main (st_vp st p)) \<le> 1} \<union> delta_keys (st_vp st p)"
proof -
  let ?st = "snd (deduplicate_predicate p st)" and ?t = "st_vp st p"
  have d: "vp_main (st_vp ?st p) = vp_main ?t" "delta_keys (st_vp ?st p) = delta_keys ?t"
    "tomb_keys (st_vp ?st p) = tomb_keys ?t \<union> {k \<in> main_keys ?t. 1 < count_key k (vp_main ?t)}"
    using assms(1) enumerate_keys [of "\<lambda>k. k" "st_seq st + 1" 0 "main_dupes (vp_main ?t)"]
    by (simp_all add: deduplicate_predicate_def Let_def delta_keys_def keys_dedup_delta tomb_keys_def image_Un)
      (auto simp: main_dupes_def main_keys_def)
  have htap: "is_htap p ?st" using assms by (simp add: is_htap_def deduplicate_predicate_def Let_def)
  have main: "vp_main (st_vp (snd (merge_predicate cfg p ?st)) p) = build_main_new cfg (st_vp ?st p)"
    using htap by (simp add: merge_predicate_def Let_def clear_tombstones_def rebuild_htap_view_def)
  show ?thesis
    unfolding main_keys_def [of "st_vp (snd (merge_predicate cfg p ?st)) p"] main main_new_keys d(2,3)
    by (auto simp: main_keys_def d(1))
qed

definition dup_gucs :: storage_gucs where
  "dup_gucs = demo_storage_gucs\<lparr>DEDUP_ON_MERGE := False\<rparr>"

definition dup_store :: store where
  "dup_store = snd (merge_predicate dup_gucs 2 (snd (insert_triple dup_gucs 0 1 2 3 0 demo_store)))"

theorem deduplicate_then_merge_witness:
  "find_triples None (Some 2) None None dup_store = [(1, 2, 3, 0)]
   \<and> get_dedicated_vp_table 2 dup_store \<and> is_htap 2 dup_store
   \<and> main_keys (st_vp (snd (merge_predicate dup_gucs 2 (snd (deduplicate_predicate 2 dup_store)))) 2) = {}"
proof -
  have "let st = dup_store in find_triples None (Some 2) None None st = [(1, 2, 3, 0)]
      \<and> get_dedicated_vp_table 2 st \<and> is_htap 2 st \<and> vp_delta (st_vp st 2) = []
      \<and> map row_key (vp_main (st_vp st 2)) = [(1, 3, 0), (1, 3, 0)]"
    by code_simp
  then have c: "find_triples None (Some 2) None None dup_store = [(1, 2, 3, 0)]"
    "get_dedicated_vp_table 2 dup_store" "is_htap 2 dup_store" "vp_delta (st_vp dup_store 2) = []"
    "map row_key (vp_main (st_vp dup_store 2)) = [(1, 3, 0), (1, 3, 0)]"
    by (simp_all add: Let_def)
  have count: "count_key k rows = int (length (filter (\<lambda>k'. k' = k) (map row_key rows)))" for k rows
    by (simp add: count_key_def filter_map comp_def)
  have keys: "main_keys (st_vp dup_store 2) = {(1, 3, 0)}" "delta_keys (st_vp dup_store 2) = {}"
    using arg_cong [OF c(5), of set] by (simp_all add: main_keys_def delta_keys_def c(4))
  have two: "count_key (1, 3, 0) (vp_main (st_vp dup_store 2)) = 2" by (simp add: count c(5))
  show ?thesis
    using deduplicate_then_merge [OF c(2,3), of dup_gucs] c(1-3) by (auto simp: keys two)
qed

text \<open>
  A triple that is already in delta gets a new statement identifier when it is
  inserted again: the identifier returned is the next number of the sequence, and it
  replaces the one the row had.
\<close>

lemma insert_assigns_new_sid:
  assumes "get_dedicated_vp_table p st"
  shows "fst (insert_triple cfg now s p ob g st) = st_seq st + 1
    \<and> (\<forall>r \<in> set (vp_delta (st_vp (snd (insert_triple cfg now s p ob g st)) p)). row_key r = (s, ob, g) \<longrightarrow> row_i r = st_seq st + 1)
    \<and> (s, ob, g) \<in> delta_keys (st_vp (snd (insert_triple cfg now s p ob g st)) p)"
proof -
  have vp: "st_vp (maybe_insert_temporal_cdc cfg now s p ob g st') = st_vp st'" for st'
    by (simp add: maybe_insert_temporal_cdc_def Let_def split: option.split)
  have delta: "vp_delta (st_vp (snd (insert_triple cfg now s p ob g st)) p) = upsert_delta s ob g (st_seq st + 1) (vp_delta (st_vp st p))"
    using assms by (simp add: insert_triple_eq vp case_prod_unfold Let_def insert_encoded_dedicated_eq)
  have "fst (insert_triple cfg now s p ob g st) = st_seq st + 1"
    using assms by (simp add: insert_triple_eq insert_encoded_triple_def case_prod_unfold Let_def)
  moreover have "row_i r = i" if r: "r \<in> set (upsert_delta s ob g i rows)" "row_key r = (s, ob, g)" for r i rows
  proof (cases "(s, ob, g) \<in> row_key ` set rows")
    case True
    then have "upsert_delta s ob g i rows = map (\<lambda>r. if row_key r = (s, ob, g) then r\<lparr>row_i := i\<rparr> else r) rows"
      by (simp add: upsert_delta_def)
    with r(1) have "r \<in> (\<lambda>q. if row_key q = (s, ob, g) then q\<lparr>row_i := i\<rparr> else q) ` set rows"
      by (simp only: set_map)
    then obtain q where "r = (if row_key q = (s, ob, g) then q\<lparr>row_i := i\<rparr> else q)" by (rule imageE)
    with r(2) show ?thesis by (simp split: if_splits)
  next
    case False
    with r have "r \<in> set rows \<or> r = mk_row s ob g i" by (auto simp: upsert_delta_def)
    with False r(2) show ?thesis by (metis image_eqI row_i_mk_row)
  qed
  ultimately show ?thesis unfolding delta delta_keys_def keys_upsert by auto
qed

lemma insert_assigns_new_sid_witness:
  "get_dedicated_vp_table 2 demo_store \<and> fst (insert_triple demo_storage_gucs 0 1 2 3 0 demo_store) = st_seq demo_store + 1"
proof -
  have "get_dedicated_vp_table 2 demo_store" by code_simp
  with insert_assigns_new_sid [OF this, of demo_storage_gucs 0 1 3 0] show ?thesis by simp
qed

lemma dec_of_nat_last: "\<exists>d :: nat. d < 10 \<and> last (dec_of_nat n) = char_of (48 + d)" "dec_of_nat n \<noteq> []"
proof -
  have last: "last (dec_of_nat n) = char_of (48 + n mod 10) \<and> dec_of_nat n \<noteq> []"
    by (subst dec_of_nat.simps, subst dec_of_nat.simps, subst dec_of_nat.simps) simp
  show "\<exists>d :: nat. d < 10 \<and> last (dec_of_nat n) = char_of (48 + d)"
    using last by (intro exI [of _ "n mod 10"]) simp
  show "dec_of_nat n \<noteq> []" using last by simp
qed

lemma digit_not_a: "d < 10 \<Longrightarrow> char_of (48 + d :: nat) \<noteq> CHR ''a''"
proof
  assume d: "d < 10" and "char_of (48 + d :: nat) = CHR ''a''"
  then have "of_char (char_of (48 + d :: nat)) = (of_char (CHR ''a'') :: nat)" by simp
  then have "(48 + d) mod 256 = 97" by (simp only: of_char_of) simp
  with d show False by simp
qed

lemma vp_relname_not_delta: "\<not> like_vp_delta (vp_relname p)"
proof
  assume like: "like_vp_delta (vp_relname p)"
  then have "vp_relname p = take (length (vp_relname p) - 5) (vp_relname p) @ ''delta''"
    unfolding like_vp_delta_def by (metis append_take_drop_id)
  then have "last (vp_relname p) = CHR ''a''" by (metis last_appendR last.simps list.distinct(1))
  moreover obtain d where "d < 10" "last (vp_relname p) = char_of (48 + d :: nat)"
    using dec_of_nat_last(1) [of "nat \<bar>p\<bar>"] dec_of_nat_last(2) [of "nat \<bar>p\<bar>"] by (auto simp: vp_relname_def)
  ultimately show False using digit_not_a by metis
qed

text \<open>
  Every merge cycle wipes the confidence of each statement that is stored in a
  dedicated table: what remains of the confidence table are the rows of statements in the
  table of rare predicates, because no view is ever named like a delta table.
\<close>

lemma merge_all_purges_confidence:
  "set (st_confidence (snd (merge_all cfg st))) \<subseteq> (\<lambda>(p, r). row_i r) ` set (st_rare (snd (merge_all cfg st)))"
proof -
  have "set (st_confidence (purge_confidence st)) \<subseteq> (\<lambda>(p, r). row_i r) ` set (st_rare (purge_confidence st))" for st
    by (auto simp: purge_confidence_def vp_relname_not_delta)
  then show ?thesis by (simp add: merge_all_def case_prod_unfold Let_def)
qed

lemma patterns_eq:
  "patterns col st old x =
     (if set (filter (\<lambda>p. x \<in> col ` set (view_rows (st_vp st p))) (dedicated_ids st)) = {} then old x
      else Some (sorted_list_of_set (set (filter (\<lambda>p. x \<in> col ` set (view_rows (st_vp st p))) (dedicated_ids st)))))"
  unfolding patterns_def Let_def sorted_list_of_set_sort_remdups [symmetric] by simp

lemma compact_patterns:
  "st_subject_patterns (rebuild_object_patterns st') = st_subject_patterns st'"
  "dedicated_ids (rebuild_subject_patterns st') = dedicated_ids st'"
  "st_vp (rebuild_subject_patterns st') = st_vp st'"
  by (simp_all add: rebuild_object_patterns_def rebuild_subject_patterns_def dedicated_ids_def)

text \<open>
  After a compaction the pattern row of a subject lists, in order and without
  repetition, exactly the promoted predicates under which the subject can be read; a
  subject that can no longer be read keeps the row it had.
\<close>

lemma compact_subject_patterns:
  assumes "store_ok st"
  shows "st_subject_patterns (snd (compact cfg st)) s =
    (let ps = {p. \<exists>ob g. (s, ob, g) \<in> vp_shown (snd (merge_all cfg st)) p}
     in if ps = {} then st_subject_patterns (snd (merge_all cfg st)) s else Some (sorted_list_of_set ps))"
proof -
  let ?st = "snd (merge_all cfg st)"
  have ok: "store_ok ?st" by (rule merge_all_refines(2) [OF assms])
  have "s \<in> row_s ` set (view_rows (st_vp ?st p)) \<longleftrightarrow> (\<exists>ob g. (s, ob, g) \<in> shown_main (st_vp ?st p) \<union> delta_keys (st_vp ?st p))" for p
    unfolding view_keys [symmetric] by (force simp: row_key_def)
  then have set: "set (filter (\<lambda>p. s \<in> row_s ` set (view_rows (st_vp ?st p))) (dedicated_ids ?st))
      = {p. \<exists>ob g. (s, ob, g) \<in> vp_shown ?st p}"
    by (auto simp: dedicated_ids_iff [OF store_ok_preds [OF ok]] vp_shown_def)
  have eq: "st_subject_patterns (snd (compact cfg st)) s = st_subject_patterns (rebuild_subject_patterns ?st) s"
    by (simp add: compact_def case_prod_unfold Let_def compact_patterns)
  have none: "{p. \<exists>ob g. (s, ob, g) \<in> vp_shown ?st p} = {}" if "dedicated_ids ?st = []"
    using set that by simp
  have "st_subject_patterns (rebuild_subject_patterns ?st) s =
      (if dedicated_ids ?st = [] then st_subject_patterns ?st s else patterns row_s ?st (st_subject_patterns ?st) s)"
    by (simp add: rebuild_subject_patterns_def)
  also have "patterns row_s ?st (st_subject_patterns ?st) s =
      (if {p. \<exists>ob g. (s, ob, g) \<in> vp_shown ?st p} = {} then st_subject_patterns ?st s
       else Some (sorted_list_of_set {p. \<exists>ob g. (s, ob, g) \<in> vp_shown ?st p}))"
    by (simp only: patterns_eq set)
  finally show ?thesis unfolding eq Let_def using none by (simp only: if_True split: if_split) blast
qed

lemma compact_subject_patterns_witness:
  "store_ok demo_store \<and> st_subject_patterns (snd (compact demo_storage_gucs demo_store)) 1 = Some [2]"
proof -
  have "{p. \<exists>ob g. (1, ob, g) \<in> vp_shown (snd (merge_all demo_storage_gucs demo_store)) p} = {2}"
  proof -
    have "(1, p, ob, g) \<in> quads (snd (merge_all demo_storage_gucs demo_store))"
      if "(1, ob, g) \<in> vp_shown (snd (merge_all demo_storage_gucs demo_store)) p" for p ob g
      using that by (simp add: shown_split)
    moreover have "(1, 3, 0) \<in> vp_shown (snd (merge_all demo_storage_gucs demo_store)) 2" by code_simp
    ultimately have "(\<exists>ob g. (1, ob, g) \<in> vp_shown (snd (merge_all demo_storage_gucs demo_store)) p) \<longleftrightarrow> p = 2" for p
      unfolding merge_all_refines [OF demo_store_ok] demo_store_quads by blast
    then show ?thesis by simp
  qed
  with compact_subject_patterns [OF demo_store_ok, of demo_storage_gucs 1] demo_store_ok show ?thesis by simp
qed

end
