(* ===== verification/Union_Find.thy ===== *)
theory Union_Find
  imports Prelude
begin

text \<open>
  The contract two components of the Datalog engine have with their union-find structures
  (\<open>src/src/datalog/rewrite.rs\<close> and \<open>src/src/datalog/parallel.rs\<close>): after uniting a list of pairs of
  known identifiers the classes are those of the equivalence the pairs generate.
\<close>

section \<open>The equivalence a list of pairs generates\<close>

definition linked :: "(term_id \<times> term_id) list \<Rightarrow> term_id \<Rightarrow> term_id \<Rightarrow> bool" where
  "linked pairs x y \<longleftrightarrow> (x, y) \<in> set pairs \<or> (y, x) \<in> set pairs"

lemma linked_simps [simp]:
  "\<not> linked [] x y" "linked ((s, ob) # pairs) x y \<longleftrightarrow> x = s \<and> y = ob \<or> x = ob \<and> y = s \<or> linked pairs x y"
  by (auto simp: linked_def)

definition same_as :: "(term_id \<times> term_id) list \<Rightarrow> term_id \<Rightarrow> term_id \<Rightarrow> bool" where
  "same_as pairs = (linked pairs)\<^sup>*\<^sup>*"

lemma linked_sym: "linked pairs x y \<Longrightarrow> linked pairs y x"
  by (auto simp: linked_def)

lemma same_as_sym: "same_as pairs x y \<Longrightarrow> same_as pairs y x"
  unfolding same_as_def by (induction rule: rtranclp_induct) (auto intro: converse_rtranclp_into_rtranclp linked_sym)

lemma same_as_refl [simp]: "same_as pairs x x"
  by (simp add: same_as_def)

lemma same_as_trans: "same_as pairs x y \<Longrightarrow> same_as pairs y z \<Longrightarrow> same_as pairs x z"
  by (auto simp: same_as_def)

lemma same_as_step: "same_as pairs x y \<Longrightarrow> linked pairs y z \<Longrightarrow> same_as pairs x z"
  by (auto simp: same_as_def)

lemma rtranclp_merge:
  assumes R: "\<And>a. R a a" "\<And>a b. R a b \<Longrightarrow> R b a" "\<And>a b c. R a b \<Longrightarrow> R b c \<Longrightarrow> R a c"
    and S: "\<And>a b. S a b \<longleftrightarrow> R a b \<or> R a x \<and> R y b \<or> R a y \<and> R x b"
  shows "(\<lambda>a b. S a b \<or> L a b)\<^sup>*\<^sup>* = (\<lambda>a b. R a b \<or> (a = x \<and> b = y \<or> a = y \<and> b = x \<or> L a b))\<^sup>*\<^sup>*"
proof (rule antisym)
  let ?T = "\<lambda>a b. R a b \<or> (a = x \<and> b = y \<or> a = y \<and> b = x \<or> L a b)"
  have "?T\<^sup>*\<^sup>* a b" if "S a b \<or> L a b" for a b
  proof -
    have T: "?T\<^sup>*\<^sup>* a b" if "R a b" for a b using that by blast
    have xy: "?T\<^sup>*\<^sup>* x y" "?T\<^sup>*\<^sup>* y x" by blast+
    from that consider "R a b" | "R a x" "R y b" | "R a y" "R x b" | "L a b" unfolding S by blast
    then show ?thesis
    proof cases
      case 2
      with T xy(1) show ?thesis by (meson rtranclp_trans)
    next
      case 3
      with T xy(2) show ?thesis by (meson rtranclp_trans)
    qed blast+
  qed
  then have "(\<lambda>a b. S a b \<or> L a b) \<le> ?T\<^sup>*\<^sup>*" by (intro predicate2I)
  from rtranclp_mono [OF this] show "(\<lambda>a b. S a b \<or> L a b)\<^sup>*\<^sup>* \<le> ?T\<^sup>*\<^sup>*" by simp
  have "S a b \<or> L a b" if "?T a b" for a b
    using that R(1) unfolding S by blast
  then show "?T\<^sup>*\<^sup>* \<le> (\<lambda>a b. S a b \<or> L a b)\<^sup>*\<^sup>*"
    by (intro rtranclp_mono) auto
qed

section \<open>The contract\<close>

text \<open>The loop of unions, one pair after the other; \<open>None\<close> when a union does not return.\<close>

fun unite :: "(term_id \<Rightarrow> term_id \<Rightarrow> 'u \<Rightarrow> 'u option) \<Rightarrow> (term_id \<times> term_id) list \<Rightarrow> 'u \<Rightarrow> 'u option" where
  "unite unify [] u = Some u"
| "unite unify ((x, y) # pairs) u = Option.bind (unify x y u) (unite unify pairs)"

locale union_find =
  fixes V :: "term_id set"
    and ok :: "'u \<Rightarrow> bool"
    and same :: "'u \<Rightarrow> term_id \<Rightarrow> term_id \<Rightarrow> bool"
    and unify :: "term_id \<Rightarrow> term_id \<Rightarrow> 'u \<Rightarrow> 'u option"
  assumes class_refl: "ok u \<Longrightarrow> same u a a"
    and class_sym: "ok u \<Longrightarrow> same u a b \<Longrightarrow> same u b a"
    and class_trans: "ok u \<Longrightarrow> same u a b \<Longrightarrow> same u b c \<Longrightarrow> same u a c"
    and unify: "ok u \<Longrightarrow> x \<in> V \<Longrightarrow> y \<in> V \<Longrightarrow> \<exists>u'. unify x y u = Some u' \<and> ok u' \<and>
      (\<forall>a b. same u' a b \<longleftrightarrow> same u a b \<or> same u a x \<and> same u y b \<or> same u a y \<and> same u x b)"
begin

lemma unite:
  assumes "ok u" "set pairs \<subseteq> V \<times> V"
  shows "\<exists>u'. unite unify pairs u = Some u' \<and> ok u' \<and> same u' = (\<lambda>a b. same u a b \<or> linked pairs a b)\<^sup>*\<^sup>*"
  using assms
proof (induction pairs arbitrary: u)
  case Nil
  have "(same u)\<^sup>*\<^sup>* a b \<Longrightarrow> same u a b" for a b
    by (induction rule: rtranclp_induct) (use class_refl [OF Nil(1)] class_trans [OF Nil(1)] in blast)+
  then have "(same u)\<^sup>*\<^sup>* = same u" by (auto intro!: ext)
  with Nil show ?case by simp
next
  case (Cons e pairs)
  obtain x y where e: "e = (x, y)" by (cases e)
  have "x \<in> V" "y \<in> V" using Cons.prems(2) e by auto
  from unify [OF Cons.prems(1) this] obtain v where v: "unify x y u = Some v" "ok v"
    and cl: "\<And>a b. same v a b \<longleftrightarrow> same u a b \<or> same u a x \<and> same u y b \<or> same u a y \<and> same u x b"
    by blast
  have "set pairs \<subseteq> V \<times> V" using Cons.prems(2) by simp
  from Cons.IH [OF v(2) this] obtain w where w: "unite unify pairs v = Some w" "ok w"
    "same w = (\<lambda>a b. same v a b \<or> linked pairs a b)\<^sup>*\<^sup>*" by blast
  have "(\<lambda>a b. same v a b \<or> linked pairs a b)\<^sup>*\<^sup>* =
      (\<lambda>a b. same u a b \<or> (a = x \<and> b = y \<or> a = y \<and> b = x \<or> linked pairs a b))\<^sup>*\<^sup>*"
    by (rule rtranclp_merge [OF class_refl [OF Cons.prems(1)] class_sym [OF Cons.prems(1)] class_trans [OF Cons.prems(1)] cl])
  with v w show ?case by (simp add: e)
qed

lemma unite_from_identity:
  assumes "ok u" "set pairs \<subseteq> V \<times> V" "\<And>a b. same u a b \<longleftrightarrow> a = b"
  shows "\<exists>u'. unite unify pairs u = Some u' \<and> ok u' \<and> same u' = same_as pairs"
proof -
  have "(\<lambda>a b. a = b \<or> linked pairs a b)\<^sup>*\<^sup>* = (linked pairs)\<^sup>*\<^sup>*"
  proof (rule antisym)
    have "(\<lambda>a b. a = b \<or> linked pairs a b) \<le> (linked pairs)\<^sup>*\<^sup>*" by auto
    from rtranclp_mono [OF this] show "(\<lambda>a b. a = b \<or> linked pairs a b)\<^sup>*\<^sup>* \<le> (linked pairs)\<^sup>*\<^sup>*" by simp
    show "(linked pairs)\<^sup>*\<^sup>* \<le> (\<lambda>a b. a = b \<or> linked pairs a b)\<^sup>*\<^sup>*" by (rule rtranclp_mono) auto
  qed
  with unite [OF assms(1,2)] show ?thesis unfolding assms(3) same_as_def by simp
qed

end

end
