(* ===== verification/Sameas.thy ===== *)
theory Sameas
  imports Htap_Store Datalog_Types Union_Find
begin

text \<open>
  Canonicalization of \<open>owl:sameAs\<close> entities (\<open>src/src/datalog/rewrite.rs\<close>): the union-find over
  the pairs read from the triple store, the bound on the size of an equivalence class with
  its PT550 warning, the map from an identifier to its representative, and the rewriting of
  rules. The identifier of \<open>owl:sameAs\<close> and the iteration order of the hash containers are
  arguments.
\<close>

section \<open>Union-find\<close>

type_synonym union_find = "term_id \<rightharpoonup> term_id"

text \<open>\<open>find\<close> follows the parents to the root and stores the root for every node on the way.\<close>

partial_function (option) uf_find :: "union_find \<Rightarrow> term_id \<Rightarrow> (term_id \<times> union_find) option" where
  "uf_find parent x =
     (let p = (case parent x of None \<Rightarrow> x | Some p \<Rightarrow> p) in
      if p = x then Some (x, parent)
      else Option.bind (uf_find parent p) (\<lambda>(root, parent'). Some (root, parent'(x \<mapsto> root))))"

declare uf_find.simps [code]

definition uf_union :: "term_id \<Rightarrow> term_id \<Rightarrow> union_find \<Rightarrow> union_find option" where
  "uf_union x y parent =
     Option.bind (uf_find parent x) (\<lambda>(rx, parent).
     Option.bind (uf_find parent y) (\<lambda>(ry, parent).
       Some (if rx = ry then parent
             else if rx < ry then parent(ry \<mapsto> rx)
             else parent(rx \<mapsto> ry))))"

fun union_all :: "(term_id \<times> term_id) list \<Rightarrow> union_find \<Rightarrow> union_find option" where
  "union_all [] parent = Some parent"
| "union_all ((s, ob) # pairs) parent = Option.bind (uf_union s ob parent) (union_all pairs)"

section \<open>Reading the pairs\<close>

definition sameas_pairs :: "term_id \<Rightarrow> store \<Rightarrow> (term_id \<times> term_id) list" where
  "sameas_pairs sameas_id st =
     filter (\<lambda>(s, ob). s \<noteq> 0 \<and> ob \<noteq> 0)
       (map (\<lambda>(p, r). (row_s r, row_o r)) (filter (\<lambda>(p, r). p = sameas_id) (st_rare st))
        @ (if get_dedicated_vp_table sameas_id st
           then map (\<lambda>r. (row_s r, row_o r)) (view_rows (st_vp st sameas_id)) else []))"

section \<open>The bound on the cluster size\<close>

definition build_adj :: "(term_id \<times> term_id) list \<Rightarrow> (term_id \<rightharpoonup> term_id list)" where
  "build_adj pairs = fold (\<lambda>(s, ob) adj. entry_push ob s (entry_push s ob adj)) pairs Map.empty"

definition pair_ids :: "(term_id \<times> term_id) list \<Rightarrow> term_id set" where
  "pair_ids pairs = fst ` set pairs \<union> snd ` set pairs"

lemma build_adj_iff: "y \<in> set (get_list (build_adj pairs) x) \<longleftrightarrow> linked pairs x y"
proof -
  have "y \<in> set (get_list (fold (\<lambda>(s, ob) adj. entry_push ob s (entry_push s ob adj)) pairs m) x) \<longleftrightarrow>
      y \<in> set (get_list m x) \<or> linked pairs x y" for m
  proof (induction pairs arbitrary: m)
    case (Cons e pairs)
    obtain s ob where e: "e = (s, ob)" by (cases e)
    have "y \<in> set (get_list (entry_push ob s (entry_push s ob m)) x) \<longleftrightarrow>
        y \<in> set (get_list m x) \<or> x = s \<and> y = ob \<or> x = ob \<and> y = s"
      by (cases "x = s"; cases "x = ob") auto
    with Cons.IH [of "entry_push ob s (entry_push s ob m)"] show ?case by (simp add: e)
  qed simp
  moreover have "get_list (Map.empty :: term_id \<rightharpoonup> term_id list) x = []" by (simp add: get_list_def)
  ultimately show ?thesis by (simp add: build_adj_def)
qed

lemma linked_ids: "linked pairs x y \<Longrightarrow> x \<in> pair_ids pairs \<and> y \<in> pair_ids pairs"
  by (force simp: linked_def pair_ids_def)

text \<open>The search of one component: the stack has its top first; the result is the set of visited
  nodes and the number of nodes visited from this start, which stops growing as soon as it
  exceeds the limit.\<close>

function component :: "(term_id \<times> term_id) list \<Rightarrow> nat \<Rightarrow> term_id list \<Rightarrow> term_id set \<Rightarrow> nat \<Rightarrow> term_id set \<times> nat" where
  "component pairs limit [] visited component_size = (visited, component_size)"
| "component pairs limit (node # stack) visited component_size =
     (if node \<in> visited then component pairs limit stack visited component_size
      else (let visited = insert node visited;
                component_size = Suc component_size;
                stack = rev (filter (\<lambda>nb. nb \<notin> visited) (get_list (build_adj pairs) node)) @ stack
            in if limit < component_size then (visited, component_size)
               else component pairs limit stack visited component_size))"
  by pat_completeness auto

termination
proof (relation "measures [\<lambda>(pairs, limit, stack, visited, n). card (pair_ids pairs \<union> set stack - visited),
    \<lambda>(pairs, limit, stack, visited, n). length stack]", goal_cases)
  case (2 pairs limit node stack visited n)
  have "pair_ids pairs \<union> set (node # stack) - visited = pair_ids pairs \<union> set stack - visited"
    using 2 by auto
  then show ?case by simp
next
  case (3 pairs limit node stack visited n v' n' stack')
  have "pair_ids pairs \<union> set stack' - v' \<subset> pair_ids pairs \<union> set (node # stack) - visited"
    using 3 by (auto simp: build_adj_iff dest: linked_ids)
  then have "card (pair_ids pairs \<union> set stack' - v') < card (pair_ids pairs \<union> set (node # stack) - visited)"
    by (rule psubset_card_mono [rotated]) (simp add: pair_ids_def)
  then show ?case by simp
qed simp

text \<open>The scan over all starting nodes: \<open>Some n\<close> when a component of more than \<open>limit\<close> nodes is met.\<close>

fun cluster_scan :: "(term_id \<times> term_id) list \<Rightarrow> nat \<Rightarrow> term_id list \<Rightarrow> term_id set \<Rightarrow> nat \<Rightarrow> nat option" where
  "cluster_scan pairs limit [] visited max_seen = None"
| "cluster_scan pairs limit (start # starts) visited max_seen =
     (if start \<in> visited then cluster_scan pairs limit starts visited max_seen
      else (let (visited, component_size) = component pairs limit [start] visited 0;
                max_seen = (if max_seen < component_size then component_size else max_seen)
            in if limit < max_seen then Some max_seen
               else cluster_scan pairs limit starts visited max_seen))"

section \<open>The canonicalization map\<close>

record sameas_result =
  sm_map :: "term_id \<rightharpoonup> term_id"
  sm_warning :: "nat option"
  sm_anomaly_log :: "(term_id \<times> term_id \<times> nat) list"

record sameas_gucs =
  SAMEAS_MAX_CLUSTER_SIZE :: int
  RECORD_SAMEAS_ANOMALIES :: bool

fun collect_map :: "term_id list \<Rightarrow> union_find \<Rightarrow> (term_id \<rightharpoonup> term_id) \<Rightarrow> (term_id \<rightharpoonup> term_id) option" where
  "collect_map [] parent m = Some m"
| "collect_map (x # ids) parent m =
     Option.bind (uf_find parent x) (\<lambda>(canonical, parent).
       collect_map ids parent (if canonical \<noteq> x then m(x \<mapsto> canonical) else m))"

definition compute_sameas_map :: "sameas_gucs \<Rightarrow> term_id hash_order \<Rightarrow> (term_id \<times> term_id) list \<Rightarrow> sameas_result option" where
  "compute_sameas_map cfg ord pairs =
     (if pairs = [] then Some \<lparr>sm_map = Map.empty, sm_warning = None, sm_anomaly_log = []\<rparr>
      else
        (let max_cluster = SAMEAS_MAX_CLUSTER_SIZE cfg;
             over = (if 0 < max_cluster then cluster_scan pairs (nat max_cluster) (ord (pair_ids pairs)) {} 0 else None)
         in case over of
              Some max_seen \<Rightarrow>
                Some \<lparr>sm_map = Map.empty, sm_warning = Some max_seen,
                      sm_anomaly_log = (if RECORD_SAMEAS_ANOMALIES cfg
                                        then [(fst (hd pairs), snd (hd pairs), max_seen)] else [])\<rparr>
            | None \<Rightarrow>
                map_option (\<lambda>m. \<lparr>sm_map = m, sm_warning = None, sm_anomaly_log = []\<rparr>)
                  (Option.bind (union_all pairs Map.empty) (\<lambda>uf. collect_map (ord (pair_ids pairs)) uf Map.empty))))"

definition canonicalize_id :: "term_id \<Rightarrow> (term_id \<rightharpoonup> term_id) \<Rightarrow> term_id" where
  "canonicalize_id x m = (case m x of None \<Rightarrow> x | Some c \<Rightarrow> c)"

definition rewrite_term :: "(term_id \<rightharpoonup> term_id) \<Rightarrow> Term \<Rightarrow> Term" where
  "rewrite_term m t = (case t of Const x \<Rightarrow> Const (canonicalize_id x m) | other \<Rightarrow> other)"

definition rewrite_atom :: "(term_id \<rightharpoonup> term_id) \<Rightarrow> Atom \<Rightarrow> Atom" where
  "rewrite_atom m a = \<lparr>atom_s = rewrite_term m (atom_s a), atom_p = rewrite_term m (atom_p a),
                        atom_o = rewrite_term m (atom_o a), atom_g = rewrite_term m (atom_g a)\<rparr>"

fun rewrite_body_literal :: "(term_id \<rightharpoonup> term_id) \<Rightarrow> BodyLiteral \<Rightarrow> BodyLiteral" where
  "rewrite_body_literal m (Positive a) = Positive (rewrite_atom m a)"
| "rewrite_body_literal m (Negated a) = Negated (rewrite_atom m a)"
| "rewrite_body_literal m (Compare t1 cop t2) = Compare (rewrite_term m t1) cop (rewrite_term m t2)"
| "rewrite_body_literal m (StringBuiltin b) = StringBuiltin b"
| "rewrite_body_literal m (Assign v t1 aop t2) = Assign v (rewrite_term m t1) aop (rewrite_term m t2)"
| "rewrite_body_literal m (Aggregate agg) = Aggregate (agg\<lparr>agg_atom := rewrite_atom m (agg_atom agg)\<rparr>)"
| "rewrite_body_literal m (TemporalFilterLit f) = TemporalFilterLit f"

definition rewrite_rule :: "(term_id \<rightharpoonup> term_id) \<Rightarrow> Rule \<Rightarrow> Rule" where
  "rewrite_rule m rule = \<lparr>rule_head = map_option (rewrite_atom m) (rule_head rule),
     rule_body = map (rewrite_body_literal m) (rule_body rule),
     rule_text = rule_text rule, rule_weight = rule_weight rule\<rparr>"

definition apply_sameas_to_rules :: "(term_id \<rightharpoonup> term_id) \<Rightarrow> Rule list \<Rightarrow> Rule list" where
  "apply_sameas_to_rules m rules = (if m = Map.empty then rules else map (rewrite_rule m) rules)"

section \<open>Union-find maintains a partition\<close>

text \<open>Parents are smaller than their children and finitely many; the root of a node is then
  the smallest identifier reachable from it.\<close>

definition uf_ok :: "union_find \<Rightarrow> bool" where
  "uf_ok parent \<longleftrightarrow> finite (dom parent) \<and> (\<forall>x y. parent x = Some y \<longrightarrow> y < x)"

inductive root :: "union_find \<Rightarrow> term_id \<Rightarrow> term_id \<Rightarrow> bool" for parent where
  root_here: "parent x = None \<Longrightarrow> root parent x x"
| root_up: "parent x = Some y \<Longrightarrow> root parent y r \<Longrightarrow> root parent x r"

inductive_cases rootE: "root parent x r"

lemma root_unique: "root parent x r \<Longrightarrow> root parent x r' \<Longrightarrow> r' = r"
  by (induction rule: root.induct) (auto elim: rootE)

lemma root_top: "root parent x r \<Longrightarrow> parent r = None"
  by (induction rule: root.induct) auto

lemma root_le: "root parent x r \<Longrightarrow> uf_ok parent \<Longrightarrow> r \<le> x"
  by (induction rule: root.induct) (fastforce simp: uf_ok_def)+

lemma uf_wf: "uf_ok parent \<Longrightarrow> wf {(y, x). parent x = Some y}"
proof (rule finite_acyclic_wf)
  assume ok: "uf_ok parent"
  have "{(y, x). parent x = Some y} = (\<lambda>x. (the (parent x), x)) ` dom parent" by (force simp: dom_def)
  with ok show "finite {(y, x). parent x = Some y}" by (simp add: uf_ok_def)
  have "acyclic ({(y, x). parent x = Some y}\<inverse>)"
    by (rule acyclicI_order [where f = "\<lambda>x. x"]) (use ok in \<open>auto simp: uf_ok_def\<close>)
  then show "acyclic {(y, x). parent x = Some y}" by simp
qed

lemma root_exists: "uf_ok parent \<Longrightarrow> \<exists>r. root parent x r"
proof -
  assume "uf_ok parent"
  from uf_wf [OF this] show ?thesis
  proof (induction x rule: wf_induct_rule)
    case (less x)
    show ?case
    proof (cases "parent x")
      case None
      then show ?thesis using root_here by blast
    next
      case (Some y)
      with less [of y] show ?thesis using root_up by blast
    qed
  qed
qed

text \<open>Storing the root of a node changes no root.\<close>

lemma root_compress:
  assumes x: "root parent x r" and "x \<noteq> r" and P: "P x = Some r" "\<And>y. y \<noteq> x \<Longrightarrow> P y = parent y"
  shows "root P y s \<longleftrightarrow> root parent y s"
proof
  have xr: "root P x r"
  proof (rule root_up)
    show "root P r r" using assms root_top [OF x] by (intro root_here) simp
  qed (rule P)
  assume "root parent y s"
  then show "root P y s"
  proof (induction rule: root.induct)
    case (root_here y)
    with assms have "y \<noteq> x" by (auto elim: rootE)
    with root_here P show ?case by (intro root.root_here) simp
  next
    case (root_up y z s)
    show ?case
    proof (cases "y = x")
      case True
      with root_up have "root parent x s" using root.root_up by metis
      then have "s = r" using root_unique [OF x] by simp
      with True xr show ?thesis by simp
    next
      case False
      then have "P y = Some z" using root_up P by simp
      then show ?thesis using root_up by (blast intro: root.root_up)
    qed
  qed
next
  assume "root P y s"
  then show "root parent y s"
  proof (induction rule: root.induct)
    case (root_here y)
    then have "y \<noteq> x" using P by auto
    with root_here P show ?case by (intro root.root_here) simp
  next
    case (root_up y z s)
    show ?case
    proof (cases "y = x")
      case True
      with root_up P have z: "z = r" by simp
      with root_up root_top [OF x] have "s = r" using root_unique [of parent r r s] root.root_here [of parent r] by simp
      with True x show ?thesis by simp
    next
      case False
      then have "parent y = Some z" using root_up P by simp
      then show ?thesis using root_up by (blast intro: root.root_up)
    qed
  qed
qed

text \<open>Hanging one root below another merges the two classes.\<close>

lemma root_link:
  assumes "parent a = None" "parent b = None" "a \<noteq> b" and P: "P b = Some a" "\<And>y. y \<noteq> b \<Longrightarrow> P y = parent y"
  shows "root P y s \<longleftrightarrow> (if root parent y b then s = a else root parent y s)"
proof
  have ba: "root P b a"
    by (rule root_up [where y = a]) (use assms in \<open>auto intro: root_here\<close>)
  show "root P y s \<Longrightarrow> if root parent y b then s = a else root parent y s"
  proof (induction rule: root.induct)
    case (root_here y)
    then have "y \<noteq> b" using P by auto
    moreover from this have "parent y = None" using root_here P by simp
    ultimately show ?case by (auto elim: rootE intro: root.root_here)
  next
    case (root_up y z s)
    show ?case
    proof (cases "y = b")
      case True
      with root_up P have "z = a" by simp
      moreover have "root P a a" using assms by (intro root.root_here) simp
      ultimately have "s = a" using root_up root_unique by blast
      with True assms show ?thesis by (auto intro: root.root_here)
    next
      case False
      with root_up P have z: "parent y = Some z" by simp
      have "root parent y q \<longleftrightarrow> root parent z q" for q
        using z by (auto elim: rootE intro: root.root_up)
      with root_up show ?thesis by simp
    qed
  qed
  have "root parent y s' \<Longrightarrow> s' \<noteq> b \<Longrightarrow> root P y s'" for s'
  proof (induction rule: root.induct)
    case (root_here y)
    then show ?case using P by (intro root.root_here) simp
  next
    case (root_up y z r)
    then have "y \<noteq> b" using assms by auto
    then have "P y = Some z" using root_up P by simp
    then show ?case using root_up by (blast intro: root.root_up)
  qed
  moreover have "root parent y s' \<Longrightarrow> s' = b \<Longrightarrow> root P y a" for s'
  proof (induction rule: root.induct)
    case (root_here y)
    with ba show ?case by simp
  next
    case (root_up y z r)
    then have "y \<noteq> b" using assms by auto
    then have "P y = Some z" using root_up P by simp
    then show ?case using root_up by (blast intro: root.root_up)
  qed
  ultimately show "if root parent y b then s = a else root parent y s \<Longrightarrow> root P y s"
    by (auto split: if_splits)
qed

text \<open>\<open>find\<close> returns the root and leaves all roots as they are.\<close>

lemma uf_find:
  assumes "uf_ok parent"
  shows "\<exists>r parent'. uf_find parent x = Some (r, parent') \<and> root parent x r \<and> uf_ok parent'
     \<and> (\<forall>y s. root parent' y s \<longleftrightarrow> root parent y s)"
  using uf_wf [OF assms]
proof (induction x rule: wf_induct_rule)
  case (less x)
  show ?case
  proof (cases "parent x")
    case None
    then have "uf_find parent x = Some (x, parent)" by (subst uf_find.simps) simp
    with None assms show ?thesis by (auto intro: root_here)
  next
    case (Some p)
    then have px: "p < x" using assms by (simp add: uf_ok_def)
    from Some less [of p] obtain r parent' where
      f: "uf_find parent p = Some (r, parent')" "root parent p r" "uf_ok parent'"
        "\<forall>y s. root parent' y s \<longleftrightarrow> root parent y s" by auto
    have x: "root parent x r" using root_up [of parent x p r] Some f(2) by simp
    have "r < x" using root_le [OF f(2) assms] px by simp
    then have ok: "uf_ok (parent'(x \<mapsto> r))" using f(3) by (auto simp: uf_ok_def)
    have "root parent' x r" using x f(4) by simp
    then have "root (parent'(x \<mapsto> r)) y s \<longleftrightarrow> root parent' y s" for y s
      by (rule root_compress) (use \<open>r < x\<close> in auto)
    with f(4) have "\<forall>y s. root (parent'(x \<mapsto> r)) y s \<longleftrightarrow> root parent y s" by simp
    moreover have "uf_find parent x = Some (r, parent'(x \<mapsto> r))"
      using Some f(1) px by (subst uf_find.simps) simp
    ultimately show ?thesis using ok x by blast
  qed
qed

definition same_class :: "union_find \<Rightarrow> term_id \<Rightarrow> term_id \<Rightarrow> bool" where
  "same_class parent x y \<longleftrightarrow> (\<exists>r. root parent x r \<and> root parent y r)"

lemma same_class_equiv:
  assumes "uf_ok parent"
  shows "same_class parent x x" "same_class parent x y \<Longrightarrow> same_class parent y x"
    "same_class parent x y \<Longrightarrow> same_class parent y z \<Longrightarrow> same_class parent x z"
  using root_exists [OF assms] root_unique unfolding same_class_def by blast+

lemma uf_union:
  assumes "uf_ok parent"
  shows "\<exists>parent'. uf_union x y parent = Some parent' \<and> uf_ok parent'
     \<and> (\<forall>a b. same_class parent' a b \<longleftrightarrow> same_class parent a b
          \<or> same_class parent a x \<and> same_class parent y b \<or> same_class parent a y \<and> same_class parent x b)"
proof -
  obtain rx p1 where fx: "uf_find parent x = Some (rx, p1)" "root parent x rx" "uf_ok p1"
    "\<forall>y s. root p1 y s \<longleftrightarrow> root parent y s" using uf_find [OF assms, of x] by blast
  obtain ry p2 where fy: "uf_find p1 y = Some (ry, p2)" "root p1 y ry" "uf_ok p2"
    "\<forall>y s. root p2 y s \<longleftrightarrow> root p1 y s" using uf_find [OF fx(3), of y] by blast
  have roots: "root p2 a s \<longleftrightarrow> root parent a s" for a s using fx(4) fy(4) by simp
  have y: "root parent y ry" using fy(2) fx(4) by simp
  have x_iff: "same_class parent a x \<longleftrightarrow> root parent a rx" and y_iff: "same_class parent a y \<longleftrightarrow> root parent a ry" for a
    using fx(2) y root_unique unfolding same_class_def by blast+
  have sym: "same_class parent x b \<longleftrightarrow> root parent b rx" "same_class parent y b \<longleftrightarrow> root parent b ry" for b
    using x_iff y_iff same_class_equiv(2) [OF assms] by blast+
  show ?thesis
  proof (cases "rx = ry")
    case True
    have "same_class parent a b \<longleftrightarrow> same_class parent a b
          \<or> same_class parent a x \<and> same_class parent y b \<or> same_class parent a y \<and> same_class parent x b" for a b
      unfolding x_iff y_iff sym True by (auto simp: same_class_def)
    moreover have "same_class p2 a b \<longleftrightarrow> same_class parent a b" for a b by (simp add: same_class_def roots)
    moreover have "uf_union x y parent = Some p2" using fx(1) fy(1) True by (simp add: uf_union_def)
    ultimately show ?thesis using fy(3) by auto
  next
    case False
    define lo hi where "lo = min rx ry" and "hi = max rx ry"
    have lohi: "lo < hi" "{lo, hi} = {rx, ry}" using False by (auto simp: lo_def hi_def)
    have tops: "p2 lo = None" "p2 hi = None"
      using root_top [of p2 x rx] root_top [of p2 y ry] fx(2) y roots by (auto simp: lo_def hi_def min_def max_def)
    have link: "root (p2(hi \<mapsto> lo)) a s \<longleftrightarrow> (if root parent a hi then s = lo else root parent a s)" for a s
      using root_link [OF tops, of "p2(hi \<mapsto> lo)" a s] lohi(1) by (simp add: roots)
    have "uf_union x y parent = Some (p2(hi \<mapsto> lo))"
      using fx(1) fy(1) False by (simp add: uf_union_def lo_def hi_def)
    moreover have "uf_ok (p2(hi \<mapsto> lo))" using fy(3) lohi(1) by (auto simp: uf_ok_def)
    moreover have "same_class (p2(hi \<mapsto> lo)) a b \<longleftrightarrow> same_class parent a b
          \<or> root parent a rx \<and> root parent b ry \<or> root parent a ry \<and> root parent b rx" for a b
    proof -
      obtain ra rb where ab: "root parent a ra" "root parent b rb" using root_exists [OF assms] by metis
      have iffs: "root parent a s \<longleftrightarrow> s = ra" "root parent b s \<longleftrightarrow> s = rb" for s
        using ab root_unique by metis+
      have "lo = rx \<and> hi = ry \<or> lo = ry \<and> hi = rx" by (auto simp: lo_def hi_def min_def max_def)
      then show ?thesis unfolding same_class_def link iffs using lohi(1) by auto
    qed
    ultimately show ?thesis unfolding x_iff y_iff sym by blast
  qed
qed

section \<open>Equivalence classes\<close>

definition class_of :: "(term_id \<times> term_id) list \<Rightarrow> term_id \<Rightarrow> term_id set" where
  "class_of pairs x = {y. same_as pairs x y}"

lemma class_of_eq: "same_as pairs x y \<Longrightarrow> class_of pairs x = class_of pairs y"
  unfolding class_of_def using same_as_sym same_as_trans by blast

lemma class_of_subset: "class_of pairs x \<subseteq> insert x (pair_ids pairs)"
proof
  fix y
  assume "y \<in> class_of pairs x"
  then have "(linked pairs)\<^sup>*\<^sup>* x y" by (simp add: class_of_def same_as_def)
  then show "y \<in> insert x (pair_ids pairs)" by (cases rule: rtranclp.cases) (auto dest: linked_ids)
qed

lemma finite_class [simp]: "finite (class_of pairs x)"
  by (rule finite_subset [OF class_of_subset]) (simp add: pair_ids_def)

lemma class_of_self [simp]: "x \<in> class_of pairs x"
  by (simp add: class_of_def)

lemma class_outside: "x \<notin> pair_ids pairs \<Longrightarrow> class_of pairs x = {x}"
proof -
  assume x: "x \<notin> pair_ids pairs"
  have "y = x" if "same_as pairs x y" for y
    using that unfolding same_as_def by (induction rule: rtranclp_induct) (use x in \<open>auto dest: linked_ids\<close>)
  then show ?thesis by (auto simp: class_of_def)
qed

text \<open>The contract of union-find holds for this implementation.\<close>

interpretation sameas_uf: union_find UNIV uf_ok same_class uf_union
proof unfold_locales
  show "same_class u a a" if "uf_ok u" for u a using same_class_equiv(1) [OF that] .
  show "same_class u b a" if "uf_ok u" "same_class u a b" for u a b using same_class_equiv(2) [OF that] .
  show "same_class u a c" if "uf_ok u" "same_class u a b" "same_class u b c" for u a b c using same_class_equiv(3) [OF that] .
  show "\<exists>u'. uf_union x y u = Some u' \<and> uf_ok u' \<and> (\<forall>a b. same_class u' a b \<longleftrightarrow> same_class u a b
      \<or> same_class u a x \<and> same_class u y b \<or> same_class u a y \<and> same_class u x b)" if "uf_ok u" for x y u
    using uf_union [OF that] by blast
qed

lemma union_all_unite: "union_all pairs = unite uf_union pairs"
  by (induction pairs) (auto intro!: ext)

lemma union_all_classes:
  "\<exists>parent. union_all pairs Map.empty = Some parent \<and> uf_ok parent
     \<and> (\<forall>x. root parent x (Min (class_of pairs x)))"
proof -
  have empty: "uf_ok Map.empty" by (simp add: uf_ok_def)
  have eq: "same_class Map.empty a b \<longleftrightarrow> a = b" for a b
    by (auto simp: same_class_def intro: root_here elim: rootE)
  from sameas_uf.unite_from_identity [OF empty _ eq, of pairs] obtain parent where p: "union_all pairs Map.empty = Some parent" "uf_ok parent"
    "same_class parent = same_as pairs" unfolding union_all_unite by auto
  with p(3) have same: "same_class parent x y \<longleftrightarrow> same_as pairs x y" for x y by simp
  have "root parent x (Min (class_of pairs x))" for x
  proof -
    obtain r where r: "root parent x r" using root_exists [OF p(2)] by blast
    have "root parent r r" using root_top [OF r] by (rule root_here)
    with r have "r \<in> class_of pairs x" unfolding class_of_def same [symmetric] by (auto simp: same_class_def)
    moreover have "r \<le> y" if "y \<in> class_of pairs x" for y
    proof -
      from that have "same_class parent x y" by (simp add: class_of_def same)
      then obtain q where "root parent x q" "root parent y q" by (auto simp: same_class_def)
      with root_unique [OF r] root_le [OF _ p(2)] show ?thesis by blast
    qed
    ultimately have "Min (class_of pairs x) = r" by (intro Min_eqI) auto
    with r show ?thesis by simp
  qed
  with p show ?thesis by blast
qed

lemma collect_map:
  assumes "uf_ok parent" "\<forall>x. root parent x (c x)"
  shows "collect_map ids parent m =
    Some (\<lambda>x. if x \<in> set ids \<and> c x \<noteq> x then Some (c x) else m x)"
  using assms
proof (induction ids arbitrary: parent m)
  case (Cons x ids)
  from uf_find [OF Cons.prems(1), of x] obtain r parent' where
    f: "uf_find parent x = Some (r, parent')" "root parent x r" "uf_ok parent'" "\<forall>y s. root parent' y s \<longleftrightarrow> root parent y s"
    by blast
  have "r = c x" using f(2) Cons.prems(2) root_unique by blast
  have "\<forall>x. root parent' x (c x)" using f(4) Cons.prems(2) by simp
  from Cons.IH [OF f(3) this] show ?case using f(1) \<open>r = c x\<close> by (auto simp: fun_eq_iff)
qed simp

section \<open>Component sizes\<close>

text \<open>The search from \<open>start\<close>, begun with a set of visited nodes closed under links that misses
  the class: it visits the whole class and counts it, or stops above the limit.\<close>

lemma component:
  assumes "\<forall>x \<in> set stack. x \<in> class_of pairs start"
    and "visited = V0 \<union> V" "V0 \<inter> class_of pairs start = {}" "V \<subseteq> class_of pairs start" "n = card V"
    and "\<forall>x \<in> V. \<forall>y. linked pairs x y \<longrightarrow> y \<in> V \<union> set stack" "start \<in> V \<union> set stack" "n \<le> limit"
  shows "let (visited', n') = component pairs limit stack visited n in
     if card (class_of pairs start) \<le> limit then visited' = V0 \<union> class_of pairs start \<and> n' = card (class_of pairs start)
     else limit < n' \<and> n' \<le> card (class_of pairs start)"
  using assms
proof (induction pairs limit stack visited n arbitrary: V rule: component.induct)
  case (1 pairs limit visited n)
  have "y \<in> V" if "same_as pairs start y" for y
    using that unfolding same_as_def by (induction rule: rtranclp_induct) (use "1.prems" in auto)
  then have "V = class_of pairs start" using "1.prems"(4) by (auto simp: class_of_def)
  with "1.prems" show ?case by simp
next
  case (2 pairs limit node stack visited n)
  show ?case
  proof (cases "node \<in> visited")
    case True
    with "2.prems" have node: "node \<in> V" by auto
    have "let (visited', n') = component pairs limit stack visited n in
       if card (class_of pairs start) \<le> limit then visited' = V0 \<union> class_of pairs start \<and> n' = card (class_of pairs start)
       else limit < n' \<and> n' \<le> card (class_of pairs start)"
      by (rule "2.IH"(1) [OF True, where V = V]) (use "2.prems" node in auto)
    with True show ?thesis by simp
  next
    case False
    let ?v = "insert node visited" and ?V = "insert node V"
    let ?stack = "rev (filter (\<lambda>nb. nb \<notin> ?v) (get_list (build_adj pairs) node)) @ stack"
    have cls: "node \<in> class_of pairs start" and notV: "node \<notin> V" using "2.prems" False by auto
    have sub: "?V \<subseteq> class_of pairs start" using "2.prems"(4) cls by simp
    have finV: "finite V" using "2.prems"(4) finite_subset finite_class by blast
    then have card: "Suc n = card ?V" using "2.prems"(5) notV by simp
    show ?thesis
    proof (cases "limit < Suc n")
      case True
      have "Suc n \<le> card (class_of pairs start)" unfolding card by (rule card_mono [OF finite_class sub])
      with True False show ?thesis by simp
    next
      case le: False
      have nbs: "y \<in> set (get_list (build_adj pairs) node) \<Longrightarrow> y \<in> class_of pairs start" for y
        using cls same_as_step by (auto simp: build_adj_iff class_of_def)
      have "let (visited', n') = component pairs limit ?stack ?v (Suc n) in
         if card (class_of pairs start) \<le> limit then visited' = V0 \<union> class_of pairs start \<and> n' = card (class_of pairs start)
         else limit < n' \<and> n' \<le> card (class_of pairs start)"
      proof (rule "2.IH"(2) [OF False refl refl refl le, where V = ?V])
        show "\<forall>x \<in> set ?stack. x \<in> class_of pairs start" using "2.prems"(1) nbs by auto
        show "?v = V0 \<union> ?V" using "2.prems"(2) by simp
        show "\<forall>x \<in> ?V. \<forall>y. linked pairs x y \<longrightarrow> y \<in> ?V \<union> set ?stack"
        proof (intro ballI allI impI)
          fix x y
          assume "x \<in> ?V" and l: "linked pairs x y"
          then consider "x = node" | "x \<in> V" by auto
          then show "y \<in> ?V \<union> set ?stack"
          proof cases
            case 1
            with l have y: "y \<in> set (get_list (build_adj pairs) node)" by (simp add: build_adj_iff)
            with nbs have "y \<in> class_of pairs start" by simp
            with "2.prems"(2,3) y show ?thesis by auto
          next
            case 2
            with l "2.prems"(6) show ?thesis by auto
          qed
        qed
      qed (use "2.prems" sub card le in auto)
      with False le show ?thesis by (simp add: Let_def)
    qed
  qed
qed

declare component.simps(2) [simp del]

lemma cluster_scan:
  assumes "\<forall>x \<in> visited. class_of pairs x \<subseteq> visited \<and> card (class_of pairs x) \<le> limit" "max_seen \<le> limit"
  shows "case cluster_scan pairs limit starts visited max_seen of
     None \<Rightarrow> \<forall>x \<in> set starts. card (class_of pairs x) \<le> limit
   | Some n \<Rightarrow> limit < n \<and> (\<exists>x \<in> set starts. n \<le> card (class_of pairs x))"
  using assms
proof (induction starts arbitrary: visited max_seen)
  case (Cons start starts)
  show ?case
  proof (cases "start \<in> visited")
    case True
    with Cons.IH [OF Cons.prems] Cons.prems(1) show ?thesis by (auto split: option.splits)
  next
    case False
    let ?C = "class_of pairs start"
    have disj: "visited \<inter> ?C = {}"
    proof (rule ccontr)
      assume "visited \<inter> ?C \<noteq> {}"
      then obtain y where y: "y \<in> visited" "same_as pairs start y" by (auto simp: class_of_def)
      then have "start \<in> class_of pairs y" using same_as_sym by (simp add: class_of_def)
      with y(1) Cons.prems(1) False show False by blast
    qed
    obtain v n where vn: "component pairs limit [start] visited 0 = (v, n)" by (cases "component pairs limit [start] visited 0")
    from component [of "[start]" pairs start visited visited "{}" 0 limit] disj vn
    have c: "if card ?C \<le> limit then v = visited \<union> ?C \<and> n = card ?C else limit < n \<and> n \<le> card ?C" by simp
    show ?thesis
    proof (cases "card ?C \<le> limit")
      case True
      with c have v: "v = visited \<union> ?C" "n = card ?C" by auto
      have "\<forall>x \<in> v. class_of pairs x \<subseteq> v \<and> card (class_of pairs x) \<le> limit"
      proof
        fix x
        assume "x \<in> v"
        then consider "x \<in> visited" | "same_as pairs start x" unfolding v(1) by (auto simp: class_of_def)
        then show "class_of pairs x \<subseteq> v \<and> card (class_of pairs x) \<le> limit"
        proof cases
          case 1
          with Cons.prems(1) show ?thesis unfolding v(1) by blast
        next
          case 2
          with class_of_eq [OF 2] True show ?thesis unfolding v(1) by simp
        qed
      qed
      moreover have "(if max_seen < n then n else max_seen) \<le> limit" using Cons.prems(2) True v(2) by simp
      ultimately show ?thesis
        using Cons.IH [of v "if max_seen < n then n else max_seen"] False True Cons.prems(2) v(2)
        by (simp add: vn split: option.splits if_splits)
    next
      case big: False
      with c have "limit < n" "n \<le> card ?C" by auto
      then show ?thesis using False Cons.prems(2) by (auto simp: vn)
    qed
  qed
qed simp

lemma compute_sameas_map_returns:
  assumes ord: "hash_order_ok ord"
  shows "\<exists>res. compute_sameas_map cfg ord pairs = Some res \<and>
    (if \<exists>x. 0 < SAMEAS_MAX_CLUSTER_SIZE cfg \<and> SAMEAS_MAX_CLUSTER_SIZE cfg < int (card (class_of pairs x))
     then sm_map res = Map.empty \<and> (\<exists>n. sm_warning res = Some n \<and> SAMEAS_MAX_CLUSTER_SIZE cfg < int n)
     else sm_warning res = None \<and> (\<forall>x. sm_map res x = (if Min (class_of pairs x) = x then None else Some (Min (class_of pairs x)))))"
proof (cases "pairs = []")
  case True
  have "class_of [] x = {x}" for x by (rule class_outside) (simp add: pair_ids_def)
  with True show ?thesis by (simp add: compute_sameas_map_def)
next
  case ne: False
  let ?max = "SAMEAS_MAX_CLUSTER_SIZE cfg" and ?ids = "ord (pair_ids pairs)"
  have ids: "set ?ids = pair_ids pairs" using ord by (simp add: pair_ids_def)
  let ?over = "if 0 < ?max then cluster_scan pairs (nat ?max) ?ids {} 0 else None"
  obtain parent where p: "union_all pairs Map.empty = Some parent" "uf_ok parent"
    "\<forall>x. root parent x (Min (class_of pairs x))" using union_all_classes by blast
  have m: "collect_map ?ids parent Map.empty =
      Some (\<lambda>x. if Min (class_of pairs x) = x then None else Some (Min (class_of pairs x)))"
    unfolding collect_map [OF p(2,3)] ids using class_outside by (auto simp: fun_eq_iff)
  have outside: "card (class_of pairs x) \<le> nat ?max" if "x \<notin> pair_ids pairs" "0 < ?max" for x
    using that by (simp add: class_outside)
  have scan: "case cluster_scan pairs (nat ?max) ?ids {} 0 of
     None \<Rightarrow> \<forall>x \<in> pair_ids pairs. card (class_of pairs x) \<le> nat ?max
   | Some n \<Rightarrow> nat ?max < n \<and> (\<exists>x \<in> pair_ids pairs. n \<le> card (class_of pairs x))"
    using cluster_scan [of "{}" pairs "nat ?max" 0 ?ids] unfolding ids by simp
  show ?thesis
  proof (cases ?over)
    case None
    have "card (class_of pairs x) \<le> nat ?max" if "0 < ?max" for x
      using None scan outside [OF _ that] that by (cases "x \<in> pair_ids pairs") auto
    then have small: "\<not> (\<exists>x. 0 < ?max \<and> ?max < int (card (class_of pairs x)))"
      by (metis nat_less_eq_zless nat_int not_le order_less_imp_le)
    have "compute_sameas_map cfg ord pairs = Some \<lparr>sm_map = \<lambda>x. if Min (class_of pairs x) = x then None
        else Some (Min (class_of pairs x)), sm_warning = None, sm_anomaly_log = []\<rparr>"
      using ne None p(1) m by (simp add: compute_sameas_map_def Let_def)
    with small show ?thesis by simp
  next
    case (Some n)
    then have pos: "0 < ?max" and n: "cluster_scan pairs (nat ?max) ?ids {} 0 = Some n" by (auto split: if_splits)
    with scan obtain x where x: "nat ?max < n" "n \<le> card (class_of pairs x)" by auto
    then have "?max < int (card (class_of pairs x))" "?max < int n" using pos by linarith+
    with pos have big: "\<exists>x. 0 < ?max \<and> ?max < int (card (class_of pairs x))" by blast
    have "compute_sameas_map cfg ord pairs = Some \<lparr>sm_map = Map.empty, sm_warning = Some n,
        sm_anomaly_log = (if RECORD_SAMEAS_ANOMALIES cfg then [(fst (hd pairs), snd (hd pairs), n)] else [])\<rparr>"
      using ne Some by (simp add: compute_sameas_map_def Let_def)
    with big \<open>?max < int n\<close> show ?thesis by auto
  qed
qed

end
