(* ===== verification/Sameas_Correct.thy ===== *)
theory Sameas_Correct
  imports Sameas Htap_Contract
begin

text \<open>
  Properties of the \<open>owl:sameAs\<close> canonicalization against the quads of the triple store: the map
  sends every identifier to the smallest one of its equivalence class, unless a class
  exceeds the configured bound, and rewriting rules with it is idempotent.
\<close>

lemma sameas_pairs_linked:
  assumes ok: "store_ok st"
  shows "linked (sameas_pairs p st) x y \<longleftrightarrow>
    x \<noteq> 0 \<and> y \<noteq> 0 \<and> (\<exists>g. (x, p, y, g) \<in> quads st \<or> (y, p, x, g) \<in> quads st)"
proof -
  have rare: "(x, y) \<in> set (map (\<lambda>(p, r). (row_s r, row_o r)) (filter (\<lambda>(q, r). q = p) (st_rare st)))
      \<longleftrightarrow> (\<exists>g. (x, y, g) \<in> rare_keys st p)" for x y
    unfolding rare_keys_def by (force simp: row_key_def)
  have vp: "(x, y) \<in> set (map (\<lambda>r. (row_s r, row_o r)) (view_rows (st_vp st p)))
      \<longleftrightarrow> (\<exists>g. (x, y, g) \<in> shown_main (st_vp st p) \<union> delta_keys (st_vp st p))" for x y
    unfolding view_keys [symmetric] by (force simp: row_key_def)
  have "(x, y) \<in> set (sameas_pairs p st) \<longleftrightarrow> x \<noteq> 0 \<and> y \<noteq> 0 \<and> (\<exists>g. (x, y, g) \<in> shown st p)" for x y
    unfolding sameas_pairs_def set_filter set_append using rare [of x y] vp [of x y]
    by (cases "get_dedicated_vp_table p st") (simp_all add: shown_def, blast+)
  then show ?thesis unfolding linked_def by auto
qed

text \<open>
  Property C34. The canonicalization map. Two identifiers are linked when an \<open>owl:sameAs\<close> quad of
  the store relates them; the pass always returns; if the bound is on and some class is
  larger, it warns and maps nothing, and otherwise it maps every identifier to the smallest
  one of its class.
\<close>

theorem compute_sameas_map_correct:
  assumes "store_ok st" "hash_order_ok ord"
  shows "(\<forall>x y. linked (sameas_pairs p st) x y \<longleftrightarrow>
       x \<noteq> 0 \<and> y \<noteq> 0 \<and> (\<exists>g. (x, p, y, g) \<in> quads st \<or> (y, p, x, g) \<in> quads st))
    \<and> (\<exists>res. compute_sameas_map cfg ord (sameas_pairs p st) = Some res \<and>
        (if \<exists>x. 0 < SAMEAS_MAX_CLUSTER_SIZE cfg \<and> SAMEAS_MAX_CLUSTER_SIZE cfg < int (card (class_of (sameas_pairs p st) x))
         then sm_warning res \<noteq> None \<and> (\<forall>x. canonicalize_id x (sm_map res) = x)
         else sm_warning res = None \<and> (\<forall>x. canonicalize_id x (sm_map res) = Min (class_of (sameas_pairs p st) x))))"
proof -
  from compute_sameas_map_returns [OF assms(2), of cfg "sameas_pairs p st"] obtain res where
    "compute_sameas_map cfg ord (sameas_pairs p st) = Some res"
    and r: "if \<exists>x. 0 < SAMEAS_MAX_CLUSTER_SIZE cfg \<and> SAMEAS_MAX_CLUSTER_SIZE cfg < int (card (class_of (sameas_pairs p st) x))
     then sm_map res = Map.empty \<and> (\<exists>n. sm_warning res = Some n \<and> SAMEAS_MAX_CLUSTER_SIZE cfg < int n)
     else sm_warning res = None \<and> (\<forall>x. sm_map res x =
       (if Min (class_of (sameas_pairs p st) x) = x then None else Some (Min (class_of (sameas_pairs p st) x))))"
    by blast
  moreover from r have "if \<exists>x. 0 < SAMEAS_MAX_CLUSTER_SIZE cfg \<and> SAMEAS_MAX_CLUSTER_SIZE cfg < int (card (class_of (sameas_pairs p st) x))
     then sm_warning res \<noteq> None \<and> (\<forall>x. canonicalize_id x (sm_map res) = x)
     else sm_warning res = None \<and> (\<forall>x. canonicalize_id x (sm_map res) = Min (class_of (sameas_pairs p st) x))"
    by (cases "\<exists>x. 0 < SAMEAS_MAX_CLUSTER_SIZE cfg \<and> SAMEAS_MAX_CLUSTER_SIZE cfg < int (card (class_of (sameas_pairs p st) x))")
      (simp_all only: if_True if_False, auto simp: canonicalize_id_def)
  ultimately show ?thesis using sameas_pairs_linked [OF assms(1)] by blast
qed

definition sameas_demo :: store where
  "sameas_demo = snd (insert_triple demo_storage_gucs 0 8 2 1 0 demo_store)"

theorem compute_sameas_map_correct_witness:
  "store_ok sameas_demo \<and> hash_order_ok (sorted_list_of_set :: term_id hash_order)
   \<and> (\<exists>res. compute_sameas_map \<lparr>SAMEAS_MAX_CLUSTER_SIZE = 0, RECORD_SAMEAS_ANOMALIES = True\<rparr> sorted_list_of_set
         (sameas_pairs 2 sameas_demo) = Some res
       \<and> canonicalize_id 8 (sm_map res) = Min (class_of (sameas_pairs 2 sameas_demo) 8))"
proof -
  have ok: "store_ok sameas_demo" by (simp add: sameas_demo_def insert_triple_refines demo_store_ok)
  let ?cfg = "\<lparr>SAMEAS_MAX_CLUSTER_SIZE = 0, RECORD_SAMEAS_ANOMALIES = True\<rparr>"
  from compute_sameas_map_correct [OF ok hash_order_sorted, of 2 ?cfg] ok hash_order_sorted show ?thesis by auto
qed

section \<open>Rewriting rules\<close>

definition canonical_map :: "(term_id \<rightharpoonup> term_id) \<Rightarrow> bool" where
  "canonical_map m \<longleftrightarrow> (\<forall>x c. m x = Some c \<longrightarrow> m c = None)"

lemma canonicalize_idem: "canonical_map m \<Longrightarrow> canonicalize_id (canonicalize_id x m) m = canonicalize_id x m"
  by (auto simp: canonicalize_id_def canonical_map_def split: option.split)

lemma rewrite_term_idem: "canonical_map m \<Longrightarrow> rewrite_term m (rewrite_term m t) = rewrite_term m t"
  by (cases t) (simp_all add: rewrite_term_def canonicalize_idem)

lemma rewrite_atom_idem: "canonical_map m \<Longrightarrow> rewrite_atom m (rewrite_atom m a) = rewrite_atom m a"
  by (simp add: rewrite_atom_def rewrite_term_idem)

lemma rewrite_literal_idem:
  "canonical_map m \<Longrightarrow> rewrite_body_literal m (rewrite_body_literal m l) = rewrite_body_literal m l"
  by (cases l) (simp_all add: rewrite_term_idem rewrite_atom_idem)

lemma rewrite_rule_idem: "canonical_map m \<Longrightarrow> rewrite_rule m (rewrite_rule m r) = rewrite_rule m r"
  by (simp add: rewrite_rule_def option.map_comp comp_def rewrite_atom_idem rewrite_literal_idem)

lemma compute_sameas_canonical:
  assumes "hash_order_ok ord" "compute_sameas_map cfg ord pairs = Some res"
  shows "canonical_map (sm_map res)"
proof -
  have idem: "Min (class_of pairs (Min (class_of pairs x))) = Min (class_of pairs x)" for x
  proof -
    have "Min (class_of pairs x) \<in> class_of pairs x" by (rule Min_in) (auto intro: class_of_self)
    then have "class_of pairs x = class_of pairs (Min (class_of pairs x))"
      by (intro class_of_eq) (simp add: class_of_def)
    then show ?thesis by simp
  qed
  from compute_sameas_map_returns [OF assms(1), of cfg pairs] assms(2)
  show ?thesis by (auto simp: canonical_map_def idem split: if_splits)
qed

text \<open>
  With a map the canonicalization pass returned, rewriting rules that are already
  rewritten changes nothing, and no constant of a rewritten atom has a representative other
  than itself.
\<close>

lemma apply_sameas_idempotent:
  assumes "hash_order_ok ord" "compute_sameas_map cfg ord pairs = Some res"
  shows "apply_sameas_to_rules (sm_map res) (apply_sameas_to_rules (sm_map res) rules) = apply_sameas_to_rules (sm_map res) rules
    \<and> canonicalize_id (canonicalize_id x (sm_map res)) (sm_map res) = canonicalize_id x (sm_map res)"
proof -
  note can = compute_sameas_canonical [OF assms]
  have "map (rewrite_rule (sm_map res)) (map (rewrite_rule (sm_map res)) rules) = map (rewrite_rule (sm_map res)) rules"
    using rewrite_rule_idem [OF can] by simp
  then show ?thesis using canonicalize_idem [OF can] by (simp add: apply_sameas_to_rules_def)
qed

lemma apply_sameas_idempotent_witness:
  "\<exists>res. compute_sameas_map \<lparr>SAMEAS_MAX_CLUSTER_SIZE = 0, RECORD_SAMEAS_ANOMALIES = True\<rparr> sorted_list_of_set [(5, 3), (3, 9)] = Some res
     \<and> hash_order_ok (sorted_list_of_set :: term_id hash_order)
     \<and> canonicalize_id (canonicalize_id 9 (sm_map res)) (sm_map res) = canonicalize_id 9 (sm_map res)"
proof -
  let ?cfg = "\<lparr>SAMEAS_MAX_CLUSTER_SIZE = 0, RECORD_SAMEAS_ANOMALIES = True\<rparr>"
  from compute_sameas_map_returns [OF hash_order_sorted, of ?cfg "[(5, 3), (3, 9)]"] obtain res where
    r: "compute_sameas_map ?cfg sorted_list_of_set [(5, 3), (3, 9)] = Some res" by blast
  from apply_sameas_idempotent [OF hash_order_sorted r, of "[]" 9] r hash_order_sorted show ?thesis by blast
qed

end
