(* ===== verification/Dictionary.thy ===== *)
theory Dictionary
  imports Inline_Encoding Htap_Store
begin

text \<open>
  The dictionary encoder (\<open>src/src/dictionary/mod.rs\<close>): the dictionary table with its hash key
  and identity column, the shared-memory and backend-local encode caches, the decode cache,
  the list of shared-memory inserts of the current transaction, all encode, lookup and decode
  operations, and the transaction callbacks of \<open>src/src/lib.rs\<close> that keep the caches in step
  with rollbacks.

  The hash function, Unicode normalization, the LRU caches and the date libraries are
  third-party code: they are fields of the environment \<open>dict_env\<close>, and what is relied on is
  stated as \<open>lru_laws\<close> and as absence of collisions among the hashed inputs in use. A failing
  SPI call is a PostgreSQL error that aborts the transaction; the model's errors are the ones
  the table itself can raise and the ones the code raises.
\<close>

section \<open>Environment and state\<close>

type_synonym i16 = "16 word"

record ('k, 'v, 'c) lru =
  lru_get :: "'k \<Rightarrow> 'c \<Rightarrow> 'v option \<times> 'c"
  lru_put :: "'k \<Rightarrow> 'v \<Rightarrow> 'c \<Rightarrow> 'c"
  lru_clear :: "'c \<Rightarrow> 'c"
  lru_peek :: "'c \<Rightarrow> 'k \<Rightarrow> 'v option"

text \<open>What the code relies on of an LRU cache: reading does not change what is cached, a write
  is seen until it is evicted, and eviction only removes.\<close>

definition lru_laws :: "('k, 'v, 'c) lru \<Rightarrow> bool" where
  "lru_laws l \<longleftrightarrow>
     (\<forall>k c. fst (lru_get l k c) = lru_peek l c k) \<and> (\<forall>k c k'. lru_peek l (snd (lru_get l k c)) k' = lru_peek l c k')
     \<and> (\<forall>k v c. lru_peek l (lru_put l k v c) k = Some v)
     \<and> (\<forall>k v c k'. k' = k \<or> lru_peek l (lru_put l k v c) k' \<in> {None, lru_peek l c k'})
     \<and> (\<forall>c k. lru_peek l (lru_clear l c) k = None)"

record ('e, 'd) dict_env =
  xxh3_128 :: "8 word list \<Rightarrow> u128"
  nfc :: "string \<Rightarrow> string"
  NORMALIZE_IRIS :: bool
  STRICT_DICTIONARY :: bool
  enc_lru :: "(u128, i64, 'e) lru"
  dec_lru :: "(i64, string, 'd) lru"
  parse_micros :: "string \<Rightarrow> int option"
  parse_days :: "string \<Rightarrow> int option"
  fmt_datetime :: "int \<Rightarrow> string option"
  fmt_date :: "int \<Rightarrow> string option"

record dict_row =
  dr_id :: i64
  dr_hash_hi :: i64
  dr_hash_lo :: i64
  dr_value :: string
  dr_kind :: i16
  dr_datatype :: "string option"
  dr_lang :: "string option"
  dr_qt :: "(i64 \<times> i64 \<times> i64) option"

record ('e, 'd) dict =
  dict_rows :: "dict_row list"
  dict_seq :: nat
  dict_shmem :: shmem
  ENCODE_CACHE :: 'e
  DECODE_CACHE :: 'd
  TX_SHMEM_INSERTS :: "u128 list"
  DICT_HOT_CACHE_HITS :: u64
  DICT_HOT_CACHE_MISSES :: u64

datatype dict_error =
  SequenceExhausted
| PT501 string
| IdNotFound i64

definition KIND_IRI :: i16 where "KIND_IRI = 0"
definition KIND_BLANK :: i16 where "KIND_BLANK = 1"
definition KIND_LITERAL :: i16 where "KIND_LITERAL = 2"
definition KIND_TYPED_LITERAL :: i16 where "KIND_TYPED_LITERAL = 3"
definition KIND_LANG_LITERAL :: i16 where "KIND_LANG_LITERAL = 4"
definition KIND_QUOTED_TRIPLE :: i16 where "KIND_QUOTED_TRIPLE = 5"

lemmas kind_defs = KIND_IRI_def KIND_BLANK_def KIND_LITERAL_def KIND_TYPED_LITERAL_def
  KIND_LANG_LITERAL_def KIND_QUOTED_TRIPLE_def

section \<open>Hashing\<close>

definition to_le_bytes :: "nat \<Rightarrow> 'a::len word \<Rightarrow> 8 word list" where
  "to_le_bytes n w = map (\<lambda>i. ucast (drop_bit (8 * i) w)) [0..<n]"

definition as_bytes :: "string \<Rightarrow> 8 word list" where
  "as_bytes s = map of_char s"

definition term_hash :: "('e, 'd) dict_env \<Rightarrow> string \<Rightarrow> i16 \<Rightarrow> u128" where
  "term_hash env term kind = xxh3_128 env (to_le_bytes 2 kind @ as_bytes term)"

definition quoted_triple_hash :: "('e, 'd) dict_env \<Rightarrow> i64 \<Rightarrow> i64 \<Rightarrow> i64 \<Rightarrow> u128" where
  "quoted_triple_hash env s_id p_id o_id =
     xxh3_128 env (to_le_bytes 2 KIND_QUOTED_TRIPLE @ to_le_bytes 8 s_id @ to_le_bytes 8 p_id @ to_le_bytes 8 o_id)"

definition hash_hi :: "u128 \<Rightarrow> i64" where
  "hash_hi h = ucast (drop_bit 64 h)"

definition hash_lo :: "u128 \<Rightarrow> i64" where
  "hash_lo h = ucast h"

section \<open>The table\<close>

definition find_hash :: "u128 \<Rightarrow> dict_row list \<Rightarrow> dict_row option" where
  "find_hash h rows = find (\<lambda>r. dr_hash_hi r = hash_hi h \<and> dr_hash_lo r = hash_lo h) rows"

definition find_id :: "i64 \<Rightarrow> dict_row list \<Rightarrow> dict_row option" where
  "find_id i rows = find (\<lambda>r. dr_id r = i) rows"

text \<open>The upsert: the identity column draws its next value before the conflict is looked for;
  the statement returns the identifier of the new row, or of the one with the same hash.\<close>

definition dict_upsert :: "u128 \<Rightarrow> string \<Rightarrow> i16 \<Rightarrow> string option \<Rightarrow> string option \<Rightarrow> (i64 \<times> i64 \<times> i64) option
    \<Rightarrow> ('e, 'd) dict \<Rightarrow> dict_error + i64 \<times> ('e, 'd) dict" where
  "dict_upsert h value kind datatype lang qt st =
     (if 2 ^ 63 \<le> Suc (dict_seq st) then Inl SequenceExhausted
      else (let n = Suc (dict_seq st);
                st = st\<lparr>dict_seq := n\<rparr> in
            case find_hash h (dict_rows st) of
              Some r \<Rightarrow> Inr (dr_id r, st)
            | None \<Rightarrow>
                Inr (word_of_nat n,
                     st\<lparr>dict_rows := dict_rows st @
                        [\<lparr>dr_id = word_of_nat n, dr_hash_hi = hash_hi h, dr_hash_lo = hash_lo h, dr_value = value,
                          dr_kind = kind, dr_datatype = datatype, dr_lang = lang, dr_qt = qt\<rparr>]\<rparr>)))"

section \<open>Cache tiers\<close>

definition shmem_tier :: "('e, 'd) dict_env \<Rightarrow> u128 \<Rightarrow> ('e, 'd) dict \<Rightarrow> i64 option \<times> ('e, 'd) dict" where
  "shmem_tier env h st =
     (let (r, sh) = encode_cache_lookup h (dict_shmem st);
          st = st\<lparr>dict_shmem := sh\<rparr> in
      case r of
        Some i \<Rightarrow> (Some i, st\<lparr>ENCODE_CACHE := lru_put (enc_lru env) h i (ENCODE_CACHE st)\<rparr>)
      | None \<Rightarrow> (None, st))"

definition local_tier :: "('e, 'd) dict_env \<Rightarrow> u128 \<Rightarrow> ('e, 'd) dict \<Rightarrow> i64 option \<times> ('e, 'd) dict" where
  "local_tier env h st =
     (let (r, c) = lru_get (enc_lru env) h (ENCODE_CACHE st) in (r, st\<lparr>ENCODE_CACHE := c\<rparr>))"

definition publish :: "('e, 'd) dict_env \<Rightarrow> u128 \<Rightarrow> i64 \<Rightarrow> string \<Rightarrow> ('e, 'd) dict \<Rightarrow> ('e, 'd) dict" where
  "publish env h i text st =
     st\<lparr>dict_shmem := encode_cache_insert h i (dict_shmem st),
        TX_SHMEM_INSERTS := TX_SHMEM_INSERTS st @ [h],
        ENCODE_CACHE := lru_put (enc_lru env) h i (ENCODE_CACHE st),
        DECODE_CACHE := lru_put (dec_lru env) i text (DECODE_CACHE st)\<rparr>"

section \<open>Encoding\<close>

definition encode_inner :: "('e, 'd) dict_env \<Rightarrow> string \<Rightarrow> i16 \<Rightarrow> ('e, 'd) dict \<Rightarrow> dict_error + i64 \<times> ('e, 'd) dict" where
  "encode_inner env term kind st =
     (let hash128 = term_hash env term kind in
      case shmem_tier env hash128 st of
        (Some i, st) \<Rightarrow> Inr (i, st)
      | (None, st) \<Rightarrow>
          (case local_tier env hash128 st of
             (Some i, st) \<Rightarrow> Inr (i, st\<lparr>DICT_HOT_CACHE_HITS := DICT_HOT_CACHE_HITS st + 1\<rparr>)
           | (None, st) \<Rightarrow>
               (let st = st\<lparr>DICT_HOT_CACHE_MISSES := DICT_HOT_CACHE_MISSES st + 1\<rparr> in
                case dict_upsert hash128 term kind None None None st of
                  Inl e \<Rightarrow> Inl e
                | Inr (i, st) \<Rightarrow> Inr (i, publish env hash128 i term st))))"

definition encode :: "('e, 'd) dict_env \<Rightarrow> string \<Rightarrow> i16 \<Rightarrow> ('e, 'd) dict \<Rightarrow> dict_error + i64 \<times> ('e, 'd) dict" where
  "encode env term kind st =
     (if (kind = KIND_IRI \<or> kind = KIND_BLANK) \<and> NORMALIZE_IRIS env
      then encode_inner env (nfc env term) kind st
      else encode_inner env term kind st)"

definition XSD_INTEGERS :: "string list" where
  "XSD_INTEGERS = [''http://www.w3.org/2001/XMLSchema#integer'', ''http://www.w3.org/2001/XMLSchema#long'',
     ''http://www.w3.org/2001/XMLSchema#int'', ''http://www.w3.org/2001/XMLSchema#short'',
     ''http://www.w3.org/2001/XMLSchema#byte'', ''http://www.w3.org/2001/XMLSchema#nonNegativeInteger'',
     ''http://www.w3.org/2001/XMLSchema#positiveInteger'', ''http://www.w3.org/2001/XMLSchema#negativeInteger'',
     ''http://www.w3.org/2001/XMLSchema#nonPositiveInteger'']"

definition inline_id :: "('e, 'd) dict_env \<Rightarrow> string \<Rightarrow> string \<Rightarrow> i64 option" where
  "inline_id env value datatype =
     (if datatype \<in> set XSD_INTEGERS then try_encode_integer value
      else if datatype = ''http://www.w3.org/2001/XMLSchema#boolean'' then try_encode_boolean value
      else if datatype = ''http://www.w3.org/2001/XMLSchema#dateTime'' then try_encode_datetime (parse_micros env) value
      else if datatype = ''http://www.w3.org/2001/XMLSchema#date'' then try_encode_date (parse_days env) value
      else None)"

definition typed_canonical :: "string \<Rightarrow> string \<Rightarrow> string" where
  "typed_canonical value datatype = CHR 0x22 # value @ [CHR 0x22] @ ''^^<'' @ datatype @ ''>''"

definition lang_canonical :: "string \<Rightarrow> string \<Rightarrow> string" where
  "lang_canonical value lang = CHR 0x22 # value @ [CHR 0x22] @ ''@'' @ lang"

text \<open>The part that \<open>encode_typed_literal\<close>, \<open>encode_lang_literal\<close> and \<open>encode_quoted_triple\<close> have in
  common: the two cache tiers, the upsert of the row and the publication in the caches.\<close>

definition encode_row :: "('e, 'd) dict_env \<Rightarrow> u128 \<Rightarrow> string \<Rightarrow> string \<Rightarrow> i16 \<Rightarrow> string option \<Rightarrow> string option
    \<Rightarrow> (i64 \<times> i64 \<times> i64) option \<Rightarrow> ('e, 'd) dict \<Rightarrow> dict_error + i64 \<times> ('e, 'd) dict" where
  "encode_row env hash128 canonical value kind datatype lang qt st =
     (case shmem_tier env hash128 st of
        (Some i, st) \<Rightarrow> Inr (i, st)
      | (None, st) \<Rightarrow>
          (case local_tier env hash128 st of
             (Some i, st) \<Rightarrow> Inr (i, st)
           | (None, st) \<Rightarrow>
               (case dict_upsert hash128 value kind datatype lang qt st of
                  Inl e \<Rightarrow> Inl e
                | Inr (i, st) \<Rightarrow> Inr (i, publish env hash128 i canonical st))))"

definition encode_typed_literal :: "('e, 'd) dict_env \<Rightarrow> string \<Rightarrow> string \<Rightarrow> ('e, 'd) dict
    \<Rightarrow> dict_error + i64 \<times> ('e, 'd) dict" where
  "encode_typed_literal env value datatype st =
     (case inline_id env value datatype of
        Some i \<Rightarrow> Inr (i, st)
      | None \<Rightarrow>
          (let canonical = typed_canonical value datatype in
           encode_row env (term_hash env canonical KIND_TYPED_LITERAL) canonical value KIND_TYPED_LITERAL
             (Some datatype) None None st))"

definition encode_lang_literal :: "('e, 'd) dict_env \<Rightarrow> string \<Rightarrow> string \<Rightarrow> ('e, 'd) dict
    \<Rightarrow> dict_error + i64 \<times> ('e, 'd) dict" where
  "encode_lang_literal env value lang st =
     (let canonical = lang_canonical value lang in
      encode_row env (term_hash env canonical KIND_LANG_LITERAL) canonical value KIND_LANG_LITERAL
        None (Some lang) None st)"

definition encode_plain_literal :: "('e, 'd) dict_env \<Rightarrow> string \<Rightarrow> ('e, 'd) dict \<Rightarrow> dict_error + i64 \<times> ('e, 'd) dict" where
  "encode_plain_literal env value st = encode env value KIND_LITERAL st"

section \<open>Decoding\<close>

record TermInfo =
  ti_value :: string
  ti_kind :: i16
  ti_datatype :: "string option"
  ti_lang :: "string option"
  ti_quoted_triple :: "(i64 \<times> i64 \<times> i64) option"

definition decode_full :: "i64 \<Rightarrow> ('e, 'd) dict \<Rightarrow> TermInfo option" where
  "decode_full i st =
     map_option (\<lambda>r. \<lparr>ti_value = dr_value r, ti_kind = dr_kind r, ti_datatype = dr_datatype r,
                       ti_lang = dr_lang r, ti_quoted_triple = dr_qt r\<rparr>) (find_id i (dict_rows st))"

fun escape_literal :: "string \<Rightarrow> string" where
  "escape_literal [] = []"
| "escape_literal (ch # s) =
     (if ch = CHR 0x22 then [CHR 0x5C, CHR 0x22]
      else if ch = CHR 0x5C then [CHR 0x5C, CHR 0x5C]
      else if ch = CHR 0x0A then [CHR 0x5C, CHR ''n'']
      else if ch = CHR 0x0D then [CHR 0x5C, CHR ''r'']
      else if ch = CHR 0x09 then [CHR 0x5C, CHR ''t'']
      else [ch]) @ escape_literal s"

definition unwrap_or_str :: "string \<Rightarrow> string option \<Rightarrow> string" where
  "unwrap_or_str d x = (case x of None \<Rightarrow> d | Some s \<Rightarrow> s)"

definition format_ntriples_term :: "string \<Rightarrow> i16 \<Rightarrow> string option \<Rightarrow> string option \<Rightarrow> i64 \<Rightarrow> string" where
  "format_ntriples_term value kind datatype lang fallback_id =
     (let q = CHR 0x22 # escape_literal value @ [CHR 0x22] in
      if kind = KIND_IRI then ''<'' @ value @ ''>''
      else if kind = KIND_BLANK then ''_:b'' @ show_int (sint fallback_id)
      else if kind = KIND_LITERAL then q
      else if kind = KIND_TYPED_LITERAL
        then q @ ''^^<'' @ unwrap_or_str ''http://www.w3.org/2001/XMLSchema#string'' datatype @ ''>''
      else if kind = KIND_LANG_LITERAL then q @ ''@'' @ unwrap_or_str ''und'' lang
      else if kind = KIND_QUOTED_TRIPLE then value
      else q)"

definition format_ntriples :: "('e, 'd) dict_env \<Rightarrow> i64 \<Rightarrow> ('e, 'd) dict \<Rightarrow> string" where
  "format_ntriples env i st =
     (if is_inline i then format_inline (fmt_datetime env) (fmt_date env) i
      else (case decode_full i st of
              None \<Rightarrow> ''<unknown:'' @ show_int (sint i) @ ''>''
            | Some t \<Rightarrow> format_ntriples_term (ti_value t) (ti_kind t) (ti_datatype t) (ti_lang t) i))"

definition decode :: "('e, 'd) dict_env \<Rightarrow> i64 \<Rightarrow> ('e, 'd) dict \<Rightarrow> dict_error + string option \<times> ('e, 'd) dict" where
  "decode env i st =
     (if is_inline i then Inr (Some (format_inline (fmt_datetime env) (fmt_date env) i), st)
      else
        (case lru_get (dec_lru env) i (DECODE_CACHE st) of
           (Some v, c) \<Rightarrow> Inr (Some v, st\<lparr>DECODE_CACHE := c\<rparr>)
         | (None, c) \<Rightarrow>
             (case map_option dr_value (find_id i (dict_rows st)) of
                Some v \<Rightarrow> Inr (Some v, st\<lparr>DECODE_CACHE := lru_put (dec_lru env) i v c\<rparr>)
              | None \<Rightarrow> if STRICT_DICTIONARY env then Inl (IdNotFound i) else Inr (None, st\<lparr>DECODE_CACHE := c\<rparr>))))"

section \<open>Quoted triples\<close>

definition encode_quoted_triple :: "('e, 'd) dict_env \<Rightarrow> i64 \<Rightarrow> i64 \<Rightarrow> i64 \<Rightarrow> ('e, 'd) dict
    \<Rightarrow> dict_error + i64 \<times> ('e, 'd) dict" where
  "encode_quoted_triple env s_id p_id o_id st =
     (let canonical = ''<< '' @ format_ntriples env s_id st @ '' '' @ format_ntriples env p_id st @ '' ''
            @ format_ntriples env o_id st @ '' >>'' in
      encode_row env (quoted_triple_hash env s_id p_id o_id) canonical canonical KIND_QUOTED_TRIPLE
        None None (Some (s_id, p_id, o_id)) st)"

definition decode_quoted_triple_components :: "i64 \<Rightarrow> ('e, 'd) dict \<Rightarrow> (i64 \<times> i64 \<times> i64) option" where
  "decode_quoted_triple_components i st =
     (case find (\<lambda>r. dr_id r = i \<and> dr_kind r = KIND_QUOTED_TRIPLE) (dict_rows st) of
        None \<Rightarrow> None | Some r \<Rightarrow> dr_qt r)"

section \<open>Lookup without insertion\<close>

definition lookup_quoted_triple :: "('e, 'd) dict_env \<Rightarrow> i64 \<Rightarrow> i64 \<Rightarrow> i64 \<Rightarrow> ('e, 'd) dict \<Rightarrow> i64 option \<times> ('e, 'd) dict" where
  "lookup_quoted_triple env s_id p_id o_id st =
     (let hash128 = quoted_triple_hash env s_id p_id o_id in
      case local_tier env hash128 st of
        (Some i, st) \<Rightarrow> (Some i, st)
      | (None, st) \<Rightarrow> (map_option dr_id (find_hash hash128 (dict_rows st)), st))"

definition dict_lookup :: "('e, 'd) dict_env \<Rightarrow> string \<Rightarrow> i16 \<Rightarrow> ('e, 'd) dict \<Rightarrow> i64 option \<times> ('e, 'd) dict" where
  "dict_lookup env term kind st =
     (let hash128 = term_hash env term kind in
      case local_tier env hash128 st of
        (Some i, st) \<Rightarrow> (Some i, st)
      | (None, st) \<Rightarrow>
          (case map_option dr_id (find_hash hash128 (dict_rows st)) of
             Some i \<Rightarrow> (Some i, st\<lparr>ENCODE_CACHE := lru_put (enc_lru env) hash128 i (ENCODE_CACHE st)\<rparr>)
           | None \<Rightarrow> (None, st)))"

definition lookup_iri :: "('e, 'd) dict_env \<Rightarrow> string \<Rightarrow> ('e, 'd) dict \<Rightarrow> i64 option \<times> ('e, 'd) dict" where
  "lookup_iri env iri st = dict_lookup env iri KIND_IRI st"

definition is_blank_node :: "i64 \<Rightarrow> ('e, 'd) dict \<Rightarrow> bool" where
  "is_blank_node i st =
     (if is_inline i then False
      else (case find_id i (dict_rows st) of None \<Rightarrow> False | Some r \<Rightarrow> dr_kind r = KIND_BLANK))"

section \<open>Batch encoding\<close>

fun batch_scan :: "('e, 'd) dict_env \<Rightarrow> (string \<times> i16) list \<Rightarrow> ('e, 'd) dict \<Rightarrow> i64 option list \<times> ('e, 'd) dict" where
  "batch_scan env [] st = ([], st)"
| "batch_scan env ((term, kind) # rest) st =
     (let hash = term_hash env term kind;
          (r, st) =
            (case shmem_tier env hash st of
               (Some i, st) \<Rightarrow> (Some i, st)
             | (None, st) \<Rightarrow>
                 (case local_tier env hash st of
                    (Some i, st) \<Rightarrow> (Some i, st\<lparr>DICT_HOT_CACHE_HITS := DICT_HOT_CACHE_HITS st + 1\<rparr>)
                  | (None, st) \<Rightarrow> (None, st\<lparr>DICT_HOT_CACHE_MISSES := DICT_HOT_CACHE_MISSES st + 1\<rparr>)));
          (rs, st) = batch_scan env rest st
      in (r # rs, st))"

fun batch_upsert :: "('e, 'd) dict_env \<Rightarrow> (string \<times> i16) list \<Rightarrow> ('e, 'd) dict \<Rightarrow> dict_error + ('e, 'd) dict" where
  "batch_upsert env [] st = Inr st"
| "batch_upsert env ((term, kind) # rest) st =
     (case dict_upsert (term_hash env term kind) term kind None None None st of
        Inl e \<Rightarrow> Inl e
      | Inr (_, st) \<Rightarrow> batch_upsert env rest st)"

text \<open>The two halves come back as signed 64-bit values; both casts to 128 bits extend the sign.\<close>

definition join_halves :: "i64 \<Rightarrow> i64 \<Rightarrow> u128" where
  "join_halves hi lo = push_bit 64 (scast hi) OR scast lo"

definition hash_to_id :: "u128 list \<Rightarrow> dict_row list \<Rightarrow> (u128 \<rightharpoonup> i64)" where
  "hash_to_id hashes rows =
     fold (\<lambda>h m. let i = (case find_hash h rows of Some r \<Rightarrow> dr_id r | None \<Rightarrow> 0) in
                 if i \<noteq> 0 then m(join_halves (hash_hi h) (hash_lo h) \<mapsto> i) else m)
       hashes Map.empty"

fun publish_misses :: "('e, 'd) dict_env \<Rightarrow> (string \<times> i16) list \<Rightarrow> (u128 \<rightharpoonup> i64) \<Rightarrow> nat list \<Rightarrow> i64 option list
    \<Rightarrow> ('e, 'd) dict \<Rightarrow> dict_error + i64 option list \<times> ('e, 'd) dict" where
  "publish_misses env terms_and_kinds ids [] results st = Inr (results, st)"
| "publish_misses env terms_and_kinds ids (i # misses) results st =
     (let (term, kind) = terms_and_kinds ! i;
          hash = term_hash env term kind in
      case ids hash of
        None \<Rightarrow> Inl (PT501 term)
      | Some ident \<Rightarrow> publish_misses env terms_and_kinds ids misses (results[i := Some ident])
                        (publish env hash ident term st))"

fun collect_results :: "(string \<times> i16) list \<Rightarrow> i64 option list \<Rightarrow> dict_error + i64 list" where
  "collect_results ((term, _) # tks) (Some i # rs) =
     (case collect_results tks rs of Inl e \<Rightarrow> Inl e | Inr is \<Rightarrow> Inr (i # is))"
| "collect_results ((term, _) # tks) (None # rs) = Inl (PT501 term)"
| "collect_results _ _ = Inr []"

definition encode_batch :: "('e, 'd) dict_env \<Rightarrow> (string \<times> i16) list \<Rightarrow> ('e, 'd) dict
    \<Rightarrow> dict_error + i64 list \<times> ('e, 'd) dict" where
  "encode_batch env terms_and_kinds st =
     (if terms_and_kinds = [] then Inr ([], st)
      else
        (let (results, st) = batch_scan env terms_and_kinds st;
             miss_indices = filter (\<lambda>i. results ! i = None) [0..<length terms_and_kinds];
             missed = map (\<lambda>i. terms_and_kinds ! i) miss_indices in
         if miss_indices = [] then Inr (map the results, st)
         else
           (case batch_upsert env missed st of
              Inl e \<Rightarrow> Inl e
            | Inr st \<Rightarrow>
                (case publish_misses env terms_and_kinds
                        (hash_to_id (map (\<lambda>(t, k). term_hash env t k) missed) (dict_rows st)) miss_indices results st of
                   Inl e \<Rightarrow> Inl e
                 | Inr (results, st) \<Rightarrow>
                     (case collect_results terms_and_kinds results of Inl e \<Rightarrow> Inl e | Inr ids \<Rightarrow> Inr (ids, st))))))"

definition batch_encode_terms :: "('e, 'd) dict_env \<Rightarrow> string option list \<Rightarrow> i16 option list \<Rightarrow> ('e, 'd) dict
    \<Rightarrow> (string + dict_error) + i64 option list \<times> ('e, 'd) dict" where
  "batch_encode_terms env terms kinds st =
     (if length terms \<noteq> length kinds
      then Inl (Inl (''batch_encode_terms: terms ('' @ show_nat (length terms) @ '') and kinds ('' @ show_nat (length kinds)
             @ '') arrays must be the same length''))
      else
        (let pairs = map (\<lambda>(t, k). (unwrap_or_str [] t, case k of None \<Rightarrow> KIND_IRI | Some k \<Rightarrow> k)) (zip terms kinds) in
         case encode_batch env pairs st of
           Inl e \<Rightarrow> Inl (Inr e)
         | Inr (ids, st) \<Rightarrow> Inr (map Some ids, st)))"

section \<open>Cache maintenance at transaction boundaries\<close>

definition clear_caches :: "('e, 'd) dict_env \<Rightarrow> ('e, 'd) dict \<Rightarrow> ('e, 'd) dict" where
  "clear_caches env st =
     st\<lparr>dict_shmem := fold encode_cache_evict (TX_SHMEM_INSERTS st) (dict_shmem st),
        TX_SHMEM_INSERTS := [],
        ENCODE_CACHE := lru_clear (enc_lru env) (ENCODE_CACHE st),
        DECODE_CACHE := lru_clear (dec_lru env) (DECODE_CACHE st)\<rparr>"

definition invalidate_decode_cache :: "('e, 'd) dict_env \<Rightarrow> ('e, 'd) dict \<Rightarrow> ('e, 'd) dict" where
  "invalidate_decode_cache env st =
     st\<lparr>DECODE_CACHE := lru_clear (dec_lru env) (DECODE_CACHE st),
        ENCODE_CACHE := lru_clear (enc_lru env) (ENCODE_CACHE st)\<rparr>"

definition commit_cleanup :: "('e, 'd) dict \<Rightarrow> ('e, 'd) dict" where
  "commit_cleanup st = st\<lparr>TX_SHMEM_INSERTS := []\<rparr>"

definition flush_encode_cache :: "('e, 'd) dict_env \<Rightarrow> ('e, 'd) dict \<Rightarrow> ('e, 'd) dict" where
  "flush_encode_cache env st = clear_caches env (st\<lparr>dict_shmem := encode_cache_clear_all (dict_shmem st)\<rparr>)"

datatype XactEvent = XACT_EVENT_COMMIT | XACT_EVENT_PARALLEL_COMMIT | XACT_EVENT_ABORT | XACT_EVENT_PARALLEL_ABORT
  | XACT_EVENT_PREPARE | XACT_EVENT_PRE_COMMIT | XACT_EVENT_PARALLEL_PRE_COMMIT | XACT_EVENT_PRE_PREPARE

datatype SubXactEvent = SUBXACT_EVENT_START_SUB | SUBXACT_EVENT_COMMIT_SUB | SUBXACT_EVENT_ABORT_SUB
  | SUBXACT_EVENT_PRE_COMMIT_SUB

definition xact_callback_c :: "('e, 'd) dict_env \<Rightarrow> XactEvent \<Rightarrow> ('e, 'd) dict \<times> store \<Rightarrow> ('e, 'd) dict \<times> store" where
  "xact_callback_c env event = (\<lambda>(d, st).
     if event = XACT_EVENT_ABORT \<or> event = XACT_EVENT_PARALLEL_ABORT then (clear_caches env d, journal_clear st)
     else if event = XACT_EVENT_COMMIT \<or> event = XACT_EVENT_PARALLEL_COMMIT then (commit_cleanup d, st)
     else (d, st))"

definition sub_xact_callback_c :: "('e, 'd) dict_env \<Rightarrow> SubXactEvent \<Rightarrow> ('e, 'd) dict \<times> store \<Rightarrow> ('e, 'd) dict \<times> store" where
  "sub_xact_callback_c env event = (\<lambda>(d, st).
     if event = SUBXACT_EVENT_ABORT_SUB then (invalidate_decode_cache env d, journal_clear st) else (d, st))"

section \<open>The hot table\<close>

record hot_row =
  hr_id :: i64
  hr_hash_hi :: i64
  hr_hash_lo :: i64
  hr_value :: string
  hr_kind :: i16

definition hot_of :: "dict_row \<Rightarrow> hot_row" where
  "hot_of r = \<lparr>hr_id = dr_id r, hr_hash_hi = dr_hash_hi r, hr_hash_lo = dr_hash_lo r, hr_value = dr_value r, hr_kind = dr_kind r\<rparr>"

definition hot_insert :: "hot_row \<Rightarrow> hot_row list \<Rightarrow> hot_row list" where
  "hot_insert r hot = (if list_ex (\<lambda>h. hr_id h = hr_id r) hot then hot else hot @ [r])"

text \<open>Both statements of \<open>prewarm_hot_table\<close>: the short IRIs, then the predicates of any length. The
  unique index on the hash cannot fire, since the copied rows have distinct hashes.\<close>

definition prewarm_hot_table :: "i64 list \<Rightarrow> dict_row list \<Rightarrow> hot_row list \<Rightarrow> hot_row list" where
  "prewarm_hot_table predicates rows hot =
     (let hot = fold (\<lambda>r. hot_insert (hot_of r)) (filter (\<lambda>r. dr_kind r = 0 \<and> length (dr_value r) \<le> 512) rows) hot
      in fold (\<lambda>p. fold (\<lambda>r. hot_insert (hot_of r)) (filter (\<lambda>r. dr_id r = p) rows)) predicates hot)"

definition add_to_hot :: "i64 \<Rightarrow> i64 \<Rightarrow> i64 \<Rightarrow> string \<Rightarrow> i16 \<Rightarrow> hot_row list \<Rightarrow> hot_row list" where
  "add_to_hot i hi lo value kind hot =
     (if kind \<noteq> 0 then hot
      else if 512 < length value then hot
      else hot_insert \<lparr>hr_id = i, hr_hash_hi = hi, hr_hash_lo = lo, hr_value = value, hr_kind = kind\<rparr> hot)"

definition lookup_hot :: "i64 \<Rightarrow> i64 \<Rightarrow> hot_row list \<Rightarrow> i64 option" where
  "lookup_hot hi lo hot = map_option hr_id (find (\<lambda>h. hr_hash_hi h = hi \<and> hr_hash_lo h = lo) hot)"

end
