(* ===== verification/Encode_Cache.thy ===== *)
theory Encode_Cache
  imports Shmem
begin

text \<open>
  The contract of the shared-memory encode cache that the dictionary relies on
  (\<open>src/src/shmem.rs\<close>), as a locale over a partial map \<open>M\<close> from hashes to identifiers: whatever
  the cache answers is an entry of \<open>M\<close>, and evicting a hash leaves a cache that is valid without
  it. The interpretation shows that the set-associative cache satisfies it.
\<close>

section \<open>The contract\<close>

locale shared_cache =
  fixes look :: "'h \<Rightarrow> 'c \<Rightarrow> 'i option \<times> 'c"
    and put :: "'h \<Rightarrow> 'i \<Rightarrow> 'c \<Rightarrow> 'c"
    and evict :: "'h \<Rightarrow> 'c \<Rightarrow> 'c"
    and clear :: "'c \<Rightarrow> 'c"
    and valid :: "('h \<rightharpoonup> 'i) \<Rightarrow> 'c \<Rightarrow> bool"
  assumes look_sound: "valid M c \<Longrightarrow> look h c = (Some i, c') \<Longrightarrow> M h = Some i"
    and look_valid: "valid M c \<Longrightarrow> look h c = (r, c') \<Longrightarrow> valid M c'"
    and look_absent: "valid M c \<Longrightarrow> look h c = (None, c') \<Longrightarrow> fst (look h c') = None"
    and put_valid: "valid M c \<Longrightarrow> fst (look h c) = None \<Longrightarrow> M h = Some i \<Longrightarrow> valid M (put h i c)"
    and evict_valid: "valid M c \<Longrightarrow> valid (M(h := None)) (evict h c)"
    and clear_valid: "valid M c \<Longrightarrow> valid M' (clear c)"
    and valid_mono: "valid M c \<Longrightarrow> M \<subseteq>\<^sub>m M' \<Longrightarrow> valid M' c"
begin

lemma evict_all: "valid M c \<Longrightarrow> valid (M |` (- set hs)) (fold evict hs c)"
proof (induction hs arbitrary: M c)
  case (Cons h hs)
  have "valid (M(h := None) |` (- set hs)) (fold evict hs (evict h c))"
    by (rule Cons.IH [OF evict_valid [OF Cons.prems]])
  moreover have "M(h := None) |` (- set hs) = M |` (- set (h # hs))" by (auto simp: restrict_map_def)
  ultimately show ?case by simp
qed (simp add: restrict_map_def)

lemma evict_all_mono:
  assumes "valid M c" "\<And>h i. M h = Some i \<Longrightarrow> h \<notin> set hs \<Longrightarrow> M' h = Some i"
  shows "valid M' (fold evict hs c)"
  by (rule valid_mono [OF evict_all [OF assms(1)]])
    (auto simp: map_le_def restrict_map_def dest!: assms(2) split: if_splits)

end

section \<open>The set-associative cache\<close>

definition id_of :: "(u128 \<rightharpoonup> i64) \<Rightarrow> u128 \<Rightarrow> i64" where
  "id_of M h = (case M h of None \<Rightarrow> 0 | Some i \<Rightarrow> i)"

definition set_distinct :: "u128 list \<Rightarrow> i64 list \<Rightarrow> bool" where
  "set_distinct hs is \<longleftrightarrow> (\<forall>v < 4. \<forall>w < 4. v \<noteq> w \<longrightarrow> is ! v \<noteq> 0 \<longrightarrow> is ! w \<noteq> 0 \<longrightarrow>
     hs ! v AND age_mask \<noteq> hs ! w AND age_mask)"

definition cache_valid :: "(u128 \<rightharpoonup> i64) \<Rightarrow> shmem \<Rightarrow> bool" where
  "cache_valid M sh \<longleftrightarrow> cache_ok (id_of M) sh
     \<and> (\<forall>k < ENCODE_CACHE_SETS. set_distinct (encode_cache_s0 sh ! k) (encode_cache_ids sh ! k))
     \<and> (shmem_ready sh \<or> (\<forall>k < ENCODE_CACHE_SETS. \<forall>w < 4. encode_cache_ids sh ! k ! w = 0))"

lemma cache_valid_ok: "cache_valid M sh \<Longrightarrow> cache_ok (id_of M) sh"
  by (simp add: cache_valid_def)

lemma set_distinct_same:
  "set_distinct hs is \<Longrightarrow> (\<And>w. w < 4 \<Longrightarrow> hs' ! w AND age_mask = hs ! w AND age_mask) \<Longrightarrow> set_distinct hs' is"
  by (simp add: set_distinct_def)

lemma set_distinct_zero: "set_distinct hs is \<Longrightarrow> length is = 4 \<Longrightarrow> length hs = 4 \<Longrightarrow> set_distinct (hs[w := x]) (is[w := 0])"
  by (cases "w < 4") (auto simp: set_distinct_def nth_list_update)

lemma set_distinct_put:
  assumes "set_distinct hs is" "find_way x hs is = None" "length hs = 4" "length is = 4" "x AND age_mask = x"
  shows "set_distinct (hs[w := x]) (is[w := i])"
  using assms find_way_None [OF assms(2)] by (cases "w < 4") (auto simp: set_distinct_def nth_list_update)

text \<open>The effect of each operation on the set of its hash; the other sets stay.\<close>

definition slot :: "u128 \<Rightarrow> shmem \<Rightarrow> nat" where
  "slot h sh = set_index (db_scoped_hash (my_database_id sh) h)"

definition clean :: "u128 \<Rightarrow> shmem \<Rightarrow> u128" where
  "clean h sh = db_scoped_hash (my_database_id sh) h AND age_mask"

definition way_of :: "u128 \<Rightarrow> shmem \<Rightarrow> nat option" where
  "way_of h sh = find_way (clean h sh) (encode_cache_s0 sh ! slot h sh) (encode_cache_ids sh ! slot h sh)"

lemma slot_bound [simp]: "slot h sh < ENCODE_CACHE_SETS"
  by (simp add: slot_def)

lemma clean_clean [simp]: "clean h sh AND age_mask = clean h sh"
  by (simp add: clean_def)

lemma lookup_way: "fst (encode_cache_lookup h sh) = None \<longleftrightarrow> \<not> shmem_ready sh \<or> way_of h sh = None"
  by (auto simp: encode_cache_lookup_def Let_def way_of_def slot_def clean_def split: option.splits)

lemma set_lengths:
  "cache_valid M sh \<Longrightarrow> k < ENCODE_CACHE_SETS \<Longrightarrow> length (encode_cache_s0 sh ! k) = 4 \<and> length (encode_cache_ids sh ! k) = 4"
  by (simp add: cache_valid_def cache_ok_def shape_ok_def)

lemma list_lengths:
  "cache_valid M sh \<Longrightarrow> length (encode_cache_s0 sh) = ENCODE_CACHE_SETS \<and> length (encode_cache_ids sh) = ENCODE_CACHE_SETS"
  by (simp add: cache_valid_def cache_ok_def shape_ok_def)

lemma not_ready_empty:
  assumes "cache_valid M sh" "\<not> shmem_ready sh" shows "way_of h sh = None"
proof (rule ccontr)
  assume "way_of h sh \<noteq> None"
  then obtain w where "way_of h sh = Some w" by blast
  from find_way_Some [OF this [unfolded way_of_def]] set_lengths [OF assms(1) slot_bound, of h] assms show False
    by (auto simp: cache_valid_def)
qed

text \<open>An occupied way belongs to exactly one hash, and that hash is found.\<close>

lemma occupied_way:
  assumes ok: "cache_valid M sh" and k: "k < ENCODE_CACHE_SETS" "w < 4" and i: "encode_cache_ids sh ! k ! w \<noteq> 0"
  obtains h where "slot h sh = k" "encode_cache_s0 sh ! k ! w AND age_mask = clean h sh"
    "M h = Some (encode_cache_ids sh ! k ! w)" "way_of h sh = Some w"
proof -
  from cache_ok_entry [OF cache_valid_ok [OF ok] k] i obtain h where
    h: "slot h sh = k" "encode_cache_s0 sh ! k ! w AND age_mask = clean h sh" "encode_cache_ids sh ! k ! w = id_of M h"
    unfolding entry_ok_def slot_def clean_def by blast
  with i have M: "M h = Some (encode_cache_ids sh ! k ! w)" by (auto simp: id_of_def split: option.splits)
  have len: "length (encode_cache_s0 sh ! k) = 4" "length (encode_cache_ids sh ! k) = 4" using set_lengths [OF ok k(1)] by auto
  have "way_of h sh \<noteq> None"
    using find_way_None [of "clean h sh" "encode_cache_s0 sh ! k" "encode_cache_ids sh ! k" w] h len k i
    by (auto simp: way_of_def)
  then obtain v where v: "way_of h sh = Some v" by blast
  from find_way_Some [OF v [unfolded way_of_def]] h len have "v < 4"
    "encode_cache_s0 sh ! k ! v AND age_mask = clean h sh" "encode_cache_ids sh ! k ! v \<noteq> 0" by auto
  moreover have "set_distinct (encode_cache_s0 sh ! k) (encode_cache_ids sh ! k)" using ok k by (simp add: cache_valid_def)
  ultimately have "v = w" using h(2) i k(2) unfolding set_distinct_def by metis
  with v that [OF h(1,2) M] show ?thesis by simp
qed

lemma hash_of_slot: "slot h sh = slot h' sh \<Longrightarrow> clean h sh = clean h' sh \<Longrightarrow> h = h'"
  unfolding slot_def clean_def by (rule db_scoped_hash_inj [OF hash_determined])

lemma entry_ok_mono:
  assumes "entry_ok (id_of M) oid k way i" "M \<subseteq>\<^sub>m M'" shows "entry_ok (id_of M') oid k way i"
proof -
  have "id_of M' h = id_of M h" if "id_of M h \<noteq> 0" for h
    using that assms(2) by (auto simp: id_of_def map_le_def dom_def split: option.splits)
  with assms(1) show ?thesis unfolding entry_ok_def by metis
qed

lemma cache_valid_mono: "cache_valid M sh \<Longrightarrow> M \<subseteq>\<^sub>m M' \<Longrightarrow> cache_valid M' sh"
  unfolding cache_valid_def cache_ok_def using entry_ok_mono by blast

lemma lookup_valid:
  assumes ok: "cache_valid M sh" and l: "encode_cache_lookup h sh = (r, sh')"
  shows "cache_valid M sh'" "shmem_ready sh' = shmem_ready sh" "my_database_id sh' = my_database_id sh"
    "encode_cache_ids sh' = encode_cache_ids sh"
    "k < ENCODE_CACHE_SETS \<Longrightarrow> w < 4 \<Longrightarrow> encode_cache_s0 sh' ! k ! w AND age_mask = encode_cache_s0 sh ! k ! w AND age_mask"
proof -
  let ?k = "slot h sh"
  have len: "length (encode_cache_s0 sh ! ?k) = 4" "length (encode_cache_ids sh ! ?k) = 4"
    "length (encode_cache_s0 sh) = ENCODE_CACHE_SETS"
    using set_lengths [OF ok] list_lengths [OF ok] by simp_all
  show r: "shmem_ready sh' = shmem_ready sh" "my_database_id sh' = my_database_id sh"
    "encode_cache_ids sh' = encode_cache_ids sh"
    using l by (auto simp: encode_cache_lookup_def Let_def split: option.splits if_splits)
  show same: "encode_cache_s0 sh' ! k ! w AND age_mask = encode_cache_s0 sh ! k ! w AND age_mask"
    if "k < ENCODE_CACHE_SETS" "w < 4" for k w
  proof (cases "shmem_ready sh")
    case True
    show ?thesis
    proof (cases "way_of h sh")
      case None
      then have "encode_cache_s0 sh' = (encode_cache_s0 sh)[?k := map2 age_way (encode_cache_s0 sh ! ?k) (encode_cache_ids sh ! ?k)]"
        using l True by (auto simp: encode_cache_lookup_def Let_def way_of_def slot_def clean_def)
      with len that show ?thesis by (cases "k = ?k") auto
    next
      case (Some v)
      then have "encode_cache_s0 sh' = (encode_cache_s0 sh)[?k := (encode_cache_s0 sh ! ?k)[v := pack_age (clean h sh) 0]]"
        using l True by (auto simp: encode_cache_lookup_def Let_def way_of_def slot_def clean_def)
      with len that find_way_Some [OF Some [unfolded way_of_def]] show ?thesis
        by (cases "k = ?k"; cases "w = v") auto
    qed
  qed (use l in \<open>auto simp: encode_cache_lookup_def\<close>)
  have "set_distinct (encode_cache_s0 sh' ! k) (encode_cache_ids sh' ! k)" if "k < ENCODE_CACHE_SETS" for k
    unfolding r by (rule set_distinct_same [of "encode_cache_s0 sh ! k"]) (use ok that same in \<open>auto simp: cache_valid_def\<close>)
  with lookup_keeps_cache [OF cache_valid_ok [OF ok] l] ok show "cache_valid M sh'" by (simp add: cache_valid_def r)
qed

lemma find_way_cong:
  assumes "length hs = length hs'" "\<And>w. w < length hs \<Longrightarrow> hs' ! w AND age_mask = hs ! w AND age_mask"
  shows "find_way x hs' is = find_way x hs is"
  using assms
proof (induction hs hs' arbitrary: "is" rule: list_induct2)
  case (Cons h hs h' hs')
  have "h' AND age_mask = h AND age_mask" using Cons.prems [of 0] by simp
  moreover have "find_way x hs' js = find_way x hs js" for js
    by (rule Cons.IH) (use Cons.prems [of "Suc _"] in auto)
  ultimately show ?case by (cases "is") simp_all
qed simp

lemma lookup_stays_absent:
  assumes ok: "cache_valid M sh" and l: "encode_cache_lookup h sh = (None, sh')"
  shows "fst (encode_cache_lookup h sh') = None"
proof -
  note v = lookup_valid [OF ok l]
  have "way_of h sh' = way_of h sh"
    unfolding way_of_def slot_def clean_def v(3,4)
    by (rule find_way_cong) (use set_lengths [OF ok] set_lengths [OF v(1)] v(5) in auto)
  moreover have "\<not> shmem_ready sh \<or> way_of h sh = None" using l lookup_way [of h sh] by simp
  ultimately show ?thesis unfolding lookup_way v(2) by simp
qed

lemma entry_okI:
  "slot h sh = k \<Longrightarrow> way AND age_mask = clean h sh \<Longrightarrow> M h = Some i \<Longrightarrow> entry_ok (id_of M) (my_database_id sh) k way i"
  unfolding entry_ok_def slot_def clean_def by (intro impI exI [of _ h]) (simp add: id_of_def)

lemma put_valid:
  assumes ok: "cache_valid M sh" and absent: "fst (encode_cache_lookup h sh) = None" and i: "M h = Some i"
  shows "cache_valid M (encode_cache_insert h i sh)"
proof (cases "shmem_ready sh")
  case True
  let ?k = "slot h sh"
  let ?hs = "encode_cache_s0 sh ! ?k" and ?is = "encode_cache_ids sh ! ?k"
  have len: "length ?hs = 4" "length ?is = 4" using set_lengths [OF ok] by simp_all
  have none: "find_way (clean h sh) ?hs ?is = None" using absent True lookup_way [of h sh] by (simp add: way_of_def)
  have dist: "set_distinct (encode_cache_s0 sh ! k) (encode_cache_ids sh ! k)" if "k < ENCODE_CACHE_SETS" for k
    using ok that by (simp add: cache_valid_def)
  obtain w where w: "encode_cache_s0 (encode_cache_insert h i sh) = (encode_cache_s0 sh)[?k := ?hs[w := clean h sh]]"
    "encode_cache_ids (encode_cache_insert h i sh) = (encode_cache_ids sh)[?k := ?is[w := i]]"
    "shmem_ready (encode_cache_insert h i sh)"
    using True by (cases "empty_way ?is") (auto simp: encode_cache_insert_def Let_def slot_def clean_def)
  have "set_distinct (encode_cache_s0 (encode_cache_insert h i sh) ! k) (encode_cache_ids (encode_cache_insert h i sh) ! k)"
    if k: "k < ENCODE_CACHE_SETS" for k
    using set_distinct_put [OF dist [OF slot_bound] none len] dist [OF k] k list_lengths [OF ok] unfolding w
    by (cases "k = ?k") auto
  moreover have "cache_ok (id_of M) (encode_cache_insert h i sh)"
    by (rule insert_keeps_cache [OF cache_valid_ok [OF ok]]) (simp add: id_of_def i)
  ultimately show ?thesis using w(3) by (simp add: cache_valid_def)
qed (use ok in \<open>simp add: encode_cache_insert_def\<close>)

lemma evict_valid:
  assumes ok: "cache_valid M sh" shows "cache_valid (M(h := None)) (encode_cache_evict h sh)"
proof (cases "way_of h sh")
  case None
  have "encode_cache_evict h sh = sh"
    using None by (simp add: encode_cache_evict_def Let_def way_of_def slot_def clean_def)
  moreover have "entry_ok (id_of (M(h := None))) (my_database_id sh) k (encode_cache_s0 sh ! k ! w) (encode_cache_ids sh ! k ! w)"
    if k: "k < ENCODE_CACHE_SETS" "w < 4" for k w
  proof (cases "encode_cache_ids sh ! k ! w = 0")
    case False
    from occupied_way [OF ok k False] obtain h' where h': "slot h' sh = k"
      "encode_cache_s0 sh ! k ! w AND age_mask = clean h' sh" "M h' = Some (encode_cache_ids sh ! k ! w)" "way_of h' sh = Some w" .
    moreover have "h' \<noteq> h" using h'(4) None by auto
    ultimately show ?thesis by (intro entry_okI [of h']) simp_all
  qed (simp add: entry_ok_def)
  ultimately show ?thesis using ok by (simp add: cache_valid_def cache_ok_def)
next
  case (Some w)
  let ?k = "slot h sh" and ?sh = "encode_cache_evict h sh"
  have ready: "shmem_ready sh" using not_ready_empty [OF ok] Some by fastforce
  note fw = find_way_Some [OF Some [unfolded way_of_def]]
  have len: "length (encode_cache_s0 sh ! ?k) = 4" "length (encode_cache_ids sh ! ?k) = 4" using set_lengths [OF ok] by simp_all
  have e: "encode_cache_s0 ?sh = (encode_cache_s0 sh)[?k := (encode_cache_s0 sh ! ?k)[w := 0]]"
    "encode_cache_ids ?sh = (encode_cache_ids sh)[?k := (encode_cache_ids sh ! ?k)[w := 0]]"
    "shmem_ready ?sh" "my_database_id ?sh = my_database_id sh"
    using Some ready by (simp_all add: encode_cache_evict_def Let_def way_of_def slot_def clean_def)
  have "entry_ok (id_of (M(h := None))) (my_database_id sh) k (encode_cache_s0 ?sh ! k ! v) (encode_cache_ids ?sh ! k ! v)"
    if k: "k < ENCODE_CACHE_SETS" "v < 4" for k v
  proof (cases "encode_cache_ids ?sh ! k ! v = 0")
    case False
    then have ne: "k \<noteq> ?k \<or> v \<noteq> w" and same: "encode_cache_ids ?sh ! k ! v = encode_cache_ids sh ! k ! v"
      "encode_cache_s0 ?sh ! k ! v = encode_cache_s0 sh ! k ! v"
      using k len fw list_lengths [OF ok] unfolding e by (auto simp: nth_list_update split: if_splits)
    from occupied_way [OF ok k] False same obtain h' where h': "slot h' sh = k"
      "encode_cache_s0 sh ! k ! v AND age_mask = clean h' sh" "M h' = Some (encode_cache_ids sh ! k ! v)" "way_of h' sh = Some v"
      by metis
    moreover have "h' \<noteq> h" using h'(1,4) Some ne by auto
    ultimately show ?thesis unfolding same by (intro entry_okI [of h']) simp_all
  qed (simp add: entry_ok_def)
  moreover have "shape_ok ?sh" using ok by (simp add: cache_valid_def cache_ok_def shape_ok_def e nth_list_update)
  moreover have "set_distinct (encode_cache_s0 ?sh ! k) (encode_cache_ids ?sh ! k)" if k: "k < ENCODE_CACHE_SETS" for k
    using ok k set_distinct_zero [OF _ len(2,1), of w 0] list_lengths [OF ok] unfolding e
    by (cases "k = ?k") (auto simp: cache_valid_def)
  ultimately show ?thesis using e by (simp add: cache_valid_def cache_ok_def)
qed

lemma clear_valid: "cache_valid M sh \<Longrightarrow> cache_valid M' (encode_cache_clear_all sh)"
proof -
  assume ok: "cache_valid M sh"
  show ?thesis
  proof (cases "shmem_ready sh")
    case True
    then show ?thesis
      by (simp add: encode_cache_clear_all_def cache_valid_def cache_ok_def shape_ok_def entry_ok_def set_distinct_def)
  next
    case False
    with ok show ?thesis
      by (auto simp: encode_cache_clear_all_def cache_valid_def cache_ok_def entry_ok_def)
  qed
qed

lemma init_valid: "cache_valid M ((shmem_init oid)\<lparr>shmem_ready := b\<rparr>)"
  by (simp add: cache_valid_def cache_ok_def shape_ok_def entry_ok_def shmem_init_def set_distinct_def)

interpretation encode_cache: shared_cache encode_cache_lookup encode_cache_insert encode_cache_evict
  encode_cache_clear_all cache_valid
proof
  show "M h = Some i" if ok: "cache_valid M sh" and l: "encode_cache_lookup h sh = (Some i, sh')" for M sh h i sh'
  proof -
    have "i = id_of M h" by (rule lookup_sound [OF cache_valid_ok [OF ok] l])
    moreover obtain w where "way_of h sh = Some w" "i = encode_cache_ids sh ! slot h sh ! w"
      using l by (auto simp: encode_cache_lookup_def Let_def way_of_def slot_def clean_def split: option.splits if_splits)
    then have "i \<noteq> 0" using find_way_Some by (auto simp: way_of_def)
    ultimately show ?thesis by (auto simp: id_of_def split: option.splits)
  qed
qed (blast intro: lookup_valid lookup_stays_absent put_valid evict_valid clear_valid cache_valid_mono)+

end
