(* ===== verification/Dictionary_Correct.thy ===== *)
theory Dictionary_Correct
  imports Dictionary Encode_Cache
begin

text \<open>
  Correctness of the dictionary: over the histories of a backend that encodes, looks up,
  decodes, commits, rolls back and flushes, an encoded term is decoded to itself, its identifier
  stays the same and is shared with no other term. The theory also settles what happens
  outside those histories: rollback to a savepoint, and batch encoding.
\<close>

section \<open>Hash keys\<close>

lemma halves_inj: "hash_hi h = hash_hi h' \<Longrightarrow> hash_lo h = hash_lo h' \<Longrightarrow> h = h'"
proof (rule bit_word_eqI)
  fix n assume eq: "hash_hi h = hash_hi h'" "hash_lo h = hash_lo h'" and n: "n < LENGTH(128)"
  show "bit h n = bit h' n"
  proof (cases "n < 64")
    case True
    have "bit (hash_lo h) n = bit (hash_lo h') n" using eq by simp
    with True show ?thesis by (simp add: hash_lo_def bit_ucast_iff)
  next
    case False
    then have "bit (hash_hi h) (n - 64) = bit (hash_hi h') (n - 64)" using eq by simp
    moreover have "n - 64 < 64" using False n by simp
    ultimately show ?thesis using False n by (simp add: hash_hi_def bit_ucast_iff bit_drop_bit_eq)
  qed
qed

lemma to_le_bytes_inj:
  fixes w w' :: "'a::len word"
  assumes "to_le_bytes n w = to_le_bytes n w'" "LENGTH('a) \<le> 8 * n"
  shows "w = w'"
proof (rule bit_word_eqI)
  fix m assume m: "m < LENGTH('a)"
  with assms(2) have "m div 8 < n" by auto
  with assms(1) have "ucast (drop_bit (8 * (m div 8)) w) = (ucast (drop_bit (8 * (m div 8)) w') :: 8 word)"
    by (simp add: to_le_bytes_def)
  then have "bit (ucast (drop_bit (8 * (m div 8)) w) :: 8 word) (m mod 8)
      = bit (ucast (drop_bit (8 * (m div 8)) w') :: 8 word) (m mod 8)" by simp
  then show "bit w m = bit w' m" by (simp add: bit_ucast_iff bit_drop_bit_eq)
qed

lemma length_le_bytes [simp]: "length (to_le_bytes n w) = n"
  by (simp add: to_le_bytes_def)

lemma as_bytes_inj: "as_bytes s = as_bytes s' \<longleftrightarrow> s = s'"
proof
  have "inj (of_char :: char \<Rightarrow> 8 word)"
  proof (rule injI)
    fix c d :: char
    assume "(of_char c :: 8 word) = of_char d"
    then have "unat (of_char c :: 8 word) = unat (of_char d :: 8 word)" by simp
    moreover have "unat (of_char e :: 8 word) = of_char e" for e
    proof -
      have "(of_char e :: 8 word) = word_of_nat (of_char e)" by (simp add: of_nat_of_char)
      moreover have "(of_char e :: nat) < 256" by (rule nat_of_char_less_256)
      ultimately show ?thesis by (simp add: unat_of_nat)
    qed
    ultimately show "c = d" by simp
  qed
  then show "as_bytes s = as_bytes s' \<Longrightarrow> s = s'" by (simp add: as_bytes_def inj_map_eq_map)
qed simp

section \<open>Terms and their hash inputs\<close>

datatype dict_term =
  TPlain string i16
| TTyped string string
| TLang string string
| TQuoted i64 i64 i64

fun hash_input :: "dict_term \<Rightarrow> 8 word list" where
  "hash_input (TPlain s k) = to_le_bytes 2 k @ as_bytes s"
| "hash_input (TTyped v dt) = to_le_bytes 2 KIND_TYPED_LITERAL @ as_bytes (typed_canonical v dt)"
| "hash_input (TLang v l) = to_le_bytes 2 KIND_LANG_LITERAL @ as_bytes (lang_canonical v l)"
| "hash_input (TQuoted s p ob) =
     to_le_bytes 2 KIND_QUOTED_TRIPLE @ to_le_bytes 8 s @ to_le_bytes 8 p @ to_le_bytes 8 ob"

text \<open>Terms of the three untagged kinds; datatype IRIs and language tags contain no quote.\<close>

fun valid_term :: "dict_term \<Rightarrow> bool" where
  "valid_term (TPlain s k) \<longleftrightarrow> k \<in> {KIND_IRI, KIND_BLANK, KIND_LITERAL}"
| "valid_term (TTyped v dt) \<longleftrightarrow> CHR 0x22 \<notin> set dt"
| "valid_term (TLang v l) \<longleftrightarrow> CHR 0x22 \<notin> set l"
| "valid_term (TQuoted s p ob) \<longleftrightarrow> True"

lemma last_quote:
  "u @ CHR 0x22 # v = u' @ CHR 0x22 # v' \<Longrightarrow> CHR 0x22 \<notin> set v \<Longrightarrow> CHR 0x22 \<notin> set v' \<Longrightarrow> u = u' \<and> v = v'"
  by (auto simp: append_eq_append_conv2 append_eq_Cons_conv Cons_eq_append_conv)

lemma typed_canonical_inj:
  assumes "typed_canonical v dt = typed_canonical v' dt'" "CHR 0x22 \<notin> set dt" "CHR 0x22 \<notin> set dt'"
  shows "v = v' \<and> dt = dt'"
proof -
  have "v @ CHR 0x22 # (''^^<'' @ dt @ ''>'') = v' @ CHR 0x22 # (''^^<'' @ dt' @ ''>'')"
    using assms(1) by (simp add: typed_canonical_def)
  from last_quote [OF this] assms(2,3) show ?thesis by simp
qed

lemma lang_canonical_inj:
  assumes "lang_canonical v l = lang_canonical v' l'" "CHR 0x22 \<notin> set l" "CHR 0x22 \<notin> set l'"
  shows "v = v' \<and> l = l'"
proof -
  have "v @ CHR 0x22 # (''@'' @ l) = v' @ CHR 0x22 # (''@'' @ l')"
    using assms(1) by (simp add: lang_canonical_def)
  from last_quote [OF this] assms(2,3) show ?thesis by simp
qed

fun term_kind :: "dict_term \<Rightarrow> i16" where
  "term_kind (TPlain s k) = k"
| "term_kind (TTyped v dt) = KIND_TYPED_LITERAL"
| "term_kind (TLang v l) = KIND_LANG_LITERAL"
| "term_kind (TQuoted s p ob) = KIND_QUOTED_TRIPLE"

lemma hash_input_kind:
  assumes "hash_input t = hash_input t'" shows "term_kind t = term_kind t'"
proof -
  have "take 2 (hash_input t) = to_le_bytes 2 (term_kind t)" for t by (cases t) simp_all
  with assms have "to_le_bytes 2 (term_kind t) = to_le_bytes 2 (term_kind t')" by metis
  then show ?thesis by (rule to_le_bytes_inj) simp
qed

lemma hash_input_inj:
  assumes eq: "hash_input t = hash_input t'" and v: "valid_term t" "valid_term t'"
  shows "t = t'"
proof -
  have rest: "drop 2 (hash_input t) = drop 2 (hash_input t')" using eq by simp
  have w8: "LENGTH(64) \<le> 8 * 8" by simp
  note kind = hash_input_kind [OF eq]
  show ?thesis
  proof (cases t)
    case (TPlain s k)
    with kind v obtain s' where t': "t' = TPlain s' k" by (cases t') (auto simp: kind_defs)
    with TPlain rest show ?thesis by (simp add: as_bytes_inj)
  next
    case (TTyped w dt)
    with kind v obtain w' dt' where t': "t' = TTyped w' dt'" by (cases t') (auto simp: kind_defs)
    with TTyped rest have "typed_canonical w dt = typed_canonical w' dt'" by (simp add: as_bytes_inj)
    from typed_canonical_inj [OF this] v TTyped t' show ?thesis by simp
  next
    case (TLang w l)
    with kind v obtain w' l' where t': "t' = TLang w' l'" by (cases t') (auto simp: kind_defs)
    with TLang rest have "lang_canonical w l = lang_canonical w' l'" by (simp add: as_bytes_inj)
    from lang_canonical_inj [OF this] v TLang t' show ?thesis by simp
  next
    case (TQuoted s p ob)
    with kind v obtain s' p' ob' where t': "t' = TQuoted s' p' ob'" by (cases t') (auto simp: kind_defs)
    with TQuoted rest have "to_le_bytes 8 s = to_le_bytes 8 s'" "to_le_bytes 8 p = to_le_bytes 8 p'" "to_le_bytes 8 ob = to_le_bytes 8 ob'"
      by simp_all
    from this [THEN to_le_bytes_inj [OF _ w8]] TQuoted t' show ?thesis by simp
  qed
qed

section \<open>The invariant\<close>

definition dict_map :: "dict_row list \<Rightarrow> (u128 \<rightharpoonup> i64)" where
  "dict_map rows h = map_option dr_id (find_hash h rows)"

fun row_matches :: "dict_term \<Rightarrow> dict_row \<Rightarrow> bool" where
  "row_matches (TPlain s k) r \<longleftrightarrow> dr_value r = s \<and> dr_kind r = k \<and> dr_datatype r = None \<and> dr_lang r = None \<and> dr_qt r = None"
| "row_matches (TTyped v dt) r \<longleftrightarrow> dr_value r = v \<and> dr_kind r = KIND_TYPED_LITERAL \<and> dr_datatype r = Some dt \<and> dr_lang r = None \<and> dr_qt r = None"
| "row_matches (TLang v l) r \<longleftrightarrow> dr_value r = v \<and> dr_kind r = KIND_LANG_LITERAL \<and> dr_datatype r = None \<and> dr_lang r = Some l \<and> dr_qt r = None"
| "row_matches (TQuoted s p ob) r \<longleftrightarrow> dr_kind r = KIND_QUOTED_TRIPLE \<and> dr_datatype r = None \<and> dr_lang r = None \<and> dr_qt r = Some (s, p, ob)"

definition has_hash :: "u128 \<Rightarrow> dict_row \<Rightarrow> bool" where
  "has_hash h r \<longleftrightarrow> dr_hash_hi r = hash_hi h \<and> dr_hash_lo r = hash_lo h"

definition term_key :: "('e, 'd) dict_env \<Rightarrow> dict_term \<Rightarrow> u128" where
  "term_key env t = xxh3_128 env (hash_input t)"

definition rows_ok :: "('e, 'd) dict_env \<Rightarrow> 8 word list set \<Rightarrow> nat \<Rightarrow> dict_row list \<Rightarrow> bool" where
  "rows_ok env U n rows \<longleftrightarrow> distinct (map dr_id rows) \<and> n < 2 ^ 63
     \<and> (\<forall>r \<in> set rows. 0 < unat (dr_id r) \<and> unat (dr_id r) \<le> n)
     \<and> (\<forall>r \<in> set rows. \<exists>t. valid_term t \<and> hash_input t \<in> U \<and> has_hash (term_key env t) r \<and> row_matches t r)"

definition caches_ok :: "('e, 'd) dict_env \<Rightarrow> ('e, 'd) dict \<Rightarrow> bool" where
  "caches_ok env st \<longleftrightarrow> cache_valid (dict_map (dict_rows st)) (dict_shmem st)
     \<and> (\<forall>h i. lru_peek (enc_lru env) (ENCODE_CACHE st) h = Some i \<longrightarrow> dict_map (dict_rows st) h = Some i)"

definition tx_ok :: "dict_row list \<Rightarrow> ('e, 'd) dict \<Rightarrow> bool" where
  "tx_ok base st \<longleftrightarrow> (\<exists>new. dict_rows st = base @ new \<and> (\<forall>r \<in> set new. \<exists>h \<in> set (TX_SHMEM_INSERTS st). has_hash h r))"

definition dict_inv :: "('e, 'd) dict_env \<Rightarrow> 8 word list set \<Rightarrow> dict_row list \<Rightarrow> ('e, 'd) dict \<Rightarrow> bool" where
  "dict_inv env U base st \<longleftrightarrow> rows_ok env U (dict_seq st) (dict_rows st) \<and> caches_ok env st \<and> tx_ok base st"

lemma dict_inv_counters [simp]:
  "dict_inv env U base (st\<lparr>DICT_HOT_CACHE_HITS := x\<rparr>) = dict_inv env U base st"
  "dict_inv env U base (st\<lparr>DICT_HOT_CACHE_MISSES := x\<rparr>) = dict_inv env U base st"
  "dict_inv env U base (st\<lparr>DECODE_CACHE := c\<rparr>) = dict_inv env U base st"
  by (simp_all add: dict_inv_def caches_ok_def tx_ok_def)

lemma find_hash_has: "find_hash h rows = Some r \<Longrightarrow> r \<in> set rows \<and> has_hash h r"
  by (auto simp: find_hash_def has_hash_def find_Some_iff)

lemma has_hash_unique: "has_hash h r \<Longrightarrow> has_hash h' r \<Longrightarrow> h = h'"
  unfolding has_hash_def by (rule halves_inj) auto

lemma find_hash_snoc:
  "find_hash h (rows @ [r]) = (case find_hash h rows of Some x \<Rightarrow> Some x | None \<Rightarrow> if has_hash h r then Some r else None)"
  by (induction rows) (auto simp: find_hash_def has_hash_def)

lemma dict_map_mono: "dict_map rows \<subseteq>\<^sub>m dict_map (rows @ [r])"
  by (auto simp: map_le_def dict_map_def find_hash_snoc split: option.split)

lemma dict_map_prefix: "find_hash h rows = Some r \<Longrightarrow> find_hash h (rows @ new) = Some r"
  by (induction rows) (auto simp: find_hash_def)

lemma find_id_unique: "distinct (map dr_id rows) \<Longrightarrow> r \<in> set rows \<Longrightarrow> find_id (dr_id r) rows = Some r"
  by (induction rows) (auto simp: find_id_def)

text \<open>Without collisions among the hashed inputs, a row found under the key of a term is the
  row of that term.\<close>

lemma row_of_key:
  assumes "rows_ok env U n rows" "inj_on (xxh3_128 env) U" "valid_term t" "hash_input t \<in> U"
    and "dict_map rows (term_key env t) = Some i"
  shows "\<exists>r. find_id i rows = Some r \<and> row_matches t r \<and> 0 < unat i \<and> unat i \<le> n"
proof -
  from assms(5) obtain r where r: "find_hash (term_key env t) rows = Some r" "i = dr_id r" by (auto simp: dict_map_def)
  note f = find_hash_has [OF r(1)]
  with assms(1) obtain t' where t': "valid_term t'" "hash_input t' \<in> U" "has_hash (term_key env t') r" "row_matches t' r"
    unfolding rows_ok_def by blast
  have "term_key env t' = term_key env t" using has_hash_unique t'(3) f by blast
  then have "hash_input t' = hash_input t" using assms(2,4) t'(2) by (simp add: term_key_def inj_on_eq_iff)
  then have "t' = t" using hash_input_inj t'(1) assms(3) by blast
  with t' f assms(1) r show ?thesis by (auto simp: rows_ok_def find_id_unique)
qed

section \<open>The cache tiers\<close>

lemma lru_get_law: "lru_laws l \<Longrightarrow> lru_get l k c = (r, c') \<Longrightarrow> r = lru_peek l c k \<and> (\<forall>k'. lru_peek l c' k' = lru_peek l c k')"
  unfolding lru_laws_def by (metis fst_conv snd_conv)

lemma lru_put_law: "lru_laws l \<Longrightarrow> lru_peek l (lru_put l k v c) k' = Some w \<Longrightarrow> k' = k \<and> w = v \<or> lru_peek l c k' = Some w"
  unfolding lru_laws_def by (metis insertE option.distinct(1) option.inject singletonD)

lemma caches_put:
  assumes "lru_laws (enc_lru env)" "caches_ok env st" "dict_map (dict_rows st) h = Some i"
  shows "caches_ok env (st\<lparr>ENCODE_CACHE := lru_put (enc_lru env) h i (ENCODE_CACHE st)\<rparr>)"
  using assms lru_put_law [OF assms(1)] unfolding caches_ok_def by fastforce

lemma shmem_tier_inv:
  assumes laws: "lru_laws (enc_lru env)" and inv: "dict_inv env U base st" and t: "shmem_tier env h st = (r, st')"
  shows "dict_inv env U base st'" "dict_rows st' = dict_rows st" "dict_seq st' = dict_seq st"
    "r = Some i \<Longrightarrow> dict_map (dict_rows st) h = Some i"
    "r = None \<Longrightarrow> fst (encode_cache_lookup h (dict_shmem st')) = None"
    "shmem_ready (dict_shmem st') = shmem_ready (dict_shmem st)"
proof -
  obtain x sh where l: "encode_cache_lookup h (dict_shmem st) = (x, sh)" by (cases "encode_cache_lookup h (dict_shmem st)")
  let ?st = "st\<lparr>dict_shmem := sh\<rparr>"
  have v: "cache_valid (dict_map (dict_rows st)) (dict_shmem st)" using inv by (simp add: dict_inv_def caches_ok_def)
  have inv': "dict_inv env U base ?st"
    using inv encode_cache.look_valid [OF v l] by (simp add: dict_inv_def caches_ok_def tx_ok_def)
  have x: "r = x" using t l by (auto simp: shmem_tier_def Let_def split: option.splits)
  show some: "dict_map (dict_rows st) h = Some i" if "r = Some i" for i
    using encode_cache.look_sound [OF v, of h i sh] l x that by simp
  show "dict_rows st' = dict_rows st" "dict_seq st' = dict_seq st" using t l by (auto simp: shmem_tier_def Let_def split: option.splits)
  show "shmem_ready (dict_shmem st') = shmem_ready (dict_shmem st)"
    using t l lookup_valid(2) [OF v l] by (auto simp: shmem_tier_def Let_def split: option.splits)
  show "fst (encode_cache_lookup h (dict_shmem st')) = None" if "r = None"
    using encode_cache.look_absent [OF v, of h sh] t l x that by (auto simp: shmem_tier_def Let_def)
  show "dict_inv env U base st'"
  proof (cases x)
    case None
    with t l inv' show ?thesis by (simp add: shmem_tier_def Let_def)
  next
    case (Some i)
    then have "st' = ?st\<lparr>ENCODE_CACHE := lru_put (enc_lru env) h i (ENCODE_CACHE ?st)\<rparr>" using t l by (auto simp: shmem_tier_def Let_def)
    moreover have "caches_ok env (?st\<lparr>ENCODE_CACHE := lru_put (enc_lru env) h i (ENCODE_CACHE ?st)\<rparr>)"
      by (rule caches_put [OF laws]) (use inv' some x Some in \<open>auto simp: dict_inv_def\<close>)
    ultimately show ?thesis using inv' by (simp add: dict_inv_def tx_ok_def)
  qed
qed

lemma local_tier_inv:
  assumes laws: "lru_laws (enc_lru env)" and inv: "dict_inv env U base st" and t: "local_tier env h st = (r, st')"
  shows "dict_inv env U base st'" "dict_rows st' = dict_rows st" "dict_seq st' = dict_seq st" "dict_shmem st' = dict_shmem st"
    "r = Some i \<Longrightarrow> dict_map (dict_rows st) h = Some i"
proof -
  obtain x c where g: "lru_get (enc_lru env) h (ENCODE_CACHE st) = (x, c)" by (cases "lru_get (enc_lru env) h (ENCODE_CACHE st)")
  then have st': "st' = st\<lparr>ENCODE_CACHE := c\<rparr>" "r = x" using t by (auto simp: local_tier_def)
  note law = lru_get_law [OF laws g]
  show "dict_inv env U base st'" using inv law by (simp add: st' dict_inv_def caches_ok_def tx_ok_def)
  show "dict_rows st' = dict_rows st" "dict_seq st' = dict_seq st" "dict_shmem st' = dict_shmem st" by (simp_all add: st')
  show "r = Some i \<Longrightarrow> dict_map (dict_rows st) h = Some i" using inv law by (simp add: st' dict_inv_def caches_ok_def)
qed

section \<open>Inserting a row\<close>

lemma publish_simps [simp]: "dict_seq (publish env h i text st) = dict_seq st" "dict_rows (publish env h i text st) = dict_rows st"
  by (simp_all add: publish_def)

lemma caches_mono:
  assumes "caches_ok env st" "dict_map (dict_rows st) \<subseteq>\<^sub>m dict_map rows'"
  shows "cache_valid (dict_map rows') (dict_shmem st)"
    "lru_peek (enc_lru env) (ENCODE_CACHE st) h = Some i \<Longrightarrow> dict_map rows' h = Some i"
proof -
  show "cache_valid (dict_map rows') (dict_shmem st)"
    by (rule encode_cache.valid_mono [OF _ assms(2)]) (use assms(1) in \<open>simp add: caches_ok_def\<close>)
  assume "lru_peek (enc_lru env) (ENCODE_CACHE st) h = Some i"
  with assms(1) have "dict_map (dict_rows st) h = Some i" by (simp add: caches_ok_def)
  with assms(2) show "dict_map rows' h = Some i" by (auto simp: map_le_def dom_def)
qed

text \<open>An upsert of the row of a term, followed by its publication, keeps the invariant; the row
  under the key of the term has the identifier that is returned.\<close>

lemma upsert_publish:
  assumes laws: "lru_laws (enc_lru env)" and inv: "dict_inv env U base st" and h: "h = term_key env t"
    and t: "valid_term t" "hash_input t \<in> U"
    and row: "\<And>i. row_matches t \<lparr>dr_id = i, dr_hash_hi = hash_hi h, dr_hash_lo = hash_lo h, dr_value = value,
        dr_kind = kind, dr_datatype = datatype, dr_lang = lang, dr_qt = qt\<rparr>"
    and absent: "fst (encode_cache_lookup h (dict_shmem st)) = None"
  shows "case dict_upsert h value kind datatype lang qt st of
      Inl e \<Rightarrow> e = SequenceExhausted \<and> 2 ^ 63 \<le> Suc (dict_seq st)
    | Inr (i, st') \<Rightarrow> dict_inv env U base (publish env h i text st') \<and> dict_map (dict_rows st') h = Some i
        \<and> dict_rows (publish env h i text st') = dict_rows st' \<and> dict_seq st' = Suc (dict_seq st)
        \<and> (\<exists>new. dict_rows st' = dict_rows st @ new)
        \<and> (find_hash h (dict_rows st) = None \<longrightarrow> i = word_of_nat (Suc (dict_seq st)))"
proof (cases "2 ^ 63 \<le> Suc (dict_seq st)")
  case True
  then show ?thesis by (simp add: dict_upsert_def)
next
  case room: False
  let ?n = "Suc (dict_seq st)"
  note inv [unfolded dict_inv_def]
  have publish: "dict_inv env U base (publish env h i text st')"
    if rows: "rows_ok env U (dict_seq st') (dict_rows st')" and le: "dict_map (dict_rows st) \<subseteq>\<^sub>m dict_map (dict_rows st')"
      and c: "dict_shmem st' = dict_shmem st" "ENCODE_CACHE st' = ENCODE_CACHE st" and i: "dict_map (dict_rows st') h = Some i"
      and tx: "tx_ok base (st'\<lparr>TX_SHMEM_INSERTS := TX_SHMEM_INSERTS st' @ [h]\<rparr>)" for i st'
  proof -
    have ok: "caches_ok env st" using inv by (simp add: dict_inv_def)
    have "cache_valid (dict_map (dict_rows st')) (encode_cache_insert h i (dict_shmem st))"
      by (rule encode_cache.put_valid [OF caches_mono(1) [OF ok le]]) (rule absent, rule i)
    moreover have "dict_map (dict_rows st') k = Some j"
      if "lru_peek (enc_lru env) (lru_put (enc_lru env) h i (ENCODE_CACHE st)) k = Some j" for k j
      using lru_put_law [OF laws that] caches_mono(2) [OF ok le] i by blast
    ultimately have "caches_ok env (publish env h i text st')" by (simp add: caches_ok_def publish_def c)
    with rows tx show ?thesis by (simp add: dict_inv_def publish_def tx_ok_def)
  qed
  show ?thesis
  proof (cases "find_hash h (dict_rows st)")
    case (Some r)
    let ?st = "st\<lparr>dict_seq := ?n\<rparr>"
    have "rows_ok env U ?n (dict_rows st)" using inv room by (auto simp: dict_inv_def rows_ok_def intro: le_SucI)
    moreover have "tx_ok base (?st\<lparr>TX_SHMEM_INSERTS := TX_SHMEM_INSERTS ?st @ [h]\<rparr>)"
      using inv by (auto simp: dict_inv_def tx_ok_def)
    ultimately have "dict_inv env U base (publish env h (dr_id r) text ?st)"
      using Some by (intro publish) (simp_all add: dict_map_def)
    with Some room show ?thesis by (simp add: dict_upsert_def Let_def dict_map_def publish_def)
  next
    case None
    let ?i = "word_of_nat ?n :: i64"
    let ?r = "\<lparr>dr_id = ?i, dr_hash_hi = hash_hi h, dr_hash_lo = hash_lo h, dr_value = value, dr_kind = kind,
      dr_datatype = datatype, dr_lang = lang, dr_qt = qt\<rparr>"
    let ?st = "st\<lparr>dict_seq := ?n, dict_rows := dict_rows st @ [?r]\<rparr>"
    have u: "unat ?i = ?n" using room by (simp add: unat_of_nat del: of_nat_Suc)
    have fresh: "?i \<notin> dr_id ` set (dict_rows st)"
    proof
      assume "?i \<in> dr_id ` set (dict_rows st)"
      then obtain r where "r \<in> set (dict_rows st)" "dr_id r = ?i" by auto
      then have "unat ?i \<le> dict_seq st" using inv by (force simp: dict_inv_def rows_ok_def)
      then show False unfolding u by simp
    qed
    have "has_hash h ?r" by (simp add: has_hash_def)
    moreover have "\<exists>t. valid_term t \<and> hash_input t \<in> U \<and> has_hash (term_key env t) ?r \<and> row_matches t ?r"
      using t row h \<open>has_hash h ?r\<close> by blast
    ultimately have "rows_ok env U ?n (dict_rows st @ [?r])"
      using inv room fresh u by (auto simp: dict_inv_def rows_ok_def intro: le_SucI)
    moreover have "dict_map (dict_rows st @ [?r]) h = Some ?i"
      using None \<open>has_hash h ?r\<close> by (simp add: dict_map_def find_hash_snoc)
    moreover have "tx_ok base (?st\<lparr>TX_SHMEM_INSERTS := TX_SHMEM_INSERTS ?st @ [h]\<rparr>)"
      using inv \<open>has_hash h ?r\<close> by (auto simp: dict_inv_def tx_ok_def)
    ultimately have "dict_inv env U base (publish env h ?i text ?st)"
      by (intro publish) (simp_all add: dict_map_mono)
    moreover have "dict_map (dict_rows st @ [?r]) h = Some ?i"
      using None \<open>has_hash h ?r\<close> by (simp add: dict_map_def find_hash_snoc)
    ultimately show ?thesis using None room by (simp add: dict_upsert_def Let_def publish_def)
  qed
qed

section \<open>Encoding a term\<close>

definition encode_post :: "('e, 'd) dict_env \<Rightarrow> 8 word list set \<Rightarrow> dict_row list \<Rightarrow> u128 \<Rightarrow> ('e, 'd) dict
    \<Rightarrow> dict_error + i64 \<times> ('e, 'd) dict \<Rightarrow> bool" where
  "encode_post env U base h st res \<longleftrightarrow>
     (case res of
        Inl e \<Rightarrow> e = SequenceExhausted \<and> 2 ^ 63 \<le> Suc (dict_seq st)
      | Inr (i, st') \<Rightarrow> dict_inv env U base st' \<and> dict_map (dict_rows st') h = Some i \<and> dict_seq st' \<le> Suc (dict_seq st)
          \<and> (\<exists>new. dict_rows st' = dict_rows st @ new))"

lemma encode_row_post:
  assumes laws: "lru_laws (enc_lru env)" and inv: "dict_inv env U base st"
    and t: "valid_term t" "hash_input t \<in> U"
    and row: "\<And>i. row_matches t \<lparr>dr_id = i, dr_hash_hi = hash_hi (term_key env t), dr_hash_lo = hash_lo (term_key env t),
        dr_value = value, dr_kind = kind, dr_datatype = datatype, dr_lang = lang, dr_qt = qt\<rparr>"
  shows "encode_post env U base (term_key env t) st (encode_row env (term_key env t) canonical value kind datatype lang qt st)"
proof -
  let ?h = "term_key env t"
  obtain r st1 where 1: "shmem_tier env ?h st = (r, st1)" by (cases "shmem_tier env ?h st")
  note s1 = shmem_tier_inv [OF laws inv 1]
  obtain r2 st2 where 2: "local_tier env ?h st1 = (r2, st2)" by (cases "local_tier env ?h st1")
  note s2 = local_tier_inv [OF laws s1(1) 2]
  show ?thesis
  proof (cases r)
    case (Some i)
    with 1 s1 show ?thesis by (simp add: encode_row_def encode_post_def)
  next
    case None
    show ?thesis
    proof (cases r2)
      case (Some i)
      with 1 2 None s1 s2 show ?thesis by (simp add: encode_row_def encode_post_def)
    next
      case none2: None
      have "fst (encode_cache_lookup ?h (dict_shmem st2)) = None" using s1(5) s2(4) None by simp
      from upsert_publish [OF laws s2(1) refl t row this, of canonical] 1 2 None none2 s1 s2 show ?thesis
        by (auto simp: encode_row_def encode_post_def split: sum.splits)
    qed
  qed
qed

lemma encode_inner_post:
  assumes laws: "lru_laws (enc_lru env)" and inv: "dict_inv env U base st"
    and t: "valid_term (TPlain s k)" "hash_input (TPlain s k) \<in> U"
  shows "encode_post env U base (term_key env (TPlain s k)) st (encode_inner env s k st)"
proof -
  let ?h = "term_key env (TPlain s k)"
  have th: "term_hash env s k = ?h" by (simp add: term_hash_def term_key_def)
  obtain r st1 where 1: "shmem_tier env ?h st = (r, st1)" by (cases "shmem_tier env ?h st")
  note s1 = shmem_tier_inv [OF laws inv 1]
  obtain r2 st2 where 2: "local_tier env ?h st1 = (r2, st2)" by (cases "local_tier env ?h st1")
  note s2 = local_tier_inv [OF laws s1(1) 2]
  show ?thesis
  proof (cases r)
    case (Some i)
    with 1 s1 show ?thesis by (simp add: encode_inner_def encode_post_def th)
  next
    case None
    show ?thesis
    proof (cases r2)
      case (Some i)
      with 1 2 None s1 s2 show ?thesis by (simp add: encode_inner_def encode_post_def th)
    next
      case none2: None
      let ?st = "st2\<lparr>DICT_HOT_CACHE_MISSES := DICT_HOT_CACHE_MISSES st2 + 1\<rparr>"
      have "fst (encode_cache_lookup ?h (dict_shmem ?st)) = None" using s1(5) s2(4) None by simp
      moreover have "dict_inv env U base ?st" using s2(1) by simp
      ultimately show ?thesis
        using upsert_publish [OF laws _ refl t, of base ?st s k None None None s] 1 2 None none2 s1 s2
        by (auto simp: encode_inner_def encode_post_def th split: sum.splits)
    qed
  qed
qed

fun encode_term :: "('e, 'd) dict_env \<Rightarrow> dict_term \<Rightarrow> ('e, 'd) dict \<Rightarrow> dict_error + i64 \<times> ('e, 'd) dict" where
  "encode_term env (TPlain s k) st = encode env s k st"
| "encode_term env (TTyped v dt) st = encode_typed_literal env v dt st"
| "encode_term env (TLang v l) st = encode_lang_literal env v l st"
| "encode_term env (TQuoted s p ob) st = encode_quoted_triple env s p ob st"

text \<open>The term that is stored for a term: IRIs and blank nodes are normalized first.\<close>

fun stored :: "('e, 'd) dict_env \<Rightarrow> dict_term \<Rightarrow> dict_term" where
  "stored env (TPlain s k) = TPlain (if (k = KIND_IRI \<or> k = KIND_BLANK) \<and> NORMALIZE_IRIS env then nfc env s else s) k"
| "stored env t = t"

fun inline_of :: "('e, 'd) dict_env \<Rightarrow> dict_term \<Rightarrow> i64 option" where
  "inline_of env (TTyped v dt) = inline_id env v dt"
| "inline_of env _ = None"

lemma valid_stored [simp]: "valid_term (stored env t) = valid_term t"
  by (cases t) simp_all

lemma encode_term_post:
  assumes laws: "lru_laws (enc_lru env)" and inv: "dict_inv env U base st"
    and t: "valid_term t" "hash_input (stored env t) \<in> U" "inline_of env t = None"
  shows "encode_post env U base (term_key env (stored env t)) st (encode_term env t st)"
proof (cases t)
  case (TPlain s k)
  with encode_inner_post [OF laws inv] t show ?thesis by (auto simp: encode_def)
next
  case (TTyped v dt)
  have "term_hash env (typed_canonical v dt) KIND_TYPED_LITERAL = term_key env t" by (simp add: TTyped term_hash_def term_key_def)
  with encode_row_post [OF laws inv, of t v KIND_TYPED_LITERAL "Some dt" None None "typed_canonical v dt"] TTyped t show ?thesis
    by (simp add: encode_typed_literal_def Let_def)
next
  case (TLang v l)
  have "term_hash env (lang_canonical v l) KIND_LANG_LITERAL = term_key env t" by (simp add: TLang term_hash_def term_key_def)
  with encode_row_post [OF laws inv, of t v KIND_LANG_LITERAL None "Some l" None "lang_canonical v l"] TLang t show ?thesis
    by (simp add: encode_lang_literal_def Let_def)
next
  case (TQuoted s p ob)
  have "quoted_triple_hash env s p ob = term_key env t" by (simp add: TQuoted quoted_triple_hash_def term_key_def)
  with encode_row_post [OF laws inv, of t] TQuoted t show ?thesis
    by (simp add: encode_quoted_triple_def Let_def)
qed

section \<open>Histories of a backend\<close>

text \<open>\<open>dict_run env U base st\<close>: \<open>st\<close> is reached from an empty dictionary, and \<open>base\<close> are the rows at the
  beginning of the current transaction. \<open>U\<close> bounds the hash inputs that occur. Rolling back
  restores the rows and runs the callback for the abort; a flush is the first statement of its
  transaction.\<close>

definition dict_init :: "32 word \<Rightarrow> bool \<Rightarrow> 'e \<Rightarrow> 'd \<Rightarrow> ('e, 'd) dict" where
  "dict_init oid ready e d = \<lparr>dict_rows = [], dict_seq = 0, dict_shmem = (shmem_init oid)\<lparr>shmem_ready := ready\<rparr>,
     ENCODE_CACHE = e, DECODE_CACHE = d, TX_SHMEM_INSERTS = [], DICT_HOT_CACHE_HITS = 0, DICT_HOT_CACHE_MISSES = 0\<rparr>"

definition roll_back :: "dict_row list \<Rightarrow> ('e, 'd) dict \<Rightarrow> ('e, 'd) dict" where
  "roll_back rows st = st\<lparr>dict_rows := rows\<rparr>"

inductive dict_run :: "('e, 'd) dict_env \<Rightarrow> 8 word list set \<Rightarrow> dict_row list \<Rightarrow> ('e, 'd) dict \<Rightarrow> bool" for env U where
  start: "(\<forall>h. lru_peek (enc_lru env) e h = None) \<Longrightarrow> (\<forall>i. lru_peek (dec_lru env) d i = None)
    \<Longrightarrow> dict_run env U [] (dict_init oid ready e d)"
| encoded: "dict_run env U base st \<Longrightarrow> valid_term t \<Longrightarrow> hash_input (stored env t) \<in> U
    \<Longrightarrow> encode_term env t st = Inr (i, st') \<Longrightarrow> dict_run env U base st'"
| looked_up: "dict_run env U base st \<Longrightarrow> dict_run env U base (snd (dict_lookup env s k st))"
| looked_up_quoted: "dict_run env U base st \<Longrightarrow> dict_run env U base (snd (lookup_quoted_triple env s p ob st))"
| decoded: "dict_run env U base st \<Longrightarrow> decode env i st = Inr (v, st') \<Longrightarrow> dict_run env U base st'"
| committed: "dict_run env U base st
    \<Longrightarrow> dict_run env U (dict_rows st) (fst (xact_callback_c env XACT_EVENT_COMMIT (st, store)))"
| aborted: "dict_run env U base st
    \<Longrightarrow> dict_run env U base (fst (xact_callback_c env XACT_EVENT_ABORT (roll_back base st, store)))"
| flushed: "dict_run env U base st \<Longrightarrow> dict_run env U (dict_rows st) (flush_encode_cache env (commit_cleanup st))"

lemma find_hash_append:
  "find_hash h (xs @ ys) = (case find_hash h xs of Some r \<Rightarrow> Some r | None \<Rightarrow> find_hash h ys)"
  by (induction xs) (auto simp: find_hash_def)

lemma rows_ok_prefix: "rows_ok env U n (xs @ ys) \<Longrightarrow> rows_ok env U n xs"
  by (auto simp: rows_ok_def)

lemma lru_clear_law: "lru_laws l \<Longrightarrow> lru_peek l (lru_clear l c) k = None"
  by (simp add: lru_laws_def)

lemma lookup_inv:
  assumes laws: "lru_laws (enc_lru env)" and inv: "dict_inv env U base st"
  shows "dict_inv env U base (snd (dict_lookup env s k st))" "dict_inv env U base (snd (lookup_quoted_triple env a p ob st))"
proof -
  have t: "dict_inv env U base (snd (local_tier env h st))" for h
    by (rule local_tier_inv(1) [OF laws inv, of h "fst (local_tier env h st)"]) simp
  have p: "dict_inv env U base (st1\<lparr>ENCODE_CACHE := lru_put (enc_lru env) h i (ENCODE_CACHE st1)\<rparr>)"
    if "dict_inv env U base st1" "dict_map (dict_rows st1) h = Some i" for st1 h i
    using that caches_put [OF laws, of st1 h i] by (simp add: dict_inv_def tx_ok_def)
  show "dict_inv env U base (snd (lookup_quoted_triple env a p ob st))"
    using t [of "quoted_triple_hash env a p ob"] by (auto simp: lookup_quoted_triple_def Let_def split: prod.split option.split)
  show "dict_inv env U base (snd (dict_lookup env s k st))"
    using t [of "term_hash env s k"] p
    by (auto simp: dict_lookup_def Let_def dict_map_def split: prod.split option.split)
qed

lemma decode_inv: "dict_inv env U base st \<Longrightarrow> decode env i st = Inr (v, st') \<Longrightarrow> dict_inv env U base st' \<and> dict_rows st' = dict_rows st"
  by (auto simp: decode_def split: if_splits prod.splits option.splits)

lemma abort_inv:
  assumes laws: "lru_laws (enc_lru env)" and inv: "dict_inv env U base st"
  shows "dict_inv env U base (clear_caches env (roll_back base st))"
proof -
  from inv obtain new where new: "dict_rows st = base @ new" "\<forall>r \<in> set new. \<exists>h \<in> set (TX_SHMEM_INSERTS st). has_hash h r"
    by (auto simp: dict_inv_def tx_ok_def)
  have "cache_valid (dict_map base) (fold encode_cache_evict (TX_SHMEM_INSERTS st) (dict_shmem st))"
  proof (rule encode_cache.evict_all_mono)
    show "cache_valid (dict_map (dict_rows st)) (dict_shmem st)" using inv by (simp add: dict_inv_def caches_ok_def)
    fix h i assume h: "dict_map (dict_rows st) h = Some i" "h \<notin> set (TX_SHMEM_INSERTS st)"
    show "dict_map base h = Some i"
    proof (cases "find_hash h base")
      case None
      with h(1) new(1) obtain r where "find_hash h new = Some r" by (auto simp: dict_map_def find_hash_append)
      with find_hash_has new(2) obtain h' where "h' \<in> set (TX_SHMEM_INSERTS st)" "has_hash h' r" "has_hash h r" by blast
      with h(2) has_hash_unique show ?thesis by blast
    qed (use h new in \<open>simp add: dict_map_def find_hash_append\<close>)
  qed
  with inv new(1) show ?thesis
    by (auto simp: dict_inv_def caches_ok_def tx_ok_def clear_caches_def roll_back_def lru_clear_law [OF laws] intro: rows_ok_prefix)
qed

lemma flush_inv:
  assumes laws: "lru_laws (enc_lru env)" and inv: "dict_inv env U base st"
  shows "dict_inv env U (dict_rows st) (flush_encode_cache env (commit_cleanup st))"
  using inv encode_cache.clear_valid
  by (auto simp: dict_inv_def caches_ok_def tx_ok_def flush_encode_cache_def commit_cleanup_def clear_caches_def lru_clear_law [OF laws])

lemma dict_run_inv: "dict_run env U base st \<Longrightarrow> lru_laws (enc_lru env) \<Longrightarrow> dict_inv env U base st"
proof (induction rule: dict_run.induct)
  case (start e d oid ready)
  have "dict_map [] = Map.empty" by (auto simp: dict_map_def find_hash_def)
  with start init_valid show ?case
    by (simp add: dict_inv_def rows_ok_def caches_ok_def tx_ok_def dict_init_def)
next
  case (encoded base st t i st')
  show ?case
  proof (cases "inline_of env t")
    case None
    from encode_term_post [OF \<open>lru_laws _\<close> encoded.IH [OF \<open>lru_laws _\<close>] encoded.hyps(2,3) None] encoded.hyps(4)
    show ?thesis by (simp add: encode_post_def)
  next
    case (Some j)
    with encoded show ?thesis by (cases t) (auto simp: encode_typed_literal_def)
  qed
next
  case (decoded base st i v st')
  then show ?case using decode_inv by blast
next
  case (committed base st store)
  then show ?case by (simp add: xact_callback_c_def commit_cleanup_def dict_inv_def caches_ok_def tx_ok_def)
next
  case (aborted base st store)
  then show ?case by (simp add: xact_callback_c_def abort_inv)
qed (blast intro: lookup_inv flush_inv)+

section \<open>Encoding a new term\<close>

fun cached_text :: "('e, 'd) dict_env \<Rightarrow> dict_term \<Rightarrow> ('e, 'd) dict \<Rightarrow> string" where
  "cached_text env (TPlain s k) st = s"
| "cached_text env (TTyped v dt) st = typed_canonical v dt"
| "cached_text env (TLang v l) st = lang_canonical v l"
| "cached_text env (TQuoted s p ob) st = ''<< '' @ format_ntriples env s st @ '' '' @ format_ntriples env p st @ '' ''
     @ format_ntriples env ob st @ '' >>''"

text \<open>A term with no row misses both caches, gets the next identifier, and is published.\<close>

definition fresh_post :: "('e, 'd) dict_env \<Rightarrow> dict_term \<Rightarrow> string \<Rightarrow> ('e, 'd) dict \<Rightarrow> dict_error + i64 \<times> ('e, 'd) dict \<Rightarrow> bool" where
  "fresh_post env t text st res \<longleftrightarrow> (\<exists>st2 r. let i = word_of_nat (Suc (dict_seq st)) in
     res = Inr (i, publish env (term_key env t) i text st2) \<and> dict_rows st2 = dict_rows st @ [r]
     \<and> dr_id r = i \<and> has_hash (term_key env t) r \<and> row_matches t r
     \<and> shmem_ready (dict_shmem st2) = shmem_ready (dict_shmem st) \<and> cache_valid (dict_map (dict_rows st)) (dict_shmem st2))"

lemma tiers_miss:
  assumes laws: "lru_laws (enc_lru env)" and inv: "dict_inv env U base st" and fresh: "find_hash h (dict_rows st) = None"
  obtains st1 st2 where "shmem_tier env h st = (None, st1)" "local_tier env h st1 = (None, st2)"
    "dict_rows st2 = dict_rows st" "dict_seq st2 = dict_seq st" "dict_inv env U base st2"
    "shmem_ready (dict_shmem st2) = shmem_ready (dict_shmem st)"
proof -
  have none: "dict_map (dict_rows st) h = None" using fresh by (simp add: dict_map_def)
  obtain r st1 where 1: "shmem_tier env h st = (r, st1)" by (cases "shmem_tier env h st")
  note s1 = shmem_tier_inv [OF laws inv 1]
  with none have r: "r = None" by (cases r) auto
  obtain r2 st2 where 2: "local_tier env h st1 = (r2, st2)" by (cases "local_tier env h st1")
  note s2 = local_tier_inv [OF laws s1(1) 2]
  with none s1(2) have "r2 = None" by (cases r2) auto
  with 1 2 r s1 s2 that show ?thesis by metis
qed

lemma encode_row_fresh:
  assumes laws: "lru_laws (enc_lru env)" and inv: "dict_inv env U base st" and room: "Suc (dict_seq st) < 2 ^ 63"
    and fresh: "find_hash (term_key env t) (dict_rows st) = None"
    and row: "\<And>i. row_matches t \<lparr>dr_id = i, dr_hash_hi = hash_hi (term_key env t), dr_hash_lo = hash_lo (term_key env t),
        dr_value = value, dr_kind = kind, dr_datatype = datatype, dr_lang = lang, dr_qt = qt\<rparr>"
  shows "fresh_post env t canonical st (encode_row env (term_key env t) canonical value kind datatype lang qt st)"
proof -
  from tiers_miss [OF laws inv fresh] obtain st1 st2 where
    t: "shmem_tier env (term_key env t) st = (None, st1)" "local_tier env (term_key env t) st1 = (None, st2)"
    "dict_rows st2 = dict_rows st" "dict_seq st2 = dict_seq st" "dict_inv env U base st2"
    "shmem_ready (dict_shmem st2) = shmem_ready (dict_shmem st)" .
  have "cache_valid (dict_map (dict_rows st)) (dict_shmem st2)" using t by (simp add: dict_inv_def caches_ok_def)
  with t room fresh row show ?thesis
    by (auto simp: encode_row_def fresh_post_def dict_upsert_def Let_def has_hash_def)
qed

lemma encode_inner_fresh:
  assumes laws: "lru_laws (enc_lru env)" and inv: "dict_inv env U base st" and room: "Suc (dict_seq st) < 2 ^ 63"
    and fresh: "find_hash (term_key env (TPlain s k)) (dict_rows st) = None"
  shows "fresh_post env (TPlain s k) s st (encode_inner env s k st)"
proof -
  have th: "term_hash env s k = term_key env (TPlain s k)" by (simp add: term_hash_def term_key_def)
  from tiers_miss [OF laws inv fresh] obtain st1 st2 where
    t: "shmem_tier env (term_key env (TPlain s k)) st = (None, st1)" "local_tier env (term_key env (TPlain s k)) st1 = (None, st2)"
    "dict_rows st2 = dict_rows st" "dict_seq st2 = dict_seq st" "dict_inv env U base st2"
    "shmem_ready (dict_shmem st2) = shmem_ready (dict_shmem st)" .
  have "cache_valid (dict_map (dict_rows st)) (dict_shmem st2)" using t by (simp add: dict_inv_def caches_ok_def)
  with t room fresh show ?thesis
    by (auto simp: encode_inner_def th fresh_post_def dict_upsert_def Let_def has_hash_def)
qed

lemma encode_term_fresh:
  assumes laws: "lru_laws (enc_lru env)" and inv: "dict_inv env U base st" and room: "Suc (dict_seq st) < 2 ^ 63"
    and inl: "inline_of env t = None" and fresh: "find_hash (term_key env (stored env t)) (dict_rows st) = None"
  shows "fresh_post env (stored env t) (cached_text env (stored env t) st) st (encode_term env t st)"
proof (cases t)
  case (TPlain s k)
  with encode_inner_fresh [OF laws inv room] fresh show ?thesis by (auto simp: encode_def)
next
  case (TTyped v dt)
  have "term_hash env (typed_canonical v dt) KIND_TYPED_LITERAL = term_key env t" by (simp add: TTyped term_hash_def term_key_def)
  with encode_row_fresh [OF laws inv room, of t v KIND_TYPED_LITERAL "Some dt" None None "typed_canonical v dt"] TTyped inl fresh show ?thesis
    by (simp add: encode_typed_literal_def Let_def)
next
  case (TLang v l)
  have "term_hash env (lang_canonical v l) KIND_LANG_LITERAL = term_key env t" by (simp add: TLang term_hash_def term_key_def)
  with encode_row_fresh [OF laws inv room, of t v KIND_LANG_LITERAL None "Some l" None "lang_canonical v l"] TLang fresh show ?thesis
    by (simp add: encode_lang_literal_def Let_def)
next
  case (TQuoted s p ob)
  have "quoted_triple_hash env s p ob = term_key env t" by (simp add: TQuoted quoted_triple_hash_def term_key_def)
  with encode_row_fresh [OF laws inv room, of t] TQuoted fresh show ?thesis
    by (simp add: encode_quoted_triple_def Let_def)
qed

lemma fresh_id:
  assumes "dict_inv env U base st" "Suc (dict_seq st) < 2 ^ 63"
  shows "find_id (word_of_nat (Suc (dict_seq st))) (dict_rows st) = None"
proof -
  have u: "unat (word_of_nat (Suc (dict_seq st)) :: i64) = Suc (dict_seq st)"
    using assms(2) by (simp add: unat_of_nat del: of_nat_Suc)
  have "dr_id x \<noteq> word_of_nat (Suc (dict_seq st))" if "x \<in> set (dict_rows st)" for x
  proof
    assume "dr_id x = word_of_nat (Suc (dict_seq st))"
    with assms(1) that have "unat (word_of_nat (Suc (dict_seq st)) :: i64) \<le> dict_seq st"
      by (force simp: dict_inv_def rows_ok_def)
    then show False unfolding u by simp
  qed
  then show ?thesis by (simp add: find_id_def find_None_iff)
qed

lemma find_id_snoc: "find_id i rows = None \<Longrightarrow> dr_id r = i \<Longrightarrow> find_id i (rows @ [r]) = Some r"
  by (induction rows) (auto simp: find_id_def split: if_splits)

text \<open>A term that the shared cache holds is answered from it.\<close>

lemma encode_term_hit:
  assumes "fst (encode_cache_lookup (term_key env (stored env t)) (dict_shmem st)) = Some i" "inline_of env t = None"
  shows "\<exists>st'. encode_term env t st = Inr (i, st') \<and> dict_rows st' = dict_rows st"
proof -
  have hit: "\<exists>st'. shmem_tier env (term_key env (stored env t)) st = (Some i, st') \<and> dict_rows st' = dict_rows st"
    using assms(1) by (auto simp: shmem_tier_def Let_def split: prod.splits)
  show ?thesis
    using hit assms(2)
    by (cases t) (auto simp: encode_def encode_inner_def encode_typed_literal_def encode_lang_literal_def
        encode_quoted_triple_def encode_row_def Let_def term_hash_def quoted_triple_hash_def term_key_def split: if_splits)
qed

lemma small_not_inline:
  assumes "unat i \<le> n" "n < 2 ^ 63" shows "\<not> is_inline i"
proof -
  have "int (unat i) < int (2 ^ 63)" using assms by (simp only: of_nat_less_iff le_less_trans)
  then have "uint i < 2 ^ 63" by (simp flip: uint_nat)
  moreover have "- (2 ^ (LENGTH(64) - Suc 0)) \<le> uint i" by (rule order_trans [of _ 0]) simp_all
  ultimately have "sint i = uint i" unfolding sint_uint by (intro signed_take_bit_int_eq_self) (simp_all only: len_bit0 len_num1, simp)
  then show ?thesis by (simp add: is_inline_def)
qed

section \<open>Properties\<close>

fun term_info :: "dict_term \<Rightarrow> TermInfo \<Rightarrow> bool" where
  "term_info (TPlain s k) ti \<longleftrightarrow> ti = \<lparr>ti_value = s, ti_kind = k, ti_datatype = None, ti_lang = None, ti_quoted_triple = None\<rparr>"
| "term_info (TTyped v dt) ti \<longleftrightarrow>
     ti = \<lparr>ti_value = v, ti_kind = KIND_TYPED_LITERAL, ti_datatype = Some dt, ti_lang = None, ti_quoted_triple = None\<rparr>"
| "term_info (TLang v l) ti \<longleftrightarrow>
     ti = \<lparr>ti_value = v, ti_kind = KIND_LANG_LITERAL, ti_datatype = None, ti_lang = Some l, ti_quoted_triple = None\<rparr>"
| "term_info (TQuoted s p ob) ti \<longleftrightarrow> ti_kind ti = KIND_QUOTED_TRIPLE \<and> ti_datatype ti = None \<and> ti_lang ti = None
     \<and> ti_quoted_triple ti = Some (s, p, ob)"

lemma term_info_unique:
  assumes "term_info t ti" "term_info t' ti" "valid_term t" "valid_term t'" shows "t = t'"
  using assms by (cases t; cases t') (auto simp: kind_defs)

lemma info_of_key:
  assumes "rows_ok env U (dict_seq st) (dict_rows st)" "inj_on (xxh3_128 env) U" "valid_term t" "hash_input t \<in> U"
    and "dict_map (dict_rows st) (term_key env t) = Some i"
  shows "\<exists>ti. decode_full i st = Some ti \<and> term_info t ti"
  using row_of_key [OF assms] by (cases t) (auto simp: decode_full_def)

lemma find_id_prefix: "find_id i rows = Some r \<Longrightarrow> find_id i (rows @ new) = Some r"
  by (induction rows) (auto simp: find_id_def)

lemma encode_term_sound:
  assumes laws: "lru_laws (enc_lru env)" and inj: "inj_on (xxh3_128 env) U" and inv: "dict_inv env U base st"
    and t: "valid_term t" "hash_input (stored env t) \<in> U" "inline_of env t = None" and e: "encode_term env t st = Inr (i, st')"
  shows "dict_inv env U base st'" "\<not> is_inline i" "\<exists>ti. decode_full i st' = Some ti \<and> term_info (stored env t) ti"
    "decode_full j st = Some x \<Longrightarrow> decode_full j st' = Some x"
    "dict_map (dict_rows st') (term_key env (stored env t)) = Some i"
proof -
  from encode_term_post [OF laws inv t] e obtain new where p: "dict_inv env U base st'"
    "dict_map (dict_rows st') (term_key env (stored env t)) = Some i" "dict_rows st' = dict_rows st @ new"
    by (auto simp: encode_post_def)
  then have ok: "rows_ok env U (dict_seq st') (dict_rows st')" by (simp add: dict_inv_def)
  show "dict_inv env U base st'" "dict_map (dict_rows st') (term_key env (stored env t)) = Some i" by (fact p)+
  show "\<exists>ti. decode_full i st' = Some ti \<and> term_info (stored env t) ti"
    by (rule info_of_key [OF ok inj _ t(2) p(2)]) (simp add: t)
  show "\<not> is_inline i"
    using row_of_key [OF ok inj _ t(2) p(2)] t(1) ok small_not_inline [of i "dict_seq st'"] by (auto simp: rows_ok_def)
  show "decode_full j st = Some x \<Longrightarrow> decode_full j st' = Some x"
    by (auto simp: decode_full_def p(3) find_id_prefix)
qed


section \<open>A concrete environment\<close>

definition map_lru :: "('k, 'v, 'k \<rightharpoonup> 'v) lru" where
  "map_lru = \<lparr>lru_get = \<lambda>k c. (c k, c), lru_put = \<lambda>k v c. c(k \<mapsto> v), lru_clear = \<lambda>c. Map.empty, lru_peek = \<lambda>c k. c k\<rparr>"

definition demo_env :: "(u128 \<rightharpoonup> i64, i64 \<rightharpoonup> string) dict_env" where
  "demo_env = \<lparr>xxh3_128 = foldl (\<lambda>h b. (h + ucast b) * 0x9E3779B97F4A7C15F39CC0605CEDC835) 1, nfc = \<lambda>s. s,
     NORMALIZE_IRIS = True, STRICT_DICTIONARY = False, enc_lru = map_lru, dec_lru = map_lru,
     parse_micros = \<lambda>s. None, parse_days = \<lambda>s. None, fmt_datetime = \<lambda>n. None, fmt_date = \<lambda>n. None\<rparr>"

definition demo_dict :: "(u128 \<rightharpoonup> i64, i64 \<rightharpoonup> string) dict" where
  "demo_dict = dict_init 7 True Map.empty Map.empty"

lemma map_lru_laws [simp]: "lru_laws map_lru"
  by (simp add: lru_laws_def map_lru_def)

lemma demo_laws [simp]: "lru_laws (enc_lru demo_env)" "lru_laws (dec_lru demo_env)"
  by (simp_all add: demo_env_def)

lemma demo_run: "dict_run demo_env U [] demo_dict"
  unfolding demo_dict_def by (rule dict_run.start) (simp_all add: demo_env_def map_lru_def)

lemma demo_facts: "dict_rows demo_dict = []" "dict_seq demo_dict = 0" "shmem_ready (dict_shmem demo_dict)"
  by (simp_all add: demo_dict_def dict_init_def)

definition demo_iri :: dict_term where
  "demo_iri = TPlain ''a'' KIND_IRI"

definition demo_typed :: dict_term where
  "demo_typed = TTyped ''1.5'' ''d''"

lemma demo_valid: "valid_term demo_iri" "valid_term demo_typed" "inline_of demo_env demo_iri = None" "inline_of demo_env demo_typed = None"
  by (simp_all add: demo_iri_def demo_typed_def inline_id_def XSD_INTEGERS_def)


text \<open>
  Property C17. Rolling back to a savepoint. A term that was new when it was encoded inside a
  subtransaction keeps its entry in the shared encode cache when the subtransaction is rolled
  back: its row is gone, but the next encoding of the term still returns the identifier of the
  removed row, which no longer decodes.
\<close>

theorem savepoint_rollback_leaves_stale_id:
  assumes "lru_laws (enc_lru env)" "dict_run env U base st" "inline_of env t = None"
    and "find_hash (term_key env (stored env t)) (dict_rows st) = None"
    and "Suc (dict_seq st) < 2 ^ 63" "shmem_ready (dict_shmem st)"
  shows "\<exists>i st' st3. encode_term env t st = Inr (i, st') \<and> decode_full i st' \<noteq> None
    \<and> encode_term env t (fst (sub_xact_callback_c env SUBXACT_EVENT_ABORT_SUB (roll_back (dict_rows st) st', store))) = Inr (i, st3)
    \<and> decode_full i st3 = None"
proof -
  let ?h = "term_key env (stored env t)" and ?i = "word_of_nat (Suc (dict_seq st)) :: i64"
  have inv: "dict_inv env U base st" by (rule dict_run_inv [OF assms(2,1)])
  from encode_term_fresh [OF assms(1) inv assms(5,3,4)] obtain st2 r txt' where
    e: "encode_term env t st = Inr (?i, publish env ?h ?i txt' st2)" and r: "dict_rows st2 = dict_rows st @ [r]" "dr_id r = ?i"
      "has_hash ?h r" and sh: "shmem_ready (dict_shmem st2)" "cache_valid (dict_map (dict_rows st)) (dict_shmem st2)"
    using assms(6) unfolding fresh_post_def Let_def by blast
  let ?st2 = "fst (sub_xact_callback_c env SUBXACT_EVENT_ABORT_SUB (roll_back (dict_rows st) (publish env ?h ?i txt' st2), store))"
  have u: "unat ?i = Suc (dict_seq st)" using assms(5) by (simp add: unat_of_nat del: of_nat_Suc)
  then have i0: "?i \<noteq> 0" by (metis unat_0 nat.distinct(1))
  have key: "dict_map (dict_rows st2) ?h = Some ?i" using assms(4) r by (simp add: dict_map_def find_hash_snoc)
  have "cache_ok (id_of (dict_map (dict_rows st2))) (dict_shmem st2)"
    using cache_valid_mono [OF sh(2)] dict_map_mono r(1) by (metis cache_valid_ok)
  from insert_then_lookup [OF this _ i0 sh(1), of ?h] key
  have "fst (encode_cache_lookup ?h (dict_shmem ?st2)) = Some ?i"
    by (simp add: id_of_def sub_xact_callback_c_def invalidate_decode_cache_def roll_back_def publish_def)
  from encode_term_hit [OF this assms(3)] obtain st3 where e3: "encode_term env t ?st2 = Inr (?i, st3)" "dict_rows st3 = dict_rows ?st2" by blast
  have "find_id ?i (dict_rows st) = None" by (rule fresh_id [OF inv assms(5)])
  then have "decode_full ?i st3 = None"
    using e3(2) by (simp add: decode_full_def sub_xact_callback_c_def invalidate_decode_cache_def roll_back_def)
  moreover have "decode_full ?i (publish env ?h ?i txt' st2) \<noteq> None"
    using r by (auto simp: decode_full_def find_id_def find_None_iff)
  ultimately show ?thesis using e e3(1) by blast
qed

theorem savepoint_rollback_leaves_stale_id_witness:
  "\<forall>store. \<exists>i st' st3. encode_term demo_env demo_iri demo_dict = Inr (i, st') \<and> decode_full i st' \<noteq> None
    \<and> encode_term demo_env demo_iri
        (fst (sub_xact_callback_c demo_env SUBXACT_EVENT_ABORT_SUB (roll_back (dict_rows demo_dict) st', store))) = Inr (i, st3)
    \<and> decode_full i st3 = None"
  by (intro allI savepoint_rollback_leaves_stale_id [OF demo_laws(1) demo_run demo_valid(3)]) (simp_all add: demo_facts find_hash_def)

lemma decode_hit:
  "lru_laws (dec_lru env) \<Longrightarrow> \<not> is_inline i \<Longrightarrow> lru_peek (dec_lru env) (DECODE_CACHE st) i = Some v
    \<Longrightarrow> \<exists>a. decode env i st = Inr (Some v, a)"
  by (cases "lru_get (dec_lru env) i (DECODE_CACHE st)") (auto simp: decode_def dest: lru_get_law)

lemma decode_miss:
  "lru_laws (dec_lru env) \<Longrightarrow> \<not> is_inline i \<Longrightarrow> lru_peek (dec_lru env) (DECODE_CACHE st) i = None
    \<Longrightarrow> find_id i (dict_rows st) = Some r \<Longrightarrow> \<exists>a. decode env i st = Inr (Some (dr_value r), a)"
  by (cases "lru_get (dec_lru env) i (DECODE_CACHE st)") (auto simp: decode_def dest: lru_get_law)

text \<open>
  Decoding a tagged literal. After a typed or language-tagged literal has been
  stored, decoding its identifier returns the quoted form with its tag while the decode cache
  holds it, and the bare lexical value once the cache has been cleared, for instance because
  an unrelated savepoint was rolled back.
\<close>

lemma decode_depends_on_cache:
  assumes "lru_laws (enc_lru env)" "lru_laws (dec_lru env)" "dict_run env U base st" "inline_of env t = None"
    and "find_hash (term_key env (stored env t)) (dict_rows st) = None" "Suc (dict_seq st) < 2 ^ 63"
    and "t = TTyped v dt \<and> canonical = typed_canonical v dt \<or> t = TLang v l \<and> canonical = lang_canonical v l"
  shows "\<exists>i st' a b. encode_term env t st = Inr (i, st') \<and> decode env i st' = Inr (Some canonical, a)
    \<and> decode env i (fst (sub_xact_callback_c env SUBXACT_EVENT_ABORT_SUB (st', store))) = Inr (Some v, b) \<and> v \<noteq> canonical"
proof -
  let ?h = "term_key env (stored env t)" and ?i = "word_of_nat (Suc (dict_seq st)) :: i64"
  have inv: "dict_inv env U base st" by (rule dict_run_inv [OF assms(3,1)])
  have "cached_text env (stored env t) st = canonical" "stored env t = t" using assms(7) by auto
  with encode_term_fresh [OF assms(1) inv assms(6,4,5)] obtain st2 r where
    e: "encode_term env t st = Inr (?i, publish env ?h ?i canonical st2)" and r: "dict_rows st2 = dict_rows st @ [r]" "dr_id r = ?i"
      "row_matches t r"
    unfolding fresh_post_def Let_def by auto
  have u: "unat ?i = Suc (dict_seq st)" using assms(6) by (simp add: unat_of_nat del: of_nat_Suc)
  have inl: "\<not> is_inline ?i" by (rule small_not_inline [of _ "Suc (dict_seq st)"]) (use u assms(6) in simp_all)
  let ?st = "publish env ?h ?i canonical st2"
  let ?undone = "fst (sub_xact_callback_c env SUBXACT_EVENT_ABORT_SUB (?st, store))"
  have "lru_peek (dec_lru env) (DECODE_CACHE ?st) ?i = Some canonical"
    using assms(2) by (simp add: publish_def lru_laws_def)
  from decode_hit [OF assms(2) inl this] obtain a where a: "decode env ?i ?st = Inr (Some canonical, a)" by blast
  have "lru_peek (dec_lru env) (DECODE_CACHE ?undone) ?i = None"
    using lru_clear_law [OF assms(2)] by (simp add: sub_xact_callback_c_def invalidate_decode_cache_def)
  moreover have "find_id ?i (dict_rows ?undone) = Some r"
    using find_id_snoc [OF fresh_id [OF inv assms(6)] r(2)] r(1) by (simp add: sub_xact_callback_c_def invalidate_decode_cache_def)
  moreover have v: "dr_value r = v" using r(3) assms(7) by auto
  ultimately obtain b where b: "decode env ?i ?undone = Inr (Some v, b)" using decode_miss [OF assms(2) inl, of ?undone r] by auto
  have "length v < length canonical" using assms(7) by (auto simp: typed_canonical_def lang_canonical_def)
  with e a b show ?thesis by blast
qed

lemma decode_depends_on_cache_witness:
  "\<forall>store. \<exists>i st' a b. encode_term demo_env demo_typed demo_dict = Inr (i, st')
    \<and> decode demo_env i st' = Inr (Some (typed_canonical ''1.5'' ''d''), a)
    \<and> decode demo_env i (fst (sub_xact_callback_c demo_env SUBXACT_EVENT_ABORT_SUB (st', store))) = Inr (Some ''1.5'', b)
    \<and> ''1.5'' \<noteq> typed_canonical ''1.5'' ''d''"
  by (intro allI decode_depends_on_cache [OF demo_laws demo_run demo_valid(4), where dt = "''d''"])
    (simp_all add: demo_facts find_hash_def demo_typed_def)

section \<open>Batch encoding\<close>

text \<open>The key under which a row comes back is the hash itself unless bit 63 of the hash is set:
  then the upper half is all ones.\<close>

lemma scast_bits: "n < 128 \<Longrightarrow> bit (scast (w :: i64) :: u128) n \<longleftrightarrow> bit w (min n 63)"
  by (simp add: bit_simps min_def)

lemma join_bits:
  "n < 128 \<Longrightarrow> bit (join_halves (hash_hi h) (hash_lo h)) n \<longleftrightarrow> bit h n \<or> 64 \<le> n \<and> bit h 63"
  by (auto simp: join_halves_def bit_or_iff bit_push_bit_iff scast_bits hash_hi_def hash_lo_def bit_ucast_iff bit_drop_bit_eq min_def)

lemma join_halves_id: "\<not> bit h 63 \<Longrightarrow> join_halves (hash_hi h) (hash_lo h) = h"
  by (rule bit_word_eqI) (simp add: join_bits)

lemma join_halves_ones:
  assumes "bit h 63" "join_halves (hash_hi h') (hash_lo h') = h" shows "hash_hi h = - 1"
proof (rule bit_word_eqI)
  fix n assume n: "n < LENGTH(64)"
  have "bit h 63 = bit (join_halves (hash_hi h') (hash_lo h')) 63" using assms(2) by simp
  with assms(1) have "bit h' 63" by (simp add: join_bits)
  then have "bit (join_halves (hash_hi h') (hash_lo h')) (n + 64)" using n by (simp add: join_bits)
  with assms(2) n show "bit (hash_hi h) n = bit (- 1 :: i64) n"
    by (simp add: hash_hi_def bit_ucast_iff bit_drop_bit_eq add.commute)
qed

text \<open>Terms whose rows cannot be found again under their own hash.\<close>

definition unmatched :: "u128 \<Rightarrow> bool" where
  "unmatched h \<longleftrightarrow> bit h 63 \<and> hash_hi h \<noteq> - 1"

lemma hash_to_id_dom: "h \<in> dom (hash_to_id hs rows) \<Longrightarrow> \<exists>h' \<in> set hs. h = join_halves (hash_hi h') (hash_lo h')"
proof -
  have "h \<in> dom (fold (\<lambda>h m. let i = (case find_hash h rows of Some r \<Rightarrow> dr_id r | None \<Rightarrow> 0) in
                 if i \<noteq> 0 then m(join_halves (hash_hi h) (hash_lo h) \<mapsto> i) else m) hs m)
      \<Longrightarrow> h \<in> dom m \<or> (\<exists>h' \<in> set hs. h = join_halves (hash_hi h') (hash_lo h'))" for m
    by (induction hs arbitrary: m) (fastforce simp: Let_def split: if_splits)+
  then show "h \<in> dom (hash_to_id hs rows) \<Longrightarrow> ?thesis" unfolding hash_to_id_def by fastforce
qed

lemma hash_to_id_unmatched: "unmatched h \<Longrightarrow> hash_to_id hs rows h = None"
  using hash_to_id_dom [of h hs rows] join_halves_ones [of h] unfolding unmatched_def by (cases "hash_to_id hs rows h") blast+

lemma publish_misses_fails:
  assumes "i \<in> set misses" "ids (term_hash env (fst (tks ! i)) (snd (tks ! i))) = None"
  shows "\<exists>e. publish_misses env tks ids misses results st = Inl e"
  using assms by (induction misses arbitrary: results st) (auto simp: Let_def split: option.split prod.split)

lemma length_batch_scan [simp]: "length (fst (batch_scan env tks st)) = length tks"
  by (induction tks arbitrary: st) (auto simp: Let_def case_prod_unfold)

lemma encode_batch_fails:
  assumes "j < length tks" "fst (batch_scan env tks st) ! j = None" "unmatched (term_hash env (fst (tks ! j)) (snd (tks ! j)))"
  shows "\<exists>e. encode_batch env tks st = Inl e"
proof -
  let ?misses = "filter (\<lambda>i. fst (batch_scan env tks st) ! i = None) [0..<length tks]"
  have j: "j \<in> set ?misses" using assms by simp
  then have ne: "?misses \<noteq> []" by (metis empty_iff empty_set)
  have "tks \<noteq> []" using assms(1) by auto
  have "publish_misses env tks (hash_to_id hs rows) ?misses results st' \<noteq> Inr x" for hs rows results st' x
    using publish_misses_fails [OF j, of "hash_to_id hs rows" env tks results st'] hash_to_id_unmatched [OF assms(3)] by auto
  with ne \<open>tks \<noteq> []\<close> show ?thesis unfolding encode_batch_def Let_def case_prod_unfold
    by (auto split: sum.split)
qed

lemma join_halves_matched: "\<not> unmatched h \<Longrightarrow> join_halves (hash_hi h) (hash_lo h) = h"
proof (cases "bit h 63")
  case True
  assume "\<not> unmatched h"
  with True have ones: "hash_hi h = - 1" by (simp add: unmatched_def)
  show ?thesis
  proof (rule bit_word_eqI)
    fix n assume n: "n < LENGTH(128)"
    have "bit h n" if "64 \<le> n"
    proof -
      have "bit (hash_hi h) (n - 64)" using ones n that by simp
      then show ?thesis using that by (simp add: hash_hi_def bit_ucast_iff bit_drop_bit_eq)
    qed
    with n True show "bit (join_halves (hash_hi h) (hash_lo h)) n = bit h n" by (auto simp: join_bits)
  qed
qed (rule join_halves_id)

lemma upsert_found:
  assumes inv: "dict_inv env U base st" and u: "dict_upsert h value kind datatype lang qt st = Inr (i, st')"
  shows "(\<exists>r. find_hash h (dict_rows st') = Some r \<and> dr_id r = i) \<and> i \<noteq> 0"
proof (cases "find_hash h (dict_rows st)")
  case (Some r)
  with u have "i = dr_id r" "st' = st\<lparr>dict_seq := Suc (dict_seq st)\<rparr>"
    by (auto simp: dict_upsert_def Let_def split: if_splits)
  with Some find_hash_has [OF Some] inv show ?thesis by (force simp: dict_inv_def rows_ok_def)
next
  case None
  have "unat (word_of_nat (Suc (dict_seq st)) :: i64) = Suc (dict_seq st)" if "Suc (dict_seq st) < 2 ^ 63"
    using that by (simp add: unat_of_nat del: of_nat_Suc)
  with None u show ?thesis
    by (auto simp: dict_upsert_def Let_def find_hash_snoc has_hash_def split: if_splits simp del: of_nat_Suc)
qed

lemma hash_to_id_single:
  "find_hash h rows = Some r \<Longrightarrow> dr_id r \<noteq> 0 \<Longrightarrow> hash_to_id [h] rows h = (if unmatched h then None else Some (dr_id r))"
  using hash_to_id_unmatched [of h "[h]" rows] join_halves_matched [of h] by (simp add: hash_to_id_def)

text \<open>
  Property C16. Batch encoding. A batch with a term that is in neither cache fails whenever bit 63
  of the hash of the term is set and the upper half of the hash is not all ones, because the
  hash is rebuilt from its halves with the sign of the lower one extended; a batch of one term
  otherwise does exactly what encoding the term does.
\<close>

theorem encode_batch_exact:
  assumes "lru_laws (enc_lru env)" "dict_run env U base st"
  shows "(\<forall>tks j. j < length tks \<and> fst (batch_scan env tks st) ! j = None \<and> unmatched (term_hash env (fst (tks ! j)) (snd (tks ! j)))
            \<longrightarrow> (\<exists>e. encode_batch env tks st = Inl e))
    \<and> encode_batch env [(s, k)] st =
        (case encode_inner env s k st of
           Inl e \<Rightarrow> Inl e
         | Inr (i, st') \<Rightarrow> if fst (batch_scan env [(s, k)] st) = [None] \<and> unmatched (term_hash env s k) then Inl (PT501 s)
                         else Inr ([i], st'))"
proof -
  let ?h = "term_hash env s k"
  obtain r st1 where 1: "shmem_tier env ?h st = (r, st1)" by (cases "shmem_tier env ?h st")
  obtain r2 st2 where 2: "local_tier env ?h st1 = (r2, st2)" by (cases "local_tier env ?h st1")
  have "encode_batch env [(s, k)] st =
        (case encode_inner env s k st of
           Inl e \<Rightarrow> Inl e
         | Inr (i, st') \<Rightarrow> if fst (batch_scan env [(s, k)] st) = [None] \<and> unmatched ?h then Inl (PT501 s)
                         else Inr ([i], st'))"
  proof (cases "r = None \<and> r2 = None")
    case False
    with 1 2 show ?thesis
      by (cases r; cases r2) (auto simp: encode_batch_def encode_inner_def Let_def)
  next
    case True
    let ?st = "st2\<lparr>DICT_HOT_CACHE_MISSES := DICT_HOT_CACHE_MISSES st2 + 1\<rparr>"
    note s1 = shmem_tier_inv [OF assms(1) dict_run_inv [OF assms(2,1)] 1]
    note s2 = local_tier_inv [OF assms(1) s1(1) 2]
    have inv: "dict_inv env U base ?st" using s2(1) by simp
    show ?thesis
    proof (cases "dict_upsert ?h s k None None None ?st")
      case (Inl e)
      with 1 2 True show ?thesis by (simp add: encode_batch_def encode_inner_def Let_def)
    next
      case (Inr p)
      obtain i st3 where u: "dict_upsert ?h s k None None None ?st = Inr (i, st3)" using Inr by (cases p) simp
      from upsert_found [OF inv u] have "hash_to_id [?h] (dict_rows st3) ?h = (if unmatched ?h then None else Some i)"
        using hash_to_id_single by blast
      with 1 2 True u show ?thesis by (simp add: encode_batch_def encode_inner_def Let_def)
    qed
  qed
  then show ?thesis using encode_batch_fails by blast
qed

theorem encode_batch_exact_witness:
  "lru_laws (enc_lru demo_env) \<and> dict_run demo_env {} [] demo_dict
   \<and> unmatched (term_hash demo_env ''a'' KIND_IRI) \<and> fst (batch_scan demo_env [(''a'', KIND_IRI)] demo_dict) = [None]
   \<and> (\<exists>e. encode_batch demo_env [(''a'', KIND_IRI)] demo_dict = Inl e)"
proof -
  have u: "unmatched (term_hash demo_env ''a'' KIND_IRI)"
    unfolding unmatched_def by code_simp
  have "find_hash (term_hash demo_env ''a'' KIND_IRI) (dict_rows demo_dict) = None" by (simp add: demo_facts find_hash_def)
  then obtain st1 st2 where "shmem_tier demo_env (term_hash demo_env ''a'' KIND_IRI) demo_dict = (None, st1)"
    "local_tier demo_env (term_hash demo_env ''a'' KIND_IRI) st1 = (None, st2)"
    by (rule tiers_miss [OF demo_laws(1) dict_run_inv [OF demo_run demo_laws(1)]])
  then have scan: "fst (batch_scan demo_env [(''a'', KIND_IRI)] demo_dict) = [None]" by simp
  have "0 < length [(''a'', KIND_IRI)]" by simp
  with conjunct1 [OF encode_batch_exact [OF demo_laws(1) demo_run]] u scan
  have "\<exists>e. encode_batch demo_env [(''a'', KIND_IRI)] demo_dict = Inl e"
    by (metis fst_conv nth_Cons_0 snd_conv)
  with u scan demo_run [of "{}"] show ?thesis by simp
qed

section \<open>The hot table\<close>

lemma hot_insert_all: "set (fold (\<lambda>r. hot_insert (hot_of r)) rs hot) \<subseteq> set hot \<union> hot_of ` set rs"
proof (induction rs arbitrary: hot)
  case (Cons a rs)
  have "set (hot_insert (hot_of a) hot) \<subseteq> insert (hot_of a) (set hot)" by (auto simp: hot_insert_def)
  with Cons.IH [of "hot_insert (hot_of a) hot"] show ?case by auto
qed simp

lemma prewarm_rows: "set (prewarm_hot_table ps rows hot) \<subseteq> set hot \<union> hot_of ` set rows"
proof -
  have "set (fold (\<lambda>p. fold (\<lambda>r. hot_insert (hot_of r)) (filter (\<lambda>r. dr_id r = p) rows)) ps hot)
      \<subseteq> set hot \<union> hot_of ` set rows" for hot
  proof (induction ps arbitrary: hot)
    case (Cons p ps)
    from Cons.IH [of "fold (\<lambda>r. hot_insert (hot_of r)) (filter (\<lambda>r. dr_id r = p) rows) hot"]
      hot_insert_all [of "filter (\<lambda>r. dr_id r = p) rows" hot] show ?case by auto
  qed simp
  from this [of "fold (\<lambda>r. hot_insert (hot_of r)) (filter (\<lambda>r. dr_kind r = 0 \<and> length (dr_value r) \<le> 512) rows) hot"]
    hot_insert_all [of "filter (\<lambda>r. dr_kind r = 0 \<and> length (dr_value r) \<le> 512) rows" hot]
  show ?thesis by (auto simp: prewarm_hot_table_def)
qed

lemma lookup_hot_sound:
  assumes "lookup_hot (hash_hi h) (hash_lo h) (prewarm_hot_table ps rows []) = Some i"
  shows "\<exists>r \<in> set rows. has_hash h r \<and> dr_id r = i"
proof -
  from assms obtain x where "x \<in> set (prewarm_hot_table ps rows [])" "hr_hash_hi x = hash_hi h" "hr_hash_lo x = hash_lo h" "hr_id x = i"
    by (auto simp: lookup_hot_def find_Some_iff intro: that [OF nth_mem])
  with prewarm_rows [of ps rows "[]"] show ?thesis by (force simp: hot_of_def has_hash_def)
qed

end
