(* ===== verification/Rust_Str.thy ===== *)
theory Rust_Str
  imports Prelude
begin

text \<open>
  The functions of Rust's \<open>str\<close> that the text-processing components call, on ASCII strings, with
  the lemmas about prefixes, separators and numbers the components share.
\<close>

section \<open>Searching and splitting\<close>

definition strip_prefix :: "string \<Rightarrow> string \<Rightarrow> string option" where
  "strip_prefix p s = (if starts_with s p then Some (drop (length p) s) else None)"

definition strip_suffix :: "string \<Rightarrow> string \<Rightarrow> string option" where
  "strip_suffix p s = (if ends_with s p then Some (take (length s - length p) s) else None)"

fun find_str :: "string \<Rightarrow> string \<Rightarrow> nat option" where
  "find_str p [] = (if p = [] then Some 0 else None)"
| "find_str p (c # s) = (if starts_with (c # s) p then Some 0 else map_option Suc (find_str p s))"

fun rfind_str :: "string \<Rightarrow> string \<Rightarrow> nat option" where
  "rfind_str p [] = (if p = [] then Some 0 else None)"
| "rfind_str p (c # s) =
     (case rfind_str p s of Some i \<Rightarrow> Some (Suc i) | None \<Rightarrow> if starts_with (c # s) p then Some 0 else None)"

definition split_once :: "string \<Rightarrow> string \<Rightarrow> (string \<times> string) option" where
  "split_once p s = map_option (\<lambda>i. (take i s, drop (i + length p) s)) (find_str p s)"

fun split_char :: "char \<Rightarrow> string \<Rightarrow> string list" where
  "split_char c [] = [[]]"
| "split_char c (x # s) = (if x = c then [] # split_char c s else (x # hd (split_char c s)) # tl (split_char c s))"

text \<open>\<open>split_whitespace\<close>: the maximal runs of characters that are not white space.\<close>

fun split_ws_from :: "string \<Rightarrow> string \<Rightarrow> string list" where
  "split_ws_from cur [] = (if cur = [] then [] else [cur])"
| "split_ws_from cur (c # s) =
     (if is_ws c then (if cur = [] then [] else [cur]) @ split_ws_from [] s else split_ws_from (cur @ [c]) s)"

definition split_whitespace :: "string \<Rightarrow> string list" where
  "split_whitespace s = split_ws_from [] s"

definition trim_start_matches :: "char \<Rightarrow> string \<Rightarrow> string" where
  "trim_start_matches c s = dropWhile (\<lambda>x. x = c) s"

definition trim_end_matches :: "char \<Rightarrow> string \<Rightarrow> string" where
  "trim_end_matches c s = rev (dropWhile (\<lambda>x. x = c) (rev s))"

definition contains_char :: "char \<Rightarrow> string \<Rightarrow> bool" where
  "contains_char c s \<longleftrightarrow> c \<in> set s"

text \<open>\<open>str::replace\<close> with a non-empty pattern: the matches from left to right.\<close>

function replace_str :: "string \<Rightarrow> string \<Rightarrow> string \<Rightarrow> string" where
  "replace_str p r s =
     (if s = [] then []
      else if p \<noteq> [] \<and> starts_with s p then r @ replace_str p r (drop (length p) s)
      else hd s # replace_str p r (tl s))"
  by pat_completeness auto
termination by (relation "measure (\<lambda>(p, r, s). length s)") auto

declare replace_str.simps [simp del]

fun join_str :: "string \<Rightarrow> string list \<Rightarrow> string" where
  "join_str sep [] = []"
| "join_str sep [s] = s"
| "join_str sep (s # t # ss) = s @ sep @ join_str sep (t # ss)"

section \<open>Case\<close>

definition lower_char :: "char \<Rightarrow> char" where
  "lower_char c = (let n = of_char c :: nat in if 65 \<le> n \<and> n \<le> 90 then char_of (n + 32) else c)"

definition upper_char :: "char \<Rightarrow> char" where
  "upper_char c = (let n = of_char c :: nat in if 97 \<le> n \<and> n \<le> 122 then char_of (n - 32) else c)"

definition to_lowercase :: "string \<Rightarrow> string" where
  "to_lowercase s = map lower_char s"

definition to_uppercase :: "string \<Rightarrow> string" where
  "to_uppercase s = map upper_char s"

section \<open>Unsigned numbers\<close>

text \<open>\<open>str::parse\<close> at an unsigned type whose values are below \<open>bound\<close>: digits with an optional plus
  sign.\<close>

definition parse_unsigned :: "nat \<Rightarrow> string \<Rightarrow> nat option" where
  "parse_unsigned bound s =
     (case parse_digits (case s of c # cs \<Rightarrow> if c = CHR ''+'' then cs else s | [] \<Rightarrow> []) of
        Some n \<Rightarrow> if n < bound then Some n else None
      | None \<Rightarrow> None)"

section \<open>Lemmas\<close>

lemma starts_with_Nil [simp]: "starts_with s []"
  by (simp add: starts_with_def)

lemma starts_with_Cons [simp]: "starts_with (c # s) (d # p) \<longleftrightarrow> c = d \<and> starts_with s p"
  by (auto simp: starts_with_def)

lemma starts_with_empty [simp]: "starts_with [] p \<longleftrightarrow> p = []"
  by (auto simp: starts_with_def)

lemma starts_with_append [simp]: "starts_with (p @ s) p"
  by (simp add: starts_with_def)

lemma starts_with_iff: "starts_with s p \<longleftrightarrow> (\<exists>t. s = p @ t)"
  by (metis append_take_drop_id starts_with_append starts_with_def)

text \<open>A prefix that ends with a separator fixes the part before the first separator.\<close>

lemma starts_with_field:
  assumes "c \<notin> set f" "c \<notin> set p"
  shows "starts_with (f @ c # s) (p @ c # q) \<longleftrightarrow> f = p \<and> starts_with s q"
  using assms
proof (induction f arbitrary: p)
  case Nil
  then show ?case by (cases p) auto
next
  case (Cons x f)
  then show ?case by (cases p) auto
qed

lemma split_char_nonempty [simp]: "split_char c s \<noteq> []"
  by (cases s) auto

lemma split_char_code [code]:
  "split_char c [] = [[]]"
  "split_char c (x # s) =
     (if x = c then [] # split_char c s else (case split_char c s of [] \<Rightarrow> [] | f # fs \<Rightarrow> (x # f) # fs))"
  by (auto split: list.split)

lemma split_char_hd: "hd (split_char c s) = takeWhile (\<lambda>x. x \<noteq> c) s"
  by (induction s) auto

lemma split_char_field: "c \<notin> set f \<Longrightarrow> split_char c (f @ c # s) = f # split_char c s"
  by (induction f) auto

lemma split_char_none: "c \<notin> set f \<Longrightarrow> split_char c f = [f]"
  by (induction f) auto

lemma takeWhile_field: "c \<notin> set f \<Longrightarrow> takeWhile (\<lambda>x. x \<noteq> c) (f @ c # s) = f"
  by (induction f) auto

lemma takeWhile_none: "c \<notin> set f \<Longrightarrow> takeWhile (\<lambda>x. x \<noteq> c) f = f"
  by (induction f) auto

lemma find_str_None_char: "c \<notin> set s \<Longrightarrow> find_str (c # p) s = None"
  by (induction s) auto

lemma find_str_char: "c \<notin> set f \<Longrightarrow> find_str [c] (f @ c # s) = Some (length f)"
  by (induction f) auto

lemma split_once_char: "c \<notin> set f \<Longrightarrow> split_once [c] (f @ c # s) = Some (f, s)"
  by (simp add: split_once_def find_str_char)

lemma split_once_char_None: "c \<notin> set s \<Longrightarrow> split_once [c] s = None"
  by (simp add: split_once_def find_str_None_char)

lemma parse_unsigned_show [simp]: "n < bound \<Longrightarrow> parse_unsigned bound (show_nat n) = Some n"
proof -
  assume n: "n < bound"
  obtain c cs where c: "show_nat n = c # cs" by (meson neq_Nil_conv show_nat_nonempty)
  then have "is_digit c" using show_nat_hd [of n] by simp
  moreover have "parse_digits (c # cs) = Some n" using parse_digits_show_nat [of n] c by simp
  ultimately show ?thesis using n c by (auto simp: parse_unsigned_def dest: digit_not_sign)
qed

lemma show_nat_inj [simp]: "show_nat m = show_nat n \<longleftrightarrow> m = n"
  by (metis show_nat_value)

lemma show_nat_not_in: "\<not> is_digit c \<Longrightarrow> c \<notin> set (show_nat n)"
  using show_nat_digits [of n] by (auto simp: list_all_iff)

end
