(* ===== verification/Ip_Addr.thy ===== *)
theory Ip_Addr
  imports Rust_Str
begin

unbundle bit_operations_syntax

text \<open>
  Addresses of \<open>std::net\<close>: the two kinds of address, their classification and the texts that
  \<open>Display\<close> writes. A V6 address is the list of its eight segments.
\<close>

section \<open>Addresses and their classes\<close>

datatype Ipv4Addr = Ipv4 "8 word" "8 word" "8 word" "8 word"

datatype IpAddr = V4 Ipv4Addr | V6 "16 word list"

fun ip_wf :: "IpAddr \<Rightarrow> bool" where
  "ip_wf (V4 _) \<longleftrightarrow> True"
| "ip_wf (V6 segs) \<longleftrightarrow> length segs = 8"

definition v6_is_loopback :: "16 word list \<Rightarrow> bool" where
  "v6_is_loopback segs \<longleftrightarrow> segs = [0, 0, 0, 0, 0, 0, 0, 1]"

definition v6_is_unspecified :: "16 word list \<Rightarrow> bool" where
  "v6_is_unspecified segs \<longleftrightarrow> segs = [0, 0, 0, 0, 0, 0, 0, 0]"

definition v6_is_multicast :: "16 word list \<Rightarrow> bool" where
  "v6_is_multicast segs \<longleftrightarrow> (segs ! 0) AND 0xff00 = 0xff00"

definition v6_mapped :: "16 word list \<Rightarrow> bool" where
  "v6_mapped segs \<longleftrightarrow> take 6 segs = [0, 0, 0, 0, 0, 0xffff]"

text \<open>The IPv4 address in the last two segments.\<close>

definition v4_tail :: "16 word list \<Rightarrow> Ipv4Addr" where
  "v4_tail segs = Ipv4 (ucast (drop_bit 8 (segs ! 6))) (ucast (segs ! 6)) (ucast (drop_bit 8 (segs ! 7))) (ucast (segs ! 7))"

text \<open>\<open>Ipv6Addr::to_ipv4\<close> also takes the deprecated compatible addresses.\<close>

definition to_ipv4 :: "16 word list \<Rightarrow> Ipv4Addr option" where
  "to_ipv4 segs = (if v6_mapped segs \<or> take 6 segs = [0, 0, 0, 0, 0, 0] then Some (v4_tail segs) else None)"

section \<open>Display\<close>

fun show_ipv4 :: "Ipv4Addr \<Rightarrow> string" where
  "show_ipv4 (Ipv4 a b c d) =
     show_nat (unat a) @ ''.'' @ show_nat (unat b) @ ''.'' @ show_nat (unat c) @ ''.'' @ show_nat (unat d)"

definition hex_char :: "nat \<Rightarrow> char" where
  "hex_char d = ''0123456789abcdef'' ! d"

fun show_hex :: "nat \<Rightarrow> string" where
  "show_hex n = (if n < 16 then [hex_char n] else show_hex (n div 16) @ [hex_char (n mod 16)])"

declare show_hex.simps [simp del]

definition fmt_subslice :: "16 word list \<Rightarrow> string" where
  "fmt_subslice segs = join_str '':'' (map (\<lambda>x. show_hex (unat x)) segs)"

text \<open>The longest run of zero segments, the first of them on a tie: start and length of the current
  and of the longest run.\<close>

fun zero_run :: "nat \<Rightarrow> nat \<times> nat \<Rightarrow> nat \<times> nat \<Rightarrow> 16 word list \<Rightarrow> nat \<times> nat" where
  "zero_run i cur longest [] = longest"
| "zero_run i cur longest (x # xs) =
     (if x = 0 then
        (let cur = (if snd cur = 0 then i else fst cur, Suc (snd cur));
             longest = (if snd longest < snd cur then cur else longest)
         in zero_run (Suc i) cur longest xs)
      else zero_run (Suc i) (0, 0) longest xs)"

fun ip_to_string :: "IpAddr \<Rightarrow> string" where
  "ip_to_string (V4 ip) = show_ipv4 ip"
| "ip_to_string (V6 segs) =
     (if v6_mapped segs then ''::ffff:'' @ show_ipv4 (v4_tail segs)
      else (let (start, len) = zero_run 0 (0, 0) (0, 0) segs in
            if 1 < len then fmt_subslice (take start segs) @ ''::'' @ fmt_subslice (drop (start + len) segs)
            else fmt_subslice segs))"

section \<open>Characters of the texts\<close>

definition is_hex :: "char \<Rightarrow> bool" where
  "is_hex c \<longleftrightarrow> is_digit c \<or> c \<in> set ''abcdef''"

lemma hex_char_hex [simp]: "d < 16 \<Longrightarrow> is_hex (hex_char d)"
proof -
  assume "d < 16"
  moreover have "list_all (\<lambda>d. is_hex (hex_char d)) [0..<16]" by (simp add: upt_rec is_hex_def is_digit_def hex_char_def Let_def)
  ultimately show ?thesis by (simp add: list_all_iff)
qed

lemma show_hex_nonempty [simp]: "show_hex n \<noteq> []"
  by (subst show_hex.simps) simp

lemma show_hex_hex: "list_all is_hex (show_hex n)"
proof (induction n rule: show_hex.induct)
  case (1 n)
  then show ?case by (subst show_hex.simps) simp
qed

lemma show_hex_not_in: "\<not> is_hex c \<Longrightarrow> c \<notin> set (show_hex n)"
  using show_hex_hex [of n] by (auto simp: list_all_iff)

lemma fmt_subslice_Cons:
  "fmt_subslice (x # xs) = show_hex (unat x) @ (if xs = [] then [] else CHR '':'' # fmt_subslice xs)"
  by (cases xs) (simp_all add: fmt_subslice_def)

lemma fmt_subslice_Nil [simp]: "fmt_subslice [] = []"
  by (simp add: fmt_subslice_def)

lemma fmt_subslice_chars: "c \<in> set (fmt_subslice segs) \<Longrightarrow> is_hex c \<or> c = CHR '':''"
proof (induction segs)
  case (Cons x xs)
  then show ?case using show_hex_hex [of "unat x"] by (auto simp: fmt_subslice_Cons list_all_iff split: if_splits)
qed simp

text \<open>The text of a well-formed V6 address has a colon, and no character that ends or brackets the
  authority of a URL.\<close>

lemma show_ipv4_chars: "c \<in> set (show_ipv4 ip) \<Longrightarrow> is_digit c \<or> c = CHR ''.''"
  using show_nat_digits by (cases ip) (auto simp: list_all_iff)

lemma ip_text_chars: "c \<in> set (ip_to_string ip) \<Longrightarrow> is_hex c \<or> c = CHR '':'' \<or> c = CHR ''.''"
  using show_ipv4_chars fmt_subslice_chars
  by (cases ip; simp add: is_hex_def split: if_splits prod.splits) (fastforce simp: is_hex_def)+

lemma fmt_two: "2 \<le> length segs \<Longrightarrow> CHR '':'' \<in> set (fmt_subslice segs)"
  by (cases segs; cases "tl segs") (auto simp: fmt_subslice_Cons)

lemma v6_has_colon: "length segs = 8 \<Longrightarrow> CHR '':'' \<in> set (ip_to_string (V6 segs))"
  by (cases "zero_run 0 (0, 0) (0, 0) segs") (simp add: fmt_two)

lemma ip_text_not_in:
  "CHR ''/'' \<notin> set (ip_to_string ip)" "CHR ''@'' \<notin> set (ip_to_string ip)"
  "CHR ''['' \<notin> set (ip_to_string ip)" "CHR '']'' \<notin> set (ip_to_string ip)"
  by (auto dest!: ip_text_chars simp: is_hex_def is_digit_def)

lemma ip_text_nonempty: "ip_wf ip \<Longrightarrow> ip_to_string ip \<noteq> []"
proof (cases ip)
  case (V4 x)
  then show ?thesis by (cases x) simp
next
  case (V6 segs)
  assume "ip_wf ip"
  with V6 v6_has_colon [of segs] show ?thesis by force
qed

text \<open>Masks of leading bits.\<close>

lemma unat_high_bits: "unat (w AND NOT (mask n)) = unat w div 2 ^ n * 2 ^ n" for w :: "'a::len word"
proof -
  have "w AND NOT (mask n) = push_bit n (drop_bit n w)"
    by (rule bit_word_eqI) (auto simp: bit_simps)
  moreover have "unat w div 2 ^ n * 2 ^ n < 2 ^ LENGTH('a)"
    by (metis div_times_less_eq_dividend order_le_less_trans unsigned_less)
  moreover have "unat (push_bit n (drop_bit n w)) = take_bit LENGTH('a) (unat w div 2 ^ n * 2 ^ n)"
    by (simp only: unsigned_push_bit_eq unsigned_drop_bit_eq) (simp add: drop_bit_eq_div push_bit_eq_mult take_bit_nat_eq_self)
  ultimately show ?thesis by (simp add: take_bit_eq_mod)
qed

lemma high_bits_iff:
  fixes w v :: "'a::len word"
  assumes "unat v = k * 2 ^ n"
  shows "w AND NOT (mask n) = v \<longleftrightarrow> k * 2 ^ n \<le> unat w \<and> unat w < Suc k * 2 ^ n"
proof -
  have "w AND NOT (mask n) = v \<longleftrightarrow> unat w div 2 ^ n * 2 ^ n = k * 2 ^ n"
    by (simp add: word_unat_eq_iff unat_high_bits assms)
  also have "\<dots> \<longleftrightarrow> unat w div 2 ^ n = k" by simp
  also have "\<dots> \<longleftrightarrow> k \<le> unat w div 2 ^ n \<and> unat w div 2 ^ n < Suc k" by auto
  also have "\<dots> \<longleftrightarrow> k * 2 ^ n \<le> unat w \<and> unat w < Suc k * 2 ^ n"
    by (simp only: less_eq_div_iff_mult_less_eq div_less_iff_less_mult zero_less_power zero_less_numeral)
  finally show ?thesis .
qed

end
