(* ===== verification/Federation.thy ===== *)
theory Federation
  imports Ip_Addr
begin

text \<open>
  Remote SPARQL execution (\<open>src/src/sparql/federation\<close>): the endpoint policy with its address
  blocklist and resolve-once URL (\<open>policy.rs\<close>), the circuit breaker, its observability table and
  the shared agent (\<open>circuit.rs\<close>), the result cache, and the two execution paths with the reader of
  SPARQL results (\<open>http.rs\<close>). DNS, the HTTP client, the JSON and SPARQL parsers, the hash of a
  query, the text form of a stored JSON value and the credential store are fields of \<open>fed_env\<close>; every request handed to the HTTP
  client is recorded in the state.
\<close>

section \<open>Configuration and state\<close>

type_synonym i32 = "32 word"
type_synonym u32 = "32 word"

record fed_gucs =
  FEDERATION_ENDPOINT_POLICY :: "string option"
  FEDERATION_ALLOWED_ENDPOINTS :: "string option"
  FEDERATION_CIRCUIT_BREAKER_THRESHOLD :: i32
  FEDERATION_CIRCUIT_BREAKER_RESET_SECONDS :: i32
  FEDERATION_CACHE_TTL :: i32
  FEDERATION_MAX_RESPONSE_BYTES :: i32
  FEDERATION_PARTIAL_RECOVERY_MAX_BYTES :: i32
  FEDERATION_POOL_SIZE :: i32
  FEDERATION_CONNECT_TIMEOUT_SECS :: i32
  FEDERATION_TIMEOUT :: i32
  FEDERATION_ADAPTIVE_TIMEOUT :: bool

record http_request =
  rq_url :: string
  rq_query :: string
  rq_headers :: "(string \<times> string) list"

record http_response =
  rs_content_length :: "string option"
  rs_body :: "string + string"

record http_agent =
  ag_connect_timeout :: nat
  ag_timeout :: nat
  ag_pool_size :: nat

record fed_env =
  to_socket_addrs :: "string \<Rightarrow> nat \<Rightarrow> string + IpAddr list"
  http_call :: "http_agent \<Rightarrow> http_request \<Rightarrow> string + http_response"
  http_post :: "http_agent \<Rightarrow> http_request \<Rightarrow> string + (string + string)"
  json_from_str :: "string \<Rightarrow> string + json"
  spargebra_display :: "string \<Rightarrow> string option"
  jsonb_text :: "string \<Rightarrow> string"
  query_hash :: "string \<Rightarrow> string"
  get_credential_for_endpoint :: "string \<Rightarrow> (string \<times> string \<times> string) option"

datatype CircuitState = Closed | Open nat | HalfOpen

record CircuitBreaker =
  cb_state :: CircuitState
  consecutive_failures :: u32

record circuit_row =
  cr_state :: string
  cr_last_failure_at :: "int option"
  cr_failure_count :: i32

record fed_stat =
  fst_call_count :: int
  fst_error_count :: int
  fst_total_latency_ms :: int
  fst_max_latency_ms :: int
  fst_row_estimate :: int

record fed_state =
  CIRCUIT_BREAKERS :: "string \<rightharpoonup> CircuitBreaker"
  federation_circuit_state :: "string \<rightharpoonup> circuit_row"
  federation_cache :: "string \<times> string \<rightharpoonup> string \<times> int"
  federation_stats :: "string \<rightharpoonup> fed_stat"
  SHARED_AGENT :: "http_agent option"
  fed_shmem_ready :: bool
  FED_BLOCKED_COUNT :: u64
  FED_CALL_COUNT :: u64
  FED_ERROR_COUNT :: u64
  fed_requests :: "http_request list"

text \<open>The two clocks: a monotonic one in nanoseconds, and the seconds of the epoch.\<close>

record clock =
  mono_ns :: nat
  epoch_secs :: int

section \<open>Endpoint policy\<close>

definition option_default :: "'a \<Rightarrow> 'a option \<Rightarrow> 'a" where
  "option_default d x = (case x of None \<Rightarrow> d | Some v \<Rightarrow> v)"

definition parse_u8 :: "string \<Rightarrow> nat option" where
  "parse_u8 s = parse_unsigned 256 s"

definition octet_in :: "string option \<Rightarrow> nat \<Rightarrow> nat \<Rightarrow> bool" where
  "octet_in s lo hi = (case Option.bind s parse_u8 of Some n \<Rightarrow> lo \<le> n \<and> n \<le> hi | None \<Rightarrow> False)"

function is_blocked_host :: "string \<Rightarrow> bool" where
  "is_blocked_host host =
     (let h_lower = to_lowercase host in
      if host = ''localhost'' \<or> host = ''127.0.0.1'' \<or> host = ''::1'' \<or> starts_with host ''127.'' then True
      else if starts_with host ''169.254.'' then True
      else if starts_with h_lower ''fe80'' then True
      else if starts_with h_lower ''fc'' \<or> starts_with h_lower ''fd'' then True
      else if starts_with host ''10.'' then True
      else if octet_in (map_option (\<lambda>rest. hd (split_char CHR ''.'' rest)) (strip_prefix ''172.'' host)) 16 31 then True
      else if starts_with host ''192.168.'' then True
      else if octet_in (map_option (\<lambda>rest. hd (split_char CHR ''.'' rest)) (strip_prefix ''100.'' host)) 64 127 then True
      else if octet_in (Some (hd (split_char CHR ''.'' host))) 224 239 then True
      else if starts_with host ''0.'' then True
      else (case strip_prefix ''::ffff:'' h_lower of
              Some ipv4_part \<Rightarrow> is_blocked_host ipv4_part
            | None \<Rightarrow> False))"
  by pat_completeness auto
termination
  by (relation "measure length") (auto simp: strip_prefix_def to_lowercase_def starts_with_iff split: if_splits dest!: arg_cong [where f = length])

declare is_blocked_host.simps [simp del]

definition strip_userinfo :: "string \<Rightarrow> string" where
  "strip_userinfo authority = (case split_once ''@'' authority of Some (_, hp) \<Rightarrow> hp | None \<Rightarrow> authority)"

definition extract_host :: "string \<Rightarrow> string option" where
  "extract_host url =
     (case split_once ''://'' url of
        None \<Rightarrow> None
      | Some (_, after_scheme) \<Rightarrow>
          (let authority = hd (split_char CHR ''/'' after_scheme);
               host_port = strip_userinfo authority in
           if starts_with host_port ''['' then
             map_option (\<lambda>(h, _). trim_start_matches CHR ''['' h) (split_once '']'' host_port)
           else (let host = hd (split_char CHR '':'' host_port) in if host = [] then None else Some host)))"

definition extract_port :: "string \<Rightarrow> nat option" where
  "extract_port url =
     (case split_once ''://'' url of
        None \<Rightarrow> None
      | Some (_, after_scheme) \<Rightarrow>
          (let authority = hd (split_char CHR ''/'' after_scheme);
               host_port = strip_userinfo authority in
           if starts_with host_port ''['' then
             Option.bind (split_once '']'' host_port) (\<lambda>(_, rest).
               Option.bind (strip_prefix '':'' rest) (parse_unsigned 65536))
           else Option.bind (split_once '':'' host_port) (\<lambda>(_, p). parse_unsigned 65536 p)))"

definition blocked_msg :: "string \<Rightarrow> string" where
  "blocked_msg url = ''PT606: SERVICE endpoint blocked by federation_endpoint_policy: '' @ url"

definition squote :: "string \<Rightarrow> string" where
  "squote s = CHR 0x27 # s @ [CHR 0x27]"

definition endpoint_policy :: "fed_gucs \<Rightarrow> string" where
  "endpoint_policy cfg = option_default ''default-deny'' (FEDERATION_ENDPOINT_POLICY cfg)"

definition check_endpoint_policy :: "fed_gucs \<Rightarrow> string \<Rightarrow> string + unit" where
  "check_endpoint_policy cfg url =
     (let policy = endpoint_policy cfg in
      if policy = ''open'' then Inr ()
      else if policy = ''allowlist'' then
        (let allowed = option_default [] (FEDERATION_ALLOWED_ENDPOINTS cfg);
             entries = filter (\<lambda>s. s \<noteq> []) (map trim (split_char CHR '','' allowed)) in
         if list_ex (\<lambda>entry. entry = url) entries then Inr () else Inl (blocked_msg url))
      else if starts_with url ''file://'' then Inl (blocked_msg url)
      else if (case extract_host url of Some host \<Rightarrow> is_blocked_host host | None \<Rightarrow> False) then Inl (blocked_msg url)
      else Inr ())"

record ResolvedEndpoint =
  connect_url :: string
  host_header :: string

definition build_url_with_ip :: "string \<Rightarrow> string \<Rightarrow> nat \<Rightarrow> string" where
  "build_url_with_ip url ip_str port =
     (case split_once ''://'' url of
        None \<Rightarrow> url
      | Some (scheme, after_scheme) \<Rightarrow>
          (let (authority, path_query) =
                 (case split_once ''/'' after_scheme of
                    Some (a, rest) \<Rightarrow> (a, CHR ''/'' # rest)
                  | None \<Rightarrow> (after_scheme, []));
               default_port = (if scheme = ''https'' then 443 else 80);
               ip_in_url =
                 (if contains_char CHR '':'' ip_str then
                    (if port = default_port then ''['' @ ip_str @ '']''
                     else ''['' @ ip_str @ '']:'' @ show_nat port)
                  else if contains_char CHR '':'' authority \<or> port \<noteq> default_port
                    then ip_str @ '':'' @ show_nat port
                  else ip_str)
           in scheme @ ''://'' @ ip_in_url @ path_query))"

definition resolve_and_check_endpoint :: "fed_env \<Rightarrow> fed_gucs \<Rightarrow> string \<Rightarrow> string + ResolvedEndpoint" where
  "resolve_and_check_endpoint env cfg url =
     (case check_endpoint_policy cfg url of
        Inl e \<Rightarrow> Inl e
      | Inr _ \<Rightarrow>
          if endpoint_policy cfg = ''open'' then
            Inr \<lparr>connect_url = url, host_header = option_default [] (extract_host url)\<rparr>
          else
            (case extract_host url of
               None \<Rightarrow> Inl (''PT606: could not extract host from federation URL: '' @ url)
             | Some host \<Rightarrow>
                 (let port = option_default (if starts_with url ''https://'' then 443 else 80) (extract_port url) in
                  case to_socket_addrs env host port of
                    Inl e \<Rightarrow> Inl (''PT606: DNS resolution failed for '' @ squote host @ '': '' @ e)
                  | Inr addrs \<Rightarrow>
                      if addrs = [] then Inl (''PT606: DNS resolution returned no addresses for '' @ squote host)
                      else
                        (case find (\<lambda>ip. is_blocked_host (ip_to_string ip)) addrs of
                           Some ip \<Rightarrow> Inl (''PT606: SERVICE endpoint blocked by federation_endpoint_policy: '' @ squote host
                                          @ '' resolved to blocked address '' @ ip_to_string ip)
                         | None \<Rightarrow>
                             Inr \<lparr>connect_url = build_url_with_ip url (ip_to_string (hd addrs)) port,
                                  host_header = (if port = 80 \<or> port = 443 then host else host @ '':'' @ show_nat port)\<rparr>))))"

definition normalise_federation_url :: "string \<Rightarrow> string" where
  "normalise_federation_url url =
     (case find_str ''://'' url of
        Some after_scheme \<Rightarrow>
          (let scheme = to_lowercase (take after_scheme url);
               rest = drop (after_scheme + 3) url;
               (host_port, path) =
                 (case find_str ''/'' rest of Some i \<Rightarrow> (take i rest, drop i rest) | None \<Rightarrow> (rest, []))
           in scheme @ ''://'' @ to_lowercase host_port @ trim_end_matches CHR ''/'' path)
      | None \<Rightarrow> trim_end_matches CHR ''/'' (to_lowercase url))"

section \<open>Circuit breaker\<close>

definition breaker_new :: CircuitBreaker where
  "breaker_new = \<lparr>cb_state = Closed, consecutive_failures = 0\<rparr>"

definition record_success :: "CircuitBreaker \<Rightarrow> CircuitBreaker" where
  "record_success cb = cb\<lparr>consecutive_failures := 0, cb_state := Closed\<rparr>"

definition record_failure :: "fed_gucs \<Rightarrow> nat \<Rightarrow> CircuitBreaker \<Rightarrow> CircuitBreaker" where
  "record_failure cfg now cb =
     (let cb = cb\<lparr>consecutive_failures := consecutive_failures cb + 1\<rparr>;
          threshold = FEDERATION_CIRCUIT_BREAKER_THRESHOLD cfg :: u32 in
      if 0 < threshold \<and> threshold \<le> consecutive_failures cb then cb\<lparr>cb_state := Open now\<rparr> else cb)"

text \<open>The reset period is an \<open>i32\<close> cast to \<open>u64\<close>.\<close>

definition reset_secs :: "fed_gucs \<Rightarrow> nat" where
  "reset_secs cfg = unat (scast (FEDERATION_CIRCUIT_BREAKER_RESET_SECONDS cfg) :: u64)"

definition is_open :: "fed_gucs \<Rightarrow> nat \<Rightarrow> CircuitBreaker \<Rightarrow> bool \<times> CircuitBreaker" where
  "is_open cfg now cb =
     (case cb_state cb of
        Open opened_at \<Rightarrow>
          if reset_secs cfg \<le> (now - opened_at) div 10 ^ 9 then (False, cb\<lparr>cb_state := HalfOpen\<rparr>) else (True, cb)
      | _ \<Rightarrow> (False, cb))"

definition circuit_is_open :: "fed_gucs \<Rightarrow> nat \<Rightarrow> string \<Rightarrow> fed_state \<Rightarrow> bool \<times> fed_state" where
  "circuit_is_open cfg now url st =
     (if sint (FEDERATION_CIRCUIT_BREAKER_THRESHOLD cfg) \<le> 0 then (False, st)
      else (let breaker = option_default breaker_new (CIRCUIT_BREAKERS st url);
                (r, breaker) = is_open cfg now breaker
            in (r, st\<lparr>CIRCUIT_BREAKERS := (CIRCUIT_BREAKERS st)(url \<mapsto> breaker)\<rparr>)))"

definition circuit_sync_to_db :: "string \<Rightarrow> string \<Rightarrow> u32 \<Rightarrow> int option \<Rightarrow> fed_state \<Rightarrow> fed_state" where
  "circuit_sync_to_db url state failure_count last_failure st =
     st\<lparr>federation_circuit_state := (federation_circuit_state st)
          (url \<mapsto> \<lparr>cr_state = state, cr_last_failure_at = last_failure, cr_failure_count = failure_count\<rparr>)\<rparr>"

definition circuit_record_success :: "string \<Rightarrow> fed_state \<Rightarrow> fed_state" where
  "circuit_record_success url st =
     (case CIRCUIT_BREAKERS st url of
        None \<Rightarrow> st
      | Some breaker \<Rightarrow>
          (let was_open = (case cb_state breaker of Closed \<Rightarrow> False | _ \<Rightarrow> True);
               st = st\<lparr>CIRCUIT_BREAKERS := (CIRCUIT_BREAKERS st)(url \<mapsto> record_success breaker)\<rparr>
           in if was_open then circuit_sync_to_db url ''closed'' 0 None st else st))"

definition circuit_record_failure :: "fed_gucs \<Rightarrow> clock \<Rightarrow> string \<Rightarrow> fed_state \<Rightarrow> fed_state" where
  "circuit_record_failure cfg clk url st =
     (let breaker = record_failure cfg (mono_ns clk) (option_default breaker_new (CIRCUIT_BREAKERS st url));
          st = st\<lparr>CIRCUIT_BREAKERS := (CIRCUIT_BREAKERS st)(url \<mapsto> breaker)\<rparr>;
          state_str = (case cb_state breaker of Closed \<Rightarrow> ''closed'' | Open _ \<Rightarrow> ''open'' | HalfOpen \<Rightarrow> ''half_open'')
      in circuit_sync_to_db url state_str (consecutive_failures breaker) (Some (epoch_secs clk)) st)"

definition normalize_http_err :: "string \<Rightarrow> string" where
  "normalize_http_err s =
     (case rfind_str '' (os error '' s of
        Some start \<Rightarrow>
          (let stop = (case find_str '')'' (drop start s) of Some i \<Rightarrow> start + i + 1 | None \<Rightarrow> length s)
           in take start s @ (if stop < length s then drop stop s else []))
      | None \<Rightarrow> s)"

text \<open>The agent is created by the first call and kept.\<close>

definition get_agent :: "fed_gucs \<Rightarrow> nat \<Rightarrow> nat \<Rightarrow> fed_state \<Rightarrow> http_agent \<times> fed_state" where
  "get_agent cfg timeout pool_size st =
     (case SHARED_AGENT st of
        Some agent \<Rightarrow> (agent, st)
      | None \<Rightarrow>
          (let connect_secs = unat (scast (FEDERATION_CONNECT_TIMEOUT_SECS cfg) :: u64);
               agent = \<lparr>ag_connect_timeout = max connect_secs 1, ag_timeout = timeout, ag_pool_size = pool_size\<rparr>
           in (agent, st\<lparr>SHARED_AGENT := Some agent\<rparr>)))"

section \<open>Result cache and statistics\<close>

text \<open>The adaptive timeout; \<open>p95\<close> is the 95th percentile of the last latencies, an \<open>i64\<close>, when
  there is a health table with data. The product wraps, and the quotient is cut to 32 bits before it
  is bounded.\<close>

definition effective_timeout_secs :: "fed_gucs \<Rightarrow> i64 option \<Rightarrow> int" where
  "effective_timeout_secs cfg p95 =
     (let base = sint (FEDERATION_TIMEOUT cfg) in
      if \<not> FEDERATION_ADAPTIVE_TIMEOUT cfg then base
      else (case p95 of
              Some ms \<Rightarrow> if 0 < sint ms
                then min (sint (word_of_int (max (sint (ms * 3) div 1000) 1) :: i32)) 3600 else base
            | None \<Rightarrow> base))"

definition normalise_sparql_for_cache :: "fed_env \<Rightarrow> string \<Rightarrow> string" where
  "normalise_sparql_for_cache env sparql =
     (case spargebra_display env sparql of Some q \<Rightarrow> q | None \<Rightarrow> join_str '' '' (split_whitespace sparql))"

definition cache_key :: "fed_env \<Rightarrow> string \<Rightarrow> string" where
  "cache_key env sparql_text = query_hash env (normalise_sparql_for_cache env sparql_text)"

definition cache_lookup :: "fed_env \<Rightarrow> fed_gucs \<Rightarrow> int \<Rightarrow> string \<Rightarrow> string \<Rightarrow> fed_state \<Rightarrow> string option" where
  "cache_lookup env cfg now url sparql_text st =
     (if FEDERATION_CACHE_TTL cfg = 0 then None
      else (case federation_cache st (url, cache_key env sparql_text) of
              Some (body, expires_at) \<Rightarrow> if now < expires_at then Some body else None
            | None \<Rightarrow> None))"

definition cache_store :: "fed_env \<Rightarrow> fed_gucs \<Rightarrow> int \<Rightarrow> string \<Rightarrow> string \<Rightarrow> string \<Rightarrow> fed_state \<Rightarrow> fed_state" where
  "cache_store env cfg now url sparql_text body st =
     (if FEDERATION_CACHE_TTL cfg = 0 then st
      else (case json_from_str env body of
              Inl _ \<Rightarrow> st
            | Inr _ \<Rightarrow> st\<lparr>federation_cache := (federation_cache st)
                ((url, cache_key env sparql_text) \<mapsto> (jsonb_text env body, now + sint (FEDERATION_CACHE_TTL cfg)))\<rparr>))"

text \<open>The averages \<open>p50_ms\<close> and \<open>p95_ms\<close> are functions of the other columns and are left out;
  latencies are whole milliseconds.\<close>

definition update_federation_stats :: "string \<Rightarrow> int \<Rightarrow> int \<Rightarrow> bool \<Rightarrow> fed_state \<Rightarrow> fed_state" where
  "update_federation_stats url latency_ms row_count is_error st =
     (let e = (if is_error then 1 else 0);
          row = (case federation_stats st url of
                   None \<Rightarrow> \<lparr>fst_call_count = 1, fst_error_count = e, fst_total_latency_ms = latency_ms,
                             fst_max_latency_ms = latency_ms, fst_row_estimate = row_count\<rparr>
                 | Some fs \<Rightarrow> \<lparr>fst_call_count = fst_call_count fs + 1, fst_error_count = fst_error_count fs + e,
                             fst_total_latency_ms = fst_total_latency_ms fs + latency_ms,
                             fst_max_latency_ms = max (fst_max_latency_ms fs) latency_ms,
                             fst_row_estimate = (if e = 0 then row_count else fst_row_estimate fs)\<rparr>)
      in st\<lparr>federation_stats := (federation_stats st)(url \<mapsto> row)\<rparr>)"

section \<open>SPARQL results\<close>

type_synonym remote_result = "string list \<times> string option list list"

definition json_get :: "string \<Rightarrow> json \<Rightarrow> json option" where
  "json_get k v = (case v of JObject kvs \<Rightarrow> map_of kvs k | _ \<Rightarrow> None)"

definition as_str :: "json \<Rightarrow> string option" where
  "as_str v = (case v of JString s \<Rightarrow> Some s | _ \<Rightarrow> None)"

definition as_array :: "json \<Rightarrow> json list option" where
  "as_array v = (case v of JArray xs \<Rightarrow> Some xs | _ \<Rightarrow> None)"

definition dquote :: "string \<Rightarrow> string" where
  "dquote s = CHR 0x22 # s @ [CHR 0x22]"

definition sparql_result_term_to_ntriples :: "json \<Rightarrow> string option" where
  "sparql_result_term_to_ntriples t =
     Option.bind (Option.bind (json_get ''type'' t) as_str) (\<lambda>ty.
     Option.bind (Option.bind (json_get ''value'' t) as_str) (\<lambda>value.
       if ty = ''uri'' then Some (''<'' @ value @ ''>'')
       else if ty = ''bnode'' then Some (''_:'' @ value)
       else if ty = ''literal'' then
         (case Option.bind (json_get ''xml:lang'' t) as_str of
            Some lang \<Rightarrow> Some (dquote value @ ''@'' @ lang)
          | None \<Rightarrow>
              (case Option.bind (json_get ''datatype'' t) as_str of
                 Some dt \<Rightarrow> if dt = ''http://www.w3.org/2001/XMLSchema#string'' then Some (dquote value)
                            else Some (dquote value @ ''^^<'' @ dt @ ''>'')
               | None \<Rightarrow> Some (dquote value)))
       else None))"

definition result_rows :: "string list \<Rightarrow> json list \<Rightarrow> nat \<Rightarrow> string option list list" where
  "result_rows variables bindings max_results =
     map (\<lambda>binding. map (\<lambda>var. Option.bind (json_get var binding) sparql_result_term_to_ntriples) variables)
       (take max_results bindings)"

definition head_vars :: "json \<Rightarrow> json list option" where
  "head_vars doc = Option.bind (json_get ''head'' doc) (\<lambda>h. Option.bind (json_get ''vars'' h) as_array)"

definition result_bindings :: "json \<Rightarrow> json list option" where
  "result_bindings doc = Option.bind (json_get ''results'' doc) (\<lambda>r. Option.bind (json_get ''bindings'' r) as_array)"

definition str_vars :: "json list \<Rightarrow> string list" where
  "str_vars vs = map the (filter (\<lambda>v. v \<noteq> None) (map as_str vs))"

definition parse_sparql_results_json :: "fed_env \<Rightarrow> string \<Rightarrow> nat \<Rightarrow> string + remote_result" where
  "parse_sparql_results_json env body max_results =
     (case json_from_str env body of
        Inl e \<Rightarrow> Inl (''JSON parse error: '' @ e)
      | Inr doc \<Rightarrow>
          (case head_vars doc of
             None \<Rightarrow> Inl ''missing head.vars in SPARQL results JSON''
           | Some vs \<Rightarrow>
               (case result_bindings doc of
                  None \<Rightarrow> Inl ''missing results.bindings in SPARQL results JSON''
                | Some bindings \<Rightarrow> Inr (str_vars vs, result_rows (str_vars vs) bindings max_results))))"

definition parse_sparql_results_json_partial :: "fed_env \<Rightarrow> string \<Rightarrow> nat \<Rightarrow> remote_result" where
  "parse_sparql_results_json_partial env body max_results =
     (let doc = (case json_from_str env body of
                   Inr v \<Rightarrow> Some v
                 | Inl _ \<Rightarrow>
                     (case rfind_str ''},'' body of
                        Some bracket_pos \<Rightarrow>
                          (case json_from_str env (take (Suc bracket_pos) body @ '']}}}'') of Inr v \<Rightarrow> Some v | Inl _ \<Rightarrow> None)
                      | None \<Rightarrow> None)) in
      case doc of
        None \<Rightarrow> ([], [])
      | Some doc \<Rightarrow>
          (case head_vars doc of
             None \<Rightarrow> ([], [])
           | Some vs \<Rightarrow>
               (case result_bindings doc of
                  None \<Rightarrow> (str_vars vs, [])
                | Some bindings \<Rightarrow> (str_vars vs, result_rows (str_vars vs) bindings max_results))))"

section \<open>Execution\<close>

definition as_usize :: "i32 \<Rightarrow> nat" where
  "as_usize x = unat (scast x :: u64)"

definition too_long :: "fed_gucs \<Rightarrow> http_response \<Rightarrow> int option" where
  "too_long cfg response =
     (let max_bytes = sint (FEDERATION_MAX_RESPONSE_BYTES cfg) in
      if max_bytes < 0 then None
      else (case Option.bind (rs_content_length response) parse_i64 of
              Some n \<Rightarrow> if max_bytes < n then Some n else None
            | None \<Rightarrow> None))"

definition auth_headers :: "(string \<times> string \<times> string) option \<Rightarrow> (string \<times> string) list" where
  "auth_headers credential =
     (case credential of
        None \<Rightarrow> []
      | Some (auth_type, header_name, token) \<Rightarrow>
          if auth_type = ''bearer'' then [(header_name, ''Bearer '' @ token)]
          else if auth_type = ''apikey'' then [(header_name, token)] else [])"

definition build_request :: "ResolvedEndpoint \<Rightarrow> string \<Rightarrow> (string \<times> string) list \<Rightarrow> http_request" where
  "build_request resolved sparql_text extra =
     \<lparr>rq_url = connect_url resolved, rq_query = sparql_text,
      rq_headers = [(''Accept'', ''application/sparql-results+json''), (''Host'', host_header resolved)] @ extra\<rparr>"

definition send :: "fed_env \<Rightarrow> fed_gucs \<Rightarrow> int \<Rightarrow> http_request \<Rightarrow> fed_state \<Rightarrow> (string + http_response) \<times> fed_state" where
  "send env cfg timeout_secs req st =
     (let (agent, st) = get_agent cfg (nat (max timeout_secs 1)) (nat (max (sint (FEDERATION_POOL_SIZE cfg)) 1)) st
      in (http_call env agent req, st\<lparr>fed_requests := fed_requests st @ [req]\<rparr>))"

text \<open>\<open>finish_body\<close> is the tail of \<open>execute_remote\<close> after the body has been read.\<close>

definition finish_body :: "fed_env \<Rightarrow> fed_gucs \<Rightarrow> clock \<Rightarrow> clock \<Rightarrow> string \<Rightarrow> string \<Rightarrow> nat \<Rightarrow> string \<Rightarrow> fed_state
    \<Rightarrow> (string + remote_result) \<times> fed_state" where
  "finish_body env cfg t0 t1 url sparql_text max_results body st =
     (let max_bytes = sint (FEDERATION_MAX_RESPONSE_BYTES cfg);
          latency_ms = int (mono_ns t1 - mono_ns t0) div 10 ^ 6 in
      if 0 \<le> max_bytes \<and> nat max_bytes < length body then
        (Inr (parse_sparql_results_json_partial env (take (nat max_bytes) body) max_results), st)
      else
        (case parse_sparql_results_json env body max_results of
           Inr result \<Rightarrow>
             (let st = cache_store env cfg (epoch_secs t1) url sparql_text body st;
                  st = circuit_record_success url st;
                  st = update_federation_stats url latency_ms (int (length (snd result))) False st
              in (Inr result, st))
         | Inl e \<Rightarrow>
             (let st = (if fed_shmem_ready st then
                          update_federation_stats url latency_ms 0 True
                            (circuit_record_failure cfg t1 url (st\<lparr>FED_ERROR_COUNT := FED_ERROR_COUNT st + 1\<rparr>))
                        else st)
              in (Inl (''federation result parse error from '' @ url @ '': '' @ e), st))))"

definition execute_remote :: "fed_env \<Rightarrow> fed_gucs \<Rightarrow> clock \<Rightarrow> clock \<Rightarrow> string \<Rightarrow> string \<Rightarrow> int \<Rightarrow> i32 \<Rightarrow> fed_state
    \<Rightarrow> (string + remote_result) \<times> fed_state" where
  "execute_remote env cfg t0 t1 url sparql_text timeout_secs max_results st =
     (let (blocked, st) = circuit_is_open cfg (mono_ns t0) url st in
      if blocked then
        (Inl (''PT605: federation circuit breaker open for endpoint '' @ url @ ''; try again later''), st)
      else
        (case resolve_and_check_endpoint env cfg url of
           Inl e \<Rightarrow> (Inl e, if fed_shmem_ready st then st\<lparr>FED_BLOCKED_COUNT := FED_BLOCKED_COUNT st + 1\<rparr> else st)
         | Inr resolved \<Rightarrow>
             (let st = (if fed_shmem_ready st then st\<lparr>FED_CALL_COUNT := FED_CALL_COUNT st + 1\<rparr> else st) in
              case cache_lookup env cfg (epoch_secs t0) url sparql_text st of
                Some cached_body \<Rightarrow>
                  ((case parse_sparql_results_json env cached_body (as_usize max_results) of
                      Inl e \<Rightarrow> Inl (''federation cache parse error from '' @ url @ '': '' @ e)
                    | Inr r \<Rightarrow> Inr r), st)
              | None \<Rightarrow>
                  (case send env cfg timeout_secs
                          (build_request resolved sparql_text (auth_headers (get_credential_for_endpoint env url))) st of
                     (Inl e, st) \<Rightarrow>
                       (Inl (''federation HTTP error calling '' @ url @ '': '' @ normalize_http_err e),
                        circuit_record_failure cfg t1 url st)
                   | (Inr response, st) \<Rightarrow>
                       (case too_long cfg response of
                          Some n \<Rightarrow>
                            (Inl (''PT543: federation response from '' @ url @ '' Content-Length '' @ show_int n
                                  @ '' exceeds pg_ripple.federation_max_response_bytes (''
                                  @ show_int (sint (FEDERATION_MAX_RESPONSE_BYTES cfg)) @ '')''),
                             circuit_record_failure cfg t1 url st)
                        | None \<Rightarrow>
                            (case rs_body response of
                               Inl e \<Rightarrow> (Inl (''federation response read error from '' @ url @ '': '' @ normalize_http_err e), st)
                             | Inr body \<Rightarrow> finish_body env cfg t0 t1 url sparql_text (as_usize max_results) body st))))))"

definition execute_remote_partial :: "fed_env \<Rightarrow> fed_gucs \<Rightarrow> clock \<Rightarrow> clock \<Rightarrow> string \<Rightarrow> string \<Rightarrow> int \<Rightarrow> i32 \<Rightarrow> fed_state
    \<Rightarrow> (string + remote_result) \<times> fed_state" where
  "execute_remote_partial env cfg t0 t1 url sparql_text timeout_secs max_results st =
     (case cache_lookup env cfg (epoch_secs t0) url sparql_text st of
        Some cached_body \<Rightarrow>
          ((case parse_sparql_results_json env cached_body (as_usize max_results) of
              Inl e \<Rightarrow> Inl (''federation cache parse error: '' @ e)
            | Inr r \<Rightarrow> Inr r), st)
      | None \<Rightarrow>
          (case resolve_and_check_endpoint env cfg url of
             Inl e \<Rightarrow> (Inl e, st)
           | Inr resolved \<Rightarrow>
               (case send env cfg timeout_secs (build_request resolved sparql_text []) st of
                  (Inl e, st) \<Rightarrow> (Inl (''federation HTTP error calling '' @ url @ '': '' @ normalize_http_err e), st)
                | (Inr response, st) \<Rightarrow>
                    if too_long cfg response \<noteq> None then (Inr ([], []), st)
                    else
                      (case rs_body response of
                         Inl e \<Rightarrow> (Inr ([], []), st)
                       | Inr body \<Rightarrow>
                           (case parse_sparql_results_json env body (as_usize max_results) of
                              Inr result \<Rightarrow> (Inr result, cache_store env cfg (epoch_secs t1) url sparql_text body st)
                            | Inl _ \<Rightarrow>
                                if as_usize (FEDERATION_PARTIAL_RECOVERY_MAX_BYTES cfg) < length body then (Inr ([], []), st)
                                else (Inr (parse_sparql_results_json_partial env body (as_usize max_results)), st))))))"

end
