(* ===== verification/Federation_Service.thy ===== *)
theory Federation_Service
  imports Complex_Main Federation Dictionary
begin

text \<open>
  The endpoint registry (\<open>federation_registry.rs\<close>, with the registry queries of
  \<open>sparql/federation/policy.rs\<close> and the health log of \<open>decode.rs\<close>), the statistics planner
  (\<open>federation_planner.rs\<close>), the encoding of remote results (\<open>decode.rs\<close>) and the translation
  of a \<open>SERVICE\<close> clause with a fixed endpoint (\<open>sparql/translate/graph.rs\<close>).
\<close>

section \<open>Registry\<close>

record endpoint =
  ep_url :: string
  ep_enabled :: bool
  ep_local_view_name :: "string option"
  ep_complexity :: int
  ep_graph_iri :: "string option"

text \<open>The host a registration check resolves: user information is not removed.\<close>

definition registry_extract_host :: "string \<Rightarrow> string" where
  "registry_extract_host url =
     (let without_scheme = (case strip_prefix ''https://'' url of
                              Some r \<Rightarrow> r
                            | None \<Rightarrow> option_default [] (strip_prefix ''http://'' url));
          host_and_port = hd (split_char CHR ''/'' without_scheme) in
      case rfind_str '']'' host_and_port of
        Some bracket_end \<Rightarrow>
          rev (dropWhile (\<lambda>c. c = CHR ''['' \<or> c = CHR '']'')
            (rev (dropWhile (\<lambda>c. c = CHR ''['' \<or> c = CHR '']'') (take (Suc bracket_end) host_and_port))))
      | None \<Rightarrow> hd (split_char CHR '':'' host_and_port))"

fun is_private_v4 :: "Ipv4Addr \<Rightarrow> bool" where
  "is_private_v4 (Ipv4 a b c d) =
     (if a = 127 then True
      else if a = 10 then True
      else if a = 172 \<and> (16 \<le> b \<and> b \<le> 31) then True
      else if a = 192 \<and> b = 168 then True
      else if a = 169 \<and> b = 254 then True
      else if a = 100 \<and> b AND 0xC0 = 64 then True
      else if 224 \<le> a \<and> a \<le> 239 then True
      else if a = 0 then True
      else False)"

fun is_private_ip :: "IpAddr \<Rightarrow> bool" where
  "is_private_ip (V4 ip) = is_private_v4 ip"
| "is_private_ip (V6 segs) =
     (if v6_is_loopback segs then True
      else if (segs ! 0) AND 0xffc0 = 0xfe80 then True
      else if (segs ! 0) AND 0xfe00 = 0xfc00 then True
      else if v6_mapped segs then is_private_v4 (v4_tail segs)
      else False)"

definition check_private_ip :: "fed_env \<Rightarrow> bool \<Rightarrow> string \<Rightarrow> string + unit" where
  "check_private_ip env FEDERATION_ALLOW_PRIVATE url =
     (if FEDERATION_ALLOW_PRIVATE then Inr ()
      else (let host = registry_extract_host url in
            if host = [] then Inr ()
            else (case to_socket_addrs env host 80 of
                    Inl _ \<Rightarrow> Inr ()
                  | Inr addrs \<Rightarrow>
                      (case find is_private_ip addrs of
                         Some ip \<Rightarrow> Inl (''PT621: register_endpoint: endpoint URL '' @ squote url
                           @ '' resolves to a private/loopback/link-local address ('' @ ip_to_string ip
                           @ ''); set pg_ripple.federation_allow_private = true to override'')
                       | None \<Rightarrow> Inr ()))))"

definition complexity_id :: "string \<Rightarrow> int" where
  "complexity_id c = (if c = ''fast'' then 1 else if c = ''slow'' then 3 else 2)"

definition complexity_text :: "int \<Rightarrow> string" where
  "complexity_text n = (if n = 1 then ''fast'' else if n = 3 then ''slow'' else ''normal'')"

text \<open>The two upserts: a conflicting row keeps its view name when none is given.\<close>

definition upsert_endpoint :: "string \<Rightarrow> string option \<Rightarrow> int \<Rightarrow> string option \<Rightarrow> endpoint list \<Rightarrow> endpoint list" where
  "upsert_endpoint url local_view_name cx_id graph_iri eps =
     (let set_view = option_default [] local_view_name \<noteq> [] in
      if list_ex (\<lambda>e. ep_url e = url) eps then
        map (\<lambda>e. if ep_url e = url then
               e\<lparr>ep_enabled := True, ep_local_view_name := (if set_view then local_view_name else ep_local_view_name e),
                 ep_complexity := cx_id, ep_graph_iri := graph_iri\<rparr> else e) eps
      else eps @ [\<lparr>ep_url = url, ep_enabled = True, ep_local_view_name = (if set_view then local_view_name else None),
                    ep_complexity = cx_id, ep_graph_iri = graph_iri\<rparr>])"

definition set_endpoint_complexity :: "string \<Rightarrow> string \<Rightarrow> endpoint list \<Rightarrow> endpoint list" where
  "set_endpoint_complexity url c eps = map (\<lambda>e. if ep_url e = url then e\<lparr>ep_complexity := complexity_id c\<rparr> else e) eps"

definition remove_endpoint :: "string \<Rightarrow> endpoint list \<Rightarrow> endpoint list" where
  "remove_endpoint url eps = filter (\<lambda>e. ep_url e \<noteq> url) eps"

definition disable_endpoint :: "string \<Rightarrow> endpoint list \<Rightarrow> endpoint list" where
  "disable_endpoint url eps = map (\<lambda>e. if ep_url e = url then e\<lparr>ep_enabled := False\<rparr> else e) eps"

fun insort_by :: "('a \<Rightarrow> 'a \<Rightarrow> bool) \<Rightarrow> 'a \<Rightarrow> 'a list \<Rightarrow> 'a list" where
  "insort_by le x [] = [x]"
| "insort_by le x (y # ys) = (if le x y then x # y # ys else y # insort_by le x ys)"

text \<open>\<open>ORDER BY url\<close>; the collation of the database is a comparison of texts.\<close>

definition list_endpoints :: "(string \<Rightarrow> string \<Rightarrow> bool) \<Rightarrow> endpoint list \<Rightarrow> (string \<times> bool \<times> string option \<times> string) list" where
  "list_endpoints le eps =
     map (\<lambda>e. (ep_url e, ep_enabled e, ep_local_view_name e, complexity_text (ep_complexity e)))
       (foldr (insort_by (\<lambda>a b. le (ep_url a) (ep_url b))) eps [])"

definition is_endpoint_allowed :: "endpoint list \<Rightarrow> string \<Rightarrow> bool" where
  "is_endpoint_allowed eps url =
     list_ex (\<lambda>e. to_lowercase (trim_end_matches CHR ''/'' (ep_url e)) = normalise_federation_url url \<and> ep_enabled e) eps"

definition enabled_row :: "string \<Rightarrow> endpoint list \<Rightarrow> endpoint option" where
  "enabled_row url eps = find (\<lambda>e. ep_url e = url \<and> ep_enabled e) eps"

definition get_local_view :: "endpoint list \<Rightarrow> string \<Rightarrow> string option" where
  "get_local_view eps url = Option.bind (enabled_row url eps) ep_local_view_name"

definition get_graph_iri :: "endpoint list \<Rightarrow> string \<Rightarrow> string option" where
  "get_graph_iri eps url = Option.bind (enabled_row url eps) ep_graph_iri"

definition get_endpoint_complexity :: "endpoint list \<Rightarrow> string \<Rightarrow> string" where
  "get_endpoint_complexity eps url =
     (case enabled_row url eps of Some e \<Rightarrow> complexity_text (ep_complexity e) | None \<Rightarrow> ''normal'')"

definition get_all_graph_endpoints :: "(string \<Rightarrow> string \<Rightarrow> bool) \<Rightarrow> endpoint list \<Rightarrow> (string \<times> string) list" where
  "get_all_graph_endpoints le eps =
     map (\<lambda>e. (ep_url e, the (ep_graph_iri e)))
       (foldr (insort_by (\<lambda>a b. le (ep_url a) (ep_url b)))
          (filter (\<lambda>e. ep_enabled e \<and> ep_graph_iri e \<noteq> None) eps) [])"

definition get_service_graph_ids :: "dict_row list \<Rightarrow> endpoint list \<Rightarrow> i64 list" where
  "get_service_graph_ids rows eps =
     concat (map (\<lambda>e. map dr_id (filter (\<lambda>d. Some (dr_value d) = ep_graph_iri e \<and> dr_kind d = 0) rows))
       (filter (\<lambda>e. ep_graph_iri e \<noteq> None \<and> ep_enabled e) eps))"

section \<open>Health log\<close>

record health_row =
  hr_url :: string
  hr_success :: bool
  hr_latency_ms :: int
  hr_probed_at :: int

text \<open>The table may be absent; a record for an absent table is dropped.\<close>

definition record_health :: "int \<Rightarrow> string \<Rightarrow> bool \<Rightarrow> int \<Rightarrow> health_row list option \<Rightarrow> health_row list option" where
  "record_health now url success latency_ms health =
     map_option (\<lambda>rows. rows @ [\<lparr>hr_url = url, hr_success = success, hr_latency_ms = latency_ms, hr_probed_at = now\<rparr>]) health"

text \<open>\<open>as_f64\<close> is how the database interface delivers the numeric average: \<open>None\<close> is its error.\<close>

definition is_endpoint_healthy :: "(rat \<Rightarrow> rat option) \<Rightarrow> int \<Rightarrow> health_row list option \<Rightarrow> string \<Rightarrow> bool" where
  "is_endpoint_healthy as_f64 now health url =
     (case health of
        None \<Rightarrow> True
      | Some rows \<Rightarrow>
          (let recent = filter (\<lambda>r. hr_url r = url \<and> now - 300 \<le> hr_probed_at r) rows;
               avg = (if recent = [] then 1
                      else of_nat (length (filter hr_success recent)) / of_nat (length recent));
               rate = (case as_f64 avg of Some r \<Rightarrow> r | None \<Rightarrow> 1)
           in 1 / 10 \<le> rate))"

definition evict_expired_cache :: "int \<Rightarrow> fed_state \<Rightarrow> fed_state" where
  "evict_expired_cache now st =
     st\<lparr>federation_cache := (\<lambda>k. case federation_cache st k of
          Some (body, expires_at) \<Rightarrow> if expires_at \<le> now then None else Some (body, expires_at) | None \<Rightarrow> None)\<rparr>"

section \<open>Statistics of endpoints\<close>

record EndpointStats =
  es_total_triples :: i64
  es_predicate_triples :: "string \<rightharpoonup> i64"
  es_distinct_subjects :: i64
  es_distinct_objects :: i64

definition EndpointStats_default :: EndpointStats where
  "EndpointStats_default =
     \<lparr>es_total_triples = 0, es_predicate_triples = Map.empty, es_distinct_subjects = 0, es_distinct_objects = 0\<rparr>"

record registry =
  rg_endpoints :: "endpoint list"
  rg_endpoint_stats :: "string \<rightharpoonup> EndpointStats \<times> int"
  rg_fed :: fed_state

definition url_safe :: "char \<Rightarrow> bool" where
  "url_safe c \<longleftrightarrow> (let n = of_char c :: nat in 65 \<le> n \<and> n \<le> 90 \<or> 97 \<le> n \<and> n \<le> 122 \<or> 48 \<le> n \<and> n \<le> 57)
     \<or> c = CHR ''-'' \<or> c = CHR ''_'' \<or> c = CHR ''.'' \<or> c = CHR ''~''"

definition urlencoding_encode :: "string \<Rightarrow> string" where
  "urlencoding_encode s =
     concat (map (\<lambda>c. if url_safe c then [c] else if c = CHR '' '' then ''+''
                       else [CHR ''%'', hex_char (of_char c div 16), hex_char (of_char c mod 16)]) s)"

definition stats_post :: "fed_env \<Rightarrow> fed_gucs \<Rightarrow> i32 \<Rightarrow> string \<Rightarrow> string \<Rightarrow> fed_state \<Rightarrow> (string + json) \<times> fed_state" where
  "stats_post env cfg FEDERATION_PARALLEL_TIMEOUT url sparql st =
     (let timeout = nat (min (max (sint FEDERATION_PARALLEL_TIMEOUT) 1) 300);
          pool_size = nat (min (max (sint (FEDERATION_POOL_SIZE cfg)) 1) 32);
          (agent, st) = get_agent cfg timeout pool_size st;
          req = \<lparr>rq_url = url, rq_query = ''query='' @ urlencoding_encode sparql,
                 rq_headers = [(''Accept'', ''application/sparql-results+json''),
                               (''Content-Type'', ''application/x-www-form-urlencoded'')]\<rparr>;
          st = st\<lparr>fed_requests := fed_requests st @ [req]\<rparr>
      in ((case http_post env agent req of
             Inl e \<Rightarrow> Inl (''HTTP error: '' @ e)
           | Inr (Inl e) \<Rightarrow> Inl (''Body read error: '' @ e)
           | Inr (Inr body) \<Rightarrow>
               (case json_from_str env body of Inl e \<Rightarrow> Inl (''JSON parse error: '' @ e) | Inr doc \<Rightarrow> Inr doc)), st))"

text \<open>Indexing a JSON value: a missing member is \<open>Null\<close>.\<close>

definition json_index :: "json \<Rightarrow> string \<Rightarrow> json" where
  "json_index v k = (case json_get k v of Some x \<Rightarrow> x | None \<Rightarrow> JNull)"

definition parse_i64_word :: "string \<Rightarrow> i64 option" where
  "parse_i64_word s = map_option word_of_int (parse_i64 s)"

definition binding_rows :: "json \<Rightarrow> json list" where
  "binding_rows doc = (case as_array (json_index (json_index doc ''results'') ''bindings'') of Some xs \<Rightarrow> xs | None \<Rightarrow> [])"

definition binding_count :: "json \<Rightarrow> string \<Rightarrow> i64 option" where
  "binding_count b key = Option.bind (as_str (json_index (json_index b key) ''value'')) parse_i64_word"

definition execute_count_query :: "fed_env \<Rightarrow> fed_gucs \<Rightarrow> i32 \<Rightarrow> string \<Rightarrow> string \<Rightarrow> fed_state \<Rightarrow> (string + i64 list) \<times> fed_state" where
  "execute_count_query env cfg pt url sparql st =
     (case stats_post env cfg pt url sparql st of
        (Inl e, st) \<Rightarrow> (Inl e, st)
      | (Inr doc, st) \<Rightarrow>
          (Inr (concat (map (\<lambda>b. case List.find (\<lambda>key. binding_count b key \<noteq> None) [''c'', ''count'', ''total''] of
                              Some key \<Rightarrow> [the (binding_count b key)] | None \<Rightarrow> []) (binding_rows doc))), st))"

definition execute_predicate_count_query :: "fed_env \<Rightarrow> fed_gucs \<Rightarrow> i32 \<Rightarrow> string \<Rightarrow> string \<Rightarrow> fed_state
    \<Rightarrow> (string + (string \<rightharpoonup> i64)) \<times> fed_state" where
  "execute_predicate_count_query env cfg pt url sparql st =
     (case stats_post env cfg pt url sparql st of
        (Inl e, st) \<Rightarrow> (Inl e, st)
      | (Inr doc, st) \<Rightarrow>
          (Inr (fold (\<lambda>b m.
             let pred = option_default [] (as_str (json_index (json_index b ''p'') ''value''));
                 count = option_default 0 (binding_count b ''c'')
             in if pred \<noteq> [] \<and> 0 < sint count then m(pred \<mapsto> count) else m) (binding_rows doc) Map.empty), st))"

definition count_query :: string where
  "count_query = ''SELECT (COUNT(*) AS ?c) WHERE { ?s ?p ?o }''"

definition pred_query :: string where
  "pred_query = ''SELECT ?p (COUNT(*) AS ?c) WHERE { ?s ?p ?o } GROUP BY ?p ORDER BY DESC(?c) LIMIT 100''"

definition distinct_estimates :: "EndpointStats \<Rightarrow> EndpointStats" where
  "distinct_estimates stats =
     (let t = sint (es_total_triples stats) in
      if 0 < t then stats\<lparr>es_distinct_subjects := word_of_int (max (t div 5) 1),
                          es_distinct_objects := word_of_int (max (t div 3) 1)\<rparr> else stats)"

definition fetch_void_stats :: "fed_env \<Rightarrow> fed_gucs \<Rightarrow> i32 \<Rightarrow> endpoint list \<Rightarrow> string \<Rightarrow> fed_state \<Rightarrow> EndpointStats \<times> fed_state" where
  "fetch_void_stats env cfg pt eps url st =
     (if \<not> is_endpoint_allowed eps url then (EndpointStats_default, st)
      else
        (let stats = EndpointStats_default;
             (r, st) = execute_count_query env cfg pt url count_query st;
             stats = (case r of Inr (c # _) \<Rightarrow> stats\<lparr>es_total_triples := c\<rparr> | _ \<Rightarrow> stats);
             (r2, st) = execute_predicate_count_query env cfg pt url pred_query st;
             stats = (case r2 of Inr m \<Rightarrow> stats\<lparr>es_predicate_triples := m\<rparr> | Inl _ \<Rightarrow> stats)
         in (distinct_estimates stats, st)))"

definition refresh_endpoint_stats :: "fed_env \<Rightarrow> fed_gucs \<Rightarrow> i32 \<Rightarrow> i32 \<Rightarrow> int \<Rightarrow> string \<Rightarrow> registry \<Rightarrow> registry" where
  "refresh_endpoint_stats env cfg pt FEDERATION_STATS_TTL_SECS now url rg =
     (let fresh = (0 < sint FEDERATION_STATS_TTL_SECS \<and>
                   (case rg_endpoint_stats rg url of
                      Some (_, fetched_at) \<Rightarrow> now - sint FEDERATION_STATS_TTL_SECS < fetched_at | None \<Rightarrow> False)) in
      if fresh then rg
      else (let (stats, st) = fetch_void_stats env cfg pt (rg_endpoints rg) url (rg_fed rg)
            in rg\<lparr>rg_endpoint_stats := (rg_endpoint_stats rg)(url \<mapsto> (stats, now)), rg_fed := st\<rparr>))"

definition refresh_federation_stats :: "fed_env \<Rightarrow> fed_gucs \<Rightarrow> i32 \<Rightarrow> i32 \<Rightarrow> int \<Rightarrow> string \<Rightarrow> registry \<Rightarrow> bool \<times> registry" where
  "refresh_federation_stats env cfg pt ttl now url rg =
     (let rg = rg\<lparr>rg_endpoint_stats := (rg_endpoint_stats rg)(url := None)\<rparr>;
          rg = refresh_endpoint_stats env cfg pt ttl now url rg
      in (rg_endpoint_stats rg url \<noteq> None, rg))"

definition register_endpoint :: "fed_env \<Rightarrow> fed_gucs \<Rightarrow> bool \<Rightarrow> i32 \<Rightarrow> i32 \<Rightarrow> int \<Rightarrow> string \<Rightarrow> string option \<Rightarrow> string option \<Rightarrow> string option
    \<Rightarrow> registry \<Rightarrow> string + registry" where
  "register_endpoint env cfg allow_private pt ttl now url local_view_name complexity graph_iri rg =
     (if \<not> (starts_with url ''http://'' \<or> starts_with url ''https://'')
        then Inl (''register_endpoint: URL scheme must be http or https; got: '' @ url)
      else
        (case check_private_ip env allow_private url of
           Inl msg \<Rightarrow> Inl msg
         | Inr _ \<Rightarrow>
             (let cx_id = complexity_id (option_default ''normal'' complexity);
                  rg = rg\<lparr>rg_endpoints := upsert_endpoint url local_view_name cx_id graph_iri (rg_endpoints rg)\<rparr>
              in Inr (if graph_iri = None then refresh_endpoint_stats env cfg pt ttl now url rg else rg))))"

definition load_endpoint_stats :: "string \<Rightarrow> registry \<Rightarrow> EndpointStats" where
  "load_endpoint_stats url rg = (case rg_endpoint_stats rg url of Some (s, _) \<Rightarrow> s | None \<Rightarrow> EndpointStats_default)"

definition estimate_selectivity :: "string \<Rightarrow> string option \<Rightarrow> registry \<Rightarrow> i64" where
  "estimate_selectivity url predicate_iri rg =
     (let stats = load_endpoint_stats url rg in
      if es_total_triples stats = 0 then 1000000
      else (case predicate_iri of
              Some p \<Rightarrow> option_default (es_total_triples stats) (es_predicate_triples stats p)
            | None \<Rightarrow> es_total_triples stats))"

definition rank_endpoints_for_predicate :: "string option \<Rightarrow> registry \<Rightarrow> (string \<times> i64) list" where
  "rank_endpoints_for_predicate predicate_iri rg =
     sort_key (\<lambda>(_, sel). sint sel)
       (map (\<lambda>e. (ep_url e, estimate_selectivity (ep_url e) predicate_iri rg)) (filter ep_enabled (rg_endpoints rg)))"

fun place_service :: "(string \<times> string list) list \<Rightarrow> nat \<Rightarrow> nat list list \<Rightarrow> nat list list" where
  "place_service services idx [] = [[idx]]"
| "place_service services idx (grp # groups) =
     (if list_ex (\<lambda>i. list_ex (\<lambda>v. v \<in> set (snd (services ! idx))) (snd (services ! i))) grp
      then grp # place_service services idx groups
      else (grp @ [idx]) # groups)"

definition compute_parallel_groups :: "(string \<times> string list) list \<Rightarrow> nat list list" where
  "compute_parallel_groups services = fold (place_service services) [0..<length services] []"

section \<open>Encoding of remote results\<close>

text \<open>A slice whose start is after its end panics.\<close>

datatype service_error = Panic | Dict dict_error | Raised string

definition slice :: "string \<Rightarrow> nat \<Rightarrow> nat \<Rightarrow> service_error + string" where
  "slice s a b = (if a \<le> b \<and> b \<le> length s then Inr (take (b - a) (drop a s)) else Inl Panic)"

definition split_lang_literal :: "string \<Rightarrow> service_error + (string \<times> string) option" where
  "split_lang_literal term =
     (case rfind_str [CHR 0x22, CHR ''@''] term of
        None \<Rightarrow> Inr None
      | Some at_pos \<Rightarrow>
          (case slice term 1 at_pos of
             Inl e \<Rightarrow> Inl e
           | Inr lit \<Rightarrow> (let lang = drop (at_pos + 2) term in Inr (if lang = [] then None else Some (lit, lang)))))"

definition split_typed_literal :: "string \<Rightarrow> service_error + (string \<times> string) option" where
  "split_typed_literal term =
     (case rfind_str (CHR 0x22 # ''^^<'') term of
        None \<Rightarrow> Inr None
      | Some hat \<Rightarrow>
          (case slice term 1 hat of
             Inl e \<Rightarrow> Inl e
           | Inr lit \<Rightarrow>
               (case strip_suffix ''>'' (drop (hat + 4) term) of
                  None \<Rightarrow> Inr None
                | Some dt \<Rightarrow> Inr (if dt = [] then None else Some (lit, dt)))))"

definition dict_call :: "dict_error + 'a \<Rightarrow> service_error + 'a" where
  "dict_call r = (case r of Inl e \<Rightarrow> Inl (Dict e) | Inr x \<Rightarrow> Inr x)"

definition encode_ntriples_term :: "('e, 'd) dict_env \<Rightarrow> string \<Rightarrow> ('e, 'd) dict \<Rightarrow> service_error + i64 \<times> ('e, 'd) dict" where
  "encode_ntriples_term env term d =
     (case Option.bind (strip_prefix ''<'' term) (strip_suffix ''>'') of
        Some iri \<Rightarrow> dict_call (encode env iri KIND_IRI d)
      | None \<Rightarrow>
          (case strip_prefix ''_:'' term of
             Some bnode \<Rightarrow> dict_call (encode env bnode KIND_BLANK d)
           | None \<Rightarrow>
               if starts_with term [CHR 0x22] then
                 (case split_lang_literal term of
                    Inl e \<Rightarrow> Inl e
                  | Inr (Some (lit_body, lang)) \<Rightarrow> dict_call (encode_lang_literal env lit_body lang d)
                  | Inr None \<Rightarrow>
                      (case split_typed_literal term of
                         Inl e \<Rightarrow> Inl e
                       | Inr (Some (lit_body, dt_iri)) \<Rightarrow> dict_call (encode_typed_literal env lit_body dt_iri d)
                       | Inr None \<Rightarrow>
                           (let plain = option_default term (Option.bind (strip_prefix [CHR 0x22] term) (strip_suffix [CHR 0x22]))
                            in dict_call (encode env plain KIND_LITERAL d))))
               else dict_call (encode env term KIND_LITERAL d)))"

text \<open>One cell, one row, and all rows, with the per-call cache of terms.\<close>

definition encode_cell :: "('e, 'd) dict_env \<Rightarrow> string \<Rightarrow> (string \<rightharpoonup> i64) \<times> ('e, 'd) dict
    \<Rightarrow> service_error + i64 \<times> (string \<rightharpoonup> i64) \<times> ('e, 'd) dict" where
  "encode_cell env s = (\<lambda>(term_cache, d).
     (case term_cache s of
        Some i \<Rightarrow> Inr (i, term_cache, d)
      | None \<Rightarrow>
          (case encode_ntriples_term env s d of
             Inl e \<Rightarrow> Inl e
           | Inr (i, d) \<Rightarrow> Inr (i, term_cache(s \<mapsto> i), d))))"

fun encode_cells :: "('e, 'd) dict_env \<Rightarrow> string option list \<Rightarrow> (string \<rightharpoonup> i64) \<times> ('e, 'd) dict
    \<Rightarrow> service_error + i64 option list \<times> (string \<rightharpoonup> i64) \<times> ('e, 'd) dict" where
  "encode_cells env [] st = Inr ([], st)"
| "encode_cells env (None # cells) st =
     (case encode_cells env cells st of Inl e \<Rightarrow> Inl e | Inr (is, st) \<Rightarrow> Inr (None # is, st))"
| "encode_cells env (Some s # cells) st =
     (case encode_cell env s st of
        Inl e \<Rightarrow> Inl e
      | Inr (i, st) \<Rightarrow> (case encode_cells env cells st of Inl e \<Rightarrow> Inl e | Inr (is, st) \<Rightarrow> Inr (Some i # is, st)))"

fun encode_rows :: "('e, 'd) dict_env \<Rightarrow> string option list list \<Rightarrow> (string \<rightharpoonup> i64) \<times> ('e, 'd) dict
    \<Rightarrow> service_error + i64 option list list \<times> (string \<rightharpoonup> i64) \<times> ('e, 'd) dict" where
  "encode_rows env [] st = Inr ([], st)"
| "encode_rows env (row # rows) st =
     (case encode_cells env row st of
        Inl e \<Rightarrow> Inl e
      | Inr (r, st) \<Rightarrow> (case encode_rows env rows st of Inl e \<Rightarrow> Inl e | Inr (rs, st) \<Rightarrow> Inr (r # rs, st)))"

definition encode_results :: "('e, 'd) dict_env \<Rightarrow> remote_result \<Rightarrow> ('e, 'd) dict
    \<Rightarrow> service_error + (string list \<times> i64 option list list) \<times> ('e, 'd) dict" where
  "encode_results env r d =
     (case encode_rows env (snd r) (Map.empty, d) of
        Inl e \<Rightarrow> Inl e
      | Inr (rows, _, d) \<Rightarrow> Inr ((fst r, rows), d))"

section \<open>Fragments\<close>

record Fragment =
  from_items :: "(string \<times> string) list"
  conditions :: "string list"
  bindings :: "string \<rightharpoonup> string"

definition Fragment_empty :: Fragment where
  "Fragment_empty = \<lparr>from_items = [], conditions = [], bindings = Map.empty\<rparr>"

definition zero_rows :: Fragment where
  "zero_rows = \<lparr>from_items = [(''_zero'', ''(SELECT 1 LIMIT 0)'')], conditions = [], bindings = Map.empty\<rparr>"

definition false_fragment :: Fragment where
  "false_fragment = Fragment_empty\<lparr>conditions := [''FALSE'']\<rparr>"

text \<open>The translation context: the fields a \<open>SERVICE\<close> clause uses.\<close>

record Ctx =
  alias_counter :: u32
  per_query :: "string \<rightharpoonup> i64 option"
  graph_filter :: "i64 option"

definition next_alias :: "Ctx \<Rightarrow> string \<times> Ctx" where
  "next_alias ctx = (''_t'' @ show_nat (unat (alias_counter ctx)), ctx\<lparr>alias_counter := alias_counter ctx + 1\<rparr>)"

definition bind_columns :: "string \<Rightarrow> string \<Rightarrow> string list \<Rightarrow> Fragment \<Rightarrow> Fragment" where
  "bind_columns alias_name prefix vars frag =
     frag\<lparr>bindings := fold (\<lambda>v b. b(v \<mapsto> alias_name @ ''.'' @ prefix @ v)) vars (bindings frag)\<rparr>"

definition encode_iri :: "('e, 'd) dict_env \<Rightarrow> string \<Rightarrow> Ctx \<Rightarrow> ('e, 'd) dict \<Rightarrow> i64 option \<times> Ctx \<times> ('e, 'd) dict" where
  "encode_iri env iri ctx d =
     (case per_query ctx iri of
        Some cached \<Rightarrow> (cached, ctx, d)
      | None \<Rightarrow> (let (i, d) = lookup_iri env iri d in (i, ctx\<lparr>per_query := (per_query ctx)(iri \<mapsto> i)\<rparr>, d)))"

text \<open>Temporary tables: their column names and rows. They are dropped at commit.\<close>

type_synonym temp_tables = "string \<rightharpoonup> string list \<times> i64 option list list"

definition sql_cell :: "i64 option \<Rightarrow> string" where
  "sql_cell c = (case c of None \<Rightarrow> ''NULL::bigint'' | Some i \<Rightarrow> show_int (sint i))"

definition sql_row :: "i64 option list \<Rightarrow> string" where
  "sql_row row = ''('' @ join_str '', '' (map sql_cell row) @ '')''"

definition create_temp :: "string \<Rightarrow> string list \<Rightarrow> temp_tables \<Rightarrow> temp_tables" where
  "create_temp tab cols tt = (case tt tab of Some _ \<Rightarrow> tt | None \<Rightarrow> tt(tab \<mapsto> (cols, [])))"

text \<open>An insert that names an unknown column fails and is only logged; columns not named are null.\<close>

definition insert_temp :: "string \<Rightarrow> string list \<Rightarrow> i64 option list list \<Rightarrow> temp_tables \<Rightarrow> temp_tables" where
  "insert_temp tab cols rows tt =
     (case tt tab of
        None \<Rightarrow> tt
      | Some (tcols, old) \<Rightarrow>
          if distinct cols \<and> set cols \<subseteq> set tcols
          then tt(tab \<mapsto> (tcols, old @ map (\<lambda>row. map (\<lambda>c. Option.bind (map_of (zip cols row) c) (\<lambda>x. x)) tcols) rows))
          else tt)"

text \<open>The rows go in by batches of a thousand.\<close>

fun chunks :: "nat \<Rightarrow> 'a list \<Rightarrow> nat \<Rightarrow> 'a list list" where
  "chunks n xs 0 = []"
| "chunks n xs (Suc fuel) = (if xs = [] then [] else take n xs # chunks n (drop n xs) fuel)"

definition translate_service_values_spool :: "string list \<Rightarrow> i64 option list list \<Rightarrow> Ctx \<Rightarrow> temp_tables
    \<Rightarrow> Fragment \<times> Ctx \<times> temp_tables" where
  "translate_service_values_spool variables encoded_rows ctx tt =
     (let temp_table = ''_pg_ripple_svc_spool_'' @ show_nat (unat (alias_counter ctx));
          ctx = ctx\<lparr>alias_counter := alias_counter ctx + 1\<rparr>;
          cols = map (\<lambda>v. ''_svc_'' @ v) variables;
          tt = create_temp temp_table cols tt;
          tt = fold (insert_temp temp_table cols) (chunks 1000 encoded_rows (length encoded_rows)) tt;
          (alias_name, ctx) = next_alias ctx
      in (bind_columns alias_name ''_svc_'' variables (Fragment_empty\<lparr>from_items := [(alias_name, temp_table)]\<rparr>), ctx, tt))"

definition translate_service_values :: "i32 \<Rightarrow> string list \<Rightarrow> i64 option list list \<Rightarrow> Ctx \<Rightarrow> temp_tables
    \<Rightarrow> Fragment \<times> Ctx \<times> temp_tables" where
  "translate_service_values FEDERATION_INLINE_MAX_ROWS variables encoded_rows ctx tt =
     (if variables = [] \<or> encoded_rows = [] then (Fragment_empty, ctx, tt)
      else
        (let inline_max = as_usize FEDERATION_INLINE_MAX_ROWS in
         if 0 < inline_max \<and> inline_max < length encoded_rows
         then translate_service_values_spool variables encoded_rows ctx tt
         else
           (let n = alias_counter ctx;
                ctx = ctx\<lparr>alias_counter := n + 1\<rparr>;
                values_expr = ''(SELECT * FROM (VALUES '' @ join_str '', '' (map sql_row encoded_rows) @ '') AS _svi''
                  @ show_nat (unat n) @ ''('' @ join_str '', '' (map (\<lambda>v. ''_svc_'' @ v) variables) @ ''))'';
                (alias_name, ctx) = next_alias ctx
            in (bind_columns alias_name ''_svc_'' variables (Fragment_empty\<lparr>from_items := [(alias_name, values_expr)]\<rparr>), ctx, tt))))"

section \<open>The SERVICE clause\<close>

record svc_gucs =
  FEDERATION_MAX_RESULTS :: i32
  FEDERATION_ON_PARTIAL :: "string option"
  FEDERATION_ON_ERROR :: "string option"
  FEDERATION_INLINE_MAX_ROWS :: i32

text \<open>The inner pattern: its sorted variables, its text, and its translation by the pattern translator.\<close>

record ('e, 'd) inner_pattern =
  ip_vars :: "string list"
  ip_text :: string
  ip_translate :: "Ctx \<Rightarrow> ('e, 'd) dict \<Rightarrow> Fragment \<times> Ctx \<times> ('e, 'd) dict"

record ('e, 'd) svc_env =
  se_fed :: fed_env
  se_dict :: "('e, 'd) dict_env"
  se_f64 :: "rat \<Rightarrow> rat option"
  se_p95 :: "string \<Rightarrow> i64 option"
  se_view_variables :: "string \<Rightarrow> string list"

record ('e, 'd) svc =
  sv_fed :: fed_state
  sv_endpoints :: "endpoint list"
  sv_health :: "health_row list option"
  sv_dict :: "('e, 'd) dict"
  sv_ctx :: Ctx
  sv_temp :: temp_tables

definition projection :: "string list \<Rightarrow> string" where
  "projection vars = (if vars = [] then ''*'' else join_str '' '' (map (\<lambda>v. CHR ''?'' # v) vars))"

definition translate_service_local :: "('e, 'd) svc_env \<Rightarrow> string \<Rightarrow> ('e, 'd) svc \<Rightarrow> Fragment \<times> ('e, 'd) svc" where
  "translate_service_local env stream_table st =
     (let vars = se_view_variables env stream_table in
      if vars = [] then (false_fragment, st)
      else (let (alias_name, ctx) = next_alias (sv_ctx st);
                qualified = (if contains_char CHR ''.'' stream_table then stream_table else ''_pg_ripple.'' @ stream_table)
            in (bind_columns alias_name ''_v_'' vars (Fragment_empty\<lparr>from_items := [(alias_name, qualified)]\<rparr>),
                st\<lparr>sv_ctx := ctx\<rparr>)))"

text \<open>The inner pattern scoped to the graph of a mock endpoint.\<close>

definition translate_scoped :: "('e, 'd) inner_pattern \<Rightarrow> i64 \<Rightarrow> ('e, 'd) svc \<Rightarrow> Fragment \<times> ('e, 'd) svc" where
  "translate_scoped inner gid st =
     (let saved = graph_filter (sv_ctx st);
          (frag, ctx, d) = ip_translate inner ((sv_ctx st)\<lparr>graph_filter := Some gid\<rparr>) (sv_dict st)
      in (frag, st\<lparr>sv_ctx := ctx\<lparr>graph_filter := saved\<rparr>, sv_dict := d\<rparr>))"

definition run_remote :: "('e, 'd) svc_env \<Rightarrow> fed_gucs \<Rightarrow> svc_gucs \<Rightarrow> clock \<Rightarrow> clock \<Rightarrow> string \<Rightarrow> string \<Rightarrow> ('e, 'd) svc
    \<Rightarrow> (string + remote_result) \<times> ('e, 'd) svc" where
  "run_remote env cfg sg start fin url query st =
     (let timeout_secs = effective_timeout_secs cfg (if sv_health st = None then None else se_p95 env url);
          (result, fed) =
            (if option_default ''empty'' (FEDERATION_ON_PARTIAL sg) = ''use''
             then execute_remote_partial (se_fed env) cfg start fin url query timeout_secs (FEDERATION_MAX_RESULTS sg) (sv_fed st)
             else execute_remote (se_fed env) cfg start fin url query timeout_secs (FEDERATION_MAX_RESULTS sg) (sv_fed st));
          latency_ms = int (mono_ns fin - mono_ns start) div 10 ^ 6;
          ok = (case result of Inr _ \<Rightarrow> True | Inl _ \<Rightarrow> False)
      in (result, st\<lparr>sv_fed := fed, sv_health := record_health (epoch_secs fin) url ok latency_ms (sv_health st)\<rparr>))"

definition service_values :: "('e, 'd) svc_env \<Rightarrow> svc_gucs \<Rightarrow> remote_result \<Rightarrow> ('e, 'd) svc \<Rightarrow> (service_error + Fragment) \<times> ('e, 'd) svc" where
  "service_values env sg r st =
     (if fst r = [] \<or> snd r = [] then (Inr zero_rows, st)
      else
        (case encode_results (se_dict env) r (sv_dict st) of
           Inl e \<Rightarrow> (Inl e, st)
         | Inr ((vars, rows), d) \<Rightarrow>
             (let (frag, ctx, tt) = translate_service_values (FEDERATION_INLINE_MAX_ROWS sg) vars rows (sv_ctx st) (sv_temp st)
              in (Inr frag, st\<lparr>sv_dict := d, sv_ctx := ctx, sv_temp := tt\<rparr>))))"

definition translate_service :: "('e, 'd) svc_env \<Rightarrow> fed_gucs \<Rightarrow> svc_gucs \<Rightarrow> clock \<Rightarrow> clock \<Rightarrow> string \<Rightarrow> ('e, 'd) inner_pattern \<Rightarrow> bool
    \<Rightarrow> ('e, 'd) svc \<Rightarrow> (service_error + Fragment) \<times> ('e, 'd) svc" where
  "translate_service env cfg sg start fin url inner silent st =
     (case check_endpoint_policy cfg url of
        Inl policy_err \<Rightarrow> (if silent then Inr Fragment_empty else Inl (Raised policy_err), st)
      | Inr _ \<Rightarrow>
          if \<not> is_endpoint_allowed (sv_endpoints st) url then
            (if silent then Inr Fragment_empty
             else Inl (Raised (''federation endpoint not registered: '' @ url @ ''; use pg_ripple.register_endpoint() to allow it'')), st)
          else if \<not> is_endpoint_healthy (se_f64 env) (epoch_secs start) (sv_health st) url \<and> silent then (Inr Fragment_empty, st)
          else
            (case get_local_view (sv_endpoints st) url of
               Some stream_table \<Rightarrow> (let (frag, st) = translate_service_local env stream_table st in (Inr frag, st))
             | None \<Rightarrow>
                 (case get_graph_iri (sv_endpoints st) url of
                    Some graph_iri \<Rightarrow>
                      (let (g, ctx, d) = encode_iri (se_dict env) graph_iri (sv_ctx st) (sv_dict st);
                           st = st\<lparr>sv_ctx := ctx, sv_dict := d\<rparr> in
                       case g of
                         Some gid \<Rightarrow> (let (frag, st) = translate_scoped inner gid st in (Inr frag, st))
                       | None \<Rightarrow> (Inr false_fragment, st))
                  | None \<Rightarrow>
                      (let query = ''SELECT '' @ projection (ip_vars inner) @ '' WHERE { '' @ ip_text inner @ '' }'';
                           (result, st) = run_remote env cfg sg start fin url query st in
                       case result of
                         Inr r \<Rightarrow> service_values env sg r st
                       | Inl e \<Rightarrow>
                           (if silent then Inr Fragment_empty
                            else if option_default ''warning'' (FEDERATION_ON_ERROR sg) = ''error''
                              then Inl (Raised (''SERVICE '' @ url @ '' failed: '' @ e))
                            else Inr zero_rows, st)))))"

definition merged_vars :: "(string \<Rightarrow> string \<Rightarrow> bool) \<Rightarrow> string list \<Rightarrow> string list \<Rightarrow> string list" where
  "merged_vars le vars_l vars_r = remdups_adj (foldr (insort_by le) (vars_l @ vars_r) [])"

text \<open>Two arms in one call; \<open>None\<close> asks for the sequential translation.\<close>

definition translate_service_batched :: "('e, 'd) svc_env \<Rightarrow> fed_gucs \<Rightarrow> svc_gucs \<Rightarrow> (string \<Rightarrow> string \<Rightarrow> bool) \<Rightarrow> clock \<Rightarrow> clock \<Rightarrow> string
    \<Rightarrow> ('e, 'd) inner_pattern \<Rightarrow> ('e, 'd) inner_pattern \<Rightarrow> bool \<Rightarrow> ('e, 'd) svc \<Rightarrow> (service_error + Fragment option) \<times> ('e, 'd) svc" where
  "translate_service_batched env cfg sg le start fin url inner_l inner_r silent st =
     (if \<not> is_endpoint_allowed (sv_endpoints st) url then (Inr None, st)
      else if \<not> is_endpoint_healthy (se_f64 env) (epoch_secs start) (sv_health st) url then (Inr None, st)
      else if get_local_view (sv_endpoints st) url \<noteq> None then (Inr None, st)
      else
        (let query = ''SELECT '' @ projection (merged_vars le (ip_vars inner_l) (ip_vars inner_r)) @ '' WHERE { { '' @ ip_text inner_l
               @ '' } UNION { '' @ ip_text inner_r @ '' } }'';
             (result, st) = run_remote env cfg sg start fin url query st in
         case result of
           Inr r \<Rightarrow> (case service_values env sg r st of (Inl e, st) \<Rightarrow> (Inl e, st) | (Inr frag, st) \<Rightarrow> (Inr (Some frag), st))
         | Inl e \<Rightarrow> (Inr (if silent then Some Fragment_empty else None), st)))"

end
