(* ===== verification/Federation_Correct.thy ===== *)
theory Federation_Correct
  imports Federation
begin

text \<open>
  Properties of remote execution: which addresses the policy blocks, that a request only goes to
  an address the policy admits and never through an open breaker, and that a breaker opens after
  the configured number of failures, lets a request through after the reset period and closes on
  a success.
\<close>

section \<open>The address blocklist\<close>

definition blocked_range :: "nat \<Rightarrow> nat \<Rightarrow> bool" where
  "blocked_range a b \<longleftrightarrow> a = 0 \<or> a = 10 \<or> a = 127 \<or> a = 100 \<and> 64 \<le> b \<and> b \<le> 127 \<or> a = 169 \<and> b = 254
     \<or> a = 172 \<and> 16 \<le> b \<and> b \<le> 31 \<or> a = 192 \<and> b = 168 \<or> 224 \<le> a \<and> a \<le> 239"

lemma dot_free [simp]: "CHR ''.'' \<notin> set (show_nat n)" "CHR '':'' \<notin> set (show_nat n)" "CHR ''/'' \<notin> set (show_nat n)"
  "CHR ''@'' \<notin> set (show_nat n)"
  by (rule show_nat_not_in, simp add: is_digit_def)+

lemma show_consts: "show_nat 127 = ''127''" "show_nat 169 = ''169''" "show_nat 254 = ''254''" "show_nat 10 = ''10''"
  "show_nat 172 = ''172''" "show_nat 192 = ''192''" "show_nat 168 = ''168''" "show_nat 100 = ''100''" "show_nat 0 = ''0''"
  by code_simp+

lemma starts_octet: "starts_with (show_nat a @ CHR ''.'' # s) (show_nat n @ CHR ''.'' # q) \<longleftrightarrow> a = n \<and> starts_with s q"
  using starts_with_field [of "CHR ''.''" "show_nat a" "show_nat n" s q] by simp

lemmas starts_octets =
  starts_octet [where n = 127 and q = "[]", unfolded show_consts, simplified]
  starts_octet [where n = 10 and q = "[]", unfolded show_consts, simplified]
  starts_octet [where n = 0 and q = "[]", unfolded show_consts, simplified]
  starts_octet [where n = 172 and q = "[]", unfolded show_consts, simplified]
  starts_octet [where n = 100 and q = "[]", unfolded show_consts, simplified]
  starts_octet [where n = 169 and q = "show_nat 254 @ CHR ''.'' # []", unfolded show_consts, simplified]
  starts_octet [where n = 192 and q = "show_nat 168 @ CHR ''.'' # []", unfolded show_consts, simplified]
  starts_octet [where n = 254 and q = "[]", unfolded show_consts, simplified]
  starts_octet [where n = 168 and q = "[]", unfolded show_consts, simplified]

lemma digit_hd: "show_nat a @ s = c # t \<Longrightarrow> is_digit c"
  using show_nat_hd [of a] by (metis append_Cons hd_append2 list.sel(1) show_nat_nonempty)

lemma lower_digit: "is_digit c \<Longrightarrow> lower_char c = c"
  by (auto simp: lower_char_def is_digit_def Let_def)

lemma lower_starts_digit: "starts_with (to_lowercase (show_nat a @ s)) (c # p) \<Longrightarrow> is_digit c"
proof -
  assume st: "starts_with (to_lowercase (show_nat a @ s)) (c # p)"
  obtain x xs where x: "show_nat a = x # xs" by (meson neq_Nil_conv show_nat_nonempty)
  then have "is_digit x" using show_nat_hd [of a] by simp
  with st x lower_digit show ?thesis by (simp add: to_lowercase_def)
qed

lemma octet_in_show: "n < 256 \<Longrightarrow> octet_in (Some (show_nat n)) lo hi \<longleftrightarrow> lo \<le> n \<and> n \<le> hi"
  by (simp add: octet_in_def parse_u8_def)

lemma second_octet:
  "octet_in (map_option (\<lambda>rest. hd (split_char CHR ''.'' rest))
      (strip_prefix (show_nat n @ ''.'') (show_nat a @ CHR ''.'' # show_nat b @ CHR ''.'' # s))) lo hi
    \<longleftrightarrow> a = n \<and> lo \<le> b \<and> b \<le> hi" if "b < 256"
proof (cases "a = n")
  case True
  then show ?thesis using that
    by (simp add: strip_prefix_def starts_octet split_char_hd takeWhile_field octet_in_show)
next
  case False
  then show ?thesis by (simp add: strip_prefix_def starts_octet octet_in_def)
qed

lemmas second_octets =
  second_octet [where n = 172, unfolded show_consts, simplified]
  second_octet [where n = 100, unfolded show_consts, simplified]

lemma is_blocked_ipv4:
  assumes "a < 256" "b < 256"
  shows "is_blocked_host (show_nat a @ CHR ''.'' # show_nat b @ CHR ''.'' # s) \<longleftrightarrow> blocked_range a b"
proof -
  let ?h = "show_nat a @ CHR ''.'' # show_nat b @ CHR ''.'' # s"
  have nd: "\<not> is_digit CHR ''l''" "\<not> is_digit CHR '':''" "\<not> is_digit CHR ''f''" by (simp_all add: is_digit_def)
  have e: "?h \<noteq> ''localhost''" "?h \<noteq> ''::1''" using digit_hd nd by blast+
  have l: "\<not> starts_with (to_lowercase ?h) (CHR ''f'' # p)" "\<not> starts_with (to_lowercase ?h) (CHR '':'' # p)" for p
    using lower_starts_digit nd by blast+
  have o: "octet_in (Some (hd (split_char CHR ''.'' ?h))) 224 239 \<longleftrightarrow> 224 \<le> a \<and> a \<le> 239"
    using assms by (simp add: split_char_hd takeWhile_field octet_in_show)
  have lo: "?h = ''127.0.0.1'' \<Longrightarrow> a = 127"
    using starts_octets(1) [of a "show_nat b @ CHR ''.'' # s"] by simp
  show ?thesis
    unfolding is_blocked_host.simps [of ?h] Let_def strip_prefix_def [of "''::ffff:''"]
    using assms e l o lo by (auto simp: starts_octets second_octets blocked_range_def)
qed

lemma lower_show_ipv4: "to_lowercase (show_ipv4 ip) = show_ipv4 ip"
proof -
  have "map lower_char (show_nat n) = show_nat n" for n
    using show_nat_digits [of n] by (auto simp: list_all_iff lower_digit intro: map_idI)
  then show ?thesis by (cases ip) (simp add: to_lowercase_def lower_char_def)
qed

lemma mapped_ipv4: "is_blocked_host (''::ffff:'' @ show_ipv4 ip) \<longleftrightarrow> is_blocked_host (show_ipv4 ip)"
proof -
  let ?h = "''::ffff:'' @ show_ipv4 ip"
  have l: "to_lowercase ?h = ?h" using lower_show_ipv4 [of ip] by (simp add: to_lowercase_def lower_char_def)
  have o: "\<not> octet_in (Some (hd (split_char CHR ''.'' ?h))) lo hi" for lo hi
  proof -
    have "hd (split_char CHR ''.'' ?h) = CHR '':'' # tl (hd (split_char CHR ''.'' ?h))" by simp
    moreover have "parse_u8 (CHR '':'' # x) = None" for x
      by (simp add: parse_u8_def parse_unsigned_def parse_digits_def is_digit_def)
    ultimately have "parse_u8 (hd (split_char CHR ''.'' ?h)) = None" by metis
    then show ?thesis by (simp add: octet_in_def)
  qed
  show ?thesis
    unfolding is_blocked_host.simps [of ?h] Let_def l
    using o by (simp add: strip_prefix_def octet_in_def)
qed

section \<open>The address a request goes to\<close>

lemma find_str_prefix: "find_str p s = Some i \<Longrightarrow> i \<le> length s \<and> starts_with (drop i s) p"
  by (induction s arbitrary: i) (auto split: if_splits)

lemma starts_with_long: "length p \<le> length s \<Longrightarrow> starts_with (s @ r) p \<longleftrightarrow> starts_with s p"
  by (simp add: starts_with_def)

lemma find_str_tail:
  "find_str p (u @ p @ r) = Some (length u) \<Longrightarrow> p \<noteq> [] \<Longrightarrow> find_str p (u @ p @ r') = Some (length u)"
proof (induction u)
  case Nil
  then show ?case by (cases p) (auto simp: starts_with_iff)
next
  case (Cons x u)
  have "starts_with (x # u @ p @ r') p \<longleftrightarrow> starts_with (x # u @ p @ r) p"
    using starts_with_long [of p "x # u @ p" r] starts_with_long [of p "x # u @ p" r'] by simp
  with Cons show ?case by (auto split: if_splits)
qed

lemma split_scheme:
  assumes "split_once ''://'' url = Some (scheme, rest)"
  shows "url = scheme @ ''://'' @ rest" "split_once ''://'' (scheme @ ''://'' @ rest') = Some (scheme, rest')"
proof -
  from assms obtain i where i: "find_str ''://'' url = Some i" "scheme = take i url" "rest = drop 3 (drop i url)"
    by (auto simp: split_once_def eval_nat_numeral)
  note p = find_str_prefix [OF i(1)]
  then obtain r where r: "drop i url = ''://'' @ r" by (auto simp: starts_with_iff)
  then have rest: "rest = r" using i(3) by (simp add: eval_nat_numeral)
  from r i(2) show url: "url = scheme @ ''://'' @ rest" unfolding rest by (metis append_take_drop_id)
  have "length scheme = i" using i(2) p by simp
  then have "find_str ''://'' (scheme @ ''://'' @ rest') = Some (length scheme)"
    using i(1) find_str_tail [of "''://''" scheme rest rest'] url by simp
  then show "split_once ''://'' (scheme @ ''://'' @ rest') = Some (scheme, rest')" by (simp add: split_once_def)
qed

lemma bracket_free [simp]: "CHR ''['' \<notin> set (show_nat n)" "CHR '']'' \<notin> set (show_nat n)"
  by (rule show_nat_not_in, simp add: is_digit_def)+

lemma extract_host_authority:
  assumes s: "split_once ''://'' url = Some (scheme, rest)" and a: "CHR ''/'' \<notin> set authority" "CHR ''@'' \<notin> set authority"
    and p: "path = [] \<or> (\<exists>q. path = CHR ''/'' # q)"
  shows "extract_host (scheme @ ''://'' @ authority @ path) =
    (if starts_with authority ''['' then map_option (\<lambda>(h, _). trim_start_matches CHR ''['' h) (split_once '']'' authority)
     else (let host = hd (split_char CHR '':'' authority) in if host = [] then None else Some host))"
proof -
  have "hd (split_char CHR ''/'' (authority @ path)) = authority"
    using a(1) p by (auto simp: split_char_hd takeWhile_field takeWhile_none)
  moreover have "strip_userinfo authority = authority" using a(2) by (simp add: strip_userinfo_def split_once_char_None)
  ultimately show ?thesis
    unfolding extract_host_def split_scheme(2) [OF s] option.case prod.case Let_def by simp
qed

lemma extract_host_bracketed:
  "CHR ''['' \<notin> set h \<Longrightarrow> CHR '']'' \<notin> set h \<Longrightarrow>
    map_option (\<lambda>(h, _). trim_start_matches CHR ''['' h) (split_once '']'' (''['' @ h @ CHR '']'' # r)) = Some h"
  using split_once_char [of "CHR '']''" "''['' @ h" r] by (cases h) (auto simp: trim_start_matches_def)

lemma trim_bracket: "CHR ''['' \<notin> set h \<Longrightarrow> trim_start_matches CHR ''['' h = h"
  by (cases h) (auto simp: trim_start_matches_def)

lemma extract_host_built:
  assumes s: "split_once ''://'' url = Some (scheme, rest)" and ip: "ip_wf ip"
  shows "extract_host (build_url_with_ip url (ip_to_string ip) port) = Some (ip_to_string ip)"
proof -
  let ?h = "ip_to_string ip"
  note c = ip_text_not_in [of ip] ip_text_nonempty [OF ip]
  define path where "path = (case split_once ''/'' rest of Some (a, r) \<Rightarrow> CHR ''/'' # r | None \<Rightarrow> [])"
  have p: "path = [] \<or> (\<exists>q. path = CHR ''/'' # q)" by (auto simp: path_def split: option.splits)
  show ?thesis
  proof (cases "contains_char CHR '':'' ?h")
    case True
    define r where "r = (if port = (if scheme = ''https'' then 443 else 80) then [] else '':'' @ show_nat port)"
    have r: "build_url_with_ip url ?h port = scheme @ ''://'' @ (''['' @ ?h @ CHR '']'' # r) @ path"
      using True s by (cases "split_once ''/'' rest") (auto simp: build_url_with_ip_def path_def r_def Let_def)
    have rc: "CHR ''/'' \<notin> set r" "CHR ''@'' \<notin> set r" by (auto simp: r_def)
    have "extract_host (scheme @ ''://'' @ (''['' @ ?h @ CHR '']'' # r) @ path) = Some ?h"
      by (subst extract_host_authority [OF s _ _ p]) (use c rc extract_host_bracketed [OF c(3,4)] in auto)
    then show ?thesis using r by simp
  next
    case False
    then have nc: "CHR '':'' \<notin> set ?h" by (simp add: contains_char_def)
    define r where "r = (if contains_char CHR '':'' (case split_once ''/'' rest of Some (a, _) \<Rightarrow> a | None \<Rightarrow> rest)
        \<or> port \<noteq> (if scheme = ''https'' then 443 else 80) then '':'' @ show_nat port else [])"
    have r: "build_url_with_ip url ?h port = scheme @ ''://'' @ (?h @ r) @ path"
      using False s by (cases "split_once ''/'' rest") (auto simp: build_url_with_ip_def path_def r_def Let_def)
    have rc: "r = [] \<or> r = '':'' @ show_nat port" by (simp add: r_def)
    have "hd (split_char CHR '':'' (?h @ r)) = ?h" using nc rc by (auto simp: split_char_hd takeWhile_field takeWhile_none)
    moreover have "\<not> starts_with (?h @ r) ''[''" using c(3,5) by (cases ?h) auto
    ultimately have "extract_host (scheme @ ''://'' @ (?h @ r) @ path) = Some ?h"
      by (subst extract_host_authority [OF s _ _ p]) (use c rc in auto)
    then show ?thesis using r by simp
  qed
qed

lemma resolve_sound:
  assumes "resolve_and_check_endpoint env cfg url = Inr resolved" "endpoint_policy cfg \<noteq> ''open''"
  obtains host port addrs where "extract_host url = Some host" "to_socket_addrs env host port = Inr addrs" "addrs \<noteq> []"
    "list_all (\<lambda>ip. \<not> is_blocked_host (ip_to_string ip)) addrs"
    "connect_url resolved = build_url_with_ip url (ip_to_string (hd addrs)) port"
proof -
  from assms obtain host where host: "extract_host url = Some host"
    by (auto simp: resolve_and_check_endpoint_def split: sum.splits option.splits if_splits)
  let ?port = "option_default (if starts_with url ''https://'' then 443 else 80) (extract_port url)"
  from assms host obtain addrs where a: "to_socket_addrs env host ?port = Inr addrs" "addrs \<noteq> []"
      "find (\<lambda>ip. is_blocked_host (ip_to_string ip)) addrs = None"
      "connect_url resolved = build_url_with_ip url (ip_to_string (hd addrs)) ?port"
    unfolding resolve_and_check_endpoint_def Let_def by (auto split: sum.splits option.splits if_splits)
  then have "list_all (\<lambda>ip. \<not> is_blocked_host (ip_to_string ip)) addrs" by (simp add: find_None_iff list_all_iff)
  with that host a show ?thesis by blast
qed

lemma extract_host_scheme: "extract_host url = Some host \<Longrightarrow> \<exists>scheme rest. split_once ''://'' url = Some (scheme, rest)"
  by (cases "split_once ''://'' url") (auto simp: extract_host_def)

section \<open>What is recorded of a request\<close>

named_theorems fed_frame \<open>what the bookkeeping of a call leaves unchanged\<close>

lemma requests_frame [fed_frame]:
  "fed_requests (snd (circuit_is_open cfg now url st)) = fed_requests st"
  "fed_requests (circuit_record_success url st) = fed_requests st"
  "fed_requests (circuit_record_failure cfg clk url st) = fed_requests st"
  "fed_requests (cache_store env cfg n url q body st) = fed_requests st"
  "fed_requests (update_federation_stats url l rows e st) = fed_requests st"
  "fed_requests (snd (get_agent cfg tmo pool st)) = fed_requests st"
  by (auto simp: circuit_is_open_def is_open_def circuit_record_success_def circuit_record_failure_def circuit_sync_to_db_def
      cache_store_def update_federation_stats_def get_agent_def Let_def split: option.splits sum.splits CircuitState.splits prod.splits)

lemma send_requests: "fed_requests (snd (send env cfg tmo req st)) = fed_requests st @ [req]"
  using requests_frame(6) [of cfg "nat (max tmo 1)" "nat (max (sint (FEDERATION_POOL_SIZE cfg)) 1)" st]
  by (simp add: send_def Let_def case_prod_unfold)

lemma finish_body_requests [fed_frame]:
  "fed_requests (snd (finish_body env cfg t0 t1 url q m body st)) = fed_requests st"
  by (simp add: finish_body_def Let_def fed_frame split: sum.splits)

lemma execute_remote_requests:
  "fed_requests (snd (execute_remote env cfg t0 t1 url q tmo m st)) = fed_requests st
   \<or> \<not> fst (circuit_is_open cfg (mono_ns t0) url st) \<and>
     (\<exists>resolved extra. resolve_and_check_endpoint env cfg url = Inr resolved \<and>
       fed_requests (snd (execute_remote env cfg t0 t1 url q tmo m st)) = fed_requests st @ [build_request resolved q extra])"
proof -
  obtain b st1 where o: "circuit_is_open cfg (mono_ns t0) url st = (b, st1)" by fastforce
  have r1: "fed_requests st1 = fed_requests st" using requests_frame(1) [of cfg "mono_ns t0" url st] o by simp
  have sr: "send env cfg tmo req s = (r, s') \<Longrightarrow> fed_requests s' = fed_requests s @ [req]" for req s r s'
    using send_requests [of env cfg tmo req s] by simp
  show ?thesis
    unfolding execute_remote_def o Let_def prod.case fst_conv
    by (auto simp: fed_frame r1 split: sum.splits option.splits prod.splits dest!: sr)
qed

lemma execute_remote_partial_requests:
  "fed_requests (snd (execute_remote_partial env cfg t0 t1 url q tmo m st)) = fed_requests st
   \<or> (\<exists>resolved. resolve_and_check_endpoint env cfg url = Inr resolved \<and>
       fed_requests (snd (execute_remote_partial env cfg t0 t1 url q tmo m st)) = fed_requests st @ [build_request resolved q []])"
proof -
  have sr: "send env cfg tmo req s = (r, s') \<Longrightarrow> fed_requests s' = fed_requests s @ [req]" for req s r s'
    using send_requests [of env cfg tmo req s] by simp
  show ?thesis
    unfolding execute_remote_partial_def
    by (auto simp: fed_frame split: sum.splits option.splits prod.splits dest!: sr)
qed

definition resolver_wf :: "fed_env \<Rightarrow> bool" where
  "resolver_wf env \<longleftrightarrow> (\<forall>host port addrs. to_socket_addrs env host port = Inr addrs \<longrightarrow> list_all ip_wf addrs)"

definition goes_to_admitted :: "fed_env \<Rightarrow> string \<Rightarrow> http_request \<Rightarrow> bool" where
  "goes_to_admitted env url req \<longleftrightarrow>
     (\<exists>host port addrs. extract_host url = Some host \<and> to_socket_addrs env host port = Inr addrs \<and> addrs \<noteq> []
        \<and> list_all (\<lambda>ip. \<not> is_blocked_host (ip_to_string ip)) addrs
        \<and> extract_host (rq_url req) = Some (ip_to_string (hd addrs)))"

lemma resolved_goes_to_admitted:
  assumes r: "resolve_and_check_endpoint env cfg url = Inr resolved" and "endpoint_policy cfg \<noteq> ''open''"
    and ok: "resolver_wf env"
  shows "goes_to_admitted env url (build_request resolved q extra)"
proof -
  from resolve_sound [OF assms(1,2)] obtain host port addrs where a: "extract_host url = Some host"
    "to_socket_addrs env host port = Inr addrs" "addrs \<noteq> []" "list_all (\<lambda>ip. \<not> is_blocked_host (ip_to_string ip)) addrs"
    "connect_url resolved = build_url_with_ip url (ip_to_string (hd addrs)) port" by metis
  have "ip_wf (hd addrs)" using ok a(2,3) unfolding resolver_wf_def by (cases addrs) force+
  with extract_host_scheme [OF a(1)] extract_host_built a(5)
  have "extract_host (connect_url resolved) = Some (ip_to_string (hd addrs))" by metis
  with a show ?thesis unfolding goes_to_admitted_def build_request_def by auto
qed

text \<open>What the two execution paths hand to the HTTP client.\<close>

lemma remote_requests_admitted:
  assumes "endpoint_policy cfg \<noteq> ''open''"
    and "resolver_wf env"
  shows "(\<exists>reqs. fed_requests (snd (execute_remote env cfg start fin url q tmo m st)) = fed_requests st @ reqs
           \<and> length reqs \<le> 1 \<and> list_all (goes_to_admitted env url) reqs
           \<and> (fst (circuit_is_open cfg (mono_ns start) url st) \<longrightarrow> reqs = []))
       \<and> (\<exists>reqs. fed_requests (snd (execute_remote_partial env cfg start fin url q tmo m st)) = fed_requests st @ reqs
           \<and> length reqs \<le> 1 \<and> list_all (goes_to_admitted env url) reqs)"
proof -
  have adm: "goes_to_admitted env url (build_request r q x)" if "resolve_and_check_endpoint env cfg url = Inr r" for r x
    using resolved_goes_to_admitted [OF that assms(1)] assms(2) by blast
  have one: "\<exists>reqs. fed_requests s = fed_requests st @ reqs \<and> length reqs \<le> 1 \<and> list_all (goes_to_admitted env url) reqs
      \<and> (b \<longrightarrow> reqs = [])"
    if "fed_requests s = fed_requests st \<or> \<not> b \<and> (\<exists>r x. resolve_and_check_endpoint env cfg url = Inr r
      \<and> fed_requests s = fed_requests st @ [build_request r q x])" for s b
    using that adm by (elim disjE conjE exE) (intro exI [of _ "[]"], simp, intro exI, auto)
  show ?thesis
    using one [OF execute_remote_requests [of env cfg start fin url q tmo m st]]
      one [of "snd (execute_remote_partial env cfg start fin url q tmo m st)" False]
      execute_remote_partial_requests [of env cfg start fin url q tmo m st] by blast
qed

text \<open>A deployment with one reachable endpoint, for the concrete runs.\<close>

definition demo_fed :: fed_env where
  "demo_fed = \<lparr>to_socket_addrs = (\<lambda>h p. if h = ''example.org'' then Inr [V4 (Ipv4 93 184 216 34)] else Inl ''no such host''),
     http_call = (\<lambda>_ _. Inl ''timed out''), http_post = (\<lambda>_ _. Inl ''timed out''), json_from_str = (\<lambda>_. Inl ''eof''), spargebra_display = (\<lambda>_. None), jsonb_text = (\<lambda>s. s),
     query_hash = (\<lambda>q. q), get_credential_for_endpoint = (\<lambda>_. None)\<rparr>"

definition demo_gucs :: fed_gucs where
  "demo_gucs = \<lparr>FEDERATION_ENDPOINT_POLICY = None, FEDERATION_ALLOWED_ENDPOINTS = None,
     FEDERATION_CIRCUIT_BREAKER_THRESHOLD = 2, FEDERATION_CIRCUIT_BREAKER_RESET_SECONDS = 60, FEDERATION_CACHE_TTL = 0,
     FEDERATION_MAX_RESPONSE_BYTES = 1000, FEDERATION_PARTIAL_RECOVERY_MAX_BYTES = 1000, FEDERATION_POOL_SIZE = 4,
     FEDERATION_CONNECT_TIMEOUT_SECS = 5, FEDERATION_TIMEOUT = 30, FEDERATION_ADAPTIVE_TIMEOUT = False\<rparr>"

definition demo_state :: fed_state where
  "demo_state = \<lparr>CIRCUIT_BREAKERS = Map.empty, federation_circuit_state = Map.empty, federation_cache = Map.empty,
     federation_stats = Map.empty, SHARED_AGENT = None, fed_shmem_ready = True, FED_BLOCKED_COUNT = 0, FED_CALL_COUNT = 0,
     FED_ERROR_COUNT = 0, fed_requests = []\<rparr>"

definition demo_clock :: "nat \<Rightarrow> clock" where
  "demo_clock ns = \<lparr>mono_ns = ns, epoch_secs = 0\<rparr>"

definition demo_fed_run :: fed_state where
  "demo_fed_run = snd (execute_remote demo_fed demo_gucs (demo_clock 0) (demo_clock 1) ''http://example.org/sparql'' ''ASK{}'' 30 10
     demo_state)"

lemma demo_gucs_policy: "endpoint_policy demo_gucs \<noteq> ''open''"
  by (simp add: endpoint_policy_def demo_gucs_def option_default_def)

lemma demo_fed_texts: "resolver_wf demo_fed"
  by (auto simp: resolver_wf_def demo_fed_def split: if_splits)

section \<open>The life of a breaker\<close>

definition fail_calls :: "fed_gucs \<Rightarrow> string \<Rightarrow> clock list \<Rightarrow> fed_state \<Rightarrow> fed_state" where
  "fail_calls cfg url clks st = foldl (\<lambda>st clk. circuit_record_failure cfg clk url st) st clks"

lemma breaker_after_failure [simp]:
  "CIRCUIT_BREAKERS (circuit_record_failure cfg clk url st) =
     (CIRCUIT_BREAKERS st)(url \<mapsto> record_failure cfg (mono_ns clk) (option_default breaker_new (CIRCUIT_BREAKERS st url)))"
  by (simp add: circuit_record_failure_def circuit_sync_to_db_def Let_def)

lemma breaker_after_success:
  "CIRCUIT_BREAKERS st url = Some b \<Longrightarrow> CIRCUIT_BREAKERS (circuit_record_success url st) url = Some (record_success b)"
  by (simp add: circuit_record_success_def circuit_sync_to_db_def Let_def)

lemma positive_threshold: "0 < sint (t :: i32) \<Longrightarrow> unat t = nat (sint t) \<and> 0 < unat t"
  using sint_range_size [of t] uint_range_size [of t] uint_sint [of t]
  by (auto simp: unat_eq_nat_uint word_size take_bit_eq_mod)

lemma record_failure_count:
  assumes "unat (consecutive_failures b) = n" "Suc n < 2 ^ 32"
  shows "unat (consecutive_failures (record_failure cfg now b)) = Suc n"
    "cb_state (record_failure cfg now b) =
      (if 0 < unat (FEDERATION_CIRCUIT_BREAKER_THRESHOLD cfg) \<and> unat (FEDERATION_CIRCUIT_BREAKER_THRESHOLD cfg) \<le> Suc n
       then Open now else cb_state b)"
proof -
  have u: "unat (consecutive_failures b + 1) = Suc n" using assms by (simp add: unat_word_ariths)
  then show "unat (consecutive_failures (record_failure cfg now b)) = Suc n" by (simp add: record_failure_def Let_def)
  show "cb_state (record_failure cfg now b) =
      (if 0 < unat (FEDERATION_CIRCUIT_BREAKER_THRESHOLD cfg) \<and> unat (FEDERATION_CIRCUIT_BREAKER_THRESHOLD cfg) \<le> Suc n
       then Open now else cb_state b)"
    using u by (simp add: record_failure_def Let_def word_le_nat_alt word_less_nat_alt)
qed

lemma fail_calls_breaker:
  assumes "CIRCUIT_BREAKERS st url = None" "length clks < 2 ^ 32" "0 < sint (FEDERATION_CIRCUIT_BREAKER_THRESHOLD cfg)"
  defines "b \<equiv> option_default breaker_new (CIRCUIT_BREAKERS (fail_calls cfg url clks st) url)"
  shows "unat (consecutive_failures b) = length clks \<and> cb_state b =
    (if nat (sint (FEDERATION_CIRCUIT_BREAKER_THRESHOLD cfg)) \<le> length clks then Open (mono_ns (last clks)) else Closed)"
  using assms(2) unfolding b_def
proof (induction clks rule: rev_induct)
  case Nil
  then show ?case using assms(1,3) by (simp add: fail_calls_def option_default_def breaker_new_def)
next
  case (snoc c clks)
  let ?b = "option_default breaker_new (CIRCUIT_BREAKERS (fail_calls cfg url clks st) url)"
  note pt = positive_threshold [OF assms(3)]
  from snoc have ih: "unat (consecutive_failures ?b) = length clks"
    "cb_state ?b = (if nat (sint (FEDERATION_CIRCUIT_BREAKER_THRESHOLD cfg)) \<le> length clks then Open (mono_ns (last clks)) else Closed)"
    by simp_all
  have "option_default breaker_new (CIRCUIT_BREAKERS (fail_calls cfg url (clks @ [c]) st) url) = record_failure cfg (mono_ns c) ?b"
    by (simp add: fail_calls_def option_default_def)
  with record_failure_count [OF ih(1), of cfg "mono_ns c"] ih(2) pt snoc.prems assms(3) show ?case by simp
qed

lemma circuit_is_open_iff:
  assumes "0 < sint (FEDERATION_CIRCUIT_BREAKER_THRESHOLD cfg)"
  shows "fst (circuit_is_open cfg now url st) \<longleftrightarrow>
    (\<exists>t. cb_state (option_default breaker_new (CIRCUIT_BREAKERS st url)) = Open t \<and> (now - t) div 10 ^ 9 < reset_secs cfg)"
  using assms by (auto simp: circuit_is_open_def is_open_def Let_def split: CircuitState.splits prod.splits)

lemma circuit_is_open_breaker:
  assumes "0 < sint (FEDERATION_CIRCUIT_BREAKER_THRESHOLD cfg)"
  shows "CIRCUIT_BREAKERS (snd (circuit_is_open cfg now url st)) url =
    Some (snd (is_open cfg now (option_default breaker_new (CIRCUIT_BREAKERS st url))))"
  using assms by (auto simp: circuit_is_open_def Let_def split: prod.splits)

lemma probe_breaker:
  assumes "0 < sint (FEDERATION_CIRCUIT_BREAKER_THRESHOLD cfg)" "option_default breaker_new (CIRCUIT_BREAKERS st url) = b"
    "cb_state b = Open t" "reset_secs cfg \<le> (now - t) div 10 ^ 9"
  shows "CIRCUIT_BREAKERS (snd (circuit_is_open cfg now url st)) url = Some (b\<lparr>cb_state := HalfOpen\<rparr>)"
  using assms circuit_is_open_breaker [OF assms(1)] by (simp add: is_open_def)

lemma waited: "t + r * 10 ^ 9 \<le> now \<Longrightarrow> r \<le> (now - t) div 10 ^ 9" for t r now :: nat
  by (simp add: less_eq_div_iff_mult_less_eq)

text \<open>
  Property C21. The life of a breaker with a positive threshold, from an endpoint not called before.
  It admits calls as long as fewer than the threshold of consecutive failures are recorded; then it
  blocks every call until the reset period has passed since the last failure, and no longer. The
  first call after that is let through, and so is every further call until its outcome is recorded;
  a success then closes the breaker with its counter at zero and a failure opens it again at once.
\<close>

theorem breaker_reopens_after_reset:
  assumes "CIRCUIT_BREAKERS st url = None" "length clks < 2 ^ 32 - 1" "0 < sint (FEDERATION_CIRCUIT_BREAKER_THRESHOLD cfg)"
  defines "failed \<equiv> fail_calls cfg url clks st" and "n \<equiv> nat (sint (FEDERATION_CIRCUIT_BREAKER_THRESHOLD cfg))"
    and "until \<equiv> mono_ns (last clks) + reset_secs cfg * 10 ^ 9"
  shows "(length clks < n \<longrightarrow> \<not> fst (circuit_is_open cfg now url failed))
    \<and> (n \<le> length clks \<longrightarrow>
         (mono_ns (last clks) \<le> now \<longrightarrow> (fst (circuit_is_open cfg now url failed) \<longleftrightarrow> now < until))
       \<and> (until \<le> now \<longrightarrow>
           (let probing = snd (circuit_is_open cfg now url failed) in
              \<not> fst (circuit_is_open cfg later url probing)
            \<and> CIRCUIT_BREAKERS (circuit_record_success url probing) url = Some breaker_new
            \<and> (fst (circuit_is_open cfg later url (circuit_record_failure cfg clk url probing))
                \<longleftrightarrow> (later - mono_ns clk) div 10 ^ 9 < reset_secs cfg))))"
proof -
  let ?b = "option_default breaker_new (CIRCUIT_BREAKERS failed url)"
  have fb: "unat (consecutive_failures ?b) = length clks"
    "cb_state ?b = (if n \<le> length clks then Open (mono_ns (last clks)) else Closed)"
    using fail_calls_breaker [OF assms(1) _ assms(3), of clks] assms(2) by (simp_all add: failed_def n_def)
  have few: "\<not> fst (circuit_is_open cfg now url failed)" if "length clks < n"
    using that fb by (simp add: circuit_is_open_iff [OF assms(3)])
  have upto: "fst (circuit_is_open cfg now url failed) \<longleftrightarrow> now < until" if "n \<le> length clks" "mono_ns (last clks) \<le> now"
    using that fb(2) by (simp add: circuit_is_open_iff [OF assms(3)] until_def div_less_iff_less_mult less_diff_conv2 add.commute)
  have probe: "CIRCUIT_BREAKERS (snd (circuit_is_open cfg now url failed)) url = Some (?b\<lparr>cb_state := HalfOpen\<rparr>)"
    if "n \<le> length clks" "until \<le> now"
    using probe_breaker [OF assms(3) refl, of failed url] fb(2) that waited unfolding until_def by simp
  have f: "cb_state (record_failure cfg (mono_ns clk) (?b\<lparr>cb_state := HalfOpen\<rparr>)) = Open (mono_ns clk)" if "n \<le> length clks"
    using record_failure_count(2) [of "?b\<lparr>cb_state := HalfOpen\<rparr>" "length clks" cfg "mono_ns clk"] fb(1) that assms(2)
      positive_threshold [OF assms(3)] assms(3) by (simp add: n_def)
  have "CIRCUIT_BREAKERS (circuit_record_success url (snd (circuit_is_open cfg now url failed))) url = Some breaker_new"
    if "n \<le> length clks" "until \<le> now"
    using breaker_after_success [OF probe [OF that]] by (simp add: record_success_def breaker_new_def)
  with few upto probe f show ?thesis
    by (simp add: Let_def circuit_is_open_iff [OF assms(3), where now = later] option_default_def)
qed

theorem breaker_reopens_after_reset_witness:
  "(let failed = fail_calls demo_gucs ''http://e'' [demo_clock 0, demo_clock 0] demo_state in
     fst (circuit_is_open demo_gucs 59999999999 ''http://e'' failed) \<and> \<not> fst (circuit_is_open demo_gucs 60000000000 ''http://e'' failed))"
  using breaker_reopens_after_reset [of demo_state "''http://e''" "[demo_clock 0, demo_clock 0]" demo_gucs 59999999999]
    breaker_reopens_after_reset [of demo_state "''http://e''" "[demo_clock 0, demo_clock 0]" demo_gucs 60000000000]
  by (simp add: demo_state_def demo_gucs_def demo_clock_def reset_secs_def Let_def)

section \<open>The shape of a result\<close>

definition result_shape :: "nat \<Rightarrow> remote_result \<Rightarrow> bool" where
  "result_shape limit r = (length (snd r) \<le> limit \<and> list_all (\<lambda>row. length row = length (fst r)) (snd r))"

lemma rows_shape [simp]: "result_shape limit (vs, result_rows vs bindings limit)"
  by (simp add: result_shape_def result_rows_def list_all_iff)

lemma empty_shape [simp]: "result_shape limit (vs, [])"
  by (simp add: result_shape_def)

lemma parse_results_shape: "parse_sparql_results_json env body limit = Inr r \<Longrightarrow> result_shape limit r"
  by (auto simp: parse_sparql_results_json_def split: sum.splits option.splits)

lemma parse_partial_shape [simp]: "result_shape limit (parse_sparql_results_json_partial env body limit)"
  by (auto simp: parse_sparql_results_json_partial_def Let_def split: option.splits)

lemma finish_body_shape: "fst (finish_body env cfg start fin url q limit body st) = Inr r \<Longrightarrow> result_shape limit r"
  by (auto simp: finish_body_def Let_def split: if_splits sum.splits dest: parse_results_shape)

text \<open>
  Property C37. Both execution paths return at most \<open>max_results\<close> rows, each with one cell per
  variable, whether the body came from the cache, was complete, was cut at the configured number of
  bytes or was repaired after a parse error.
\<close>

theorem remote_results_bounded:
  assumes "fst (execute_remote env cfg start fin url q tmo max_results st) = Inr r
         \<or> fst (execute_remote_partial env cfg start fin url q tmo max_results st) = Inr r"
  shows "length (snd r) \<le> as_usize max_results \<and> list_all (\<lambda>row. length row = length (fst r)) (snd r)"
proof -
  have "result_shape (as_usize max_results) r"
    if "fst (execute_remote env cfg start fin url q tmo max_results st) = Inr r"
    using that unfolding execute_remote_def Let_def
    by (auto split: if_splits sum.splits prod.splits option.splits dest: parse_results_shape finish_body_shape)
  moreover have "result_shape (as_usize max_results) r"
    if "fst (execute_remote_partial env cfg start fin url q tmo max_results st) = Inr r"
    using that unfolding execute_remote_partial_def
    by (auto split: if_splits sum.splits prod.splits option.splits dest: parse_results_shape)
  ultimately show ?thesis using assms by (auto simp: result_shape_def)
qed

definition demo_answer :: json where
  "demo_answer = JObject [(''head'', JObject [(''vars'', JArray [JString ''s''])]),
     (''results'', JObject [(''bindings'', JArray [JObject [(''s'', JObject [(''type'', JString ''uri''), (''value'', JString ''a'')])],
       JObject []])])]"

definition demo_fed_ok :: fed_env where
  "demo_fed_ok = demo_fed\<lparr>http_call := (\<lambda>_ _. Inr \<lparr>rs_content_length = None, rs_body = Inr ''{}''\<rparr>),
     json_from_str := (\<lambda>_. Inr demo_answer)\<rparr>"

definition demo_result :: "string + remote_result" where
  "demo_result = fst (execute_remote_partial demo_fed_ok demo_gucs (demo_clock 0) (demo_clock 0) ''http://example.org/sparql'' ''q'' 30 1
     demo_state)"

theorem remote_results_bounded_witness:
  "demo_result = Inr ([''s''], [[Some ''<a>'']]) \<and> length [[Some ''<a>'']] \<le> as_usize 1"
proof -
  have e: "demo_result = Inr ([''s''], [[Some ''<a>'']])" by code_simp
  with remote_results_bounded [OF disjI2, OF e [unfolded demo_result_def]] show ?thesis by simp
qed

end
