(* ===== verification/Outbound_Policy.thy ===== *)
theory Outbound_Policy
  imports Ip_Addr
begin

text \<open>
  The outbound policy of the HTTP companion (\<open>pg_ripple_http/src/outbound_policy.rs\<close>): validation
  of a URL, the address classes it blocks, and the fetch of a bounded body over a connection pinned
  to a validated address. The URL parser, DNS and the HTTP client are fields of \<open>out_env\<close>; the
  address a connection is pinned to is part of the result.
\<close>

section \<open>Environment\<close>

record url_parts =
  url_scheme :: string
  url_username :: string
  url_password :: "string option"
  url_host_str :: "string option"
  url_port :: "nat option"
  url_known_default :: "nat option"
  url_as_str :: string

record out_response =
  or_success :: bool
  or_status :: string
  or_content_length :: "nat option"
  or_chunks :: "(string + 8 word list) list"

record out_env =
  Url_parse :: "string \<Rightarrow> string + url_parts"
  lookup_host :: "string \<Rightarrow> nat \<Rightarrow> string + IpAddr list"
  client_get :: "IpAddr \<Rightarrow> url_parts \<Rightarrow> string + out_response"
  from_utf8 :: "8 word list \<Rightarrow> string option"
  OUTBOUND_PORTS :: "string option"
  OUTBOUND_ALLOWLIST :: "string option"

definition MAX_BODY_BYTES :: nat where
  "MAX_BODY_BYTES = 10 * 1024 * 1024"

section \<open>Address classes\<close>

fun v4_is_private :: "Ipv4Addr \<Rightarrow> bool" where
  "v4_is_private (Ipv4 a b c d) \<longleftrightarrow> a = 10 \<or> a = 172 \<and> 16 \<le> b \<and> b \<le> 31 \<or> a = 192 \<and> b = 168"

fun v4_is_loopback :: "Ipv4Addr \<Rightarrow> bool" where
  "v4_is_loopback (Ipv4 a b c d) \<longleftrightarrow> a = 127"

fun v4_is_link_local :: "Ipv4Addr \<Rightarrow> bool" where
  "v4_is_link_local (Ipv4 a b c d) \<longleftrightarrow> a = 169 \<and> b = 254"

fun v4_is_documentation :: "Ipv4Addr \<Rightarrow> bool" where
  "v4_is_documentation (Ipv4 a b c d) \<longleftrightarrow>
     a = 192 \<and> b = 0 \<and> c = 2 \<or> a = 198 \<and> b = 51 \<and> c = 100 \<or> a = 203 \<and> b = 0 \<and> c = 113"

fun v4_is_multicast :: "Ipv4Addr \<Rightarrow> bool" where
  "v4_is_multicast (Ipv4 a b c d) \<longleftrightarrow> 224 \<le> a \<and> a \<le> 239"

fun octet :: "nat \<Rightarrow> Ipv4Addr \<Rightarrow> 8 word" where
  "octet i (Ipv4 a b c d) = [a, b, c, d] ! i"

definition is_blocked_v4 :: "Ipv4Addr \<Rightarrow> bool" where
  "is_blocked_v4 ip \<longleftrightarrow>
     v4_is_private ip \<or> v4_is_loopback ip \<or> v4_is_link_local ip \<or> ip = Ipv4 255 255 255 255 \<or> v4_is_documentation ip
     \<or> ip = Ipv4 0 0 0 0 \<or> v4_is_multicast ip
     \<or> (100 \<le> octet 0 ip \<and> octet 0 ip \<le> 127) \<and> octet 0 ip = 100 \<and> (64 \<le> octet 1 ip \<and> octet 1 ip \<le> 127)"

definition is_ipv6_link_local :: "16 word list \<Rightarrow> bool" where
  "is_ipv6_link_local segs \<longleftrightarrow> (segs ! 0) AND 0xffc0 = 0xfe80"

definition is_ipv6_unique_local :: "16 word list \<Rightarrow> bool" where
  "is_ipv6_unique_local segs \<longleftrightarrow> (segs ! 0) AND 0xfe00 = 0xfc00"

fun is_blocked :: "IpAddr \<Rightarrow> bool" where
  "is_blocked (V4 ip) = is_blocked_v4 ip"
| "is_blocked (V6 segs) =
     (v6_is_loopback segs \<or> v6_is_unspecified segs \<or> v6_is_multicast segs \<or> is_ipv6_link_local segs
      \<or> is_ipv6_unique_local segs \<or> (case to_ipv4 segs of Some mapped \<Rightarrow> is_blocked_v4 mapped | None \<Rightarrow> False))"

section \<open>Validation and fetch\<close>

definition port_or_default :: "url_parts \<Rightarrow> nat" where
  "port_or_default url = (case url_port url of Some p \<Rightarrow> p | None \<Rightarrow> unwrap_or 443 (url_known_default url))"

definition origin :: "url_parts \<Rightarrow> string" where
  "origin url =
     (case url_port url of
        Some p \<Rightarrow> url_scheme url @ ''://'' @ unwrap_or [] (url_host_str url) @ '':'' @ show_nat p
      | None \<Rightarrow> url_scheme url @ ''://'' @ unwrap_or [] (url_host_str url))"

definition port_allowed :: "out_env \<Rightarrow> nat \<Rightarrow> bool" where
  "port_allowed env port =
     list_ex (\<lambda>value. parse_unsigned 65536 (trim value) = Some port)
       (split_char CHR '','' (unwrap_or ''80,443'' (OUTBOUND_PORTS env)))"

definition url_allowed :: "out_env \<Rightarrow> url_parts \<Rightarrow> bool" where
  "url_allowed env url =
     (case OUTBOUND_ALLOWLIST env of
        None \<Rightarrow> True
      | Some l \<Rightarrow>
          (let allowlist = filter (\<lambda>e. e \<noteq> []) (map trim (split_char CHR '','' l)) in
           list_ex (\<lambda>e. e = url_as_str url) allowlist
           \<or> list_ex (\<lambda>e. trim_end_matches CHR ''/'' e = origin url) allowlist))"

definition validate_url :: "out_env \<Rightarrow> string \<Rightarrow> string + url_parts" where
  "validate_url env raw_url =
     (case Url_parse env raw_url of
        Inl e \<Rightarrow> Inl (''invalid outbound URL: '' @ e)
      | Inr url \<Rightarrow>
          if \<not> (url_scheme url = ''http'' \<or> url_scheme url = ''https'') then Inl ''outbound URL scheme must be http or https''
          else if url_username url \<noteq> [] \<or> url_password url \<noteq> None then Inl ''outbound URL must not contain credentials''
          else if \<not> port_allowed env (port_or_default url)
            then Inl (''outbound port '' @ show_nat (port_or_default url) @ '' is not allowed'')
          else if \<not> url_allowed env url then Inl ''outbound URL is not in PG_RIPPLE_HTTP_OUTBOUND_ALLOWLIST''
          else Inr url)"

definition exceeds_msg :: string where
  "exceeds_msg = ''outbound response exceeds '' @ show_nat MAX_BODY_BYTES @ '' bytes''"

fun read_chunks :: "8 word list \<Rightarrow> (string + 8 word list) list \<Rightarrow> string + 8 word list" where
  "read_chunks body [] = Inr body"
| "read_chunks body (Inl e # _) = Inl (''outbound response read failed: '' @ e)"
| "read_chunks body (Inr chunk # rest) =
     (if MAX_BODY_BYTES < length body + length chunk then Inl exceeds_msg else read_chunks (body @ chunk) rest)"

text \<open>The first component is the address the client connects to, when it connects.\<close>

definition fetch_text :: "out_env \<Rightarrow> string \<Rightarrow> IpAddr option \<times> (string + string)" where
  "fetch_text env raw_url =
     (case validate_url env raw_url of
        Inl e \<Rightarrow> (None, Inl e)
      | Inr url \<Rightarrow>
          (case url_host_str url of
             None \<Rightarrow> (None, Inl ''outbound URL has no host'')
           | Some host \<Rightarrow>
               (case lookup_host env host (port_or_default url) of
                  Inl e \<Rightarrow> (None, Inl (''outbound DNS lookup failed: '' @ e))
                | Inr addresses \<Rightarrow>
                    if addresses = [] then (None, Inl ''outbound DNS lookup returned no addresses'')
                    else
                      (case find is_blocked addresses of
                         Some b \<Rightarrow> (None, Inl (''outbound address is blocked by network policy: '' @ ip_to_string b))
                       | None \<Rightarrow>
                           (Some (hd addresses),
                            (case client_get env (hd addresses) url of
                               Inl e \<Rightarrow> Inl (''outbound request failed: '' @ e)
                             | Inr response \<Rightarrow>
                                 if \<not> or_success response then Inl (''remote returned HTTP '' @ or_status response)
                                 else if (case or_content_length response of Some n \<Rightarrow> MAX_BODY_BYTES < n | None \<Rightarrow> False)
                                   then Inl exceeds_msg
                                 else
                                   (case read_chunks [] (or_chunks response) of
                                      Inl e \<Rightarrow> Inl e
                                    | Inr body \<Rightarrow>
                                        (case from_utf8 env body of
                                           Some t \<Rightarrow> Inr t
                                         | None \<Rightarrow> Inl ''outbound response is not UTF-8''))))))))"

section \<open>Properties\<close>

lemma read_chunks_bound: "read_chunks body chunks = Inr r \<Longrightarrow> length body \<le> MAX_BODY_BYTES \<Longrightarrow> length r \<le> MAX_BODY_BYTES"
  by (induction body chunks rule: read_chunks.induct) (auto split: if_splits)

lemma validate_url_ok:
  "validate_url env raw_url = Inr url \<longleftrightarrow>
     Url_parse env raw_url = Inr url \<and> (url_scheme url = ''http'' \<or> url_scheme url = ''https'')
     \<and> url_username url = [] \<and> url_password url = None \<and> port_allowed env (port_or_default url) \<and> url_allowed env url"
  by (auto simp: validate_url_def split: sum.splits if_splits)

text \<open>
  Whenever the companion connects, the URL has passed validation, the connection is
  pinned to the first address to which its host resolved and none of those addresses is blocked; a
  text that is returned has been decoded from at most ten mebibytes.
\<close>

lemma fetch_text_admitted:
  assumes "fst (fetch_text env raw_url) = Some ip"
  shows "\<exists>url host addresses. Url_parse env raw_url = Inr url \<and> (url_scheme url = ''http'' \<or> url_scheme url = ''https'')
    \<and> url_username url = [] \<and> url_password url = None \<and> port_allowed env (port_or_default url)
    \<and> url_host_str url = Some host \<and> lookup_host env host (port_or_default url) = Inr (ip # addresses)
    \<and> list_all (\<lambda>a. \<not> is_blocked a) (ip # addresses)
    \<and> (\<forall>t. snd (fetch_text env raw_url) = Inr t \<longrightarrow> (\<exists>body. from_utf8 env body = Some t \<and> length body \<le> MAX_BODY_BYTES))"
proof -
  from assms obtain url where url: "validate_url env raw_url = Inr url" by (cases "validate_url env raw_url") (auto simp: fetch_text_def)
  from assms url obtain host where host: "url_host_str url = Some host"
    by (cases "url_host_str url") (auto simp: fetch_text_def)
  from assms url host obtain addresses where a: "lookup_host env host (port_or_default url) = Inr addresses"
      "addresses \<noteq> []" "find is_blocked addresses = None" "ip = hd addresses"
    by (auto simp: fetch_text_def split: sum.splits if_splits option.splits)
  then obtain rest where r: "addresses = ip # rest" by (cases addresses) auto
  have "\<exists>body. from_utf8 env body = Some t \<and> length body \<le> MAX_BODY_BYTES" if "snd (fetch_text env raw_url) = Inr t" for t
  proof -
    from that url host a obtain response where "client_get env (hd addresses) url = Inr response"
      by (cases "client_get env (hd addresses) url") (auto simp: fetch_text_def)
    with that url host a obtain body where "read_chunks [] (or_chunks response) = Inr body" "from_utf8 env body = Some t"
      by (cases "read_chunks [] (or_chunks response)") (auto simp: fetch_text_def split: if_splits option.splits)
    then show ?thesis using read_chunks_bound by fastforce
  qed
  moreover have "list_all (\<lambda>a. \<not> is_blocked a) addresses" using a(3) by (simp add: find_None_iff list_all_iff)
  ultimately show ?thesis using url host a(1) r by (auto simp: validate_url_ok)
qed

definition demo_out :: out_env where
  "demo_out = \<lparr>Url_parse = (\<lambda>s. Inr \<lparr>url_scheme = ''https'', url_username = [], url_password = None, url_host_str = Some ''h'',
       url_port = None, url_known_default = Some 2, url_as_str = s\<rparr>),
     lookup_host = (\<lambda>h p. Inr [V4 (Ipv4 9 9 9 9)]),
     client_get = (\<lambda>ip u. Inr \<lparr>or_success = True, or_status = ''200'', or_content_length = None, or_chunks = []\<rparr>),
     from_utf8 = (\<lambda>b. Some ''''), OUTBOUND_PORTS = Some ''1, 2'', OUTBOUND_ALLOWLIST = None\<rparr>"

lemma fetch_text_admitted_witness:
  "fst (fetch_text demo_out ''https://h/'') = Some (V4 (Ipv4 9 9 9 9)) \<and> \<not> is_blocked (V4 (Ipv4 9 9 9 9))"
proof -
  have "port_allowed demo_out 2"
    by (simp add: port_allowed_def demo_out_def unwrap_or_def trim_def trim_start_def trim_end_def is_ws_def parse_unsigned_def
        parse_digits_def is_digit_def digit_val_def)
  moreover have "\<not> is_blocked (V4 (Ipv4 9 9 9 9))" by (simp add: is_blocked_v4_def)
  ultimately have c: "fst (fetch_text demo_out ''https://h/'') = Some (V4 (Ipv4 9 9 9 9))"
    by (simp add: fetch_text_def validate_url_def port_or_default_def url_allowed_def demo_out_def unwrap_or_def)
  then show ?thesis using fetch_text_admitted [OF c] by auto
qed

end
