(* ===== verification/Federation_Service_Correct.thy ===== *)
theory Federation_Service_Correct
  imports Federation_Service Federation_Correct Outbound_Policy Dictionary_Correct "HOL-Library.Multiset"
begin

text \<open>
  Properties of the federation service: how the three address filters of the system compare, that a
  \<open>SERVICE\<close> clause contacts only registered and admitted endpoints while registration does not
  check what it contacts, that remote terms reach the dictionary unchanged, what a spooled result
  holds, and the grouping of independent calls.
\<close>

section \<open>The three address filters\<close>

lemma octet_mask: "b AND 0xC0 = 64 \<longleftrightarrow> 64 \<le> unat b \<and> unat b \<le> 127" for b :: "8 word"
proof -
  have "(0xC0 :: 8 word) = NOT (mask 6)" by (simp add: mask_eq_exp_minus_1)
  then show ?thesis using high_bits_iff [of "64 :: 8 word" 1 6 b] by auto
qed

lemma octet_mask_word: "b AND 0xC0 = 64 \<longleftrightarrow> 64 \<le> b \<and> b \<le> 127" for b :: "8 word"
  by (simp add: octet_mask word_le_nat_alt)

lemma segment_masks:
  "x AND 0xffc0 = 0xfe80 \<longleftrightarrow> 0xfe80 \<le> unat x \<and> unat x \<le> 0xfebf"
  "x AND 0xfe00 = 0xfc00 \<longleftrightarrow> 0xfc00 \<le> unat x \<and> unat x \<le> 0xfdff" for x :: "16 word"
proof -
  have m: "(0xffc0 :: 16 word) = NOT (mask 6)" "(0xfe00 :: 16 word) = NOT (mask 9)" by (simp_all add: mask_eq_exp_minus_1)
  show "x AND 0xffc0 = 0xfe80 \<longleftrightarrow> 0xfe80 \<le> unat x \<and> unat x \<le> 0xfebf" "x AND 0xfe00 = 0xfc00 \<longleftrightarrow> 0xfc00 \<le> unat x \<and> unat x \<le> 0xfdff"
    using high_bits_iff [of "0xfe80 :: 16 word" 1018 6 x] high_bits_iff [of "0xfc00 :: 16 word" 126 9 x] m by auto
qed

lemma octet_eq: "x = y \<longleftrightarrow> unat x = unat y" for x y :: "8 word"
  by (simp add: word_unat_eq_iff)

lemma private_v4: "is_private_v4 (Ipv4 a b c d) \<longleftrightarrow> blocked_range (unat a) (unat b)"
  unfolding is_private_v4.simps octet_mask blocked_range_def octet_eq [of a] octet_eq [of b] word_le_nat_alt by auto

lemma blocked_v4_text: "is_blocked_host (show_ipv4 ip) \<longleftrightarrow> is_private_v4 ip"
proof (cases ip)
  case (Ipv4 a b c d)
  have l: "unat x < 256" for x :: "8 word" using unsigned_less [of x] by simp
  show ?thesis
    using is_blocked_ipv4 [OF l [of a] l [of b], of "show_nat (unat c) @ ''.'' @ show_nat (unat d)"]
    by (simp add: Ipv4 private_v4 del: is_private_v4.simps)
qed

text \<open>The text of a V6 address whose first segment is not zero begins with that segment.\<close>

lemma zero_run_start:
  "1 \<le> i \<Longrightarrow> (0 < snd cur \<longrightarrow> 1 \<le> fst cur) \<Longrightarrow> (0 < snd longest \<longrightarrow> 1 \<le> fst longest) \<Longrightarrow>
    0 < snd (zero_run i cur longest xs) \<longrightarrow> 1 \<le> fst (zero_run i cur longest xs)"
  by (induction i cur longest xs rule: zero_run.induct) (auto simp: Let_def)

lemma v6_text_first:
  assumes "x \<noteq> 0" "length xs = 7"
  shows "\<exists>t. ip_to_string (V6 (x # xs)) = show_hex (unat x) @ CHR '':'' # t"
proof -
  obtain st l where z: "zero_run 1 (0, 0) (0, 0) xs = (st, l)" by fastforce
  have nm: "\<not> v6_mapped (x # xs)" using assms by (simp add: v6_mapped_def eval_nat_numeral)
  have "xs \<noteq> []" using assms by auto
  then have f: "\<exists>t. fmt_subslice (x # xs) = show_hex (unat x) @ CHR '':'' # t" by (simp add: fmt_subslice_Cons)
  have "1 < l \<Longrightarrow> 1 \<le> st" using zero_run_start [of 1 "(0, 0)" "(0, 0)" xs] z by simp
  then have "1 < l \<Longrightarrow> \<exists>t. fmt_subslice (take st (x # xs)) @ ''::'' @ u = show_hex (unat x) @ CHR '':'' # t" for u
    by (cases st) (auto simp: fmt_subslice_Cons)
  then show ?thesis using f nm z assms(1) by auto
qed

lemma show_hex4:
  assumes "4096 \<le> n" "n < 65536"
  shows "show_hex n = [hex_char (n div 4096), hex_char (n div 256 mod 16), hex_char (n div 16 mod 16), hex_char (n mod 16)]"
proof -
  have "n div 16 div 16 = n div 256" "n div 16 div 16 div 16 = n div 4096" by (simp_all add: div_mult2_eq [symmetric])
  then show ?thesis using assms
    by (subst show_hex.simps, subst show_hex.simps, subst show_hex.simps, subst show_hex.simps) auto
qed

lemma hex_digits:
  assumes "d < 16"
  shows "lower_char (hex_char d) = hex_char d" "hex_char d = CHR ''8'' \<longleftrightarrow> d = 8" "hex_char d = CHR ''0'' \<longleftrightarrow> d = 0"
proof -
  have "list_all (\<lambda>d. lower_char (hex_char d) = hex_char d \<and> (hex_char d = CHR ''8'' \<longleftrightarrow> d = 8) \<and> (hex_char d = CHR ''0'' \<longleftrightarrow> d = 0)) [0..<16]"
    by (simp add: upt_rec hex_char_def lower_char_def Let_def)
  then show "lower_char (hex_char d) = hex_char d" "hex_char d = CHR ''8'' \<longleftrightarrow> d = 8" "hex_char d = CHR ''0'' \<longleftrightarrow> d = 0"
    using assms by (simp_all add: list_all_iff)
qed

lemma hex_chars: "hex_char 15 = CHR ''f''" "hex_char 14 = CHR ''e''" "hex_char 13 = CHR ''d''" "hex_char 12 = CHR ''c''"
  by (simp_all add: hex_char_def)

lemma blocked_unique_local:
  assumes "0xfc00 \<le> unat x" "unat x \<le> 0xfdff" "length xs = 7"
  shows "is_blocked_host (ip_to_string (V6 (x # xs)))"
proof -
  have "x \<noteq> 0" using assms(1) by auto
  then obtain t where t: "ip_to_string (V6 (x # xs)) = show_hex (unat x) @ CHR '':'' # t"
    using v6_text_first assms(3) by blast
  have "unat x div 4096 = 15" by (rule div_nat_eqI) (use assms(1,2) in simp_all)
  moreover have "252 \<le> unat x div 256" "unat x div 256 < 254"
    using assms(1,2) by (simp_all add: less_eq_div_iff_mult_less_eq div_less_iff_less_mult)
  then have "unat x div 256 = 252 \<or> unat x div 256 = 253" by linarith
  then have "unat x div 256 mod 16 = 12 \<or> unat x div 256 mod 16 = 13" by auto
  ultimately have "\<exists>s. ip_to_string (V6 (x # xs)) = ''fc'' @ s \<or> ip_to_string (V6 (x # xs)) = ''fd'' @ s"
    using t show_hex4 [of "unat x"] assms(1,2) by (auto simp: hex_chars)
  moreover have "is_blocked_host (''fc'' @ s)" "is_blocked_host (''fd'' @ s)" for s
    by (subst is_blocked_host.simps, simp add: Let_def to_lowercase_def lower_char_def)+
  ultimately show ?thesis by metis
qed

lemma blocked_link_local:
  assumes "0xfe80 \<le> unat x" "unat x \<le> 0xfebf" "length xs = 7"
  shows "is_blocked_host (ip_to_string (V6 (x # xs))) \<longleftrightarrow> unat x = 0xfe80"
proof -
  have "x \<noteq> 0" using assms(1) by auto
  then obtain t where t: "ip_to_string (V6 (x # xs)) = show_hex (unat x) @ CHR '':'' # t"
    using v6_text_first assms(3) by blast
  let ?c = "unat x div 16 mod 16" and ?d = "unat x mod 16"
  define r where "r = unat x - 0xfe80"
  then have r: "unat x = 0xfe80 + r" "r < 64" using assms(1,2) by simp_all
  have "unat x div 4096 = 15" "unat x div 256 = 254" by (rule div_nat_eqI; use assms(1,2) in simp)+
  moreover have "?c = 8 + r div 16"
  proof -
    have "r div 16 < 4" using r(2) by (simp add: div_less_iff_less_mult)
    moreover have "unat x div 16 = (8 + r div 16) + 254 * 16" using r(1) div_mult_self1 [of 16 r 4072] by (simp add: add.commute)
    ultimately show ?thesis by (simp only: mod_mult_self1) simp
  qed
  moreover have "?d = r mod 16" using r(1) mod_mult_self1 [of r 4072 16] by (simp add: add.commute)
  moreover have "r div 16 = 0 \<and> r mod 16 = 0 \<longleftrightarrow> r = 0" by (auto simp: div_eq_0_iff)
  ultimately have n: "unat x div 4096 = 15" "unat x div 256 mod 16 = 14" "?c = 8 \<and> ?d = 0 \<longleftrightarrow> unat x = 0xfe80"
    using r(1) by auto
  have h: "ip_to_string (V6 (x # xs)) = CHR ''f'' # CHR ''e'' # hex_char ?c # hex_char ?d # CHR '':'' # t"
    using t show_hex4 [of "unat x"] assms(1,2) n by (simp add: hex_chars)
  have pu: "parse_u8 (CHR ''f'' # s) = None" for s by (simp add: parse_u8_def parse_unsigned_def parse_digits_def is_digit_def)
  show ?thesis
    unfolding h is_blocked_host.simps [of "CHR ''f'' # _"] Let_def
    using n(3) hex_digits by (simp add: pu to_lowercase_def lower_char_def [of "CHR ''f''"] lower_char_def [of "CHR ''e''"] strip_prefix_def octet_in_def)
qed

lemma blocked_loopback: "is_blocked_host (ip_to_string (V6 [0, 0, 0, 0, 0, 0, 0, 1]))"
  by code_simp



section \<open>What a SERVICE clause contacts\<close>

definition new_requests :: "('e, 'd) svc \<Rightarrow> ('e, 'd) svc \<Rightarrow> http_request list" where
  "new_requests st st' = drop (length (fed_requests (sv_fed st))) (fed_requests (sv_fed st'))"

lemma service_values_fed [simp]: "sv_fed (snd (service_values env sg r st)) = sv_fed st"
  by (auto simp: service_values_def split: sum.splits prod.splits)

lemma run_remote_requests:
  assumes "endpoint_policy cfg \<noteq> ''open''"
    and "resolver_wf (se_fed env)"
  shows "\<exists>reqs. fed_requests (sv_fed (snd (run_remote env cfg sg start fin url q st))) = fed_requests (sv_fed st) @ reqs
    \<and> length reqs \<le> 1 \<and> list_all (goes_to_admitted (se_fed env) url) reqs
    \<and> (FEDERATION_ON_PARTIAL sg \<noteq> Some ''use'' \<and> fst (circuit_is_open cfg (mono_ns start) url (sv_fed st)) \<longrightarrow> reqs = [])"
  using remote_requests_admitted [where cfg = cfg and env = "se_fed env" and start = start and fin = fin and url = url and q = q
      and tmo = "effective_timeout_secs cfg (if sv_health st = None then None else se_p95 env url)" and m = "FEDERATION_MAX_RESULTS sg"
      and st = "sv_fed st", OF assms]
  unfolding run_remote_def Let_def by (auto simp: option_default_def case_prod_unfold split: option.splits)

lemma no_requests: "new_requests st st' = [] " if "sv_fed st' = sv_fed st"
  using that by (simp add: new_requests_def)


definition demo_svc_env :: "(u128 \<rightharpoonup> i64, i64 \<rightharpoonup> string) svc_env" where
  "demo_svc_env = \<lparr>se_fed = demo_fed, se_dict = demo_env, se_f64 = Some, se_p95 = (\<lambda>_. None), se_view_variables = (\<lambda>_. [])\<rparr>"

definition demo_inner :: "(u128 \<rightharpoonup> i64, i64 \<rightharpoonup> string) inner_pattern" where
  "demo_inner = \<lparr>ip_vars = [''s''], ip_text = ''?s ?p ?o .'', ip_translate = (\<lambda>c d. (Fragment_empty, c, d))\<rparr>"

definition demo_svc_gucs :: svc_gucs where
  "demo_svc_gucs = \<lparr>FEDERATION_MAX_RESULTS = 10, FEDERATION_ON_PARTIAL = None, FEDERATION_ON_ERROR = None,
     FEDERATION_INLINE_MAX_ROWS = 2\<rparr>"

definition demo_url :: string where
  "demo_url = ''http://example.org/sparql''"

definition demo_ctx :: Ctx where
  "demo_ctx = \<lparr>alias_counter = 0, per_query = Map.empty, graph_filter = None\<rparr>"

definition demo_svc :: "(u128 \<rightharpoonup> i64, i64 \<rightharpoonup> string) svc" where
  "demo_svc = \<lparr>sv_fed = demo_state, sv_endpoints = [\<lparr>ep_url = demo_url, ep_enabled = True, ep_local_view_name = None,
     ep_complexity = 2, ep_graph_iri = None\<rparr>], sv_health = None, sv_dict = demo_dict, sv_ctx = demo_ctx, sv_temp = Map.empty\<rparr>"

definition demo_service :: "(u128 \<rightharpoonup> i64, i64 \<rightharpoonup> string) svc" where
  "demo_service = snd (translate_service demo_svc_env demo_gucs demo_svc_gucs (demo_clock 0) (demo_clock 1) demo_url demo_inner False demo_svc)"


section \<open>Registration\<close>

lemma stats_post_requests: "map rq_url (fed_requests (snd (stats_post env cfg pt url q st))) = map rq_url (fed_requests st) @ [url]"
  using requests_frame(6) [of cfg "nat (min (max (sint pt) 1) 300)" "nat (min (max (sint (FEDERATION_POOL_SIZE cfg)) 1) 32)" st]
  by (simp add: stats_post_def Let_def case_prod_unfold)

lemma count_query_requests:
  "map rq_url (fed_requests (snd (execute_count_query env cfg pt url q st))) = map rq_url (fed_requests st) @ [url]"
  "map rq_url (fed_requests (snd (execute_predicate_count_query env cfg pt url q st))) = map rq_url (fed_requests st) @ [url]"
  using stats_post_requests [of env cfg pt url q st]
  by (cases "stats_post env cfg pt url q st"; auto simp: execute_count_query_def execute_predicate_count_query_def split: sum.splits)+

lemma void_stats_requests:
  "is_endpoint_allowed eps url \<Longrightarrow>
    map rq_url (fed_requests (snd (fetch_void_stats env cfg pt eps url st))) = map rq_url (fed_requests st) @ [url, url]"
  by (simp add: fetch_void_stats_def Let_def case_prod_unfold count_query_requests)

lemma registered_allowed:
  "to_lowercase (trim_end_matches CHR ''/'' url) = normalise_federation_url url \<Longrightarrow>
    is_endpoint_allowed (upsert_endpoint url v c g eps) url"
  by (auto simp: is_endpoint_allowed_def upsert_endpoint_def Let_def list_ex_iff simp del: if_image_distrib)

text \<open>
  Property C20. Registration checks the addresses of what stands before the port, user information
  included, and accepts the URL when that name does not resolve; it then queries the endpoint twice at
  the URL as given, without the policy check and without pinning an address. So a URL with user
  information before a blocked address, which the policy rejects, is registered and contacted.
\<close>

theorem registration_contacts_blocked_host:
  assumes "starts_with url ''http://'' \<or> starts_with url ''https://''"
    and "to_socket_addrs env (registry_extract_host url) 80 = Inl e" "check_endpoint_policy cfg url = Inl msg"
    and "to_lowercase (trim_end_matches CHR ''/'' url) = normalise_federation_url url" "rg_endpoint_stats rg url = None"
  shows "\<exists>rg'. register_endpoint env cfg False pt ttl now url view cx None rg = Inr rg'
    \<and> is_endpoint_allowed (rg_endpoints rg') url
    \<and> map rq_url (fed_requests (rg_fed rg')) = map rq_url (fed_requests (rg_fed rg)) @ [url, url]"
proof -
  let ?eps = "upsert_endpoint url view (complexity_id (option_default ''normal'' cx)) None (rg_endpoints rg)"
  have c: "check_private_ip env False url = Inr ()" using assms(2) by (simp add: check_private_ip_def Let_def)
  have a: "is_endpoint_allowed ?eps url" by (rule registered_allowed [OF assms(4)])
  show ?thesis
    using assms(1,5) c a void_stats_requests [OF a, of env cfg pt "rg_fed rg"]
    by (auto simp: register_endpoint_def refresh_endpoint_stats_def Let_def case_prod_unfold)
qed

definition demo_registry :: registry where
  "demo_registry = \<lparr>rg_endpoints = [], rg_endpoint_stats = Map.empty, rg_fed = demo_state\<rparr>"

theorem registration_contacts_blocked_host_witness:
  "check_endpoint_policy demo_gucs ''http://u@10.0.0.1/q'' = Inl (blocked_msg ''http://u@10.0.0.1/q'')
   \<and> (\<exists>rg'. register_endpoint demo_fed demo_gucs False 60 3600 0 ''http://u@10.0.0.1/q'' None None None demo_registry = Inr rg'
        \<and> map rq_url (fed_requests (rg_fed rg')) = [''http://u@10.0.0.1/q'', ''http://u@10.0.0.1/q''])"
proof -
  have p: "check_endpoint_policy demo_gucs ''http://u@10.0.0.1/q'' = Inl (blocked_msg ''http://u@10.0.0.1/q'')" by code_simp
  have h: "registry_extract_host ''http://u@10.0.0.1/q'' = ''u@10.0.0.1''" by code_simp
  have n: "to_lowercase (trim_end_matches CHR ''/'' ''http://u@10.0.0.1/q'') = normalise_federation_url ''http://u@10.0.0.1/q''" by code_simp
  have d: "to_socket_addrs demo_fed (registry_extract_host ''http://u@10.0.0.1/q'') 80 = Inl ''no such host''"
    by (simp add: h demo_fed_def)
  have r: "rg_endpoint_stats demo_registry ''http://u@10.0.0.1/q'' = None" "fed_requests (rg_fed demo_registry) = []"
    by (simp_all add: demo_registry_def demo_state_def)
  show ?thesis using registration_contacts_blocked_host [OF disjI1, OF _ d p n r(1), of 60 3600 0 None None] p r(2) by auto
qed

section \<open>Remote terms\<close>

lemma rfind_none_iff: "rfind_str p s = None \<longleftrightarrow> find_str p s = None"
  by (induction s) (auto split: option.splits)

lemma rfind_append: "rfind_str p w = Some i \<Longrightarrow> rfind_str p (u @ w) = Some (length u + i)"
  by (induction u) auto

lemma rfind_char_none: "c \<notin> set s \<Longrightarrow> rfind_str (c # p) s = None"
  by (induction s) auto

lemma find_pair_none:
  "find_str [a, b] u = None \<Longrightarrow> find_str [a, b] w = None \<Longrightarrow> w = [] \<or> hd w \<noteq> b \<Longrightarrow> find_str [a, b] (u @ w) = None"
proof (induction u)
  case (Cons x u)
  then show ?case by (cases u; cases w) (auto split: if_splits)
qed simp

lemma find_snoc_none:
  assumes "find_str p u = None" "x \<notin> set (tl p)" "p \<noteq> [x]"
  shows "find_str p (u @ [x]) = None"
  using assms(1)
proof (induction u)
  case Nil
  then show ?case using assms by (cases p) (auto split: if_splits)
next
  case (Cons y u)
  have "\<not> starts_with (y # u @ [x]) p"
  proof
    assume st: "starts_with (y # u @ [x]) p"
    then obtain t where t: "y # u @ [x] = p @ t" by (auto simp: starts_with_iff)
    show False
    proof (cases t rule: rev_cases)
      case Nil
      with t have "last p = x" "p \<noteq> []" by (metis append_Nil2 last_ConsR last_snoc snoc_eq_iff_butlast list.distinct(1))+
      with assms(2,3) show False by (cases p) (auto split: if_splits)
    next
      case (snoc t' z)
      with t have "y # u = p @ t'" by (metis append_Cons append_assoc butlast_snoc)
      then have "starts_with (y # u) p" by (auto simp: starts_with_iff)
      with Cons.prems show False by (simp split: if_splits)
    qed
  qed
  with Cons show ?case by (simp split: if_splits)
qed

definition QUOTE :: char where "QUOTE = CHR 0x22"

text \<open>The term a SPARQL result denotes.\<close>

definition remote_term :: "json \<Rightarrow> dict_term option" where
  "remote_term t =
     Option.bind (Option.bind (json_get ''type'' t) as_str) (\<lambda>ty.
     Option.bind (Option.bind (json_get ''value'' t) as_str) (\<lambda>value.
       if ty = ''uri'' then Some (TPlain value KIND_IRI)
       else if ty = ''bnode'' then Some (TPlain value KIND_BLANK)
       else if ty = ''literal'' then
         (case Option.bind (json_get ''xml:lang'' t) as_str of
            Some lang \<Rightarrow> Some (TLang value lang)
          | None \<Rightarrow>
              (case Option.bind (json_get ''datatype'' t) as_str of
                 Some dt \<Rightarrow> if dt = ''http://www.w3.org/2001/XMLSchema#string'' then Some (TPlain value KIND_LITERAL)
                            else Some (TTyped value dt)
               | None \<Rightarrow> Some (TPlain value KIND_LITERAL)))
       else None))"

fun nt_text :: "dict_term \<Rightarrow> string" where
  "nt_text (TPlain v k) = (if k = KIND_IRI then ''<'' @ v @ ''>'' else if k = KIND_BLANK then ''_:'' @ v else dquote v)"
| "nt_text (TTyped v dt) = dquote v @ ''^^<'' @ dt @ ''>''"
| "nt_text (TLang v l) = dquote v @ ''@'' @ l"
| "nt_text (TQuoted s p ob) = []"

text \<open>A literal is split safely when what follows an inner quote cannot be taken for a tag or a
  datatype, and its own tag or datatype has no quote.\<close>

fun splits_safely :: "dict_term \<Rightarrow> bool" where
  "splits_safely (TPlain v k) \<longleftrightarrow> k = KIND_IRI \<or> k = KIND_BLANK
     \<or> k = KIND_LITERAL \<and> find_str [QUOTE, CHR ''@''] (QUOTE # v) = None \<and> find_str (QUOTE # ''^^<'') (QUOTE # v) = None"
| "splits_safely (TTyped v dt) \<longleftrightarrow> dt \<noteq> [] \<and> QUOTE \<notin> set dt \<and> find_str [QUOTE, CHR ''@''] (QUOTE # v) = None"
| "splits_safely (TLang v l) \<longleftrightarrow> l \<noteq> [] \<and> QUOTE \<notin> set l"
| "splits_safely (TQuoted s p ob) \<longleftrightarrow> False"

lemma remote_term_text: "sparql_result_term_to_ntriples t = map_option nt_text (remote_term t)"
  by (auto simp: sparql_result_term_to_ntriples_def remote_term_def KIND_IRI_def KIND_BLANK_def KIND_LITERAL_def
      split: option.splits bind_splits)

lemma split_lang_none: "find_str [QUOTE, CHR ''@''] s = None \<Longrightarrow> split_lang_literal s = Inr None"
  by (simp add: split_lang_literal_def rfind_none_iff [THEN iffD2] QUOTE_def)

lemma split_lang_text:
  assumes "QUOTE \<notin> set l" "l \<noteq> []"
  shows "split_lang_literal (dquote v @ ''@'' @ l) = Inr (Some (v, l))"
proof -
  have "rfind_str [QUOTE, CHR ''@''] (QUOTE # CHR ''@'' # l) = Some 0"
    using assms(1) rfind_char_none [of QUOTE "CHR ''@'' # l" "''@''"] by (simp add: QUOTE_def)
  from rfind_append [OF this, of "QUOTE # v"] show ?thesis
    using assms(2) by (simp add: split_lang_literal_def dquote_def QUOTE_def slice_def)
qed

lemma split_typed_text:
  assumes "QUOTE \<notin> set dt" "dt \<noteq> []"
  shows "split_typed_literal (dquote v @ ''^^<'' @ dt @ ''>'') = Inr (Some (v, dt))"
proof -
  have "rfind_str (QUOTE # ''^^<'') (QUOTE # ''^^<'' @ dt @ ''>'') = Some 0"
    using assms(1) rfind_char_none [of QUOTE "''^^<'' @ dt @ ''>''" "''^^<''"] by (simp add: QUOTE_def)
  from rfind_append [OF this, of "QUOTE # v"] show ?thesis
    using assms(2) by (simp add: split_typed_literal_def dquote_def QUOTE_def slice_def strip_suffix_def ends_with_def eval_nat_numeral)
qed

lemma quote_text: "dquote v = QUOTE # v @ [QUOTE]"
  by (simp add: dquote_def QUOTE_def)

lemma no_tag_in_literal:
  assumes "find_str [QUOTE, CHR ''@''] (QUOTE # v) = None"
  shows "find_str [QUOTE, CHR ''@''] (dquote v) = None"
    "QUOTE \<notin> set w \<Longrightarrow> w \<noteq> [] \<Longrightarrow> hd w \<noteq> CHR ''@'' \<Longrightarrow> find_str [QUOTE, CHR ''@''] (dquote v @ w) = None"
proof -
  show d: "find_str [QUOTE, CHR ''@''] (dquote v) = None"
    using find_snoc_none [OF assms, of QUOTE] by (simp add: quote_text QUOTE_def)
  assume "QUOTE \<notin> set w" "w \<noteq> []" "hd w \<noteq> CHR ''@''"
  then show "find_str [QUOTE, CHR ''@''] (dquote v @ w) = None"
    using find_pair_none [OF d] find_str_None_char by blast
qed

lemma split_typed_none: "find_str (QUOTE # ''^^<'') s = None \<Longrightarrow> split_typed_literal s = Inr None"
  by (simp add: split_typed_literal_def rfind_none_iff [THEN iffD2] QUOTE_def)

lemma literal_prefixes:
  "strip_prefix ''<'' (dquote v @ w) = None" "strip_prefix ''_:'' (dquote v @ w) = None" "starts_with (dquote v @ w) [CHR 0x22]"
  by (simp_all add: dquote_def strip_prefix_def)

lemma encode_text:
  assumes "splits_safely t"
  shows "encode_ntriples_term env (nt_text t) d = dict_call (encode_term env t d)"
proof (cases t)
  case (TPlain v k)
  consider "k = KIND_IRI" | "k = KIND_BLANK" | "k = KIND_LITERAL" using assms TPlain by auto
  then show ?thesis
  proof cases
    case 1
    then show ?thesis using TPlain by (simp add: encode_ntriples_term_def strip_prefix_def strip_suffix_def ends_with_def)
  next
    case 2
    then show ?thesis using TPlain by (simp add: encode_ntriples_term_def strip_prefix_def KIND_IRI_def KIND_BLANK_def)
  next
    case 3
    then have s: "find_str [QUOTE, CHR ''@''] (QUOTE # v) = None" "find_str (QUOTE # ''^^<'') (QUOTE # v) = None"
      using assms TPlain by (auto simp: KIND_IRI_def KIND_BLANK_def KIND_LITERAL_def)
    have "find_str (QUOTE # ''^^<'') (dquote v) = None" using find_snoc_none [OF s(2), of QUOTE] by (simp add: quote_text QUOTE_def)
    then have "split_lang_literal (dquote v) = Inr None" "split_typed_literal (dquote v) = Inr None"
      using split_lang_none [OF no_tag_in_literal(1) [OF s(1)]] split_typed_none by blast+
    moreover have "option_default x (Option.bind (strip_prefix [CHR 0x22] (dquote v)) (strip_suffix [CHR 0x22])) = v" for x
      by (simp add: dquote_def strip_prefix_def strip_suffix_def ends_with_def option_default_def)
    ultimately show ?thesis using 3 TPlain literal_prefixes [of v "[]"]
      by (simp add: encode_ntriples_term_def KIND_IRI_def KIND_BLANK_def KIND_LITERAL_def)
  qed
next
  case (TTyped v dt)
  then have s: "dt \<noteq> []" "QUOTE \<notin> set dt" "find_str [QUOTE, CHR ''@''] (QUOTE # v) = None" using assms by auto
  have "QUOTE \<notin> set (''^^<'' @ dt @ ''>'')" using s(2) by (simp add: QUOTE_def)
  then have "find_str [QUOTE, CHR ''@''] (dquote v @ ''^^<'' @ dt @ ''>'') = None" using no_tag_in_literal(2) [OF s(3)] by simp
  then show ?thesis using TTyped literal_prefixes [of v "''^^<'' @ dt @ ''>''"] split_lang_none split_typed_text [OF s(2,1), of v]
    by (simp add: encode_ntriples_term_def)
next
  case (TLang v l)
  then show ?thesis using assms literal_prefixes [of v "''@'' @ l"] split_lang_text [of l v] by (simp add: encode_ntriples_term_def)
next
  case (TQuoted s p ob)
  then show ?thesis using assms by simp
qed

text \<open>
  Property C22. A term of a remote result, written as N-Triples text and read again, reaches the
  dictionary as the term the result denotes, provided that no quote inside a literal is followed by
  what looks like a language tag or datatype. The text is written without escapes, so the proviso
  matters: a literal whose value begins with \<open>@\<close> makes the reader take an empty slice and panic.
\<close>

theorem remote_terms_encode:
  "(\<forall>t. remote_term j = Some t \<and> splits_safely t \<longrightarrow>
      (\<exists>nt. sparql_result_term_to_ntriples j = Some nt \<and> encode_ntriples_term env nt d = dict_call (encode_term env t d)))
   \<and> (\<forall>v. remote_term j = Some (TPlain (CHR ''@'' # v) KIND_LITERAL) \<and> find_str [QUOTE, CHR ''@''] v = None \<longrightarrow>
      (\<exists>nt. sparql_result_term_to_ntriples j = Some nt \<and> encode_ntriples_term env nt d = Inl Panic))"
proof (intro conjI allI impI)
  show "\<exists>nt. sparql_result_term_to_ntriples j = Some nt \<and> encode_ntriples_term env nt d = dict_call (encode_term env t d)"
    if "remote_term j = Some t \<and> splits_safely t" for t
    using that encode_text [of t env d] by (simp add: remote_term_text)
next
  fix v assume a: "remote_term j = Some (TPlain (CHR ''@'' # v) KIND_LITERAL) \<and> find_str [QUOTE, CHR ''@''] v = None"
  have "find_str [QUOTE, CHR ''@''] (v @ [QUOTE]) = None" using a find_snoc_none [of _ v QUOTE] by (simp add: QUOTE_def)
  then have "rfind_str [QUOTE, CHR ''@''] (CHR ''@'' # v @ [QUOTE]) = None" using rfind_none_iff [THEN iffD2] by (simp add: QUOTE_def)
  then have "rfind_str [QUOTE, CHR ''@''] (dquote (CHR ''@'' # v)) = Some 0" by (simp add: quote_text)
  then have "split_lang_literal (dquote (CHR ''@'' # v)) = Inl Panic" by (simp add: split_lang_literal_def slice_def QUOTE_def)
  then have "encode_ntriples_term env (dquote (CHR ''@'' # v)) d = Inl Panic"
    using literal_prefixes [of "CHR ''@'' # v" "[]"] by (simp add: encode_ntriples_term_def)
  then show "\<exists>nt. sparql_result_term_to_ntriples j = Some nt \<and> encode_ntriples_term env nt d = Inl Panic"
    using a by (simp add: remote_term_text KIND_IRI_def KIND_BLANK_def KIND_LITERAL_def)
qed

definition demo_literal :: "string \<Rightarrow> json" where
  "demo_literal v = JObject [(''type'', JString ''literal''), (''value'', JString v)]"

theorem remote_terms_encode_witness:
  "(\<exists>nt. sparql_result_term_to_ntriples (demo_literal ''a'') = Some nt
      \<and> encode_ntriples_term demo_env nt demo_dict = dict_call (encode_term demo_env (TPlain ''a'' KIND_LITERAL) demo_dict))
   \<and> (\<exists>nt. sparql_result_term_to_ntriples (demo_literal ''@bob'') = Some nt \<and> encode_ntriples_term demo_env nt demo_dict = Inl Panic)"
proof -
  have t: "remote_term (demo_literal v) = Some (TPlain v KIND_LITERAL)" for v
    by (simp add: remote_term_def demo_literal_def json_get_def as_str_def)
  have s: "splits_safely (TPlain ''a'' KIND_LITERAL)" "find_str [QUOTE, CHR ''@''] ''bob'' = None" by (simp_all add: QUOTE_def)
  show ?thesis
    using remote_terms_encode [of "demo_literal ''a''" demo_env demo_dict, THEN conjunct1, rule_format, OF conjI, OF t s(1)]
      remote_terms_encode [of "demo_literal ''@bob''" demo_env demo_dict, THEN conjunct2, rule_format, OF conjI, OF t s(2)] by blast
qed

section \<open>Spooled results\<close>

lemma concat_chunks: "0 < n \<Longrightarrow> length xs \<le> fuel \<Longrightarrow> concat (chunks n xs fuel) = xs"
  by (induction fuel arbitrary: xs) auto

lemma list_all_concat: "list_all (list_all P) css \<longleftrightarrow> list_all P (concat css)"
  by (induction css) auto

lemma zip_row:
  "distinct cols \<Longrightarrow> length row = length cols \<Longrightarrow> map (\<lambda>c. Option.bind (map_of (zip cols row) c) (\<lambda>x. x)) cols = row"
  by (rule nth_equalityI) (auto simp: map_of_zip_nth)

lemma insert_temp_same:
  assumes "tt tab = Some (cols, old)" "distinct cols" "list_all (\<lambda>row. length row = length cols) rows"
  shows "insert_temp tab cols rows tt = tt(tab \<mapsto> (cols, old @ rows))"
proof -
  have "map (\<lambda>row. map (\<lambda>c. Option.bind (map_of (zip cols row) c) (\<lambda>x. x)) cols) rows = rows"
    using assms(2,3) by (auto simp: list_all_iff zip_row intro!: map_idI)
  then show ?thesis using assms by (simp add: insert_temp_def)
qed

lemma insert_chunks:
  assumes "distinct cols" "list_all (list_all (\<lambda>row. length row = length cols)) css" "tt tab = Some (cols, old)"
  shows "fold (insert_temp tab cols) css tt tab = Some (cols, old @ concat css)"
  using assms(2,3)
proof (induction css arbitrary: tt old)
  case (Cons c css)
  then show ?case using insert_temp_same [of tt tab cols old c] assms(1) by simp
qed simp

definition spool_name :: "Ctx \<Rightarrow> string" where
  "spool_name ctx = ''_pg_ripple_svc_spool_'' @ show_nat (unat (alias_counter ctx))"

lemma spool_rows:
  assumes "distinct vars" "list_all (\<lambda>row. length row = length vars) rows"
    and "tt (spool_name ctx) = None \<and> old = [] \<or> tt (spool_name ctx) = Some (map (\<lambda>v. ''_svc_'' @ v) vars, old)"
  shows "snd (snd (translate_service_values_spool vars rows ctx tt)) (spool_name ctx) = Some (map (\<lambda>v. ''_svc_'' @ v) vars, old @ rows)"
proof -
  let ?cols = "map (\<lambda>v. ''_svc_'' @ v) vars" and ?cs = "chunks 1000 rows (length rows)"
  have d: "distinct ?cols" using assms(1) by (simp add: distinct_map inj_on_def)
  have c: "concat ?cs = rows" by (rule concat_chunks) simp_all
  then have "list_all (list_all (\<lambda>row. length row = length ?cols)) ?cs" using assms(2) by (simp add: list_all_concat)
  moreover have "create_temp (spool_name ctx) ?cols tt (spool_name ctx) = Some (?cols, old)" using assms(3) by (auto simp: create_temp_def)
  ultimately have "fold (insert_temp (spool_name ctx) ?cols) ?cs (create_temp (spool_name ctx) ?cols tt) (spool_name ctx)
      = Some (?cols, old @ rows)"
    using insert_chunks [OF d, of ?cs "create_temp (spool_name ctx) ?cols tt" "spool_name ctx" old] unfolding c by blast
  moreover have "snd (snd (translate_service_values_spool vars rows ctx tt))
      = fold (insert_temp (spool_name ctx) ?cols) ?cs (create_temp (spool_name ctx) ?cols tt)"
    by (simp add: translate_service_values_spool_def Let_def spool_name_def case_prod_unfold)
  ultimately show ?thesis by (simp only:)
qed

text \<open>
  A result with more rows than the inline limit is read back from its spool table in full
  and in order. The name of the table only depends on the alias counter, which starts again with
  each query, and the table lives until commit: a second result spooled in the same transaction under
  the same counter and variables is read back with the rows of the first before its own.
\<close>

lemma spooled_rows:
  assumes "distinct vars" "list_all (\<lambda>row. length row = length vars) (rows @ rows2)" "tt (spool_name ctx) = None"
    and "alias_counter ctx2 = alias_counter ctx"
  shows "let (frag, ctx', tt') = translate_service_values_spool vars rows ctx tt;
             (frag2, ctx2', tt2) = translate_service_values_spool vars rows2 ctx2 tt'
         in map snd (from_items frag) = [spool_name ctx] \<and> map_option snd (tt' (spool_name ctx)) = Some rows
          \<and> map snd (from_items frag2) = [spool_name ctx] \<and> map_option snd (tt2 (spool_name ctx)) = Some (rows @ rows2)"
proof -
  have n: "spool_name ctx2 = spool_name ctx" using assms(4) by (simp add: spool_name_def)
  have f: "map snd (from_items (fst (translate_service_values_spool vars rows c t))) = [spool_name c]" for rows c t
    by (simp add: translate_service_values_spool_def Let_def case_prod_unfold bind_columns_def spool_name_def)
  have r: "list_all (\<lambda>row. length row = length vars) rows" "list_all (\<lambda>row. length row = length vars) rows2" using assms(2) by simp_all
  note one = spool_rows [OF assms(1) r(1), where tt = tt and ctx = ctx and old = "[]", OF disjI1, OF conjI, OF assms(3) refl]
  note two = spool_rows [OF assms(1) r(2), where ctx = ctx2 and old = rows
      and tt = "snd (snd (translate_service_values_spool vars rows ctx tt))", OF disjI2, unfolded n]
  show ?thesis using one two f [of rows ctx tt] f [of rows2 ctx2 "snd (snd (translate_service_values_spool vars rows ctx tt))"]
    by (simp add: Let_def case_prod_unfold n)
qed

lemma spooled_rows_witness:
  "map_option snd (snd (snd (translate_service_values_spool [''s''] [[Some 2]] demo_ctx
      (snd (snd (translate_service_values_spool [''s''] [[Some 1]] demo_ctx Map.empty))))) (spool_name demo_ctx)) = Some [[Some 1], [Some 2]]"
  using spooled_rows [of "[''s'']" "[[Some 1]]" "[[Some 2]]" Map.empty demo_ctx demo_ctx] by (simp add: Let_def case_prod_unfold)

section \<open>Independent calls\<close>

definition calls_independent :: "(string \<times> string list) list \<Rightarrow> nat \<Rightarrow> nat \<Rightarrow> bool" where
  "calls_independent services i j \<longleftrightarrow> set (snd (services ! i)) \<inter> set (snd (services ! j)) = {}"

definition groups_ok :: "(string \<times> string list) list \<Rightarrow> nat \<Rightarrow> nat list list \<Rightarrow> bool" where
  "groups_ok services n groups \<longleftrightarrow> mset (concat groups) = mset [0..<n] \<and> [] \<notin> set groups
     \<and> (\<forall>g \<in> set groups. sorted_wrt (\<lambda>i j. i < j \<and> calls_independent services i j) g)"

lemma place_service_mset: "mset (concat (place_service services idx groups)) = add_mset idx (mset (concat groups))"
  by (induction groups) auto

lemma place_service_groups:
  "g \<in> set (place_service services idx groups) \<Longrightarrow> g \<in> set groups \<or> g = [idx]
     \<or> (\<exists>g' \<in> set groups. g = g' @ [idx] \<and> (\<forall>i \<in> set g'. calls_independent services i idx))"
  by (induction groups) (auto simp: calls_independent_def list_ex_iff split: if_splits)

lemma groups_step:
  assumes "groups_ok services n groups"
  shows "groups_ok services (Suc n) (place_service services n groups)"
proof -
  have m: "mset (concat groups) = mset [0..<n]" using assms by (simp add: groups_ok_def)
  have lt: "i < n" if "g \<in> set groups" "i \<in> set g" for g i
    using that mset_eq_setD [OF m] by auto
  have "sorted_wrt (\<lambda>i j. i < j \<and> calls_independent services i j) g \<and> g \<noteq> []" if "g \<in> set (place_service services n groups)" for g
    using place_service_groups [OF that] assms lt by (auto simp: groups_ok_def sorted_wrt_append)
  then show ?thesis using m by (auto simp: groups_ok_def place_service_mset)
qed

text \<open>
  The schedule of remote calls puts every call in exactly one group, in the order of the
  calls, and two calls of one group share no variable.
\<close>

lemma parallel_groups_independent:
  "mset (concat (compute_parallel_groups services)) = mset [0..<length services]
   \<and> list_all (\<lambda>g. g \<noteq> [] \<and> sorted_wrt (\<lambda>i j. i < j \<and> set (snd (services ! i)) \<inter> set (snd (services ! j)) = {}) g)
       (compute_parallel_groups services)"
proof -
  have "groups_ok services n (fold (place_service services) [0..<n] [])" for n
  proof (induction n)
    case 0
    then show ?case by (simp add: groups_ok_def)
  next
    case (Suc n)
    then show ?case using groups_step by simp
  qed
  from this [of "length services"] show ?thesis
    by (auto simp: groups_ok_def compute_parallel_groups_def calls_independent_def list_all_iff)
qed

end
