(* ===== verification/Prefix_Registry.thy ===== *)
theory Prefix_Registry
  imports Rust_Str
begin

text \<open>
  The registry of IRI prefixes (\<open>src/src/storage/ops/scan.rs\<close>) and the expansion of prefixed names
  that the rule parser uses (\<open>src/src/datalog/mod.rs\<close>). The roles a statement of the registry reads
  from the catalog are the fields of \<open>pg_auth\<close>.
\<close>

section \<open>State and operations\<close>

record prefix_registry =
  px_rows :: "(string \<times> string) list"
  px_generation :: int

record pg_auth =
  pa_current_user :: string
  pa_db_owner :: string
  pa_owner_rolsuper :: bool
  pa_admin_member :: bool

datatype prefix_error = InvalidLabel | InvalidExpansion | NotAuthorized

definition is_ascii_alphabetic :: "char \<Rightarrow> bool" where
  "is_ascii_alphabetic c \<longleftrightarrow> (let n = of_char c :: nat in 65 \<le> n \<and> n \<le> 90 \<or> 97 \<le> n \<and> n \<le> 122)"

definition is_ascii_alphanumeric :: "char \<Rightarrow> bool" where
  "is_ascii_alphanumeric c \<longleftrightarrow> is_ascii_alphabetic c \<or> is_digit c"

definition is_ascii_hexdigit :: "char \<Rightarrow> bool" where
  "is_ascii_hexdigit c \<longleftrightarrow> is_digit c \<or> (let n = of_char c :: nat in 65 \<le> n \<and> n \<le> 70 \<or> 97 \<le> n \<and> n \<le> 102)"

definition is_control :: "char \<Rightarrow> bool" where
  "is_control c \<longleftrightarrow> (let n = of_char c :: nat in n < 32 \<or> n = 127)"

definition validate_prefix_label :: "string \<Rightarrow> bool" where
  "validate_prefix_label prefix =
     (case prefix of
        [] \<Rightarrow> False
      | c # cs \<Rightarrow> is_ascii_alphabetic c \<and> \<not> ends_with prefix ''.''
          \<and> list_all (\<lambda>c. is_ascii_alphanumeric c \<or> c \<in> {CHR ''_'', CHR ''-'', CHR ''.''}) cs)"

definition scheme_ok :: "string \<Rightarrow> bool" where
  "scheme_ok scheme =
     (case scheme of
        [] \<Rightarrow> False
      | c # cs \<Rightarrow> is_ascii_alphabetic c \<and> list_all (\<lambda>c. is_ascii_alphanumeric c \<or> c \<in> {CHR ''+'', CHR ''-'', CHR ''.''}) cs)"

fun percent_ok :: "string \<Rightarrow> bool" where
  "percent_ok [] \<longleftrightarrow> True"
| "percent_ok (c # cs) \<longleftrightarrow>
     (c = CHR ''%'' \<longrightarrow> (case cs of a # b # _ \<Rightarrow> is_ascii_hexdigit a \<and> is_ascii_hexdigit b | _ \<Rightarrow> False)) \<and> percent_ok cs"

definition validate_expansion :: "string \<Rightarrow> bool" where
  "validate_expansion expansion =
     (scheme_ok (case find_str '':'' expansion of Some i \<Rightarrow> take i expansion | None \<Rightarrow> [])
      \<and> \<not> list_ex (\<lambda>c. is_ws c \<or> is_control c \<or> c \<in> {CHR ''<'', CHR ''>'', CHR 0x22, CHR 0x27, CHR '';''}) expansion
      \<and> percent_ok expansion)"

text \<open>The query looks at the owner of the database: whether that role is a superuser, or is the
  current user, or whether the current user is a member of the administration role.\<close>

definition ensure_prefix_mutation_authorized :: "pg_auth \<Rightarrow> bool" where
  "ensure_prefix_mutation_authorized au \<longleftrightarrow> pa_owner_rolsuper au \<or> pa_current_user au = pa_db_owner au \<or> pa_admin_member au"

definition bump_prefix_generation :: "prefix_registry \<Rightarrow> prefix_registry" where
  "bump_prefix_generation rg = rg\<lparr>px_generation := px_generation rg + 1\<rparr>"

definition register_prefix :: "pg_auth \<Rightarrow> string \<Rightarrow> string \<Rightarrow> prefix_registry \<Rightarrow> prefix_error + prefix_registry" where
  "register_prefix au prefix expansion rg =
     (if \<not> validate_prefix_label prefix then Inl InvalidLabel
      else if \<not> validate_expansion expansion then Inl InvalidExpansion
      else if \<not> ensure_prefix_mutation_authorized au then Inl NotAuthorized
      else
        (let rows = (if list_ex (\<lambda>(p, _). p = prefix) (px_rows rg)
                     then map (\<lambda>(p, e). (p, if p = prefix then expansion else e)) (px_rows rg)
                     else px_rows rg @ [(prefix, expansion)])
         in Inr (bump_prefix_generation (rg\<lparr>px_rows := rows\<rparr>))))"

definition drop_prefix :: "pg_auth \<Rightarrow> string \<Rightarrow> prefix_registry \<Rightarrow> prefix_error + bool \<times> prefix_registry" where
  "drop_prefix au prefix rg =
     (if \<not> validate_prefix_label prefix then Inl InvalidLabel
      else if \<not> ensure_prefix_mutation_authorized au then Inl NotAuthorized
      else
        (let removed = list_ex (\<lambda>(p, _). p = prefix) (px_rows rg);
             rg = rg\<lparr>px_rows := filter (\<lambda>(p, _). p \<noteq> prefix) (px_rows rg)\<rparr>
         in Inr (removed, if removed then bump_prefix_generation rg else rg)))"

definition resolve_prefix :: "(string \<times> string) list \<Rightarrow> string \<Rightarrow> string" where
  "resolve_prefix rows prefixed =
     (case Option.bind (strip_prefix ''<'' prefixed) (strip_suffix ''>'') of
        Some inner \<Rightarrow> inner
      | None \<Rightarrow>
          (case find_str '':'' prefixed of
             Some colon \<Rightarrow>
               (case map_of rows (take colon prefixed) of
                  Some e \<Rightarrow> e @ drop (colon + 1) prefixed
                | None \<Rightarrow> prefixed)
           | None \<Rightarrow> prefixed))"

section \<open>Properties\<close>

lemma label_chars: "validate_prefix_label p \<Longrightarrow> c \<in> set p \<Longrightarrow> is_ascii_alphanumeric c \<or> c \<in> {CHR ''_'', CHR ''-'', CHR ''.''}"
  by (cases p) (auto simp: validate_prefix_label_def list_all_iff is_ascii_alphanumeric_def)

lemma label_no_colon: "validate_prefix_label p \<Longrightarrow> CHR '':'' \<notin> set p \<and> CHR ''<'' \<notin> set p"
  by (auto dest: label_chars simp: is_ascii_alphanumeric_def is_ascii_alphabetic_def is_digit_def)

lemma resolve_registered:
  assumes "validate_prefix_label p"
  shows "resolve_prefix rows (p @ '':'' @ l) = (case map_of rows p of Some e \<Rightarrow> e @ l | None \<Rightarrow> p @ '':'' @ l)"
proof -
  have p: "CHR '':'' \<notin> set p" "CHR ''<'' \<notin> set p" "p \<noteq> []" using label_no_colon [OF assms] assms by (auto simp: validate_prefix_label_def)
  then have "strip_prefix ''<'' (p @ '':'' @ l) = None" by (cases p) (auto simp: strip_prefix_def)
  then show ?thesis using find_str_char [OF p(1), of l] by (simp add: resolve_prefix_def split: option.splits)
qed

definition upsert_row :: "string \<Rightarrow> string \<Rightarrow> (string \<times> string) list \<Rightarrow> (string \<times> string) list" where
  "upsert_row p e rows =
     (if list_ex (\<lambda>(q, _). q = p) rows then map (\<lambda>(q, x). (q, if q = p then e else x)) rows else rows @ [(p, e)])"

lemma map_of_updated:
  "map_of (map (\<lambda>(q, x). (q, if q = p then e else x)) rows) q = (if q = p then map_option (\<lambda>_. e) (map_of rows p) else map_of rows q)"
  by (induction rows) auto

lemma map_of_upsert: "map_of (upsert_row p e rows) = (map_of rows)(p \<mapsto> e)"
proof -
  have "list_ex (\<lambda>(q, _). q = p) rows \<longleftrightarrow> map_of rows p \<noteq> None" by (force simp: map_of_eq_None_iff list_ex_iff)
  then show ?thesis
    by (auto simp: upsert_row_def fun_eq_iff map_of_updated map_add_def split: option.splits)
qed

lemma register_prefix_rows:
  "register_prefix au prefix expansion rg = Inr rg' \<Longrightarrow>
    map_of (px_rows rg') = (map_of (px_rows rg))(prefix \<mapsto> expansion) \<and> px_generation rg' = px_generation rg + 1
    \<and> validate_prefix_label prefix \<and> validate_expansion expansion \<and> ensure_prefix_mutation_authorized au"
  unfolding register_prefix_def Let_def bump_prefix_generation_def upsert_row_def [symmetric]
  by (auto simp: map_of_upsert split: if_splits)

text \<open>
  A prefix is registered exactly when label and expansion are well formed and the user is
  authorized; then every name with that prefix expands to the new expansion, names with other
  prefixes expand as before, and the generation grows, so that cached expansions are dropped. Where
  the database belongs to a superuser, every user is authorized.
\<close>

lemma prefix_registration_exact:
  "((\<exists>rg'. register_prefix au prefix expansion rg = Inr rg') \<longleftrightarrow>
      validate_prefix_label prefix \<and> validate_expansion expansion
      \<and> (pa_owner_rolsuper au \<or> pa_current_user au = pa_db_owner au \<or> pa_admin_member au))
   \<and> (\<forall>rg' p local. register_prefix au prefix expansion rg = Inr rg' \<and> validate_prefix_label p \<longrightarrow>
      resolve_prefix (px_rows rg') (p @ '':'' @ local) =
        (if p = prefix then expansion @ local else resolve_prefix (px_rows rg) (p @ '':'' @ local))
      \<and> px_generation rg < px_generation rg')"
proof (intro conjI allI impI)
  show "(\<exists>rg'. register_prefix au prefix expansion rg = Inr rg') \<longleftrightarrow>
     validate_prefix_label prefix \<and> validate_expansion expansion
     \<and> (pa_owner_rolsuper au \<or> pa_current_user au = pa_db_owner au \<or> pa_admin_member au)"
    by (auto simp: register_prefix_def Let_def ensure_prefix_mutation_authorized_def)
next
  fix rg' p local
  assume a: "register_prefix au prefix expansion rg = Inr rg' \<and> validate_prefix_label p"
  then show "resolve_prefix (px_rows rg') (p @ '':'' @ local) =
      (if p = prefix then expansion @ local else resolve_prefix (px_rows rg) (p @ '':'' @ local))"
    using register_prefix_rows [of au prefix expansion rg rg'] resolve_registered [of p] by auto
  show "px_generation rg < px_generation rg'"
    using register_prefix_rows [of au prefix expansion rg rg'] a by simp
qed

definition demo_auth :: pg_auth where
  "demo_auth = \<lparr>pa_current_user = ''guest'', pa_db_owner = ''postgres'', pa_owner_rolsuper = True, pa_admin_member = False\<rparr>"

definition demo_prefixes :: prefix_registry where
  "demo_prefixes = \<lparr>px_rows = [(''ex'', ''http://a/'')], px_generation = 1\<rparr>"

lemma prefix_registration_exact_witness:
  "\<exists>rg'. register_prefix demo_auth ''ex'' ''http://b/'' demo_prefixes = Inr rg'
    \<and> resolve_prefix (px_rows rg') (''ex'' @ '':'' @ ''x'') = ''http://b/x''"
proof -
  have v: "validate_prefix_label ''ex''" "validate_expansion ''http://b/''" by code_simp+
  then obtain rg' where "register_prefix demo_auth ''ex'' ''http://b/'' demo_prefixes = Inr rg'"
    using prefix_registration_exact [of demo_auth "''ex''" "''http://b/''" demo_prefixes] by (auto simp: demo_auth_def)
  then show ?thesis
    using prefix_registration_exact [of demo_auth "''ex''" "''http://b/''" demo_prefixes, THEN conjunct2, rule_format, of rg' "''ex''" "''x''"] v by auto
qed

end
