(* ===== verification/Datalog_Parser.thy ===== *)
theory Datalog_Parser
  imports Datalog_Types Dictionary Prefix_Registry
begin

text \<open>
  The parser of Datalog rules (\<open>src/src/datalog/parser\<close>): the lexers (\<open>lexer.rs\<close>), the literals,
  atoms and terms (\<open>ast.rs\<close>) and the rules (\<open>mod.rs\<close>). Terms are encoded while they are parsed, so
  the parser threads the state of the dictionary; a failed attempt keeps the encodings it made. A
  dictionary error or a raised error ends the whole parse.
\<close>

section \<open>Lexers\<close>

text \<open>Strings of one quotation mark, and the marks as characters.\<close>

abbreviation dq :: char where "dq \<equiv> CHR 0x22"

definition push_trimmed :: "string \<Rightarrow> string list" where
  "push_trimmed current = (if trim current = [] then [] else [trim current])"

function tokenize_rules_from :: "bool \<Rightarrow> bool \<Rightarrow> string \<Rightarrow> string \<Rightarrow> string list" where
  "tokenize_rules_from in_literal in_iri current [] = push_trimmed current"
| "tokenize_rules_from in_literal in_iri current (c # s) =
     (if c = dq \<and> \<not> in_iri then tokenize_rules_from (\<not> in_literal) in_iri (current @ [c]) s
      else if c = CHR ''<'' \<and> \<not> in_literal then tokenize_rules_from in_literal True (current @ [c]) s
      else if c = CHR ''>'' \<and> \<not> in_literal \<and> in_iri then tokenize_rules_from in_literal False (current @ [c]) s
      else if c = CHR ''.'' \<and> \<not> in_literal \<and> \<not> in_iri then push_trimmed current @ tokenize_rules_from in_literal in_iri [] s
      else if c = CHR ''#'' \<and> \<not> in_literal \<and> \<not> in_iri
        then tokenize_rules_from in_literal in_iri current (dropWhile (\<lambda>x. x \<noteq> CHR 0x0A) s)
      else tokenize_rules_from in_literal in_iri (current @ [c]) s)"
  by pat_completeness auto
termination by (relation "measure (\<lambda>(l, i, c, s). length s)") (auto simp: le_imp_less_Suc length_dropWhile_le)

definition tokenize_rules :: "string \<Rightarrow> string list" where
  "tokenize_rules txt = tokenize_rules_from False False [] txt"

fun split_body_from :: "int \<Rightarrow> bool \<Rightarrow> bool \<Rightarrow> string \<Rightarrow> string \<Rightarrow> string list" where
  "split_body_from depth in_literal in_iri current [] = push_trimmed current"
| "split_body_from depth in_literal in_iri current (c # s) =
     (if c = dq then split_body_from depth (\<not> in_literal) in_iri (current @ [c]) s
      else if c = CHR ''<'' \<and> \<not> in_literal then split_body_from depth in_literal True (current @ [c]) s
      else if c = CHR ''>'' \<and> \<not> in_literal \<and> in_iri then split_body_from depth in_literal False (current @ [c]) s
      else if (c = CHR ''{'' \<or> c = CHR ''('') \<and> \<not> in_literal \<and> \<not> in_iri
        then split_body_from (depth + 1) in_literal in_iri (current @ [c]) s
      else if (c = CHR ''}'' \<or> c = CHR '')'') \<and> \<not> in_literal \<and> \<not> in_iri
        then split_body_from (depth - 1) in_literal in_iri (current @ [c]) s
      else if c = CHR '','' \<and> \<not> in_literal \<and> \<not> in_iri \<and> depth = 0
        then trim current # split_body_from depth in_literal in_iri [] s
      else split_body_from depth in_literal in_iri (current @ [c]) s)"

definition split_body :: "string \<Rightarrow> string list" where
  "split_body txt = split_body_from 0 False False [] txt"

fun split_csv_from :: "int \<Rightarrow> bool \<Rightarrow> string list \<Rightarrow> string \<Rightarrow> string \<Rightarrow> string list" where
  "split_csv_from depth in_str parts current [] = (if current \<noteq> [] \<or> parts \<noteq> [] then parts @ [current] else parts)"
| "split_csv_from depth in_str parts current (c # s) =
     (if c = CHR 0x27 then split_csv_from depth (\<not> in_str) parts (current @ [c]) s
      else if c = CHR ''('' \<and> \<not> in_str then split_csv_from (depth + 1) in_str parts (current @ [c]) s
      else if c = CHR '')'' \<and> \<not> in_str then split_csv_from (depth - 1) in_str parts (current @ [c]) s
      else if c = CHR '','' \<and> \<not> in_str \<and> depth = 0 then split_csv_from depth in_str (parts @ [current]) [] s
      else split_csv_from depth in_str parts (current @ [c]) s)"

definition split_csv :: "string \<Rightarrow> string list" where
  "split_csv s = split_csv_from 0 False [] [] s"

fun tokenize_terms_from :: "bool \<Rightarrow> bool \<Rightarrow> bool \<Rightarrow> string \<Rightarrow> string \<Rightarrow> string list" where
  "tokenize_terms_from in_literal in_iri in_quoted current [] = push_trimmed current"
| "tokenize_terms_from in_literal in_iri in_quoted current (c # s) =
     (if c = dq then tokenize_terms_from (\<not> in_literal) in_iri in_quoted (current @ [c]) s
      else if c = CHR ''<'' \<and> \<not> in_literal then
        (case s of
           d # s' \<Rightarrow> if d = CHR ''<'' then tokenize_terms_from in_literal in_iri True (current @ [c, d]) s'
                     else tokenize_terms_from in_literal True in_quoted (current @ [c]) s
         | [] \<Rightarrow> tokenize_terms_from in_literal True in_quoted (current @ [c]) s)
      else if c = CHR ''>'' \<and> \<not> in_literal \<and> in_quoted then
        (case s of
           d # s' \<Rightarrow> if d = CHR ''>'' then tokenize_terms_from in_literal in_iri False (current @ [c, d]) s'
                     else tokenize_terms_from in_literal in_iri in_quoted (current @ [c]) s
         | [] \<Rightarrow> tokenize_terms_from in_literal in_iri in_quoted (current @ [c]) s)
      else if c = CHR ''>'' \<and> \<not> in_literal \<and> in_iri then tokenize_terms_from in_literal False in_quoted (current @ [c]) s
      else if c \<in> {CHR '' '', CHR 0x09, CHR 0x0A} \<and> \<not> in_literal \<and> \<not> in_iri \<and> \<not> in_quoted
        then (if current = [] then [] else [trim current]) @ tokenize_terms_from in_literal in_iri in_quoted [] s
      else tokenize_terms_from in_literal in_iri in_quoted (current @ [c]) s)"

definition tokenize_terms :: "string \<Rightarrow> string list" where
  "tokenize_terms txt = tokenize_terms_from False False False [] txt"

fun find_neck_from :: "bool \<Rightarrow> bool \<Rightarrow> nat \<Rightarrow> char option \<Rightarrow> string \<Rightarrow> nat option" where
  "find_neck_from in_literal in_iri i prev [] = None"
| "find_neck_from in_literal in_iri i prev (c # s) =
     (if c = dq then find_neck_from (\<not> in_literal) in_iri (Suc i) (Some c) s
      else if c = CHR ''<'' \<and> \<not> in_literal then find_neck_from in_literal True (Suc i) (Some c) s
      else if c = CHR ''>'' \<and> \<not> in_literal then find_neck_from in_literal False (Suc i) (Some c) s
      else if c = CHR ''-'' \<and> \<not> in_literal \<and> \<not> in_iri \<and> prev = Some CHR '':'' then Some (i - 1)
      else find_neck_from in_literal in_iri (Suc i) (Some c) s)"

definition find_neck :: "string \<Rightarrow> string + nat" where
  "find_neck txt = (case find_neck_from False False 0 None txt of
     Some i \<Rightarrow> Inr i | None \<Rightarrow> Inl (''missing '' @ [CHR 0x27] @ '':-'' @ [CHR 0x27] @ '' in rule: '' @ txt))"

section \<open>Parser computations\<close>

datatype parse_abort = PDict dict_error | PRaised string

type_synonym ('e, 'd, 'a) pm = "('e, 'd) dict \<Rightarrow> parse_abort + (string + 'a) \<times> ('e, 'd) dict"

record ('e, 'd) parse_env =
  pe_dict :: "('e, 'd) dict_env"
  pe_prefixes :: "(string \<times> string) list"
  pe_parse_f64 :: "string \<Rightarrow> (f64 \<times> bool) option"
  pe_show_f64 :: "f64 \<Rightarrow> string"

definition pm_return :: "'a \<Rightarrow> ('e, 'd, 'a) pm" where
  "pm_return x d = Inr (Inr x, d)"

definition pm_fail :: "string \<Rightarrow> ('e, 'd, 'a) pm" where
  "pm_fail e d = Inr (Inl e, d)"

definition pm_bind :: "('e, 'd, 'a) pm \<Rightarrow> ('a \<Rightarrow> ('e, 'd, 'b) pm) \<Rightarrow> ('e, 'd, 'b) pm" where
  "pm_bind m k d =
     (case m d of
        Inl a \<Rightarrow> Inl a
      | Inr (Inl e, d) \<Rightarrow> Inr (Inl e, d)
      | Inr (Inr x, d) \<Rightarrow> k x d)"

text \<open>\<open>.ok()?\<close> in a function that returns an option: a failure gives \<open>None\<close>.\<close>

definition pm_ok :: "('e, 'd, 'a) pm \<Rightarrow> ('a \<Rightarrow> ('e, 'd, 'b option) pm) \<Rightarrow> ('e, 'd, 'b option) pm" where
  "pm_ok m k d =
     (case m d of
        Inl a \<Rightarrow> Inl a
      | Inr (Inl e, d) \<Rightarrow> Inr (Inr None, d)
      | Inr (Inr x, d) \<Rightarrow> k x d)"

text \<open>\<open>if let Some(x) = m { return f(x) }\<close>, then the rest.\<close>

definition pm_first :: "('e, 'd, 'a option) pm \<Rightarrow> ('a \<Rightarrow> 'b) \<Rightarrow> ('e, 'd, 'b) pm \<Rightarrow> ('e, 'd, 'b) pm" where
  "pm_first m f rest = pm_bind m (\<lambda>r. case r of Some x \<Rightarrow> pm_return (f x) | None \<Rightarrow> rest)"

definition pm_encode :: "(('e, 'd) dict \<Rightarrow> dict_error + i64 \<times> ('e, 'd) dict) \<Rightarrow> ('e, 'd, Term) pm" where
  "pm_encode f d = (case f d of Inl e \<Rightarrow> Inl (PDict e) | Inr (i, d) \<Rightarrow> Inr (Inr (Const (sint i)), d))"

section \<open>Terms and atoms\<close>

fun close_quote :: "nat \<Rightarrow> string \<Rightarrow> nat option" where
  "close_quote i [] = None"
| "close_quote i (c # s) =
     (if c = CHR 0x5C then (case s of [] \<Rightarrow> None | _ # s' \<Rightarrow> close_quote (i + 2) s')
      else if c = dq then Some i
      else close_quote (Suc i) s)"

definition unescape :: "string \<Rightarrow> string" where
  "unescape raw =
     replace_str [CHR 0x5C, CHR ''t''] [CHR 0x09]
       (replace_str [CHR 0x5C, CHR ''r''] [CHR 0x0D]
         (replace_str [CHR 0x5C, CHR ''n''] [CHR 0x0A]
           (replace_str [CHR 0x5C, CHR 0x5C] [CHR 0x5C]
             (replace_str [CHR 0x5C, dq] [dq] raw))))"

definition split_literal :: "string \<Rightarrow> (string \<times> string) option" where
  "split_literal txt =
     (if \<not> starts_with txt [dq] then None
      else map_option (\<lambda>i. (unescape (take (i - 1) (drop 1 txt)), drop (i + 1) txt)) (close_quote 1 (drop 1 txt)))"

definition term_to_const :: "Term \<Rightarrow> ('e, 'd, i64) pm" where
  "term_to_const t =
     (case t of
        Const i \<Rightarrow> pm_return (word_of_int i)
      | Var name \<Rightarrow> pm_fail (''variable ?'' @ name @ '' not allowed in quoted triple'')
      | Wildcard \<Rightarrow> pm_fail ''wildcard not allowed in quoted triple''
      | DefaultGraph \<Rightarrow> pm_fail ''default graph not allowed in quoted triple'')"

definition XSD :: string where
  "XSD = ''http://www.w3.org/2001/XMLSchema#''"

definition looks_numeric :: "string \<Rightarrow> bool" where
  "looks_numeric txt =
     (txt \<noteq> [] \<and> (is_digit (hd txt) \<or> hd txt = CHR ''-'' \<or> hd txt = CHR ''+'')
      \<and> list_all (\<lambda>c. is_digit c \<or> c = CHR ''.'') (dropWhile (\<lambda>c. c = CHR ''+'' \<or> c = CHR ''-'') txt))"

text \<open>The branches of \<open>parse_term\<close> in their order; \<open>quoted\<close> is what the branch for quoted triples does.\<close>

definition parse_term_with :: "(string \<Rightarrow> ('e, 'd, Term) pm) \<Rightarrow> ('e, 'd) parse_env \<Rightarrow> string \<Rightarrow> ('e, 'd, Term) pm" where
  "parse_term_with quoted env raw =
     (let txt = trim raw; de = pe_dict env; rows = pe_prefixes env in
      case strip_prefix ''?'' txt of
        Some name \<Rightarrow> if name = ''_'' then pm_return Wildcard else pm_return (Var name)
      | None \<Rightarrow>
        if starts_with txt ''<'' \<and> ends_with txt ''>'' then
          pm_encode (encode de (take (length txt - 2) (drop 1 txt)) KIND_IRI)
        else if starts_with txt ''<<'' \<and> ends_with txt ''>>'' then quoted txt
        else
          (case (if starts_with txt [dq] then split_literal txt else None) of
             Some (val, rest) \<Rightarrow>
               (case strip_prefix ''^^'' rest of
                  Some dt_str \<Rightarrow>
                    (let dt = trim_end_matches CHR ''>'' (trim_start_matches CHR ''<'' (trim dt_str))
                     in pm_encode (encode_typed_literal de val (resolve_prefix rows dt)))
                | None \<Rightarrow>
                    (case strip_prefix ''@'' rest of
                       Some lang \<Rightarrow> pm_encode (encode_lang_literal de val lang)
                     | None \<Rightarrow> pm_encode (encode de val KIND_LITERAL)))
           | None \<Rightarrow>
               (case strip_prefix ''_:'' txt of
                  Some rest \<Rightarrow> pm_encode (encode de rest KIND_BLANK)
                | None \<Rightarrow>
                    if looks_numeric txt then
                      pm_encode (encode_typed_literal de txt (XSD @ (if contains_char CHR ''.'' txt then ''decimal'' else ''integer'')))
                    else if contains_char CHR '':'' txt \<and> \<not> contains_char CHR '' '' txt then
                      pm_encode (encode de (resolve_prefix rows txt) KIND_IRI)
                    else pm_fail (''unrecognized term: '' @ txt))))"

definition object_text :: "string list \<Rightarrow> string" where
  "object_text tokens = (if length tokens = 3 then tokens ! 2 else join_str '' '' (drop 2 tokens))"

definition triple_with :: "(string \<Rightarrow> ('e, 'd, Term) pm) \<Rightarrow> string \<Rightarrow> ('e, 'd, Term \<times> Term \<times> Term) pm" where
  "triple_with parse txt =
     (let tokens = tokenize_terms txt in
      if length tokens < 3 then
        pm_fail (''expected 3 terms in triple pattern, got '' @ show_nat (length tokens) @ '': '' @ txt)
      else
        pm_bind (parse (tokens ! 0)) (\<lambda>s.
        pm_bind (parse (tokens ! 1)) (\<lambda>p.
        pm_bind (parse (object_text tokens)) (\<lambda>ob. pm_return (s, p, ob)))))"

definition parse_quoted :: "(string \<Rightarrow> ('e, 'd, Term) pm) \<Rightarrow> ('e, 'd) parse_env \<Rightarrow> string \<Rightarrow> ('e, 'd, Term) pm" where
  "parse_quoted parse env txt =
     pm_bind (triple_with parse (trim (take (length txt - 4) (drop 2 txt)))) (\<lambda>(s, p, ob).
     pm_bind (term_to_const s) (\<lambda>s_id.
     pm_bind (term_to_const p) (\<lambda>p_id.
     pm_bind (term_to_const ob) (\<lambda>o_id.
       pm_encode (encode_quoted_triple (pe_dict env) s_id p_id o_id)))))"

text \<open>The recursion through quoted triples, as deep as the text is long.\<close>

fun parse_term_depth :: "nat \<Rightarrow> ('e, 'd) parse_env \<Rightarrow> string \<Rightarrow> ('e, 'd, Term) pm" where
  "parse_term_depth 0 env txt = parse_term_with (\<lambda>t. pm_fail ''quoted triple nested too deeply'') env txt"
| "parse_term_depth (Suc n) env txt = parse_term_with (parse_quoted (parse_term_depth n env) env) env txt"

definition parse_term :: "('e, 'd) parse_env \<Rightarrow> string \<Rightarrow> ('e, 'd, Term) pm" where
  "parse_term env txt = parse_term_depth (length txt) env txt"

definition parse_triple_terms :: "('e, 'd) parse_env \<Rightarrow> string \<Rightarrow> ('e, 'd, Term \<times> Term \<times> Term) pm" where
  "parse_triple_terms env txt = triple_with (parse_term env) txt"

definition mk_atom :: "Term \<Rightarrow> Term \<times> Term \<times> Term \<Rightarrow> Atom" where
  "mk_atom g = (\<lambda>(s, p, ob). \<lparr>atom_s = s, atom_p = p, atom_o = ob, atom_g = g\<rparr>)"

definition parse_atom :: "('e, 'd) parse_env \<Rightarrow> string \<Rightarrow> ('e, 'd, Atom) pm" where
  "parse_atom env raw =
     (let txt = trim raw in
      if starts_with (to_uppercase txt) ''GRAPH'' then
        (let rest = trim (drop 5 txt) in
         case find_str ''{'' rest of
           None \<Rightarrow> pm_fail (''missing '' @ [CHR 0x27] @ ''{'' @ [CHR 0x27] @ '' in GRAPH pattern: '' @ txt)
         | Some brace \<Rightarrow>
             (case strip_suffix ''}'' (trim (drop (brace + 1) rest)) of
                None \<Rightarrow> pm_fail (''missing '' @ [CHR 0x27] @ ''}'' @ [CHR 0x27] @ '' in GRAPH pattern: '' @ txt)
              | Some inner \<Rightarrow>
                  pm_bind (parse_term env (trim (take brace rest))) (\<lambda>g.
                  pm_bind (parse_triple_terms env (trim inner)) (\<lambda>t. pm_return (mk_atom g t)))))
      else pm_bind (parse_triple_terms env txt) (\<lambda>t. pm_return (mk_atom DefaultGraph t)))"

definition parse_head :: "('e, 'd) parse_env \<Rightarrow> string \<Rightarrow> ('e, 'd, Atom) pm" where
  "parse_head env txt = parse_atom env (trim txt)"

section \<open>Body literals\<close>

definition parse_variable :: "string \<Rightarrow> string option" where
  "parse_variable txt = strip_prefix ''?'' txt"

definition trim_cast :: "string \<Rightarrow> string" where
  "trim_cast s = (case rfind_str ''::'' s of Some pos \<Rightarrow> trim (take pos s) | None \<Rightarrow> trim s)"

definition call_args :: "string \<Rightarrow> string \<Rightarrow> string option" where
  "call_args prefix txt =
     (if starts_with (to_uppercase txt) prefix \<and> ends_with txt '')''
      then Some (take (length txt - 1 - length prefix) (drop (length prefix) txt)) else None)"

definition allen_of :: "string \<Rightarrow> (string \<Rightarrow> string \<Rightarrow> string \<Rightarrow> string \<Rightarrow> TemporalFilter) option" where
  "allen_of prefix = map_of
     [(''ALLEN_BEFORE('', AllenBefore), (''ALLEN_MEETS('', AllenMeets), (''ALLEN_OVERLAPS('', AllenOverlaps),
      (''ALLEN_DURING('', AllenDuring), (''ALLEN_FINISHES('', AllenFinishes), (''ALLEN_STARTS('', AllenStarts),
      (''ALLEN_EQUALS('', AllenEquals)] prefix"

definition try_allen :: "string \<Rightarrow> string \<Rightarrow> TemporalFilter option" where
  "try_allen txt prefix =
     Option.bind (call_args prefix txt) (\<lambda>inner.
       case split_csv inner of
         [a, b, c, d] \<Rightarrow> map_option (\<lambda>f. f (trim_cast a) (trim_cast b) (trim_cast c) (trim_cast d)) (allen_of prefix)
       | _ \<Rightarrow> None)"

fun first_some :: "'a option list \<Rightarrow> 'a option" where
  "first_some [] = None"
| "first_some (Some x # _) = Some x"
| "first_some (None # xs) = first_some xs"

definition try_parse_temporal_filter :: "string \<Rightarrow> TemporalFilter option" where
  "try_parse_temporal_filter txt =
     first_some (
       [map_option (\<lambda>inner. After (trim_cast inner)) (call_args ''AFTER('' txt),
        map_option (\<lambda>inner. Before (trim_cast inner)) (call_args ''BEFORE('' txt),
        Option.bind (call_args ''DURING('' txt) (\<lambda>inner.
          case split_csv inner of [a, b] \<Rightarrow> Some (During (trim_cast a) (trim_cast b)) | _ \<Rightarrow> None),
        Option.bind (call_args ''WITHIN('' txt) (\<lambda>inner.
          case split_csv inner of [_, _, _, d] \<Rightarrow> Some (Within (trim_cast d)) | _ \<Rightarrow> None),
        Option.bind (call_args ''SEQUENCE('' txt) (\<lambda>inner.
          case split_csv inner of
            [s1, p1, o1, s2, p2, o2, w] \<Rightarrow>
              Some (Sequence (trim s1) (trim p1) (trim o1) (trim s2) (trim p2) (trim o2) (trim_cast w))
          | _ \<Rightarrow> None),
        Option.bind (call_args ''CONSECUTIVE('' txt) (\<lambda>inner.
          case split_csv inner of
            [n, p, w] \<Rightarrow> map_option (\<lambda>k. Consecutive k (trim p) (trim_cast w)) (parse_i64 (trim n))
          | _ \<Rightarrow> None)]
       @ map (try_allen txt)
           [''ALLEN_BEFORE('', ''ALLEN_MEETS('', ''ALLEN_OVERLAPS('', ''ALLEN_DURING('', ''ALLEN_FINISHES('', ''ALLEN_STARTS('',
            ''ALLEN_EQUALS(''])"

definition agg_func_of :: "string \<Rightarrow> AggFunc option" where
  "agg_func_of upper =
     (if starts_with upper ''COUNT('' then Some AggCount
      else if starts_with upper ''SUM('' then Some AggSum
      else if starts_with upper ''MIN('' then Some AggMin
      else if starts_with upper ''MAX('' then Some AggMax
      else if starts_with upper ''AVG('' then Some AggAvg
      else None)"

fun closing_paren :: "nat \<Rightarrow> nat \<Rightarrow> string \<Rightarrow> nat option" where
  "closing_paren i depth [] = None"
| "closing_paren i depth (c # s) =
     (if c = CHR ''('' then closing_paren (Suc i) (Suc depth) s
      else if c = CHR '')'' then (if depth - 1 = 0 then Some i else closing_paren (Suc i) (depth - 1) s)
      else closing_paren (Suc i) depth s)"

text \<open>The parts of an aggregate text: function, aggregated variable, text of the atom, and what follows.\<close>

definition aggregate_parts :: "string \<Rightarrow> (AggFunc \<times> string \<times> string \<times> string) option" where
  "aggregate_parts txt =
     Option.bind (agg_func_of (to_uppercase txt)) (\<lambda>func.
     Option.bind (find_str ''('' txt) (\<lambda>paren_start.
       let after_paren = drop (paren_start + 1) txt in
     Option.bind (find_str '' WHERE '' (to_uppercase after_paren)) (\<lambda>where_pos.
     Option.bind (strip_prefix ''?'' (trim (take where_pos after_paren))) (\<lambda>av.
       let after_where = drop (where_pos + 7) after_paren in
     Option.bind (closing_paren 0 1 after_where) (\<lambda>close_paren.
       Some (func, av, trim (take close_paren after_where), trim (drop (close_paren + 1) after_where)))))))"

definition try_parse_aggregate :: "('e, 'd) parse_env \<Rightarrow> string \<Rightarrow> ('e, 'd, AggregateLiteral option) pm" where
  "try_parse_aggregate env txt =
     (case aggregate_parts txt of
        None \<Rightarrow> pm_return None
      | Some (func, av, atom_str, after_close) \<Rightarrow>
          pm_ok (parse_atom env atom_str) (\<lambda>atom.
            pm_return (map_option (\<lambda>r. \<lparr>agg_func = func, agg_var = av, agg_atom = atom, result_var = trim r\<rparr>)
              (Option.bind (map_option trim (strip_prefix ''='' after_close)) (strip_prefix ''?'')))))"

definition arith_op :: "string \<Rightarrow> ArithOp option" where
  "arith_op t = map_of [(''+'', ArithAdd), (''-'', ArithSub), (''*'', ArithMul), (''/'', ArithDiv)] t"

definition compare_op :: "string \<Rightarrow> CompareOp option" where
  "compare_op t = map_of [(''>'', CmpGt), (''>='', CmpGte), (''<'', CmpLt), (''<='', CmpLte), (''='', CmpEq), (''!='', CmpNeq)] t"

definition try_parse_assign :: "('e, 'd) parse_env \<Rightarrow> string \<Rightarrow> ('e, 'd, BodyLiteral option) pm" where
  "try_parse_assign env txt =
     (let tokens = split_whitespace txt in
      if length tokens < 5 then pm_return None
      else if to_uppercase (tokens ! 1) \<noteq> ''IS'' then pm_return None
      else
        (case parse_variable (tokens ! 0) of
           None \<Rightarrow> pm_return None
         | Some target_var \<Rightarrow>
             pm_ok (parse_term env (tokens ! 2)) (\<lambda>lhs.
               case arith_op (tokens ! 3) of
                 None \<Rightarrow> pm_return None
               | Some op \<Rightarrow> pm_ok (parse_term env (tokens ! 4)) (\<lambda>rhs. pm_return (Some (Assign target_var lhs op rhs))))))"

definition try_parse_comparison :: "('e, 'd) parse_env \<Rightarrow> string \<Rightarrow> ('e, 'd, BodyLiteral option) pm" where
  "try_parse_comparison env txt =
     (let tokens = split_whitespace txt in
      if length tokens < 3 then pm_return None
      else
        (case compare_op (tokens ! 1) of
           None \<Rightarrow> pm_return None
         | Some op \<Rightarrow>
             pm_ok (parse_term env (tokens ! 0)) (\<lambda>lhs.
             pm_ok (parse_term env (tokens ! 2)) (\<lambda>rhs. pm_return (Some (Compare lhs op rhs))))))"

text \<open>\<open>splitn(2, char::is_whitespace)\<close> with the operator in front, and the trimmed rest.\<close>

definition parse_compare_op_rest :: "string \<Rightarrow> (CompareOp \<times> string) option" where
  "parse_compare_op_rest rest =
     (case find_char is_ws rest of
        None \<Rightarrow> None
      | Some i \<Rightarrow> map_option (\<lambda>op. (op, trim (drop (i + 1) rest))) (compare_op (take i rest)))"

definition after_args :: "string \<Rightarrow> string \<Rightarrow> (string \<times> string) option" where
  "after_args prefix txt =
     map_option (\<lambda>k. let e = k + length prefix in (take k (drop (length prefix) txt), trim (drop (e + 1) txt)))
       (find_str '')'' (drop (length prefix) txt))"

definition trim_quotes :: "string \<Rightarrow> string" where
  "trim_quotes s = trim_end_matches dq (trim_start_matches dq s)"

definition compare_builtin :: "('e, 'd) parse_env \<Rightarrow> string \<Rightarrow> (CompareOp \<Rightarrow> Term \<Rightarrow> StringBuiltin) \<Rightarrow> ('e, 'd, BodyLiteral option) pm" where
  "compare_builtin env rest mk =
     (case parse_compare_op_rest rest of
        None \<Rightarrow> pm_return None
      | Some (op, rhs_str) \<Rightarrow> pm_ok (parse_term env rhs_str) (\<lambda>rhs. pm_return (Some (StringBuiltin (mk op rhs)))))"

definition try_parse_similarity_two_arg :: "('e, 'd) parse_env \<Rightarrow> string \<Rightarrow> string
    \<Rightarrow> (Term \<Rightarrow> Term \<Rightarrow> CompareOp \<Rightarrow> Term \<Rightarrow> StringBuiltin) \<Rightarrow> ('e, 'd, BodyLiteral option) pm" where
  "try_parse_similarity_two_arg env txt prefix build =
     (case after_args prefix txt of
        None \<Rightarrow> pm_return None
      | Some (inner, rest) \<Rightarrow>
          (let parts = split_body inner in
           if length parts < 2 then pm_return None
           else pm_ok (parse_term env (trim (parts ! 0))) (\<lambda>a.
                pm_ok (parse_term env (trim (parts ! 1))) (\<lambda>b. compare_builtin env rest (build a b)))))"

definition try_parse_soundex :: "('e, 'd) parse_env \<Rightarrow> string \<Rightarrow> ('e, 'd, BodyLiteral option) pm" where
  "try_parse_soundex env txt =
     (case after_args ''pg:soundex('' txt of
        None \<Rightarrow> pm_return None
      | Some (inner, rest) \<Rightarrow> pm_ok (parse_term env (trim inner)) (\<lambda>s. compare_builtin env rest (Soundex s)))"

definition try_parse_metaphone :: "('e, 'd) parse_env \<Rightarrow> string \<Rightarrow> ('e, 'd, BodyLiteral option) pm" where
  "try_parse_metaphone env txt =
     (case after_args ''pg:metaphone('' txt of
        None \<Rightarrow> pm_return None
      | Some (inner, rest) \<Rightarrow>
          (let parts = split_body inner in
           if length parts < 2 then pm_return None
           else pm_ok (parse_term env (trim (parts ! 0))) (\<lambda>s.
                  case parse_i64 (trim_quotes (trim (parts ! 1))) of
                    None \<Rightarrow> pm_return None
                  | Some maxlen \<Rightarrow> compare_builtin env rest (Metaphone s maxlen))))"

definition try_parse_string_builtin :: "('e, 'd) parse_env \<Rightarrow> string \<Rightarrow> ('e, 'd, BodyLiteral option) pm" where
  "try_parse_string_builtin env txt =
     (let upper = to_uppercase txt in
      if starts_with upper ''STRLEN('' then
        (case after_args ''STRLEN('' txt of
           None \<Rightarrow> pm_return None
         | Some (inner, rest) \<Rightarrow> pm_ok (parse_term env (trim inner)) (\<lambda>t. compare_builtin env rest (Strlen t)))
      else if starts_with upper ''REGEX('' then
        (case rfind_str '')'' txt of
           None \<Rightarrow> pm_return None
         | Some inner_end \<Rightarrow>
             (let parts = split_body (take (inner_end - 6) (drop 6 txt)) in
              if length parts < 2 then pm_return None
              else pm_ok (parse_term env (trim (parts ! 0))) (\<lambda>v.
                     pm_return (Some (StringBuiltin (Regex v (trim_quotes (trim (parts ! 1)))))))))
      else if starts_with txt ''pg:trigram_similarity('' then try_parse_similarity_two_arg env txt ''pg:trigram_similarity('' TrigramSimilarity
      else if starts_with txt ''pg:levenshtein('' then try_parse_similarity_two_arg env txt ''pg:levenshtein('' Levenshtein
      else if starts_with txt ''pg:soundex('' then try_parse_soundex env txt
      else if starts_with txt ''pg:metaphone('' then try_parse_metaphone env txt
      else if starts_with txt ''pg:jaro_winkler('' then try_parse_similarity_two_arg env txt ''pg:jaro_winkler('' JaroWinkler
      else if starts_with txt ''pg:dice_similarity('' then try_parse_similarity_two_arg env txt ''pg:dice_similarity('' DiceSimilarity
      else pm_return None)"

definition parse_body_literal :: "('e, 'd) parse_env \<Rightarrow> string \<Rightarrow> ('e, 'd, BodyLiteral) pm" where
  "parse_body_literal env raw =
     (let txt = trim raw in
      case strip_prefix ''NOT'' txt of
        Some rest \<Rightarrow> pm_bind (parse_atom env (trim_start rest)) (\<lambda>a. pm_return (Negated a))
      | None \<Rightarrow>
          (case try_parse_temporal_filter txt of
             Some tf \<Rightarrow> pm_return (TemporalFilterLit tf)
           | None \<Rightarrow>
               pm_first (try_parse_aggregate env txt) Aggregate
                 (pm_first (try_parse_assign env txt) (\<lambda>l. l)
                   (pm_first (try_parse_comparison env txt) (\<lambda>l. l)
                     (pm_first (try_parse_string_builtin env txt) (\<lambda>l. l)
                       (pm_bind (parse_atom env txt) (\<lambda>a. pm_return (Positive a))))))))"

fun parse_literals :: "('e, 'd) parse_env \<Rightarrow> string list \<Rightarrow> ('e, 'd, BodyLiteral list) pm" where
  "parse_literals env [] = pm_return []"
| "parse_literals env (l # ls) =
     (if trim l = [] then parse_literals env ls
      else pm_bind (parse_body_literal env (trim l)) (\<lambda>x. pm_bind (parse_literals env ls) (\<lambda>xs. pm_return (x # xs))))"

definition parse_body :: "('e, 'd) parse_env \<Rightarrow> string \<Rightarrow> ('e, 'd, BodyLiteral list) pm" where
  "parse_body env txt = parse_literals env (split_body txt)"

section \<open>Rules\<close>

definition extract_weight_annotation :: "('e, 'd) parse_env \<Rightarrow> string \<Rightarrow> parse_abort + string \<times> f64 option" where
  "extract_weight_annotation env txt =
     (case rfind_str ''@weight('' txt of
        None \<Rightarrow> Inr (txt, None)
      | Some pos \<Rightarrow>
          (let annotation = drop pos txt in
           case find_str '')'' annotation of
             None \<Rightarrow> Inr (txt, None)
           | Some e \<Rightarrow>
               (let inner = trim (take (e - 8) (drop 8 annotation)) in
                case pe_parse_f64 env inner of
                  Some (w, in_range) \<Rightarrow>
                    if in_range then Inr (take pos txt, Some w)
                    else Inl (PRaised (''rule weight must be in [0.0, 1.0]; got '' @ pe_show_f64 env w @ '' (PT0301)''))
                | None \<Rightarrow> Inl (PRaised (''invalid @weight annotation: expected a float literal, got '' @ [CHR 0x27] @ inner
                            @ [CHR 0x27] @ '' (PT0301)'')))))"

definition parse_rule :: "('e, 'd) parse_env \<Rightarrow> string \<Rightarrow> ('e, 'd, Rule) pm" where
  "parse_rule env txt d =
     (case extract_weight_annotation env txt of
        Inl a \<Rightarrow> Inl a
      | Inr (rtxt, weight) \<Rightarrow>
          (let full = trim rtxt @ '' .'' in
           if starts_with (trim_start rtxt) '':-'' then
             pm_bind (parse_body env (trim (drop 2 (trim_start rtxt)))) (\<lambda>body.
               pm_return \<lparr>rule_head = None, rule_body = body, rule_text = full, rule_weight = weight\<rparr>) d
           else
             (case find_neck rtxt of
                Inl e \<Rightarrow> pm_fail e d
              | Inr sep \<Rightarrow>
                  pm_bind (parse_head env (trim (take sep rtxt))) (\<lambda>head.
                  pm_bind (parse_body env (trim (drop (sep + 2) rtxt))) (\<lambda>body.
                    pm_return \<lparr>rule_head = Some head, rule_body = body, rule_text = full, rule_weight = weight\<rparr>)) d)))"

text \<open>All lines are tried; the errors are collected with the numbers of their lines.\<close>

fun parse_lines :: "('e, 'd) parse_env \<Rightarrow> nat \<Rightarrow> string list \<Rightarrow> ('e, 'd) dict
    \<Rightarrow> parse_abort + (Rule list \<times> string list) \<times> ('e, 'd) dict" where
  "parse_lines env n [] d = Inr (([], []), d)"
| "parse_lines env n (l # ls) d =
     (let line = trim l in
      if line = [] \<or> starts_with line ''#'' then parse_lines env (Suc n) ls d
      else
        (case parse_rule env line d of
           Inl a \<Rightarrow> Inl a
         | Inr (r, d) \<Rightarrow>
             (case parse_lines env (Suc n) ls d of
                Inl a \<Rightarrow> Inl a
              | Inr ((rules, errors), d) \<Rightarrow>
                  (case r of
                     Inr rule \<Rightarrow> Inr ((rule # rules, errors), d)
                   | Inl e \<Rightarrow> Inr ((rules, (''line '' @ show_nat n @ '': '' @ e) # errors), d)))))"

definition parse_rules :: "('e, 'd) parse_env \<Rightarrow> string \<Rightarrow> string \<Rightarrow> ('e, 'd, RuleSet) pm" where
  "parse_rules env txt rule_set_name d =
     (case parse_lines env 1 (tokenize_rules txt) d of
        Inl a \<Rightarrow> Inl a
      | Inr ((rules, errors), d) \<Rightarrow>
          if errors \<noteq> [] then pm_fail (join_str ''; '' errors) d
          else pm_return \<lparr>rs_name = rule_set_name, rs_rules = rules\<rparr> d)"

end
