(* ===== verification/Datalog_Parser_Correct.thy ===== *)
theory Datalog_Parser_Correct
  imports Datalog_Parser
begin

text \<open>
  Properties of the rule parser: a printed program is parsed to its own encoding, quoted triples are
  read as IRIs, and the lexer splits the numbers of weights.
\<close>

section \<open>Solid texts\<close>

definition solid :: "string \<Rightarrow> bool" where
  "solid s \<longleftrightarrow> s \<noteq> [] \<and> \<not> is_ws (hd s) \<and> \<not> is_ws (last s)"

lemma solid_trim_start [simp]: "solid s \<Longrightarrow> trim_start s = s"
  by (cases s) (auto simp: solid_def trim_start_def)

lemma solid_trim_end [simp]: "solid s \<Longrightarrow> trim_end s = s"
  by (cases s rule: rev_cases) (auto simp: solid_def trim_end_def)

lemma solid_trim [simp]: "solid s \<Longrightarrow> trim s = s"
  by (simp add: trim_def)

lemma solid_trim_left [simp]: "solid s \<Longrightarrow> is_ws c \<Longrightarrow> trim (c # s) = s"
  by (cases s) (auto simp: trim_def trim_start_def solid_def)

lemma solid_trim_right [simp]: "solid s \<Longrightarrow> is_ws c \<Longrightarrow> trim (s @ [c]) = s"
proof -
  assume s: "solid s" and c: "is_ws c"
  have "trim_start (s @ [c]) = s @ [c]" using s by (cases s) (auto simp: trim_start_def solid_def)
  moreover have "trim_end (s @ [c]) = trim_end s" using c by (simp add: trim_end_def)
  ultimately show ?thesis using s by (simp add: trim_def)
qed

lemma solid_append: "solid s \<Longrightarrow> solid t \<Longrightarrow> solid (s @ u @ t)"
  by (auto simp: solid_def)

lemma solid_ne [simp]: "solid s \<Longrightarrow> s \<noteq> []"
  by (simp add: solid_def)

lemma ws_chars [simp]: "is_ws CHR '' ''" "is_ws CHR 0x0A" "\<not> is_ws CHR ''?''" "\<not> is_ws CHR ''<''" "\<not> is_ws CHR ''>''" "\<not> is_ws CHR ''{''"
  "\<not> is_ws CHR ''}''" "\<not> is_ws CHR '':''" "\<not> is_ws CHR ''-''" "\<not> is_ws CHR ''G''" "\<not> is_ws CHR ''N''" "\<not> is_ws CHR ''_''"
  by (simp_all add: is_ws_def)

section \<open>Source programs\<close>

datatype src_term = SVar string | SWild | SIri string

record src_atom =
  sa_s :: src_term
  sa_p :: src_term
  sa_o :: src_term
  sa_g :: "src_term option"

datatype src_literal = SPos src_atom | SNeg src_atom

record src_rule =
  sr_head :: "src_atom option"
  sr_body :: "src_literal list"

definition name_char :: "char \<Rightarrow> bool" where
  "name_char c \<longleftrightarrow> is_ascii_alphanumeric c \<or> c = CHR ''_''"

definition iri_char :: "char \<Rightarrow> bool" where
  "iri_char c \<longleftrightarrow> \<not> is_ws c \<and> c \<notin> {CHR ''<'', CHR ''>'', dq, CHR ''('', CHR ''{'', CHR ''}''}"

fun term_ok :: "src_term \<Rightarrow> bool" where
  "term_ok (SVar n) \<longleftrightarrow> n \<noteq> [] \<and> n \<noteq> ''_'' \<and> list_all name_char n"
| "term_ok SWild \<longleftrightarrow> True"
| "term_ok (SIri i) \<longleftrightarrow> list_all iri_char i"

definition atom_ok :: "src_atom \<Rightarrow> bool" where
  "atom_ok a \<longleftrightarrow> term_ok (sa_s a) \<and> term_ok (sa_p a) \<and> term_ok (sa_o a) \<and> (case sa_g a of Some g \<Rightarrow> term_ok g | None \<Rightarrow> True)"

fun literal_ok :: "src_literal \<Rightarrow> bool" where
  "literal_ok (SPos a) = atom_ok a"
| "literal_ok (SNeg a) = atom_ok a"

definition rule_ok :: "src_rule \<Rightarrow> bool" where
  "rule_ok r \<longleftrightarrow> (case sr_head r of Some h \<Rightarrow> atom_ok h | None \<Rightarrow> True) \<and> sr_body r \<noteq> [] \<and> list_all literal_ok (sr_body r)"

fun print_term :: "src_term \<Rightarrow> string" where
  "print_term (SVar n) = ''?'' @ n"
| "print_term SWild = ''?_''"
| "print_term (SIri i) = ''<'' @ i @ ''>''"

definition print_triple :: "src_atom \<Rightarrow> string" where
  "print_triple a = print_term (sa_s a) @ '' '' @ print_term (sa_p a) @ '' '' @ print_term (sa_o a)"

definition print_atom :: "src_atom \<Rightarrow> string" where
  "print_atom a = (case sa_g a of None \<Rightarrow> print_triple a | Some g \<Rightarrow> ''GRAPH '' @ print_term g @ '' { '' @ print_triple a @ '' }'')"

fun print_literal :: "src_literal \<Rightarrow> string" where
  "print_literal (SPos a) = print_atom a"
| "print_literal (SNeg a) = ''NOT '' @ print_atom a"

definition print_body :: "src_literal list \<Rightarrow> string" where
  "print_body ls = join_str '', '' (map print_literal ls)"

definition print_core :: "src_rule \<Rightarrow> string" where
  "print_core r = (case sr_head r of Some h \<Rightarrow> print_atom h @ '' :- '' | None \<Rightarrow> '':- '') @ print_body (sr_body r)"

definition print_program :: "src_rule list \<Rightarrow> string" where
  "print_program rs = concat (map (\<lambda>r. print_core r @ '' .'' @ [CHR 0x0A]) rs)"

text \<open>The encoding of a program, term by term in the order of the text.\<close>

fun enc_term :: "('e, 'd) parse_env \<Rightarrow> src_term \<Rightarrow> ('e, 'd, Term) pm" where
  "enc_term env (SVar n) = pm_return (Var n)"
| "enc_term env SWild = pm_return Wildcard"
| "enc_term env (SIri i) = pm_encode (encode (pe_dict env) i KIND_IRI)"

definition enc_triple :: "('e, 'd) parse_env \<Rightarrow> src_atom \<Rightarrow> ('e, 'd, Term \<times> Term \<times> Term) pm" where
  "enc_triple env a =
     pm_bind (enc_term env (sa_s a)) (\<lambda>s.
     pm_bind (enc_term env (sa_p a)) (\<lambda>p.
     pm_bind (enc_term env (sa_o a)) (\<lambda>ob. pm_return (s, p, ob))))"

definition enc_atom :: "('e, 'd) parse_env \<Rightarrow> src_atom \<Rightarrow> ('e, 'd, Atom) pm" where
  "enc_atom env a =
     (case sa_g a of
        None \<Rightarrow> pm_bind (enc_triple env a) (\<lambda>t. pm_return (mk_atom DefaultGraph t))
      | Some g \<Rightarrow> pm_bind (enc_term env g) (\<lambda>g. pm_bind (enc_triple env a) (\<lambda>t. pm_return (mk_atom g t))))"

fun enc_literal :: "('e, 'd) parse_env \<Rightarrow> src_literal \<Rightarrow> ('e, 'd, BodyLiteral) pm" where
  "enc_literal env (SPos a) = pm_bind (enc_atom env a) (\<lambda>x. pm_return (Positive x))"
| "enc_literal env (SNeg a) = pm_bind (enc_atom env a) (\<lambda>x. pm_return (Negated x))"

fun enc_body :: "('e, 'd) parse_env \<Rightarrow> src_literal list \<Rightarrow> ('e, 'd, BodyLiteral list) pm" where
  "enc_body env [] = pm_return []"
| "enc_body env (l # ls) = pm_bind (enc_literal env l) (\<lambda>x. pm_bind (enc_body env ls) (\<lambda>xs. pm_return (x # xs)))"

definition enc_rule :: "('e, 'd) parse_env \<Rightarrow> src_rule \<Rightarrow> ('e, 'd, Rule) pm" where
  "enc_rule env r =
     (let mk = (\<lambda>h b. \<lparr>rule_head = h, rule_body = b, rule_text = print_core r @ '' .'', rule_weight = None\<rparr>) in
      case sr_head r of
        None \<Rightarrow> pm_bind (enc_body env (sr_body r)) (\<lambda>b. pm_return (mk None b))
      | Some h \<Rightarrow> pm_bind (enc_atom env h) (\<lambda>h. pm_bind (enc_body env (sr_body r)) (\<lambda>b. pm_return (mk (Some h) b))))"

fun enc_rules :: "('e, 'd) parse_env \<Rightarrow> src_rule list \<Rightarrow> ('e, 'd, Rule list) pm" where
  "enc_rules env [] = pm_return []"
| "enc_rules env (r # rs) = pm_bind (enc_rule env r) (\<lambda>x. pm_bind (enc_rules env rs) (\<lambda>xs. pm_return (x # xs)))"

section \<open>Texts a lexer carries along\<close>

text \<open>A lexer passes a text when reading it only extends the current token.\<close>

definition passes :: "(string \<Rightarrow> string \<Rightarrow> 'a) \<Rightarrow> string \<Rightarrow> bool" where
  "passes L t \<longleftrightarrow> (\<forall>cur s. L cur (t @ s) = L (cur @ t) s)"

lemma passes_Nil [simp]: "passes L []"
  by (simp add: passes_def)

lemma passes_append [intro]: "passes L t \<Longrightarrow> passes L u \<Longrightarrow> passes L (t @ u)"
  by (simp add: passes_def)

lemma passes_chars: "(\<And>c. c \<in> set t \<Longrightarrow> passes L [c]) \<Longrightarrow> passes L t"
proof (induction t)
  case (Cons c t)
  then have "passes L ([c] @ t)" by (intro passes_append) auto
  then show ?case by simp
qed simp

definition rules_lexer :: "string \<Rightarrow> string \<Rightarrow> string list" where
  "rules_lexer = tokenize_rules_from False False"

definition body_lexer :: "int \<Rightarrow> string \<Rightarrow> string \<Rightarrow> string list" where
  "body_lexer depth = split_body_from depth False False"

definition terms_lexer :: "string \<Rightarrow> string \<Rightarrow> string list" where
  "terms_lexer = tokenize_terms_from False False False"

definition neck_lexer :: "string \<Rightarrow> string \<Rightarrow> nat option" where
  "neck_lexer cur = find_neck_from False False (length cur) (if cur = [] then None else Some (last cur))"

named_theorems lexer_chars \<open>characters the lexers carry along\<close>

lemma rules_char [lexer_chars]: "c \<notin> {dq, CHR ''<'', CHR ''.'', CHR ''#''} \<Longrightarrow> passes rules_lexer [c]"
  by (simp add: passes_def rules_lexer_def)

lemma body_char [lexer_chars]:
  "c \<notin> {dq, CHR ''<'', CHR ''{'', CHR ''('', CHR ''}'', CHR '')'', CHR '',''} \<Longrightarrow> passes (body_lexer n) [c]"
  by (simp add: passes_def body_lexer_def)

lemma terms_char [lexer_chars]: "c \<notin> {dq, CHR ''<'', CHR '' '', CHR 0x09, CHR 0x0A} \<Longrightarrow> passes terms_lexer [c]"
  by (simp add: passes_def terms_lexer_def)

lemma neck_char [lexer_chars]: "c \<notin> {dq, CHR ''<'', CHR ''>'', CHR ''-''} \<Longrightarrow> passes neck_lexer [c]"
  by (simp add: passes_def neck_lexer_def)

lemma rules_iri:
  "list_all iri_char i \<Longrightarrow> tokenize_rules_from False True cur (i @ CHR ''>'' # s) = tokenize_rules_from False False (cur @ i @ ''>'') s"
  by (induction i arbitrary: cur) (auto simp: iri_char_def)

lemma body_iri:
  "list_all iri_char i \<Longrightarrow> split_body_from n False True cur (i @ CHR ''>'' # s) = split_body_from n False False (cur @ i @ ''>'') s"
  by (induction i arbitrary: cur) (auto simp: iri_char_def)

lemma terms_iri:
  "list_all iri_char i \<Longrightarrow>
    tokenize_terms_from False True False cur (i @ CHR ''>'' # s) = tokenize_terms_from False False False (cur @ i @ ''>'') s"
  by (induction i arbitrary: cur) (auto simp: iri_char_def)

lemma neck_iri:
  "list_all iri_char i \<Longrightarrow>
    find_neck_from False True n prev (i @ CHR ''>'' # s) = find_neck_from False False (n + length i + 1) (Some CHR ''>'') s"
  by (induction i arbitrary: n prev) (auto simp: iri_char_def)

lemma iri_passes:
  assumes "list_all iri_char i"
  shows "passes rules_lexer (''<'' @ i @ ''>'')" "passes (body_lexer n) (''<'' @ i @ ''>'')"
    "passes terms_lexer (''<'' @ i @ ''>'')" "passes neck_lexer (''<'' @ i @ ''>'')"
proof -
  show "passes rules_lexer (''<'' @ i @ ''>'')" using rules_iri [OF assms] by (simp add: passes_def rules_lexer_def)
  show "passes (body_lexer n) (''<'' @ i @ ''>'')" using body_iri [OF assms] by (simp add: passes_def body_lexer_def)
  have "tokenize_terms_from False False False cur (CHR ''<'' # i @ CHR ''>'' # s)
      = tokenize_terms_from False True False (cur @ ''<'') (i @ CHR ''>'' # s)" for cur s
    using assms by (cases i) (auto simp: iri_char_def)
  then show "passes terms_lexer (''<'' @ i @ ''>'')" using terms_iri [OF assms] by (simp add: passes_def terms_lexer_def)
  show "passes neck_lexer (''<'' @ i @ ''>'')" using neck_iri [OF assms] by (simp add: passes_def neck_lexer_def)
qed

lemma name_char_cases:
  assumes "name_char c"
  shows "c \<notin> {dq, CHR ''<'', CHR ''>'', CHR ''.'', CHR ''#'', CHR ''{'', CHR ''('', CHR ''}'', CHR '')'', CHR '','', CHR '' '', CHR 0x09,
    CHR 0x0A, CHR ''-'', CHR '':'', CHR ''?'', CHR ''@''}" "\<not> is_ws c"
  using assms by (auto simp: name_char_def is_ascii_alphanumeric_def is_ascii_alphabetic_def is_digit_def is_ws_def Let_def)

lemma term_passes:
  assumes "term_ok t"
  shows "passes rules_lexer (print_term t)" "passes (body_lexer n) (print_term t)" "passes terms_lexer (print_term t)" "passes neck_lexer (print_term t)"
proof -
  have c: "name_char c \<or> c = CHR ''?'' \<Longrightarrow> passes rules_lexer [c] \<and> passes (body_lexer n) [c] \<and> passes terms_lexer [c] \<and> passes neck_lexer [c]" for c
  proof -
    assume "name_char c \<or> c = CHR ''?''"
    then have n: "c \<notin> {dq, CHR ''<'', CHR ''>'', CHR ''.'', CHR ''#'', CHR ''{'', CHR ''('', CHR ''}'', CHR '')'', CHR '','', CHR '' '', CHR 0x09,
      CHR 0x0A, CHR ''-''}"
    proof
      assume "name_char c"
      from name_char_cases(1) [OF this] show ?thesis by simp
    qed simp
    show ?thesis by (intro conjI rules_char body_char terms_char neck_char) (use n in simp_all)
  qed
  have w: "list_all name_char ''_''" by (simp add: name_char_def)
  have v: "passes rules_lexer (''?'' @ m)" "passes (body_lexer n) (''?'' @ m)" "passes terms_lexer (''?'' @ m)" "passes neck_lexer (''?'' @ m)"
    if "list_all name_char m" for m
    by (rule passes_chars; use that c in \<open>auto simp: list_all_iff\<close>)+
  show "passes rules_lexer (print_term t)" "passes (body_lexer n) (print_term t)" "passes terms_lexer (print_term t)" "passes neck_lexer (print_term t)"
    using assms v [OF w] v iri_passes by (cases t; simp)+
qed

section \<open>Terms\<close>

lemma name_char_ne:
  assumes "list_all name_char n" "c \<in> {CHR ''('', CHR ''{'', CHR ''}'', CHR '' ''}"
  shows "c \<notin> set n"
proof
  assume "c \<in> set n"
  with assms(1) have "name_char c" by (simp add: list_all_iff)
  from name_char_cases(1) [OF this] assms(2) show False by simp
qed

lemma print_term_chars:
  assumes "term_ok t" "c \<in> set (print_term t)"
  shows "\<not> is_ws c" "c \<noteq> CHR ''(''" "c \<noteq> CHR ''{''"
proof -
  have w: "\<not> is_ws CHR ''_''" by simp
  have "\<not> is_ws c \<and> c \<noteq> CHR ''('' \<and> c \<noteq> CHR ''{''"
  proof (cases t)
    case (SVar n)
    then consider "c = CHR ''?''" | "name_char c" using assms by (auto simp: list_all_iff)
    then show ?thesis
    proof cases
      case 2
      from name_char_cases [OF this] show ?thesis by simp
    qed simp
  next
    case (SIri i)
    then consider "c = CHR ''<''" | "c = CHR ''>''" | "iri_char c" using assms by (auto simp: list_all_iff)
    then show ?thesis by cases (simp_all add: iri_char_def)
  qed (use assms in auto)
  then show "\<not> is_ws c" "c \<noteq> CHR ''(''" "c \<noteq> CHR ''{''" by auto
qed

lemma print_term_hd: obtains (var) r where "print_term t = CHR ''?'' # r" | (iri) r where "print_term t = CHR ''<'' # r"
  by (cases t) auto

lemma print_term_ne [simp]: "print_term t \<noteq> []"
  by (cases t) auto

lemma print_term_solid: "term_ok t \<Longrightarrow> solid (print_term t)"
  using print_term_chars(1) [of t "hd (print_term t)"] print_term_chars(1) [of t "last (print_term t)"]
  by (auto simp: solid_def)

text \<open>The branch for quoted triples is never taken: a text in double angle brackets also stands in
  single ones, which the branch before it accepts.\<close>

lemma ends_with_iff: "ends_with s p \<longleftrightarrow> (\<exists>u. s = u @ p)"
  by (auto simp: ends_with_def) (metis append_take_drop_id)

lemma quoted_in_brackets: "starts_with t ''<<'' \<Longrightarrow> ends_with t ''>>'' \<Longrightarrow> starts_with t ''<'' \<and> ends_with t ''>''"
  by (cases t) (auto simp: starts_with_iff ends_with_iff)

lemma parse_term_with_indep: "parse_term_with q env txt = parse_term_with q' env txt"
  using quoted_in_brackets [of "trim txt"] by (auto simp: parse_term_with_def Let_def split: option.splits)

lemma parse_term_unfold: "parse_term env txt = parse_term_with q env txt"
  unfolding parse_term_def by (cases "length txt") (simp_all only: parse_term_depth.simps, (rule parse_term_with_indep)+)

lemma parse_term_print: "term_ok t \<Longrightarrow> parse_term env (print_term t) = enc_term env t"
proof -
  assume ok: "term_ok t"
  have t: "trim (print_term t) = print_term t" using print_term_solid [OF ok] by simp
  show ?thesis unfolding parse_term_unfold [where q = undefined] parse_term_with_def Let_def t
    using ok by (cases t) (auto simp: strip_prefix_def ends_with_def)
qed

section \<open>Atoms and literals\<close>

lemma terms_token:
  assumes "term_ok t"
  shows "terms_lexer [] (print_term t @ CHR '' '' # s) = print_term t # terms_lexer [] s" "terms_lexer [] (print_term t) = [print_term t]"
proof -
  have p: "terms_lexer [] (print_term t @ s) = terms_lexer (print_term t) s" for s
    using term_passes(3) [OF assms] by (simp add: passes_def)
  show "terms_lexer [] (print_term t @ CHR '' '' # s) = print_term t # terms_lexer [] s"
    using p [of "CHR '' '' # s"] print_term_solid [OF assms] by (simp add: terms_lexer_def)
  show "terms_lexer [] (print_term t) = [print_term t]"
    using p [of "[]"] print_term_solid [OF assms] by (simp add: terms_lexer_def push_trimmed_def)
qed

lemma tokenize_triple:
  assumes "atom_ok a"
  shows "tokenize_terms (print_triple a) = [print_term (sa_s a), print_term (sa_p a), print_term (sa_o a)]"
  using assms terms_token by (simp add: tokenize_terms_def print_triple_def atom_ok_def flip: terms_lexer_def)

lemma parse_triple_print:
  assumes "atom_ok a"
  shows "parse_triple_terms env (print_triple a) = enc_triple env a"
  using assms by (simp add: parse_triple_terms_def triple_with_def tokenize_triple object_text_def parse_term_print enc_triple_def atom_ok_def)

lemma print_triple_solid:
  assumes "atom_ok a"
  shows "solid (print_triple a)"
  using assms print_term_solid [of "sa_s a"] print_term_solid [of "sa_o a"]
  by (auto simp: print_triple_def atom_ok_def solid_def)

lemma solid_hd: "solid s \<Longrightarrow> \<not> is_ws c \<Longrightarrow> solid (c # u @ s)"
  by (simp add: solid_def)

lemma print_atom_solid:
  assumes "atom_ok a"
  shows "solid (print_atom a)"
  using print_triple_solid [OF assms] by (auto simp: print_atom_def solid_def split: option.splits)

definition opens :: "string \<Rightarrow> bool" where
  "opens s \<longleftrightarrow> s \<noteq> [] \<and> hd s \<in> {CHR ''?'', CHR ''<'', CHR ''G''}"

lemma upper_open [simp]: "upper_char CHR ''?'' = CHR ''?''" "upper_char CHR ''<'' = CHR ''<''" "upper_char CHR ''G'' = CHR ''G''"
  by (simp_all add: upper_char_def Let_def)

lemma print_term_opens: "opens (print_term t @ s)"
  by (cases t rule: print_term_hd) (simp_all add: opens_def)

lemma print_atom_opens: "opens (print_atom a @ s)"
  using print_term_opens [of "sa_s a"] by (auto simp: print_atom_def print_triple_def opens_def split: option.splits)

lemma opens_upper:
  assumes "opens s" "c \<notin> {CHR ''?'', CHR ''<'', CHR ''G''}"
  shows "\<not> starts_with (to_uppercase s) (c # p)" "\<not> starts_with s (c # p)"
  using assms by (cases s; auto simp: opens_def to_uppercase_def)+

lemma opens_call_args: "opens s \<Longrightarrow> c \<notin> {CHR ''?'', CHR ''<'', CHR ''G''} \<Longrightarrow> call_args (c # p) s = None"
  by (simp add: call_args_def opens_upper)

lemma opens_no_filter: "opens s \<Longrightarrow> try_parse_temporal_filter s = None"
  by (simp add: try_parse_temporal_filter_def try_allen_def opens_call_args)

lemma opens_no_aggregate: "opens s \<Longrightarrow> try_parse_aggregate env s = pm_return None"
  by (simp add: try_parse_aggregate_def aggregate_parts_def agg_func_of_def opens_upper)

lemma opens_no_builtin: "opens s \<Longrightarrow> try_parse_string_builtin env s = pm_return None"
  by (simp add: try_parse_string_builtin_def Let_def opens_upper)

lemma split_ws_word:
  "list_all (\<lambda>c. \<not> is_ws c) w \<Longrightarrow> cur @ w \<noteq> [] \<Longrightarrow> split_ws_from cur (w @ CHR '' '' # s) = (cur @ w) # split_ws_from [] s"
  by (induction w arbitrary: cur) (auto simp: list_all_iff)

lemma second_word:
  assumes "list_all (\<lambda>c. \<not> is_ws c) w" "w \<noteq> []" "term_ok t"
  shows "split_whitespace (w @ CHR '' '' # print_term t @ CHR '' '' # s) ! 1 = print_term t"
proof -
  have "list_all (\<lambda>c. \<not> is_ws c) (print_term t)" using print_term_chars(1) [OF assms(3)] by (simp add: list_all_iff)
  then show ?thesis using assms by (simp add: split_whitespace_def split_ws_word)
qed

lemma term_no_operator: "compare_op (print_term t) = None" "to_uppercase (print_term t) \<noteq> ''IS''"
proof -
  show "compare_op (print_term t) = None" by (cases t) (auto simp: compare_op_def)
  show "to_uppercase (print_term t) \<noteq> ''IS''" by (cases t rule: print_term_hd) (auto simp: to_uppercase_def)
qed

lemma atom_second_word:
  assumes "atom_ok a"
  shows "\<exists>t. split_whitespace (print_atom a) ! 1 = print_term t"
proof (cases "sa_g a")
  case None
  have "list_all (\<lambda>c. \<not> is_ws c) (print_term (sa_s a))" using assms print_term_chars(1) by (auto simp: list_all_iff atom_ok_def)
  then show ?thesis using second_word [of "print_term (sa_s a)" "sa_p a"] None assms by (auto simp: print_atom_def print_triple_def atom_ok_def)
next
  case (Some g)
  have "list_all (\<lambda>c. \<not> is_ws c) ''GRAPH''" by (simp add: is_ws_def)
  then show ?thesis using second_word [of "''GRAPH''" g] Some assms by (auto simp: print_atom_def atom_ok_def)
qed

lemma atom_no_operator:
  assumes "atom_ok a"
  shows "try_parse_assign env (print_atom a) = pm_return None" "try_parse_comparison env (print_atom a) = pm_return None"
  using atom_second_word [OF assms] term_no_operator
  by (auto simp: try_parse_assign_def try_parse_comparison_def Let_def)

lemma parse_atom_print:
  assumes "atom_ok a"
  shows "parse_atom env (print_atom a) = enc_atom env a"
proof (cases "sa_g a")
  case None
  have "\<not> starts_with (to_uppercase (print_triple a)) ''GRAPH''"
    by (cases "sa_s a" rule: print_term_hd) (simp_all add: print_triple_def to_uppercase_def)
  then show ?thesis using None print_triple_solid [OF assms]
    by (simp add: parse_atom_def print_atom_def parse_triple_print [OF assms] enc_atom_def)
next
  case (Some g)
  let ?r = "print_term g @ '' { '' @ print_triple a @ '' }''"
  have g: "term_ok g" using assms Some by (simp add: atom_ok_def)
  note st = print_triple_solid [OF assms] print_term_solid [OF g]
  have rest: "trim (CHR '' '' # ?r) = ?r" using st by (intro solid_trim_left) (auto simp: solid_def)
  have brace: "find_str ''{'' ?r = Some (length (print_term g) + 1)"
    using find_str_char [of "CHR ''{''" "print_term g @ '' ''" "'' '' @ print_triple a @ '' }''"] print_term_chars(3) [OF g] by auto
  have inner: "trim (CHR '' '' # print_triple a @ '' }'') = print_triple a @ '' }''" using st by (intro solid_trim_left) (auto simp: solid_def)
  have suffix: "strip_suffix ''}'' (print_triple a @ '' }'') = Some (print_triple a @ '' '')"
    by (simp add: strip_suffix_def ends_with_def)
  have upper: "starts_with (to_uppercase (''GRAPH '' @ ?r)) ''GRAPH''" by (simp add: to_uppercase_def upper_char_def)
  have tr: "trim (''GRAPH '' @ ?r) = ''GRAPH '' @ ?r" using st by (intro solid_trim) (simp add: solid_def)
  show ?thesis
    using Some st tr upper rest brace inner suffix parse_triple_print [OF assms, of env] parse_term_print [OF g, of env]
    by (simp add: parse_atom_def print_atom_def enc_atom_def Let_def)
qed

lemma pm_bind_return [simp]: "pm_bind (pm_return x) k = k x"
  by (rule ext) (simp add: pm_bind_def pm_return_def)

lemma print_literal_solid: "literal_ok l \<Longrightarrow> solid (print_literal l)"
  by (cases l) (auto dest: print_atom_solid simp: solid_def)

lemma parse_literal_print:
  assumes "literal_ok l"
  shows "parse_body_literal env (print_literal l) = enc_literal env l"
proof (cases l)
  case (SPos a)
  then have a: "atom_ok a" using assms by simp
  have "opens (print_atom a)" using print_atom_opens [of a "[]"] by simp
  then have "strip_prefix ''NOT'' (print_atom a) = None"
    by (cases "print_atom a") (auto simp: opens_def strip_prefix_def)
  with \<open>opens (print_atom a)\<close> show ?thesis
    using SPos print_atom_solid [OF a] atom_no_operator [OF a, of env] parse_atom_print [OF a, of env]
    by (simp add: parse_body_literal_def pm_first_def opens_no_filter opens_no_aggregate opens_no_builtin)
next
  case (SNeg a)
  then have a: "atom_ok a" using assms by simp
  have "trim_start (CHR '' '' # print_atom a) = print_atom a"
    using print_atom_solid [OF a] by (cases "print_atom a") (auto simp: solid_def trim_start_def)
  then show ?thesis
    using SNeg print_literal_solid [OF assms] parse_atom_print [OF a, of env] by (simp add: parse_body_literal_def strip_prefix_def)
qed

lemma triple_passes:
  assumes "atom_ok a"
  shows "passes rules_lexer (print_triple a)" "passes (body_lexer n) (print_triple a)" "passes neck_lexer (print_triple a)"
proof -
  have s: "passes rules_lexer '' ''" "passes (body_lexer n) '' ''" "passes neck_lexer '' ''" by (simp_all add: lexer_chars)
  have ok: "term_ok (sa_s a)" "term_ok (sa_p a)" "term_ok (sa_o a)" using assms by (simp_all add: atom_ok_def)
  show "passes rules_lexer (print_triple a)" "passes (body_lexer n) (print_triple a)" "passes neck_lexer (print_triple a)"
    unfolding print_triple_def using s ok term_passes by (blast intro: passes_append)+
qed

text \<open>A text in braces is carried along when its inside is, one level deeper.\<close>

lemma body_braces:
  assumes "passes (body_lexer (n + 1)) t"
  shows "passes (body_lexer n) (''{'' @ t @ ''}'')"
proof -
  have "body_lexer n cur (CHR ''{'' # t @ CHR ''}'' # s) = body_lexer (n + 1) (cur @ ''{'') (t @ CHR ''}'' # s)" for cur s
    by (simp add: body_lexer_def)
  moreover have "body_lexer (n + 1) (cur @ ''{'') (t @ CHR ''}'' # s) = body_lexer (n + 1) (cur @ ''{'' @ t) (CHR ''}'' # s)" for cur s
    using assms by (simp add: passes_def)
  ultimately show ?thesis by (simp add: passes_def body_lexer_def)
qed

lemma atom_passes:
  assumes "atom_ok a"
  shows "passes rules_lexer (print_atom a)" "passes (body_lexer n) (print_atom a)" "passes neck_lexer (print_atom a)"
proof -
  note t = triple_passes [OF assms]
  have k: "passes rules_lexer ''GRAPH ''" "passes (body_lexer n) ''GRAPH ''" "passes neck_lexer ''GRAPH ''"
    by (rule passes_chars; auto intro!: lexer_chars)+
  have br: "passes rules_lexer '' { ''" "passes rules_lexer '' }''" "passes neck_lexer '' { ''" "passes neck_lexer '' }''"
    by (rule passes_chars; auto intro!: lexer_chars)+
  have sp: "passes (body_lexer m) '' ''" for m by (simp add: lexer_chars)
  have "passes (body_lexer n) (''{'' @ ('' '' @ print_triple a @ '' '') @ ''}'')" by (intro body_braces passes_append sp t)
  then have b: "passes (body_lexer n) ('' '' @ ''{'' @ ('' '' @ print_triple a @ '' '') @ ''}'')" using sp by blast
  have g: "passes rules_lexer (''GRAPH '' @ print_term g @ '' { '' @ print_triple a @ '' }'')"
    "passes neck_lexer (''GRAPH '' @ print_term g @ '' { '' @ print_triple a @ '' }'')"
    "passes (body_lexer n) (''GRAPH '' @ print_term g @ '' '' @ ''{'' @ ('' '' @ print_triple a @ '' '') @ ''}'')" if "term_ok g" for g
    using that k br b t by (blast intro: passes_append term_passes)+
  show "passes rules_lexer (print_atom a)" "passes (body_lexer n) (print_atom a)" "passes neck_lexer (print_atom a)"
    using t g assms by (auto simp: print_atom_def atom_ok_def split: option.splits)
qed

lemma literal_passes:
  assumes "literal_ok l"
  shows "passes rules_lexer (print_literal l)" "passes (body_lexer n) (print_literal l)"
proof -
  have k: "passes rules_lexer ''NOT ''" "passes (body_lexer n) ''NOT ''" by (rule passes_chars; auto intro!: lexer_chars)+
  have "passes rules_lexer (''NOT '' @ print_atom a)" "passes (body_lexer n) (''NOT '' @ print_atom a)" if "atom_ok a" for a
    using k atom_passes [OF that] by (blast intro: passes_append)+
  then show "passes rules_lexer (print_literal l)" "passes (body_lexer n) (print_literal l)"
    using assms atom_passes by (cases l; simp)+
qed

section \<open>Rules and programs\<close>

lemma body_tokens:
  "list_all literal_ok ls \<Longrightarrow> w \<in> {[], '' ''} \<Longrightarrow> body_lexer 0 w (join_str '', '' (map print_literal ls)) = map print_literal ls"
proof (induction ls arbitrary: w)
  case Nil
  then show ?case by (auto simp: body_lexer_def push_trimmed_def trim_def trim_start_def trim_end_def)
next
  case (Cons l ls)
  then have l: "literal_ok l" by simp
  have t: "trim (w @ print_literal l) = print_literal l" using Cons.prems(2) print_literal_solid [OF l] by auto
  have p: "body_lexer 0 w (print_literal l @ s) = body_lexer 0 (w @ print_literal l) s" for s
    using literal_passes(2) [OF l, of 0] by (simp add: passes_def)
  show ?case
  proof (cases ls)
    case Nil
    then show ?thesis using p [of "[]"] t print_literal_solid [OF l] by (simp add: body_lexer_def push_trimmed_def)
  next
    case (Cons l' ls')
    have "body_lexer 0 '' '' (join_str '', '' (map print_literal ls)) = map print_literal ls"
      using Cons.IH [of "'' ''"] \<open>list_all literal_ok (l # ls)\<close> by simp
    then show ?thesis using p t Cons by (simp add: body_lexer_def)
  qed
qed

lemma parse_body_print: "list_all literal_ok ls \<Longrightarrow> parse_body env (print_body ls) = enc_body env ls"
proof -
  assume ok: "list_all literal_ok ls"
  have "split_body (print_body ls) = map print_literal ls"
    using body_tokens [OF ok, of "[]"] by (simp add: split_body_def print_body_def body_lexer_def)
  moreover have "parse_literals env (map print_literal ls) = enc_body env ls"
    using ok by (induction ls) (simp_all add: print_literal_solid parse_literal_print)
  ultimately show ?thesis by (simp add: parse_body_def)
qed

lemma print_body_solid: "list_all literal_ok ls \<Longrightarrow> ls \<noteq> [] \<Longrightarrow> solid (print_body ls)"
proof (induction ls)
  case (Cons l ls)
  then show ?case using print_literal_solid [of l] by (cases ls) (auto simp: print_body_def solid_def)
qed simp

lemma print_body_passes:
  assumes "list_all literal_ok ls"
  shows "passes rules_lexer (print_body ls)"
proof -
  have c: "passes rules_lexer '', ''" by (rule passes_chars; auto intro!: lexer_chars)
  show ?thesis using assms unfolding print_body_def
  proof (induction ls)
    case (Cons l ls)
    then have l: "passes rules_lexer (print_literal l)" and ls: "passes rules_lexer (join_str '', '' (map print_literal ls))"
      using literal_passes(1) [of l] by simp_all
    then have "passes rules_lexer (print_literal l @ '', '' @ join_str '', '' (map print_literal ls))" using c by (intro passes_append)
    then show ?case using l by (cases ls) simp_all
  qed simp
qed

lemma print_core_passes:
  assumes "rule_ok r"
  shows "passes rules_lexer (print_core r)"
proof -
  have n: "passes rules_lexer '' :- ''" "passes rules_lexer '':- ''" by (rule passes_chars; auto intro!: lexer_chars)+
  have b: "passes rules_lexer (print_body (sr_body r))" using assms print_body_passes by (simp add: rule_ok_def)
  show ?thesis
  proof (cases "sr_head r")
    case None
    have "passes rules_lexer ('':- '' @ print_body (sr_body r))" using n b by (intro passes_append)
    then show ?thesis using None by (simp add: print_core_def)
  next
    case (Some h)
    then have "passes rules_lexer (print_atom h)" using assms atom_passes by (simp add: rule_ok_def)
    then have "passes rules_lexer ((print_atom h @ '' :- '') @ print_body (sr_body r))" using n b by (intro passes_append)
    then show ?thesis using Some by (simp add: print_core_def)
  qed
qed

lemma print_core_solid: "rule_ok r \<Longrightarrow> solid (print_core r)"
  using print_body_solid [of "sr_body r"] print_atom_solid
  by (auto simp: rule_ok_def print_core_def solid_def split: option.splits)

lemma no_paren_literal: "literal_ok l \<Longrightarrow> CHR ''('' \<notin> set (print_literal l)"
proof -
  have t: "term_ok t \<Longrightarrow> CHR ''('' \<notin> set (print_term t)" for t using print_term_chars(2) [of t "CHR ''(''"] by blast
  have "atom_ok a \<Longrightarrow> CHR ''('' \<notin> set (print_atom a)" for a
    by (auto simp: print_atom_def print_triple_def atom_ok_def t split: option.splits)
  then show "literal_ok l \<Longrightarrow> CHR ''('' \<notin> set (print_literal l)" by (cases l) auto
qed

lemma no_paren_core:
  assumes "rule_ok r"
  shows "CHR ''('' \<notin> set (print_core r)"
proof -
  have "list_all literal_ok ls \<Longrightarrow> CHR ''('' \<notin> set (join_str '', '' (map print_literal ls))" for ls
  proof (induction ls)
    case (Cons l ls)
    then show ?case using no_paren_literal [of l] by (cases ls) auto
  qed simp
  moreover have "CHR ''('' \<notin> set (print_atom h)" if "atom_ok h" for h using no_paren_literal [of "SPos h"] that by simp
  ultimately show ?thesis using assms by (auto simp: print_core_def print_body_def rule_ok_def split: option.splits)
qed

lemma rfind_str_char: "c \<in> set p \<Longrightarrow> c \<notin> set s \<Longrightarrow> rfind_str p s = None"
proof (induction s)
  case (Cons x s)
  then have "\<not> starts_with (x # s) p" unfolding starts_with_iff by (metis Un_iff set_ConsD set_append)
  with Cons show ?case by simp
qed auto

lemma print_no_weight: "rule_ok r \<Longrightarrow> extract_weight_annotation env (print_core r) = Inr (print_core r, None)"
  by (simp add: extract_weight_annotation_def rfind_str_char [of "CHR ''(''"] no_paren_core)

lemma find_neck_print:
  assumes "atom_ok h"
  shows "find_neck (print_atom h @ '' :- '' @ s) = Inr (length (print_atom h) + 1)"
proof -
  have sep: "passes neck_lexer '' :''" by (rule passes_chars; auto intro!: lexer_chars)
  have "passes neck_lexer (print_atom h @ '' :'')" using atom_passes(3) [OF assms] sep by (rule passes_append)
  then have "neck_lexer [] ((print_atom h @ '' :'') @ ''- '' @ s) = neck_lexer (print_atom h @ '' :'') (''- '' @ s)"
    by (metis append_Nil passes_def)
  then have "find_neck_from False False 0 None (print_atom h @ '' :- '' @ s) = Some (length (print_atom h) + 1)"
    by (simp add: neck_lexer_def)
  then show ?thesis by (simp add: find_neck_def)
qed

lemma parse_rule_print:
  assumes "rule_ok r"
  shows "parse_rule env (print_core r) d = enc_rule env r d"
proof -
  have body: "list_all literal_ok (sr_body r)" "sr_body r \<noteq> []" using assms by (simp_all add: rule_ok_def)
  note b = print_body_solid [OF body] parse_body_print [OF body(1), of env]
  note c = print_core_solid [OF assms] print_no_weight [OF assms, of env]
  show ?thesis
  proof (cases "sr_head r")
    case None
    then have "print_core r = '':- '' @ print_body (sr_body r)" by (simp add: print_core_def)
    then show ?thesis using None b c by (simp add: parse_rule_def enc_rule_def Let_def)
  next
    case (Some h)
    then have h: "atom_ok h" using assms by (simp add: rule_ok_def)
    have p: "print_core r = print_atom h @ '' :- '' @ print_body (sr_body r)" using Some by (simp add: print_core_def)
    have "\<not> starts_with (print_core r) '':-''"
      using print_atom_opens [of h] p by (cases "print_atom h") (auto simp: opens_def)
    moreover have "take (length (print_atom h) + 1) (print_core r) = print_atom h @ '' ''" using p by simp
    moreover have "drop (length (print_atom h) + 1 + 2) (print_core r) = '' '' @ print_body (sr_body r)" using p by simp
    ultimately show ?thesis
      using b c find_neck_print [OF h, of "print_body (sr_body r)"] p print_atom_solid [OF h] parse_atom_print [OF h, of env] Some
      by (simp add: parse_rule_def enc_rule_def parse_head_def Let_def)
  qed
qed

lemma program_tokens:
  "list_all rule_ok rs \<Longrightarrow> w \<in> {[], [CHR 0x0A]} \<Longrightarrow> rules_lexer w (print_program rs) = map print_core rs"
proof (induction rs arbitrary: w)
  case Nil
  then show ?case by (auto simp: print_program_def rules_lexer_def push_trimmed_def trim_def trim_start_def trim_end_def)
next
  case (Cons r rs)
  then have r: "rule_ok r" by simp
  have "passes rules_lexer (print_core r @ '' '')"
    using print_core_passes [OF r] by (intro passes_append) (auto intro!: lexer_chars)
  then have p: "rules_lexer w ((print_core r @ '' '') @ s) = rules_lexer (w @ print_core r @ '' '') s" for s
    by (simp add: passes_def)
  have t: "trim (w @ print_core r @ '' '') = print_core r"
  proof -
    have "solid (print_core r)" by (rule print_core_solid [OF r])
    then have "trim (CHR 0x0A # print_core r @ '' '') = trim (print_core r @ '' '')" by (simp add: trim_def trim_start_def)
    with \<open>solid (print_core r)\<close> show ?thesis using Cons.prems(2) by auto
  qed
  have "rules_lexer [CHR 0x0A] (print_program rs) = map print_core rs" using Cons by simp
  then have "rules_lexer (w @ print_core r @ '' '') (CHR ''.'' # CHR 0x0A # print_program rs) = print_core r # map print_core rs"
    using t print_core_solid [OF r] by (simp add: rules_lexer_def push_trimmed_def)
  then show ?case using p [of "CHR ''.'' # CHR 0x0A # print_program rs"] by (simp add: print_program_def)
qed

text \<open>Encoding a source program never fails with an error message: only the dictionary can stop it.\<close>

definition unfailing :: "('e, 'd, 'a) pm \<Rightarrow> bool" where
  "unfailing m \<longleftrightarrow> (\<forall>d e d'. m d \<noteq> Inr (Inl e, d'))"

lemma unfailing_return [intro]: "unfailing (pm_return x)"
  by (simp add: unfailing_def pm_return_def)

lemma unfailing_bind [intro]: "unfailing m \<Longrightarrow> (\<And>x. unfailing (k x)) \<Longrightarrow> unfailing (pm_bind m k)"
  by (auto simp: unfailing_def pm_bind_def split: sum.splits)

lemma unfailing_encode [intro]: "unfailing (pm_encode f)"
  by (auto simp: unfailing_def pm_encode_def split: sum.splits)

lemma unfailing_enc_term: "unfailing (enc_term env t)"
  by (cases t) auto

lemma unfailing_enc_atom: "unfailing (enc_atom env a)"
  by (auto simp: enc_atom_def enc_triple_def split: option.split intro!: unfailing_bind unfailing_enc_term)

lemma unfailing_enc_literal: "unfailing (enc_literal env l)"
  by (cases l) (auto intro!: unfailing_bind unfailing_enc_atom)

lemma unfailing_enc_body: "unfailing (enc_body env ls)"
  by (induction ls) (auto intro!: unfailing_bind unfailing_enc_literal)

lemma unfailing_enc_rule: "unfailing (enc_rule env r)"
  by (auto simp: enc_rule_def Let_def split: option.split intro!: unfailing_bind unfailing_enc_atom unfailing_enc_body)

lemma parse_lines_print:
  assumes "list_all rule_ok rs"
  shows "parse_lines env n (map print_core rs) d =
    (case enc_rules env rs d of
       Inl a \<Rightarrow> Inl a
     | Inr (Inl e, d) \<Rightarrow> Inr (([], [e]), d)
     | Inr (Inr rules, d) \<Rightarrow> Inr ((rules, []), d))"
  using assms
proof (induction rs arbitrary: n d)
  case Nil
  then show ?case by (simp add: pm_return_def)
next
  case (Cons r rs)
  then have r: "rule_ok r" by simp
  have h: "\<not> starts_with (print_core r) ''#''"
  proof (cases "sr_head r")
    case (Some h)
    then show ?thesis using print_atom_opens [of h "[]"] by (cases "print_atom h") (auto simp: print_core_def opens_def)
  qed (simp add: print_core_def)
  note IH = Cons.IH [of "Suc n"]
  have f: "enc_rule env r d \<noteq> Inr (Inl e, d')" for e d' using unfailing_enc_rule [of env r] unfolding unfailing_def by blast
  have fs: "enc_rules env rs d0 \<noteq> Inr (Inl e, d')" for d0 e d'
  proof -
    have "unfailing (enc_rules env rs)" by (induction rs) (auto intro!: unfailing_bind unfailing_enc_rule)
    then show ?thesis by (auto simp: unfailing_def)
  qed
  show ?case
    using Cons.prems h print_core_solid [OF r] parse_rule_print [OF r, of env d] IH f fs
    by (auto simp: Let_def pm_bind_def pm_return_def split: sum.splits)
qed

lemma parse_rules_print:
  assumes "list_all rule_ok rs"
  shows "parse_rules env (print_program rs) name =
    pm_bind (enc_rules env rs) (\<lambda>rules. pm_return \<lparr>rs_name = name, rs_rules = rules\<rparr>)"
proof
  fix d
  have t: "tokenize_rules (print_program rs) = map print_core rs"
    using program_tokens [OF assms, of "[]"] by (simp add: tokenize_rules_def rules_lexer_def)
  have "unfailing (enc_rules env rs)" by (induction rs) (auto intro!: unfailing_bind unfailing_enc_rule)
  then have "enc_rules env rs d \<noteq> Inr (Inl e, d')" for e d' by (auto simp: unfailing_def)
  then show "parse_rules env (print_program rs) name d = pm_bind (enc_rules env rs) (\<lambda>rules. pm_return \<lparr>rs_name = name, rs_rules = rules\<rparr>) d"
    by (auto simp: parse_rules_def t parse_lines_print [OF assms] pm_bind_def pm_return_def split: sum.splits)
qed

text \<open>
  Property C8. A program of rules over variables, wildcards and IRIs, with positive and negated atoms,
  named graphs and constraints, is parsed to itself: printing it and parsing the text gives the rules
  with their terms encoded in the order of the text, in the same dictionary state, and the parser fails
  only when the dictionary does.
\<close>

theorem print_parse_roundtrip:
  assumes "list_all rule_ok rs"
  shows "parse_rules env (print_program rs) name =
    pm_bind (enc_rules env rs) (\<lambda>rules. pm_return \<lparr>rs_name = name, rs_rules = rules\<rparr>)"
  by (rule parse_rules_print [OF assms])

definition demo_rules :: "src_rule list" where
  "demo_rules =
     [\<lparr>sr_head = Some \<lparr>sa_s = SVar ''x'', sa_p = SIri ''http://e/anc'', sa_o = SVar ''z'', sa_g = None\<rparr>,
       sr_body = [SPos \<lparr>sa_s = SVar ''x'', sa_p = SIri ''http://e/par'', sa_o = SVar ''y'', sa_g = Some (SIri ''g'')\<rparr>,
                  SNeg \<lparr>sa_s = SVar ''y'', sa_p = SIri ''http://e/anc'', sa_o = SWild, sa_g = None\<rparr>]\<rparr>,
      \<lparr>sr_head = None, sr_body = [SPos \<lparr>sa_s = SVar ''x'', sa_p = SIri ''http://e/anc'', sa_o = SVar ''x'', sa_g = None\<rparr>]\<rparr>]"

definition demo_parse :: "(u128 \<rightharpoonup> i64, i64 \<rightharpoonup> string) dict_env \<Rightarrow> (u128 \<rightharpoonup> i64, i64 \<rightharpoonup> string) parse_env" where
  "demo_parse de = \<lparr>pe_dict = de, pe_prefixes = [], pe_parse_f64 = \<lambda>_. None, pe_show_f64 = \<lambda>_. []\<rparr>"

lemma demo_rules_ok: "list_all rule_ok demo_rules" "rule_ok (hd demo_rules)"
  by (simp_all add: demo_rules_def rule_ok_def atom_ok_def iri_char_def name_char_def is_ws_def is_ascii_alphanumeric_def
      is_ascii_alphabetic_def is_digit_def Let_def)

theorem print_parse_roundtrip_witness:
  "\<forall>de. list_all rule_ok demo_rules \<and> parse_rules (demo_parse de) (print_program demo_rules) ''r'' =
    pm_bind (enc_rules (demo_parse de) demo_rules) (\<lambda>rules. pm_return \<lparr>rs_name = ''r'', rs_rules = rules\<rparr>)"
  using print_parse_roundtrip [OF demo_rules_ok(1)] demo_rules_ok(1) by blast

text \<open>A line that is no rule makes the parse fail.\<close>

lemma parse_lines_bad_last:
  assumes "\<And>d. parse_rule env l d = pm_fail e d" "solid l" "\<not> starts_with l ''#''"
  shows "parse_lines env n (ls @ [l]) d = Inr ((rules, errors), d') \<Longrightarrow> errors \<noteq> []"
proof (induction ls arbitrary: n d rules errors d')
  case Nil
  then show ?case using assms by (auto simp: Let_def pm_fail_def)
next
  case (Cons x ls)
  show ?case
  proof (cases "trim x = [] \<or> starts_with (trim x) ''#''")
    case True
    then show ?thesis using Cons by (simp add: Let_def)
  next
    case False
    then show ?thesis using Cons.prems Cons.IH by (fastforce simp: Let_def split: sum.splits)
  qed
qed

lemma find_neck_no_dash: "CHR ''-'' \<notin> set t \<Longrightarrow> find_neck_from l i n prev t = None"
  by (induction t arbitrary: l i n prev) auto

lemma digits_chars:
  assumes "list_all is_digit fs" "c \<in> set fs"
  shows "c \<notin> {dq, CHR ''<'', CHR ''.'', CHR ''#'', CHR ''@'', CHR ''-'', CHR '':''}" "\<not> is_ws c"
  using assms by (auto simp: list_all_iff is_digit_def is_ws_def Let_def)

lemma fraction_no_rule:
  assumes "list_all is_digit fs"
  shows "solid (fs @ '')'')" "\<not> starts_with (fs @ '')'') ''#''" "\<exists>e. \<forall>d. parse_rule env (fs @ '')'') d = pm_fail e d"
proof -
  note c = digits_chars [OF assms]
  show s: "solid (fs @ '')'')" using c(2) [of "hd fs"] by (cases fs) (simp_all add: solid_def is_ws_def)
  show "\<not> starts_with (fs @ '')'') ''#''" using c(1) [of "hd fs"] by (cases fs) simp_all
  have "rfind_str ''@weight('' (fs @ '')'') = None" using c(1) [of "CHR ''@''"] by (intro rfind_str_char [of "CHR ''@''"]) auto
  moreover have "\<not> starts_with (fs @ '')'') '':-''" using c(1) [of "hd fs"] by (cases fs) simp_all
  moreover have "find_neck_from False False 0 None (fs @ '')'') = None" using c(1) [of "CHR ''-''"] by (intro find_neck_no_dash) auto
  ultimately show "\<exists>e. \<forall>d. parse_rule env (fs @ '')'') d = pm_fail e d"
    using s by (auto simp: parse_rule_def extract_weight_annotation_def find_neck_def Let_def)
qed

lemma weight_chars_pass:
  assumes "\<forall>c\<in>set t. is_digit c \<or> c \<in> set '' @weight()''"
  shows "passes rules_lexer t"
proof (rule passes_chars, rule rules_char)
  fix c assume "c \<in> set t"
  with assms consider "is_digit c" | "c \<in> set '' @weight()''" by blast
  then show "c \<notin> {dq, CHR ''<'', CHR ''.'', CHR ''#''}"
  proof cases
    case 1
    from digits_chars(1) [of "[c]" c] 1 show ?thesis by simp
  qed auto
qed

lemma weight_tokens:
  assumes "rule_ok r" "list_all is_digit ds" "list_all is_digit fs"
  shows "\<exists>ls. tokenize_rules (print_core r @ '' @weight('' @ ds @ ''.'' @ fs @ '') .'') = ls @ [fs @ '')'']"
proof -
  have l1: "passes rules_lexer (print_core r @ ('' @weight('' @ ds))"
    using assms by (intro passes_append print_core_passes weight_chars_pass) (auto simp: list_all_iff)
  have l2: "passes rules_lexer (fs @ '') '')" using assms by (intro weight_chars_pass) (auto simp: list_all_iff)
  have p1: "rules_lexer [] ((print_core r @ '' @weight('' @ ds) @ s) = rules_lexer (print_core r @ '' @weight('' @ ds) s" for s
    using l1 by (simp add: passes_def)
  have p2: "rules_lexer [] ((fs @ '') '') @ s) = rules_lexer (fs @ '') '') s" for s using l2 by (simp add: passes_def)
  have tr: "trim (fs @ '') '') = fs @ '')''" "trim [] = []"
    using solid_trim_right [OF fraction_no_rule(1) [OF assms(3)], of "CHR '' ''"] by (simp_all add: trim_def trim_start_def trim_end_def)
  show ?thesis
    using p1 [of "''.'' @ fs @ '') .''"] p2 [of "''.''"] tr by (simp add: tokenize_rules_def rules_lexer_def push_trimmed_def)
qed

text \<open>
  Property C10. A weight with a decimal point is never accepted: the lexer that separates the rules ends
  a rule at the point, and what follows it is no rule, so the whole rule set is rejected.
\<close>

theorem decimal_weight_rejected:
  assumes "rule_ok r" "list_all is_digit ds" "list_all is_digit fs"
  shows "parse_rules env (print_core r @ '' @weight('' @ ds @ ''.'' @ fs @ '') .'') name d \<noteq> Inr (Inr rules, d')"
proof -
  obtain ls where "tokenize_rules (print_core r @ '' @weight('' @ ds @ ''.'' @ fs @ '') .'') = ls @ [fs @ '')'']"
    using weight_tokens [OF assms] by blast
  moreover obtain e where "\<forall>d. parse_rule env (fs @ '')'') d = pm_fail e d"
    using fraction_no_rule(3) [OF assms(3), of env] by blast
  note parse_lines_bad_last [OF this [rule_format] fraction_no_rule(1,2) [OF assms(3)]]
  ultimately show ?thesis by (fastforce simp: parse_rules_def pm_fail_def pm_return_def split: sum.splits if_splits)
qed

theorem decimal_weight_rejected_witness:
  "rule_ok (hd demo_rules) \<and>
   (\<forall>de d rules d'. parse_rules (demo_parse de) (print_core (hd demo_rules) @ '' @weight('' @ ''0'' @ ''.'' @ ''85'' @ '') .'') ''r'' d
      \<noteq> Inr (Inr rules, d'))"
proof -
  have "rule_ok (hd demo_rules)" by (rule demo_rules_ok(2))
  moreover have "list_all is_digit ''0''" "list_all is_digit ''85''" by (simp_all add: is_digit_def Let_def)
  ultimately show ?thesis using decimal_weight_rejected by blast
qed

end
