(* ===== verification/Datalog_Parser_Types.thy ===== *)
theory Datalog_Parser_Types
  imports Datalog_Parser_Correct Dictionary_Correct
begin

text \<open>
  The rules the parser returns are well typed: the positions of a triple pattern hold a variable, a
  wildcard or a 64-bit identifier and never the default graph, which only the graph position of an atom
  may hold; the same for the operands of comparisons, assignments and string functions.
\<close>

section \<open>Types of rules\<close>

fun term_typed :: "Term \<Rightarrow> bool" where
  "term_typed (Const i) \<longleftrightarrow> - (2 ^ 63) \<le> i \<and> i < 2 ^ 63"
| "term_typed DefaultGraph \<longleftrightarrow> False"
| "term_typed _ \<longleftrightarrow> True"

definition atom_typed :: "Atom \<Rightarrow> bool" where
  "atom_typed a \<longleftrightarrow> term_typed (atom_s a) \<and> term_typed (atom_p a) \<and> term_typed (atom_o a) \<and> (atom_g a = DefaultGraph \<or> term_typed (atom_g a))"

fun builtin_typed :: "StringBuiltin \<Rightarrow> bool" where
  "builtin_typed (Strlen s c t) \<longleftrightarrow> term_typed s \<and> term_typed t"
| "builtin_typed (Regex s p) \<longleftrightarrow> term_typed s"
| "builtin_typed (TrigramSimilarity a b c t) \<longleftrightarrow> term_typed a \<and> term_typed b \<and> term_typed t"
| "builtin_typed (Levenshtein a b c t) \<longleftrightarrow> term_typed a \<and> term_typed b \<and> term_typed t"
| "builtin_typed (Soundex s c t) \<longleftrightarrow> term_typed s \<and> term_typed t"
| "builtin_typed (Metaphone s n c t) \<longleftrightarrow> term_typed s \<and> term_typed t"
| "builtin_typed (JaroWinkler a b c t) \<longleftrightarrow> term_typed a \<and> term_typed b \<and> term_typed t"
| "builtin_typed (DiceSimilarity a b c t) \<longleftrightarrow> term_typed a \<and> term_typed b \<and> term_typed t"

fun literal_typed :: "BodyLiteral \<Rightarrow> bool" where
  "literal_typed (Positive a) \<longleftrightarrow> atom_typed a"
| "literal_typed (Negated a) \<longleftrightarrow> atom_typed a"
| "literal_typed (Compare s c t) \<longleftrightarrow> term_typed s \<and> term_typed t"
| "literal_typed (StringBuiltin b) \<longleftrightarrow> builtin_typed b"
| "literal_typed (Assign v s c t) \<longleftrightarrow> term_typed s \<and> term_typed t"
| "literal_typed (Aggregate a) \<longleftrightarrow> atom_typed (agg_atom a)"
| "literal_typed (TemporalFilterLit f) \<longleftrightarrow> True"

definition rule_typed :: "Rule \<Rightarrow> bool" where
  "rule_typed r \<longleftrightarrow> (case rule_head r of Some h \<Rightarrow> atom_typed h | None \<Rightarrow> True) \<and> list_all literal_typed (rule_body r)"

section \<open>What a computation returns\<close>

definition returns :: "('a \<Rightarrow> bool) \<Rightarrow> ('e, 'd, 'a) pm \<Rightarrow> bool" where
  "returns P m \<longleftrightarrow> (\<forall>d x d'. m d = Inr (Inr x, d') \<longrightarrow> P x)"

lemma returnsD: "returns P m \<Longrightarrow> m d = Inr (Inr x, d') \<Longrightarrow> P x"
  by (auto simp: returns_def)

lemma returns_return: "P x \<Longrightarrow> returns P (pm_return x)"
  by (simp add: returns_def pm_return_def)

lemma returns_fail [simp]: "returns P (pm_fail e)"
  by (simp add: returns_def pm_fail_def)

lemma returns_bind: "returns Q m \<Longrightarrow> (\<And>x. Q x \<Longrightarrow> returns P (k x)) \<Longrightarrow> returns P (pm_bind m k)"
  by (fastforce simp: returns_def pm_bind_def split: sum.splits)

lemma returns_ok: "returns Q m \<Longrightarrow> (\<And>x. Q x \<Longrightarrow> returns (pred_option P) (k x)) \<Longrightarrow> returns (pred_option P) (pm_ok m k)"
  by (fastforce simp: returns_def pm_ok_def split: sum.splits)

lemma returns_None [simp]: "returns (pred_option P) (pm_return None)"
  by (simp add: returns_return)

lemma returns_first:
  "returns (pred_option Q) m \<Longrightarrow> (\<And>x. Q x \<Longrightarrow> P (f x)) \<Longrightarrow> returns P rest \<Longrightarrow> returns P (pm_first m f rest)"
  unfolding pm_first_def by (rule returns_bind [where Q = "pred_option Q"]) (auto split: option.split intro: returns_return)

lemma returns_branches:
  "returns P m \<Longrightarrow> returns P n \<Longrightarrow> returns P (if b then m else n)"
  "returns P n \<Longrightarrow> (\<And>x. returns P (f x)) \<Longrightarrow> returns P (case w of None \<Rightarrow> n | Some x \<Rightarrow> f x)"
  "(\<And>a b. returns P (h a b)) \<Longrightarrow> returns P (case y of (a, b) \<Rightarrow> h a b)"
  by (auto split: option.split prod.split)

lemma returns_encode: "returns term_typed (pm_encode f)"
proof -
  have "- (2 ^ 63) \<le> sint i \<and> sint i < 2 ^ 63" for i :: i64 using sint_ge [of i] sint_lt [of i] by simp
  then show ?thesis by (auto simp: returns_def pm_encode_def split: sum.splits)
qed

section \<open>Parsed terms, atoms and literals\<close>

lemma returns_parse_term: "returns term_typed (parse_term env txt)"
  unfolding parse_term_unfold [where q = "\<lambda>_. pm_fail []"] parse_term_with_def Let_def
  by (intro returns_branches returns_encode returns_return returns_fail) simp_all

lemma returns_triple: "returns (\<lambda>(s, p, ob). term_typed s \<and> term_typed p \<and> term_typed ob) (parse_triple_terms env txt)"
  unfolding parse_triple_terms_def triple_with_def Let_def
  by (auto intro!: returns_bind [OF returns_parse_term] returns_return)

lemma returns_atom: "returns atom_typed (parse_atom env txt)"
proof -
  have "returns atom_typed (pm_bind (parse_triple_terms env t) (\<lambda>x. pm_return (mk_atom g x)))" if "g = DefaultGraph \<or> term_typed g" for g t
    by (rule returns_bind [OF returns_triple]) (use that in \<open>auto simp: mk_atom_def atom_typed_def intro!: returns_return\<close>)
  then show ?thesis unfolding parse_atom_def Let_def
    by (auto split: option.split intro!: returns_bind [OF returns_parse_term])
qed

lemma returns_compare_builtin:
  "(\<And>op t. term_typed t \<Longrightarrow> builtin_typed (mk op t)) \<Longrightarrow> returns (pred_option literal_typed) (compare_builtin env rest mk)"
  unfolding compare_builtin_def
  by (auto split: option.split intro!: returns_ok [OF returns_parse_term] returns_return)

lemma returns_similarity:
  assumes "\<And>a b op t. term_typed a \<Longrightarrow> term_typed b \<Longrightarrow> term_typed t \<Longrightarrow> builtin_typed (build a b op t)"
  shows "returns (pred_option literal_typed) (try_parse_similarity_two_arg env txt prefix build)"
  unfolding try_parse_similarity_two_arg_def Let_def
  by (auto split: option.split intro!: returns_ok [OF returns_parse_term] returns_compare_builtin assms)

lemma returns_string_builtin: "returns (pred_option literal_typed) (try_parse_string_builtin env txt)"
proof -
  have "returns (pred_option literal_typed) (try_parse_soundex env txt)" unfolding try_parse_soundex_def
    by (auto split: option.split intro!: returns_ok [OF returns_parse_term] returns_compare_builtin)
  moreover have "returns (pred_option literal_typed) (try_parse_metaphone env txt)" unfolding try_parse_metaphone_def Let_def
    by (auto split: option.split intro!: returns_ok [OF returns_parse_term] returns_compare_builtin)
  moreover have "returns (pred_option literal_typed) (try_parse_similarity_two_arg env txt p TrigramSimilarity)"
    "returns (pred_option literal_typed) (try_parse_similarity_two_arg env txt p Levenshtein)"
    "returns (pred_option literal_typed) (try_parse_similarity_two_arg env txt p JaroWinkler)"
    "returns (pred_option literal_typed) (try_parse_similarity_two_arg env txt p DiceSimilarity)" for p
    by (rule returns_similarity; simp)+
  ultimately show ?thesis unfolding try_parse_string_builtin_def Let_def
    by (auto split: option.split intro!: returns_ok [OF returns_parse_term] returns_compare_builtin returns_return)
qed

lemma returns_aggregate: "returns (pred_option (\<lambda>a. atom_typed (agg_atom a))) (try_parse_aggregate env txt)"
  unfolding try_parse_aggregate_def
  by (auto split: option.split simp: option.pred_map o_def option.pred_True intro!: returns_ok [OF returns_atom] returns_return)

lemma returns_assign: "returns (pred_option literal_typed) (try_parse_assign env txt)"
  unfolding try_parse_assign_def Let_def
  by (auto split: option.split intro!: returns_ok [OF returns_parse_term] returns_return)

lemma returns_comparison: "returns (pred_option literal_typed) (try_parse_comparison env txt)"
  unfolding try_parse_comparison_def Let_def
  by (auto split: option.split intro!: returns_ok [OF returns_parse_term] returns_return)

lemma returns_literal: "returns literal_typed (parse_body_literal env txt)"
proof -
  have a: "returns literal_typed (pm_bind (parse_atom env t) (\<lambda>a. pm_return (f a)))" if "\<And>a. literal_typed (f a) = atom_typed a" for t f
    by (rule returns_bind [OF returns_atom]) (simp add: that returns_return)
  show ?thesis unfolding parse_body_literal_def Let_def
    by (auto split: option.split intro!: a returns_return returns_first [OF returns_aggregate] returns_first [OF returns_assign]
        returns_first [OF returns_comparison] returns_first [OF returns_string_builtin])
qed

lemma returns_body: "returns (list_all literal_typed) (parse_body env txt)"
proof -
  have "returns (list_all literal_typed) (parse_literals env ls)" for ls
  proof (induction ls)
    case (Cons l ls)
    then show ?case by (auto intro!: returns_bind [OF returns_literal] returns_bind [OF Cons.IH] returns_return)
  qed (simp add: returns_return)
  then show ?thesis by (simp add: parse_body_def)
qed

lemma returns_rule: "parse_rule env txt d = Inr (Inr r, d') \<Longrightarrow> rule_typed r"
proof -
  have c: "returns rule_typed (pm_bind (parse_body env t) (\<lambda>body. pm_return \<lparr>rule_head = h, rule_body = body, rule_text = x, rule_weight = w\<rparr>))"
    if "case h of Some a \<Rightarrow> atom_typed a | None \<Rightarrow> True" for t h x w
    by (rule returns_bind [OF returns_body]) (use that in \<open>simp add: rule_typed_def returns_return\<close>)
  have h: "returns rule_typed (pm_bind (parse_head env u) (\<lambda>head. pm_bind (parse_body env t)
      (\<lambda>body. pm_return \<lparr>rule_head = Some head, rule_body = body, rule_text = x, rule_weight = w\<rparr>)))" for u t x w
    unfolding parse_head_def by (rule returns_bind [OF returns_atom]) (simp add: c)
  assume "parse_rule env txt d = Inr (Inr r, d')"
  then show ?thesis
    using returnsD [OF c [of None]] returnsD [OF h] by (auto simp: parse_rule_def Let_def pm_fail_def split: sum.splits if_splits)
qed

lemma parse_lines_typed: "parse_lines env n ls d = Inr ((rules, errors), d') \<Longrightarrow> list_all rule_typed rules"
proof (induction ls arbitrary: n d rules errors d')
  case (Cons l ls)
  then show ?case by (fastforce simp: Let_def split: if_splits sum.splits dest: returns_rule)
qed simp


definition swap_rules :: "src_rule list" where
  "swap_rules =
     [\<lparr>sr_head = Some \<lparr>sa_s = SVar ''x'', sa_p = SVar ''p'', sa_o = SVar ''y'', sa_g = None\<rparr>,
       sr_body = [SPos \<lparr>sa_s = SVar ''y'', sa_p = SVar ''p'', sa_o = SVar ''x'', sa_g = Some (SVar ''g'')\<rparr>]\<rparr>]"


text \<open>
  A quoted triple \<open><<s p o>>\<close> is read as an IRI: the test for an IRI comes first and accepts
  every text in double angle brackets, so the text between the outer brackets is encoded as an IRI and
  the components are never encoded.
\<close>

lemma quoted_triple_read_as_iri:
  "parse_term env (''<<'' @ t @ ''>>'') = pm_encode (encode (pe_dict env) (''<'' @ t @ ''>'') KIND_IRI)"
proof -
  have "solid (''<<'' @ t @ ''>>'')" by (simp add: solid_def)
  then have "trim (''<<'' @ t @ ''>>'') = ''<<'' @ t @ ''>>''" by (rule solid_trim)
  then show ?thesis
    unfolding parse_term_unfold [where q = "\<lambda>_. pm_fail []"] parse_term_with_def Let_def
    by (simp add: strip_prefix_def ends_with_def)
qed

end
