(* ===== verification/Rule_Catalog.thy ===== *)
theory Rule_Catalog
  imports Datalog_Parser_Types Stratify_Correct "HOL-Library.Product_Lexorder"
begin

text \<open>
  The rule catalog (\<open>src/src/datalog/mod.rs\<close>, \<open>src/src/datalog_api/parse.rs\<close>): storing parsed rules with
  their strata, adding and disabling rules, and reading them back for inference, with the two caches
  in front of inference: compiled plans per rule set (\<open>src/src/datalog/cache.rs\<close>) and tabled results
  (\<open>src/src/datalog/tabling.rs\<close>). A tabled result is an opaque value; time is in seconds.
\<close>

section \<open>State\<close>

record rule_row =
  rr_id :: int
  rr_set :: string
  rr_text :: string
  rr_head_pred :: "term_id option"
  rr_stratum :: int
  rr_recursive :: bool
  rr_active :: bool

record plan_entry =
  pl_sqls :: "string list"
  pl_hits :: int
  pl_misses :: int

record 'j tabled =
  tb_hash :: int
  tb_result :: 'j
  tb_computed_ms :: f64
  tb_hits :: int
  tb_cached_at :: int

record 'j catalog =
  rc_rows :: "rule_row list"
  rc_next :: int
  rc_sets :: "(string \<times> bool) list"
  rc_explanations :: "(int \<times> int) list"
  rc_plans :: "string \<rightharpoonup> plan_entry"
  rc_agg_plans :: "string \<rightharpoonup> plan_entry"
  rc_tabling :: "'j tabled list option"

record rule_gucs =
  RULE_PLAN_CACHE :: bool
  RULE_PLAN_CACHE_SIZE :: int
  TABLING :: bool
  TABLING_TTL :: int

section \<open>The plan cache\<close>

definition no_plan :: plan_entry where
  "no_plan = \<lparr>pl_sqls = [], pl_hits = 0, pl_misses = 0\<rparr>"

definition plan_lookup :: "rule_gucs \<Rightarrow> string \<Rightarrow> (string \<rightharpoonup> plan_entry) \<Rightarrow> string list option \<times> (string \<rightharpoonup> plan_entry)" where
  "plan_lookup cfg rule_set plans =
     (if \<not> RULE_PLAN_CACHE cfg then (None, plans)
      else
        (let entry = (case plans rule_set of Some e \<Rightarrow> e | None \<Rightarrow> no_plan) in
         if pl_sqls entry \<noteq> [] then (Some (pl_sqls entry), plans(rule_set \<mapsto> entry\<lparr>pl_hits := pl_hits entry + 1\<rparr>))
         else (None, plans(rule_set \<mapsto> entry\<lparr>pl_misses := pl_misses entry + 1\<rparr>))))"

text \<open>\<open>store\<close> evicts the entry with the fewest hits, the first in the order of iteration; \<open>store_agg\<close> never
  evicts.\<close>

definition evict_plan :: "string hash_order \<Rightarrow> (string \<rightharpoonup> plan_entry) \<Rightarrow> (string \<rightharpoonup> plan_entry)" where
  "evict_plan sord plans =
     (case sord (dom plans) of
        [] \<Rightarrow> plans
      | ks \<Rightarrow> plans(arg_min_list (\<lambda>k. pl_hits (the (plans k))) ks := None))"

definition plan_set :: "string \<Rightarrow> string list \<Rightarrow> (string \<rightharpoonup> plan_entry) \<Rightarrow> (string \<rightharpoonup> plan_entry)" where
  "plan_set rule_set sqls plans =
     plans(rule_set \<mapsto> (case plans rule_set of Some e \<Rightarrow> e | None \<Rightarrow> no_plan)\<lparr>pl_sqls := sqls\<rparr>)"

definition plan_store :: "rule_gucs \<Rightarrow> string hash_order \<Rightarrow> string \<Rightarrow> string list \<Rightarrow> (string \<rightharpoonup> plan_entry) \<Rightarrow> (string \<rightharpoonup> plan_entry)" where
  "plan_store cfg sord rule_set sqls plans =
     (if \<not> RULE_PLAN_CACHE cfg then plans
      else
        (let max_entries = nat (max 1 (RULE_PLAN_CACHE_SIZE cfg));
             plans = (if max_entries \<le> card (dom plans) \<and> plans rule_set = None then evict_plan sord plans else plans)
         in plan_set rule_set sqls plans))"

definition lookup_agg :: "rule_gucs \<Rightarrow> string \<Rightarrow> 'j catalog \<Rightarrow> string list option \<times> 'j catalog" where
  "lookup_agg cfg rule_set cat = (let (r, plans) = plan_lookup cfg rule_set (rc_agg_plans cat) in (r, cat\<lparr>rc_agg_plans := plans\<rparr>))"

definition store_agg :: "rule_gucs \<Rightarrow> string \<Rightarrow> string list \<Rightarrow> 'j catalog \<Rightarrow> 'j catalog" where
  "store_agg cfg rule_set sqls cat =
     (if RULE_PLAN_CACHE cfg then cat\<lparr>rc_agg_plans := plan_set rule_set sqls (rc_agg_plans cat)\<rparr> else cat)"

definition invalidate :: "string \<Rightarrow> 'j catalog \<Rightarrow> 'j catalog" where
  "invalidate rule_set cat = cat\<lparr>rc_plans := (rc_plans cat)(rule_set := None), rc_agg_plans := (rc_agg_plans cat)(rule_set := None)\<rparr>"

definition invalidate_all :: "'j catalog \<Rightarrow> 'j catalog" where
  "invalidate_all cat = cat\<lparr>rc_plans := Map.empty, rc_agg_plans := Map.empty\<rparr>"

section \<open>The tabling cache\<close>

definition ensure_tabling_catalog :: "'j catalog \<Rightarrow> 'j catalog" where
  "ensure_tabling_catalog cat = cat\<lparr>rc_tabling := Some (case rc_tabling cat of Some rows \<Rightarrow> rows | None \<Rightarrow> [])\<rparr>"

definition tabling_lookup :: "rule_gucs \<Rightarrow> int \<Rightarrow> int \<Rightarrow> 'j catalog \<Rightarrow> 'j option \<times> 'j catalog" where
  "tabling_lookup cfg now h cat =
     (if \<not> TABLING cfg then (None, cat)
      else
        (let cat = ensure_tabling_catalog cat; rows = the (rc_tabling cat); ttl = TABLING_TTL cfg in
         case find (\<lambda>r. tb_hash r = h \<and> (ttl = 0 \<or> now - ttl \<le> tb_cached_at r)) rows of
           None \<Rightarrow> (None, cat)
         | Some r \<Rightarrow>
             (Some (tb_result r),
              cat\<lparr>rc_tabling := Some (map (\<lambda>x. if tb_hash x = h then x\<lparr>tb_hits := tb_hits x + 1\<rparr> else x) rows)\<rparr>)))"

definition tabling_store :: "rule_gucs \<Rightarrow> int \<Rightarrow> int \<Rightarrow> 'j \<Rightarrow> f64 \<Rightarrow> 'j catalog \<Rightarrow> 'j catalog" where
  "tabling_store cfg now h res ms cat =
     (if \<not> TABLING cfg then cat
      else
        (let cat = ensure_tabling_catalog cat; rows = the (rc_tabling cat) in
         cat\<lparr>rc_tabling := Some
               (if list_ex (\<lambda>x. tb_hash x = h) rows
                then map (\<lambda>x. if tb_hash x = h then x\<lparr>tb_result := res, tb_computed_ms := ms, tb_cached_at := now\<rparr> else x) rows
                else rows @ [\<lparr>tb_hash = h, tb_result = res, tb_computed_ms = ms, tb_hits = 0, tb_cached_at = now\<rparr>])\<rparr>))"

definition tabling_invalidate_all :: "rule_gucs \<Rightarrow> 'j catalog \<Rightarrow> 'j catalog" where
  "tabling_invalidate_all cfg cat =
     (if TABLING cfg then cat\<lparr>rc_tabling := map_option (\<lambda>_. []) (rc_tabling cat)\<rparr> else cat)"

section \<open>Storing rules\<close>

definition upsert_rule_set :: "string \<Rightarrow> 'j catalog \<Rightarrow> 'j catalog" where
  "upsert_rule_set name cat =
     cat\<lparr>rc_sets := (if list_ex (\<lambda>(n, _). n = name) (rc_sets cat)
                     then map (\<lambda>(n, a). (n, if n = name then True else a)) (rc_sets cat)
                     else rc_sets cat @ [(name, True)])\<rparr>"

definition insert_rule_row :: "string \<Rightarrow> string \<Rightarrow> term_id option \<Rightarrow> int \<Rightarrow> bool \<Rightarrow> 'j catalog \<Rightarrow> int \<times> 'j catalog" where
  "insert_rule_row rule_set txt hp stratum recursive cat =
     (rc_next cat,
      cat\<lparr>rc_rows := rc_rows cat @ [\<lparr>rr_id = rc_next cat, rr_set = rule_set, rr_text = txt, rr_head_pred = hp,
             rr_stratum = stratum, rr_recursive = recursive, rr_active = True\<rparr>],
          rc_next := rc_next cat + 1\<rparr>)"

text \<open>The rules in the order they are inserted, with the number and the mark of their stratum.\<close>

definition strata_rows :: "Stratum list \<Rightarrow> (nat \<times> bool \<times> Rule) list" where
  "strata_rows ss = concat (map (\<lambda>(i, s). map (\<lambda>r. (i, str_is_recursive s, r)) (str_rules s)) (enumerate 0 ss))"

fun insert_rows :: "string \<Rightarrow> (nat \<times> bool \<times> Rule) list \<Rightarrow> 'j catalog \<Rightarrow> 'j catalog" where
  "insert_rows rule_set [] cat = cat"
| "insert_rows rule_set ((i, recursive, r) # rs) cat =
     insert_rows rule_set rs (snd (insert_rule_row rule_set (rule_text r) (head_pred r) (int i) recursive cat))"

definition bump_explanations :: "string \<Rightarrow> 'j catalog \<Rightarrow> 'j catalog" where
  "bump_explanations rule_set cat =
     (let ids = rr_id ` {r \<in> set (rc_rows cat). rr_set r = rule_set} in
      cat\<lparr>rc_explanations := map (\<lambda>(i, stamp). (i, if i \<in> ids then stamp + 1 else stamp)) (rc_explanations cat)\<rparr>)"

definition store_rules :: "nat hash_order \<Rightarrow> term_id hash_order \<Rightarrow> string \<Rightarrow> Rule list \<Rightarrow> 'j catalog \<Rightarrow> (nat \<times> 'j catalog) option" where
  "store_rules ord pord rule_set rules cat =
     map_option (\<lambda>res.
       let ss = (case res of Inr prog \<Rightarrow> strata prog
                 | Inl _ \<Rightarrow> [\<lparr>str_rules = rules, str_is_recursive = True, str_derived_predicates = []\<rparr>]);
           cat = upsert_rule_set rule_set cat;
           cat = cat\<lparr>rc_rows := filter (\<lambda>r. rr_set r \<noteq> rule_set) (rc_rows cat)\<rparr>;
           cat = insert_rows rule_set (strata_rows ss) cat
       in (length (strata_rows ss), bump_explanations rule_set cat)) (stratify ord pord rules)"

section \<open>Operations on rule sets\<close>

definition STANDARD_PREFIXES :: "(string \<times> string) list" where
  "STANDARD_PREFIXES =
     [(''rdf'', ''http://www.w3.org/1999/02/22-rdf-syntax-ns#''),
      (''rdfs'', ''http://www.w3.org/2000/01/rdf-schema#''),
      (''owl'', ''http://www.w3.org/2002/07/owl#''),
      (''xsd'', ''http://www.w3.org/2001/XMLSchema#''),
      (''skos'', ''http://www.w3.org/2004/02/skos/core#''),
      (''skosxl'', ''http://www.w3.org/2008/05/skos-xl#''),
      (''dcterms'', ''http://purl.org/dc/terms/''),
      (''dc11'', ''http://purl.org/dc/elements/1.1/''),
      (''schema'', ''https://schema.org/''),
      (''foaf'', ''http://xmlns.com/foaf/0.1/''),
      (''dcat'', ''http://www.w3.org/ns/dcat#'')]"

definition register_standard_prefixes :: "prefix_registry \<Rightarrow> prefix_registry" where
  "register_standard_prefixes rg =
     rg\<lparr>px_rows := fold (\<lambda>(p, e) rows. if list_ex (\<lambda>(q, _). q = p) rows then rows else rows @ [(p, e)]) STANDARD_PREFIXES (px_rows rg)\<rparr>"

record ('e, 'd, 'j) datalog_state =
  ds_dict :: "('e, 'd) dict"
  ds_prefixes :: prefix_registry
  ds_catalog :: "'j catalog"

datatype rule_error = RuleParse string | RuleAbort parse_abort

definition parse_env_of :: "('e, 'd) parse_env \<Rightarrow> prefix_registry \<Rightarrow> ('e, 'd) parse_env" where
  "parse_env_of env px = env\<lparr>pe_prefixes := px_rows px\<rparr>"

definition load_and_store_rules :: "('e, 'd) parse_env \<Rightarrow> nat hash_order \<Rightarrow> term_id hash_order \<Rightarrow> string \<Rightarrow> string
    \<Rightarrow> ('e, 'd, 'j) datalog_state \<Rightarrow> (rule_error + nat \<times> ('e, 'd, 'j) datalog_state) option" where
  "load_and_store_rules env ord pord rules_text rule_set st =
     (case parse_rules (parse_env_of env (ds_prefixes st)) rules_text rule_set (ds_dict st) of
        Inl a \<Rightarrow> Some (Inl (RuleAbort a))
      | Inr (Inl e, d) \<Rightarrow> Some (Inl (RuleParse e))
      | Inr (Inr rs, d) \<Rightarrow>
          map_option (\<lambda>(n, cat). Inr (n, st\<lparr>ds_dict := d, ds_catalog := cat\<rparr>))
            (store_rules ord pord rule_set (rs_rules rs) (ds_catalog st)))"

definition load_rules :: "rule_gucs \<Rightarrow> ('e, 'd) parse_env \<Rightarrow> nat hash_order \<Rightarrow> term_id hash_order \<Rightarrow> string \<Rightarrow> string
    \<Rightarrow> ('e, 'd, 'j) datalog_state \<Rightarrow> (rule_error + nat \<times> ('e, 'd, 'j) datalog_state) option" where
  "load_rules cfg env ord pord rules rule_set st =
     (let st = st\<lparr>ds_prefixes := register_standard_prefixes (ds_prefixes st)\<rparr>;
          st = st\<lparr>ds_catalog := tabling_invalidate_all cfg (invalidate rule_set (ds_catalog st))\<rparr>
      in load_and_store_rules env ord pord rules rule_set st)"

definition drop_rules :: "rule_gucs \<Rightarrow> string \<Rightarrow> 'j catalog \<Rightarrow> nat \<times> 'j catalog" where
  "drop_rules cfg rule_set cat =
     (let cat = tabling_invalidate_all cfg (invalidate rule_set cat) in
      (length (filter (\<lambda>r. rr_set r = rule_set) (rc_rows cat)),
       cat\<lparr>rc_rows := filter (\<lambda>r. rr_set r \<noteq> rule_set) (rc_rows cat)\<rparr>))"

definition set_active :: "bool \<Rightarrow> string \<Rightarrow> 'j catalog \<Rightarrow> 'j catalog" where
  "set_active on name cat =
     cat\<lparr>rc_rows := map (\<lambda>r. if rr_set r = name then r\<lparr>rr_active := on\<rparr> else r) (rc_rows cat),
         rc_sets := map (\<lambda>(n, a). (n, if n = name then on else a)) (rc_sets cat)\<rparr>"

definition enable_rule_set :: "string \<Rightarrow> 'j catalog \<Rightarrow> 'j catalog" where
  "enable_rule_set name = set_active True name"

definition disable_rule_set :: "string \<Rightarrow> 'j catalog \<Rightarrow> 'j catalog" where
  "disable_rule_set name = set_active False name"

definition directly_recursive :: "Rule \<Rightarrow> bool" where
  "directly_recursive r \<longleftrightarrow> (case head_pred r of None \<Rightarrow> False | Some h \<Rightarrow> list_ex (positive_on h) (rule_body r))"

text \<open>The catalog part of \<open>add_rule_to_set\<close>; the seed pass that follows evaluates compiled SQL.\<close>

definition add_rule_to_set :: "('e, 'd) parse_env \<Rightarrow> string \<Rightarrow> string \<Rightarrow> ('e, 'd, 'j) datalog_state
    \<Rightarrow> rule_error + int \<times> ('e, 'd, 'j) datalog_state" where
  "add_rule_to_set env rule_set txt st =
     (case parse_rules (parse_env_of env (ds_prefixes st)) txt rule_set (ds_dict st) of
        Inl a \<Rightarrow> Inl (RuleAbort a)
      | Inr (Inl e, d) \<Rightarrow> Inl (RuleParse e)
      | Inr (Inr rs, d) \<Rightarrow>
          (case rs_rules rs of
             [] \<Rightarrow> Inl (RuleParse ''no rules parsed from rule_text'')
           | new_rule # _ \<Rightarrow>
               (let cat = upsert_rule_set rule_set (ds_catalog st);
                    max_stratum = fold max (map rr_stratum (filter (\<lambda>r. rr_set r = rule_set) (rc_rows cat))) 0;
                    (i, cat) = insert_rule_row rule_set txt (head_pred new_rule) max_stratum (directly_recursive new_rule) cat
                in Inr (i, st\<lparr>ds_dict := d, ds_catalog := cat\<rparr>))))"

text \<open>The first step of \<open>remove_rule_by_id\<close>: the rule is found and marked inactive.\<close>

definition deactivate_rule :: "int \<Rightarrow> 'j catalog \<Rightarrow> string + (string \<times> term_id option) \<times> 'j catalog" where
  "deactivate_rule rule_id cat =
     (case find (\<lambda>r. rr_id r = rule_id) (rc_rows cat) of
        None \<Rightarrow> Inl (''no rule with id '' @ show_int rule_id)
      | Some r \<Rightarrow>
          Inr ((rr_set r, rr_head_pred r),
               cat\<lparr>rc_rows := map (\<lambda>x. if rr_id x = rule_id then x\<lparr>rr_active := False\<rparr> else x) (rc_rows cat)\<rparr>))"

section \<open>Reading rules back\<close>

definition rule_rows :: "string \<Rightarrow> 'j catalog \<Rightarrow> rule_row list" where
  "rule_rows rule_set cat =
     sort_key (\<lambda>r. (rr_stratum r, rr_id r)) (filter (\<lambda>r. rr_set r = rule_set \<and> rr_active r) (rc_rows cat))"

text \<open>Every stored text is parsed again; a text that fails to parse is skipped with a warning.\<close>

fun parse_stored :: "('e, 'd) parse_env \<Rightarrow> string \<Rightarrow> string list \<Rightarrow> ('e, 'd) dict \<Rightarrow> parse_abort + Rule list \<times> ('e, 'd) dict" where
  "parse_stored env name [] d = Inr ([], d)"
| "parse_stored env name (t # ts) d =
     (case parse_rules env t name d of
        Inl a \<Rightarrow> Inl a
      | Inr (r, d) \<Rightarrow>
          (case parse_stored env name ts d of
             Inl a \<Rightarrow> Inl a
           | Inr (rules, d) \<Rightarrow> Inr ((case r of Inr rs \<Rightarrow> rs_rules rs | Inl _ \<Rightarrow> []) @ rules, d)))"

definition load_active_rules :: "('e, 'd) parse_env \<Rightarrow> string \<Rightarrow> ('e, 'd, 'j) datalog_state \<Rightarrow> parse_abort + Rule list \<times> ('e, 'd) dict" where
  "load_active_rules env rule_set st =
     parse_stored (parse_env_of env (ds_prefixes st)) rule_set (map rr_text (rule_rows rule_set (ds_catalog st))) (ds_dict st)"

end
