(* ===== verification/Rule_Catalog_Correct.thy ===== *)
theory Rule_Catalog_Correct
  imports Rule_Catalog
begin

text \<open>
  Properties of the rule catalog: what is read back after loading a program, what happens to weights,
  which operations leave compiled plans behind, and the explanation stamps.
\<close>

section \<open>Rows of a stored program\<close>

definition catalog_ok :: "'j catalog \<Rightarrow> bool" where
  "catalog_ok cat \<longleftrightarrow> distinct (map rr_id (rc_rows cat)) \<and> (\<forall>r \<in> set (rc_rows cat). rr_id r < rc_next cat)
     \<and> (\<forall>(i, stamp) \<in> set (rc_explanations cat). i < rc_next cat)"

definition mk_rule_row :: "string \<Rightarrow> int \<Rightarrow> nat \<times> bool \<times> Rule \<Rightarrow> rule_row" where
  "mk_rule_row rule_set k = (\<lambda>(i, recursive, r). \<lparr>rr_id = k, rr_set = rule_set, rr_text = rule_text r, rr_head_pred = head_pred r,
     rr_stratum = int i, rr_recursive = recursive, rr_active = True\<rparr>)"

fun number_rows :: "string \<Rightarrow> int \<Rightarrow> (nat \<times> bool \<times> Rule) list \<Rightarrow> rule_row list" where
  "number_rows rule_set k [] = []"
| "number_rows rule_set k (x # xs) = mk_rule_row rule_set k x # number_rows rule_set (k + 1) xs"

lemma insert_rows_eq:
  "insert_rows rule_set xs cat = cat\<lparr>rc_rows := rc_rows cat @ number_rows rule_set (rc_next cat) xs, rc_next := rc_next cat + int (length xs)\<rparr>"
  by (induction xs arbitrary: cat) (auto simp: insert_rule_row_def mk_rule_row_def)

lemma number_rows_simps [simp]:
  "length (number_rows rule_set k xs) = length xs" "map rr_text (number_rows rule_set k xs) = map (rule_text \<circ> snd \<circ> snd) xs"
  "map rr_stratum (number_rows rule_set k xs) = map (int \<circ> fst) xs" "map rr_id (number_rows rule_set k xs) = map (\<lambda>i. k + int i) [0..<length xs]"
proof -
  show "length (number_rows rule_set k xs) = length xs" by (induction xs arbitrary: k) auto
  show "map rr_text (number_rows rule_set k xs) = map (rule_text \<circ> snd \<circ> snd) xs"
    by (induction xs arbitrary: k) (auto simp: mk_rule_row_def)
  show "map rr_stratum (number_rows rule_set k xs) = map (int \<circ> fst) xs"
    by (induction xs arbitrary: k) (auto simp: mk_rule_row_def)
  show "map rr_id (number_rows rule_set k xs) = map (\<lambda>i. k + int i) [0..<length xs]"
  proof (induction xs arbitrary: k)
    case (Cons x xs)
    have "map (\<lambda>i. k + 1 + int i) [0..<length xs] = map (\<lambda>i. k + int i) (map Suc [0..<length xs])" by simp
    then show ?case using Cons.IH [of "k + 1"] by (auto simp: mk_rule_row_def upt_conv_Cons map_Suc_upt simp del: upt_Suc split: prod.split)
  qed simp
qed

lemma number_rows_member: "r \<in> set (number_rows rule_set k xs) \<Longrightarrow> rr_set r = rule_set \<and> rr_active r \<and> k \<le> rr_id r \<and> rr_id r < k + int (length xs)"
  by (induction xs arbitrary: k) (fastforce simp: mk_rule_row_def)+

text \<open>The rows are inserted in the order in which they are read back.\<close>

lemma number_rows_sorted:
  "sorted (map fst xs) \<Longrightarrow> sorted (map (\<lambda>r. (rr_stratum r, rr_id r)) (number_rows rule_set k xs))"
proof (induction xs arbitrary: k)
  case (Cons x xs)
  have h: "int (fst x) \<le> rr_stratum r \<and> k \<le> rr_id r" if "r \<in> set (number_rows rule_set (k + 1) xs)" for r
  proof -
    have "rr_stratum r \<in> set (map rr_stratum (number_rows rule_set (k + 1) xs))" unfolding set_map by (rule imageI [OF that])
    then have "rr_stratum r \<in> set (map (int \<circ> fst) xs)" by (simp only: number_rows_simps)
    then have "int (fst x) \<le> rr_stratum r" using Cons.prems by auto
    moreover have "k \<le> rr_id r" using number_rows_member [OF that] by simp
    ultimately show ?thesis by simp
  qed
  have "sorted (map (\<lambda>r. (rr_stratum r, rr_id r)) (number_rows rule_set (k + 1) xs))" using Cons by simp
  moreover have "(rr_stratum (mk_rule_row rule_set k x), rr_id (mk_rule_row rule_set k x)) = (int (fst x), k)" by (cases x) (simp add: mk_rule_row_def)
  ultimately show ?case using h by (force simp: less_le)
qed simp

lemma strata_rows_sorted: "sorted (map fst (strata_rows ss))"
proof -
  have "sorted (map fst (concat (map (\<lambda>(i, s). map (\<lambda>r. (i, f s, r)) (g s)) (enumerate n ss))))
      \<and> (\<forall>x \<in> fst ` set (concat (map (\<lambda>(i, s). map (\<lambda>r. (i, f s, r)) (g s)) (enumerate n ss))). n \<le> x)" (is "?P n ss")
    for n and f :: "Stratum \<Rightarrow> bool" and g :: "Stratum \<Rightarrow> Rule list"
  proof (induction ss arbitrary: n)
    case (Cons s ss)
    let ?t = "concat (map (\<lambda>(i, s). map (\<lambda>r. (i, f s, r)) (g s)) (enumerate (Suc n) ss))"
    have t: "sorted (map fst ?t)" "\<And>x. x \<in> fst ` set ?t \<Longrightarrow> n \<le> x" using Cons.IH [of "Suc n"] by (auto dest: Suc_leD simp del: set_concat)
    have h: "map fst (map (\<lambda>r. (n, f s, r)) (g s)) = replicate (length (g s)) n" by (simp add: comp_def map_replicate_const)
    have e: "concat (map (\<lambda>(i, s). map (\<lambda>r. (i, f s, r)) (g s)) (enumerate n (s # ss))) = map (\<lambda>r. (n, f s, r)) (g s) @ ?t" by simp
    show ?case unfolding e map_append h using t by (auto simp: sorted_append simp del: set_concat)
  qed simp
  then show ?thesis by (simp add: strata_rows_def)
qed

lemma strata_rows_rules: "map (snd \<circ> snd) (strata_rows ss) = concat (map str_rules ss)"
proof -
  have "map (snd \<circ> snd) (concat (map (\<lambda>(i, s). map (\<lambda>r. (i, str_is_recursive s, r)) (str_rules s)) (enumerate n ss))) = concat (map str_rules ss)" for n
    by (induction ss arbitrary: n) (auto simp: comp_def)
  then show ?thesis by (simp add: strata_rows_def)
qed

text \<open>What \<open>store_rules\<close> leaves in the catalog.\<close>

lemma store_rules_rows:
  assumes "hash_order_ok ord"
  obtains xs cat' where "store_rules ord pord rule_set rules cat = Some (length xs, cat')" "sorted (map fst xs)"
    "mset (map (snd \<circ> snd) xs) = mset rules"
    "rc_rows cat' = filter (\<lambda>r. rr_set r \<noteq> rule_set) (rc_rows cat) @ number_rows rule_set (rc_next cat) xs"
    "rc_next cat' = rc_next cat + int (length xs)" "rc_plans cat' = rc_plans cat" "rc_agg_plans cat' = rc_agg_plans cat"
    "rc_tabling cat' = rc_tabling cat"
    "rc_explanations cat' = map (\<lambda>(i, stamp). (i, if i \<in> rr_id ` set (number_rows rule_set (rc_next cat) xs) then stamp + 1 else stamp)) (rc_explanations cat)"
proof -
  obtain res where res: "stratify ord pord rules = Some res"
  proof (cases "accepted rules")
    case True
    from stratify_returns [OF assms this, of pord] that show thesis by blast
  next
    case False
    then have "rules \<noteq> []" by auto
    from stratify_rejected [OF assms this False, of pord] that show thesis by blast
  qed
  define ss where "ss = (case res of Inr prog \<Rightarrow> strata prog
      | Inl _ \<Rightarrow> [\<lparr>str_rules = rules, str_is_recursive = True, str_derived_predicates = []\<rparr>])"
  have "mset (concat (map str_rules ss)) = mset rules"
    using stratify_mset [OF assms] res by (cases res) (auto simp: ss_def)
  then have rules: "mset (map (snd \<circ> snd) (strata_rows ss)) = mset rules" by (simp add: strata_rows_rules)
  have "{r. (r \<in> set (rc_rows cat) \<and> rr_set r \<noteq> rule_set \<or> r \<in> set (number_rows rule_set k (strata_rows ss))) \<and> rr_set r = rule_set}
      = set (number_rows rule_set k (strata_rows ss))" for k
    using number_rows_member [of _ rule_set k "strata_rows ss"] by blast
  note ids = this
  define c where "c = (upsert_rule_set rule_set cat)\<lparr>rc_rows := filter (\<lambda>r. rr_set r \<noteq> rule_set) (rc_rows cat)\<rparr>"
  have c: "rc_rows c = filter (\<lambda>r. rr_set r \<noteq> rule_set) (rc_rows cat)" "rc_next c = rc_next cat" "rc_plans c = rc_plans cat"
    "rc_agg_plans c = rc_agg_plans cat" "rc_tabling c = rc_tabling cat" "rc_explanations c = rc_explanations cat"
    by (simp_all add: c_def upsert_rule_set_def)
  have "store_rules ord pord rule_set rules cat
      = Some (length (strata_rows ss), bump_explanations rule_set (insert_rows rule_set (strata_rows ss) c))"
    using res by (simp add: store_rules_def c_def ss_def Let_def upsert_rule_set_def)
  then show thesis
    by (rule that [OF _ strata_rows_sorted rules]) (simp_all add: bump_explanations_def insert_rows_eq c ids Let_def)
qed

lemma stored_rule_rows:
  assumes "rc_rows cat' = filter (\<lambda>r. rr_set r \<noteq> rule_set) rows @ number_rows rule_set k xs" "sorted (map fst xs)"
  shows "rule_rows rule_set cat' = number_rows rule_set k xs"
proof -
  have "filter (\<lambda>r. rr_set r = rule_set \<and> rr_active r) (number_rows rule_set k xs) = number_rows rule_set k xs"
    using number_rows_member by (fastforce simp: filter_id_conv)
  then have "filter (\<lambda>r. rr_set r = rule_set \<and> rr_active r) (rc_rows cat') = number_rows rule_set k xs"
    using assms(1) by (auto simp: filter_empty_conv)
  then show ?thesis using number_rows_sorted [OF assms(2)] by (simp add: rule_rows_def sorted_sort_id sort_key_id_if_sorted)
qed

section \<open>Reading a stored program\<close>

lemma enc_rule_text: "enc_rule env r d = Inr (Inr x, d') \<Longrightarrow> rule_text x = print_core r @ '' .'' \<and> rule_weight x = None"
  by (auto simp: enc_rule_def Let_def pm_bind_def pm_return_def split: option.splits sum.splits)

lemma enc_rules_texts: "enc_rules env rs d = Inr (Inr xs, d') \<Longrightarrow> map rule_text xs = map (\<lambda>r. print_core r @ '' .'') rs"
proof (induction rs arbitrary: d xs)
  case (Cons r rs)
  then show ?case by (fastforce simp: pm_bind_def pm_return_def split: sum.splits dest: enc_rule_text)
qed (simp add: pm_return_def)

text \<open>A program printed without a line end after its last rule.\<close>

lemma core_tokens:
  assumes "rule_ok r"
  shows "tokenize_rules (print_core r @ '' .'') = [print_core r]"
proof -
  have "passes rules_lexer (print_core r @ '' '')"
    using print_core_passes [OF assms] by (intro passes_append) (auto intro!: lexer_chars)
  then have "rules_lexer [] ((print_core r @ '' '') @ ''.'') = rules_lexer (print_core r @ '' '') ''.''" by (simp add: passes_def)
  moreover have "trim (print_core r @ '' '') = print_core r" using print_core_solid [OF assms] by simp
  moreover have "trim [] = []" by (simp add: trim_def trim_start_def trim_end_def)
  ultimately show ?thesis using print_core_solid [OF assms] by (simp add: tokenize_rules_def rules_lexer_def push_trimmed_def)
qed

lemma parse_core:
  assumes "rule_ok r"
  shows "parse_rules env (print_core r @ '' .'') name =
    pm_bind (enc_rules env [r]) (\<lambda>rules. pm_return \<lparr>rs_name = name, rs_rules = rules\<rparr>)"
proof
  fix d
  have ok: "list_all rule_ok [r]" using assms by simp
  have "enc_rule env r d \<noteq> Inr (Inl e, d')" for e d' using unfailing_enc_rule [of env r] unfolding unfailing_def by blast
  then show "parse_rules env (print_core r @ '' .'') name d = pm_bind (enc_rules env [r]) (\<lambda>rules. pm_return \<lparr>rs_name = name, rs_rules = rules\<rparr>) d"
    using parse_lines_print [OF ok, of env 1 d]
    by (auto simp: parse_rules_def core_tokens [OF assms] pm_bind_def pm_return_def split: sum.splits)
qed

text \<open>Parsing the stored texts one by one encodes their rules in that order.\<close>

definition read_as :: "('e, 'd) parse_env \<Rightarrow> src_rule list \<Rightarrow> ('e, 'd) dict \<Rightarrow> parse_abort + Rule list \<times> ('e, 'd) dict" where
  "read_as env rs d = (case enc_rules env rs d of Inl a \<Rightarrow> Inl a | Inr (Inr xs, d) \<Rightarrow> Inr (xs, d) | Inr (Inl e, d) \<Rightarrow> Inr ([], d))"

lemma parse_stored_cores:
  "list_all rule_ok rs \<Longrightarrow> parse_stored env name (map (\<lambda>r. print_core r @ '' .'') rs) d = read_as env rs d"
proof (induction rs arbitrary: d)
  case Nil
  then show ?case by (simp add: read_as_def pm_return_def)
next
  case (Cons r rs)
  have f: "enc_rule env r d \<noteq> Inr (Inl e, d')" for e d' using unfailing_enc_rule [of env r] unfolding unfailing_def by blast
  have "unfailing (enc_rules env rs)" by (induction rs) (auto intro!: unfailing_bind unfailing_enc_rule)
  then have fs: "enc_rules env rs d0 \<noteq> Inr (Inl e, d')" for d0 e d' unfolding unfailing_def by blast
  show ?case using Cons f fs
    by (auto simp: read_as_def parse_core pm_bind_def pm_return_def split: sum.splits)
qed

text \<open>The source rules in the order of the stored rules.\<close>

lemma mset_map_lift:
  assumes "mset (map snd zs) = mset xs" "map f xs = map g rs"
  obtains rs' where "mset rs' = mset rs" "map (f \<circ> snd) zs = map g rs'"
proof -
  have len: "length xs = length rs" using assms(2) by (metis length_map)
  from ex_mset_zip_left [OF this assms(1)] obtain rs' where
    rs': "length rs' = length zs" "mset (zip (map snd zs) rs') = mset (zip xs rs)" by auto
  from rs'(2) have "mset (map snd (zip (map snd zs) rs')) = mset (map snd (zip xs rs))" by (metis mset_map)
  then have m: "mset rs' = mset rs" using len rs'(1) by simp
  have "f x = g r" if "(x, r) \<in> set (zip (map snd zs) rs')" for x r
  proof -
    from that rs'(2) have "(x, r) \<in> set (zip xs rs)" by (metis set_mset_mset)
    then show ?thesis using assms(2) len by (auto simp: set_zip list_eq_iff_nth_eq)
  qed
  then have "map f (map snd zs) = map g rs'"
    using rs'(1) by (intro nth_equalityI) (simp_all add: set_zip, metis nth_map)
  then show thesis using that [OF m] by simp
qed


lemma demo_load: "list_all rule_ok swap_rules" "hash_order_ok (sorted_list_of_set :: nat hash_order)"
  by (simp_all add: swap_rules_def rule_ok_def atom_ok_def name_char_def is_ascii_alphanumeric_def is_ascii_alphabetic_def Let_def hash_order_ok_def)

definition demo_rules_state :: "(u128 \<rightharpoonup> i64, i64 \<rightharpoonup> string, unit) datalog_state" where
  "demo_rules_state = \<lparr>ds_dict = demo_dict, ds_prefixes = \<lparr>px_rows = [], px_generation = 1\<rparr>,
     ds_catalog = \<lparr>rc_rows = [], rc_next = 1, rc_sets = [], rc_explanations = [], rc_plans = Map.empty, rc_agg_plans = Map.empty, rc_tabling = None\<rparr>\<rparr>"

definition demo_cfg :: rule_gucs where
  "demo_cfg = \<lparr>RULE_PLAN_CACHE = True, RULE_PLAN_CACHE_SIZE = 64, TABLING = True, TABLING_TTL = 300\<rparr>"

lemma swap_rules_enc: "\<exists>x. enc_rules env swap_rules = pm_return [x] \<and> enc_rule env (hd swap_rules) = pm_return x"
  by (simp add: swap_rules_def enc_rule_def enc_atom_def enc_triple_def) blast

text \<open>Loading succeeds when the parser does.\<close>

lemma load_returns:
  assumes "hash_order_ok ord" "\<And>px. \<exists>rs. parse_rules (parse_env_of env px) txt name = pm_return rs"
  shows "\<exists>n st'. load_rules cfg env ord pord txt name st = Some (Inr (n, st'))"
proof -
  let ?px = "register_standard_prefixes (ds_prefixes st)"
  obtain rs where "parse_rules (parse_env_of env ?px) txt name = pm_return rs" using assms(2) by blast
  moreover obtain xs cat' where "store_rules ord pord name (rs_rules rs) (tabling_invalidate_all cfg (invalidate name (ds_catalog st)))
      = Some (length (xs :: (nat \<times> bool \<times> Rule) list), cat')"
    by (rule store_rules_rows [OF assms(1)]) blast
  ultimately show ?thesis by (simp add: load_rules_def load_and_store_rules_def Let_def pm_return_def)
qed


section \<open>Weights\<close>

lemma rfind_str_shift: "rfind_str q s = Some i \<Longrightarrow> rfind_str q (a @ s) = Some (length a + i)"
  by (induction a) auto

lemma rfind_str_here: "c \<notin> set (p @ b) \<Longrightarrow> rfind_str (c # p) (c # p @ b) = Some 0"
  using rfind_str_char [of c "c # p" "p @ b"] by simp

lemma digits_solid:
  assumes "list_all is_digit w" "w \<noteq> []"
  shows "solid w"
proof -
  have "hd w \<in> set w" "last w \<in> set w" using assms(2) by simp_all
  then have "\<not> is_ws (hd w)" "\<not> is_ws (last w)" using digits_chars(2) [OF assms(1)] by blast+
  then show ?thesis using assms(2) unfolding solid_def by blast
qed

lemma weight_extracted:
  assumes "rule_ok r" "list_all is_digit w" "w \<noteq> []" "pe_parse_f64 env w = Some (x, True)"
  shows "extract_weight_annotation env (print_core r @ '' @weight('' @ w @ '')'') = Inr (print_core r @ '' '', Some x)"
proof -
  have at: "CHR ''@'' \<notin> set w" "CHR '')'' \<notin> set w" 
  proof -
    have "\<not> is_digit CHR ''@''" "\<not> is_digit CHR '')''" by (simp_all add: is_digit_def Let_def)
    then show "CHR ''@'' \<notin> set w" "CHR '')'' \<notin> set w" using assms(2) by (metis list_all_iff)+
  qed
  have "rfind_str ''@weight('' (''@weight('' @ w @ '')'') = Some 0"
    using rfind_str_here [of "CHR ''@''" "''weight(''" "w @ '')''"] at by simp
  from rfind_str_shift [OF this, of "print_core r @ '' ''"]
  have pos: "rfind_str ''@weight('' (print_core r @ '' @weight('' @ w @ '')'') = Some (length (print_core r) + 1)" by simp
  have "find_str '')'' ((''@weight('' @ w) @ CHR '')'' # []) = Some (length (''@weight('' @ w))"
    using at by (intro find_str_char) auto
  then have e: "find_str '')'' (''@weight('' @ w @ '')'') = Some (8 + length w)" by simp
  have d: "drop (length (print_core r) + 1) (print_core r @ '' @weight('' @ w @ '')'') = ''@weight('' @ w @ '')''" by simp
  have i: "trim (take (8 + length w - 8) (drop 8 (''@weight('' @ w @ '')''))) = w" using digits_solid [OF assms(2,3)] by simp
  show ?thesis unfolding extract_weight_annotation_def pos option.case Let_def d e i assms(4) by simp
qed

lemma trim_both: "solid s \<Longrightarrow> trim ('' '' @ s @ '' '') = s"
  using solid_trim_right [of s "CHR '' ''"] by (simp add: trim_def trim_start_def)

lemma pm_bind_assoc: "pm_bind (pm_bind m f) g = pm_bind m (\<lambda>x. pm_bind (f x) g)"
  by (rule ext) (auto simp: pm_bind_def split: sum.split)

lemma parse_rule_weight:
  assumes "rule_ok r" "list_all is_digit w" "w \<noteq> []" "pe_parse_f64 env w = Some (x, True)"
  shows "parse_rule env (print_core r @ '' @weight('' @ w @ '')'') =
    pm_bind (enc_rule env r) (\<lambda>y. pm_return (y\<lparr>rule_weight := Some x\<rparr>))"
proof
  fix d
  have body: "list_all literal_ok (sr_body r)" "sr_body r \<noteq> []" using assms(1) by (simp_all add: rule_ok_def)
  note b = print_body_solid [OF body] parse_body_print [OF body(1), of env]
  note c = print_core_solid [OF assms(1)] weight_extracted [OF assms]
  have st: "trim_start (print_core r @ '' '') = print_core r @ '' ''"
    using c(1) by (cases "print_core r") (auto simp: solid_def trim_start_def)
  have full: "trim (print_core r @ '' '') = print_core r" using c(1) by simp
  show "parse_rule env (print_core r @ '' @weight('' @ w @ '')'') d = pm_bind (enc_rule env r) (\<lambda>y. pm_return (y\<lparr>rule_weight := Some x\<rparr>)) d"
  proof (cases "sr_head r")
    case None
    then have p: "print_core r = '':- '' @ print_body (sr_body r)" by (simp add: print_core_def)
    have ns: "starts_with (print_core r @ '' '') '':-''" using p by simp
    have tl: "trim (drop 2 (print_core r @ '' '')) = print_body (sr_body r)" using p trim_both [OF b(1)] by simp
    show ?thesis
      unfolding parse_rule_def c(2) sum.case prod.case Let_def st full tl
      using ns b(2) None by (simp add: enc_rule_def Let_def pm_bind_assoc)
  next
    case (Some h)
    then have h: "atom_ok h" using assms(1) by (simp add: rule_ok_def)
    have p: "print_core r = print_atom h @ '' :- '' @ print_body (sr_body r)" using Some by (simp add: print_core_def)
    have ns: "\<not> starts_with (print_core r @ '' '') '':-''"
      using print_atom_opens [of h] p by (cases "print_atom h") (auto simp: opens_def)
    have neck: "find_neck (print_core r @ '' '') = Inr (length (print_atom h) + 1)"
      using find_neck_print [OF h, of "print_body (sr_body r) @ '' ''"] p by simp
    have hd: "trim (take (length (print_atom h) + 1) (print_core r @ '' '')) = print_atom h" using p print_atom_solid [OF h] by simp
    have tl: "trim (drop (length (print_atom h) + 1 + 2) (print_core r @ '' '')) = print_body (sr_body r)" using p trim_both [OF b(1)] by simp
    show ?thesis
      unfolding parse_rule_def c(2) sum.case prod.case Let_def st full neck hd tl
      using ns b(2) Some print_atom_solid [OF h] parse_atom_print [OF h, of env]
      by (simp add: enc_rule_def parse_head_def Let_def pm_bind_assoc)
  qed
qed

lemma weight_line:
  assumes "rule_ok r" "list_all is_digit w"
  shows "tokenize_rules (print_core r @ '' @weight('' @ w @ '') .'') = [print_core r @ '' @weight('' @ w @ '')'']"
proof -
  have "passes rules_lexer (print_core r @ ('' @weight('' @ w @ '') ''))"
    using assms by (intro passes_append print_core_passes weight_chars_pass) (auto simp: list_all_iff)
  then have p: "rules_lexer [] ((print_core r @ '' @weight('' @ w @ '') '') @ ''.'') = rules_lexer (print_core r @ '' @weight('' @ w @ '') '') ''.''"
    by (simp add: passes_def)
  have "solid (print_core r @ '' @weight('' @ w @ '')'')" using print_core_solid [OF assms(1)] by (auto simp: solid_def is_ws_def)
  from solid_trim_right [OF this, of "CHR '' ''"]
  have t: "trim (print_core r @ '' @weight('' @ w @ '') '') = print_core r @ '' @weight('' @ w @ '')''" by simp
  have "trim [] = []" by (simp add: trim_def trim_start_def trim_end_def)
  with p t show ?thesis by (simp add: tokenize_rules_def rules_lexer_def push_trimmed_def)
qed

lemma parse_rules_weight:
  assumes "rule_ok r" "list_all is_digit w" "w \<noteq> []" "pe_parse_f64 env w = Some (x, True)"
  shows "parse_rules env (print_core r @ '' @weight('' @ w @ '') .'') name =
    pm_bind (enc_rule env r) (\<lambda>y. pm_return \<lparr>rs_name = name, rs_rules = [y\<lparr>rule_weight := Some x\<rparr>]\<rparr>)"
proof
  fix d
  define t where "t = print_core r @ '' @weight('' @ w @ '') .''"
  define l where "l = print_core r @ '' @weight('' @ w @ '')''"
  have tok: "tokenize_rules t = [l]" unfolding t_def l_def by (rule weight_line [OF assms(1,2)])
  have pr: "parse_rule env l = pm_bind (enc_rule env r) (\<lambda>y. pm_return (y\<lparr>rule_weight := Some x\<rparr>))"
    unfolding l_def by (rule parse_rule_weight [OF assms])
  have l: "solid l" "\<not> starts_with l ''#''"
  proof -
    show "solid l" using print_core_solid [OF assms(1)] by (auto simp: l_def solid_def is_ws_def)
    show "\<not> starts_with l ''#''"
    proof (cases "sr_head r")
      case (Some h)
      then show ?thesis using print_atom_opens [of h "[]"] by (cases "print_atom h") (auto simp: l_def print_core_def opens_def)
    qed (simp add: l_def print_core_def)
  qed
  have f: "enc_rule env r d \<noteq> Inr (Inl e, d')" for e d' using unfailing_enc_rule [of env r] unfolding unfailing_def by blast
  show "parse_rules env (print_core r @ '' @weight('' @ w @ '') .'') name d =
      pm_bind (enc_rule env r) (\<lambda>y. pm_return \<lparr>rs_name = name, rs_rules = [y\<lparr>rule_weight := Some x\<rparr>]\<rparr>) d"
    unfolding t_def [symmetric] using l f by (auto simp: parse_rules_def tok pr pm_bind_def pm_return_def Let_def split: sum.split)
qed

lemma enc_one: "enc_rules env [r] d = pm_bind (enc_rule env r) (\<lambda>y. pm_return [y]) d"
  by simp

lemma load_weighted:
  assumes "rule_ok r" "hash_order_ok ord"
    and parse: "\<And>px. parse_rules (parse_env_of env px) t name =
      pm_bind (enc_rule (parse_env_of env px) r) (\<lambda>y. pm_return \<lparr>rs_name = name, rs_rules = [y\<lparr>rule_weight := Some x\<rparr>]\<rparr>)"
  shows "case load_rules cfg env ord pord t name st of
      None \<Rightarrow> False
    | Some (Inl e) \<Rightarrow> \<exists>a. e = RuleAbort a
    | Some (Inr (n, st')) \<Rightarrow> n = 1
        \<and> (\<exists>y d. parse_rules (parse_env_of env (ds_prefixes st')) t name (ds_dict st)
              = Inr (Inr \<lparr>rs_name = name, rs_rules = [y]\<rparr>, d) \<and> rule_weight y = Some x)
        \<and> load_active_rules env name st' = read_as (parse_env_of env (ds_prefixes st')) [r] (ds_dict st')
        \<and> (\<forall>rules d. load_active_rules env name st' = Inr (rules, d) \<longrightarrow> map rule_weight rules = [None])"
proof -
  define px where "px = register_standard_prefixes (ds_prefixes st)"
  define c where "c = tabling_invalidate_all cfg (invalidate name (ds_catalog st))"
  define e where "e = parse_env_of env px"
  have load: "load_rules cfg env ord pord t name st = load_and_store_rules env ord pord t name (st\<lparr>ds_prefixes := px, ds_catalog := c\<rparr>)"
    by (simp add: load_rules_def px_def c_def Let_def)
  have one: "map rule_weight rules = [None]" if "read_as e [r] d = Inr (rules, d')" for rules d d'
    using that unfailing_enc_rule [of e r] enc_rule_text [of e r]
    by (fastforce simp: read_as_def enc_one pm_bind_def pm_return_def unfailing_def split: sum.splits)
  show ?thesis
  proof (cases "enc_rule e r (ds_dict st)")
    case (Inl a)
    then show ?thesis using parse [of px] by (simp add: load load_and_store_rules_def e_def pm_bind_def)
  next
    case (Inr p)
    with unfailing_enc_rule [of e r] obtain y d where y: "enc_rule e r (ds_dict st) = Inr (Inr y, d)"
      unfolding unfailing_def by (cases p; cases "fst p") auto
    obtain zs cat' where z: "store_rules ord pord name [y\<lparr>rule_weight := Some x\<rparr>] c = Some (length zs, cat')" "sorted (map fst zs)"
        "mset (map (snd \<circ> snd) zs) = mset [y\<lparr>rule_weight := Some x\<rparr>]"
        "rc_rows cat' = filter (\<lambda>r. rr_set r \<noteq> name) (rc_rows c) @ number_rows name (rc_next c) zs"
      by (rule store_rules_rows [OF assms(2), of pord name "[y\<lparr>rule_weight := Some x\<rparr>]" c])
    define st' where "st' = st\<lparr>ds_prefixes := px, ds_dict := d, ds_catalog := cat'\<rparr>"
    have p: "parse_rules e t name (ds_dict st) = Inr (Inr \<lparr>rs_name = name, rs_rules = [y\<lparr>rule_weight := Some x\<rparr>]\<rparr>, d)"
      using parse [of px] y by (simp add: e_def pm_bind_def pm_return_def)
    have m: "map (snd \<circ> snd) zs = [y\<lparr>rule_weight := Some x\<rparr>]" using z(3) by (metis mset_single_iff mset.simps)
    then have n: "length zs = 1" by (metis One_nat_def length_Cons length_map list.size(3))
    have res: "load_rules cfg env ord pord t name st = Some (Inr (1, st'))"
      using p z(1) n by (simp add: load load_and_store_rules_def e_def st'_def)
    have "map (rule_text \<circ> snd \<circ> snd) zs = map rule_text (map (snd \<circ> snd) zs)" by simp
    then have "map rr_text (rule_rows name cat') = [print_core r @ '' .'']"
      using stored_rule_rows [OF z(4,2)] m enc_rule_text [OF y] by simp
    then have "load_active_rules env name st' = read_as e [r] d"
      using parse_stored_cores [of "[r]" e name d] assms(1) by (simp add: load_active_rules_def st'_def e_def)
    with res p one show ?thesis by (auto simp: st'_def e_def)
  qed
qed

text \<open>
  Property C12. The weight of a rule is parsed but not stored: loading a rule with a weight gives a catalog
  from which inference reads the same rule without a weight, although the parser had returned the rule
  with it.
\<close>

theorem loaded_weight_lost:
  assumes "rule_ok r" "list_all is_digit w" "w \<noteq> []" "pe_parse_f64 env w = Some (x, True)" "hash_order_ok ord"
  shows "case load_rules cfg env ord pord (print_core r @ '' @weight('' @ w @ '') .'') name st of
      None \<Rightarrow> False
    | Some (Inl e) \<Rightarrow> \<exists>a. e = RuleAbort a
    | Some (Inr (n, st')) \<Rightarrow> n = 1
        \<and> (\<exists>y d. parse_rules (parse_env_of env (ds_prefixes st')) (print_core r @ '' @weight('' @ w @ '') .'') name (ds_dict st)
              = Inr (Inr \<lparr>rs_name = name, rs_rules = [y]\<rparr>, d) \<and> rule_weight y = Some x)
        \<and> load_active_rules env name st' = read_as (parse_env_of env (ds_prefixes st')) [r] (ds_dict st')
        \<and> (\<forall>rules d. load_active_rules env name st' = Inr (rules, d) \<longrightarrow> map rule_weight rules = [None])"
proof -
  have "pe_parse_f64 (parse_env_of env px) w = Some (x, True)" for px using assms(4) by (simp add: parse_env_of_def)
  from parse_rules_weight [OF assms(1-3) this]
  show ?thesis by (rule load_weighted [OF assms(1,5)])
qed

definition weight_parse :: "(u128 \<rightharpoonup> i64, i64 \<rightharpoonup> string) parse_env" where
  "weight_parse = (demo_parse demo_env)\<lparr>pe_parse_f64 := \<lambda>s. if s = ''1'' then Some (0x3FF0000000000000, True) else None\<rparr>"

theorem loaded_weight_lost_witness:
  "\<exists>st'. load_rules demo_cfg weight_parse sorted_list_of_set sorted_list_of_set
        (print_core (hd swap_rules) @ '' @weight('' @ ''1'' @ '') .'') ''r'' demo_rules_state = Some (Inr (1, st'))
     \<and> load_active_rules weight_parse ''r'' st' = read_as (parse_env_of weight_parse (ds_prefixes st')) [hd swap_rules] (ds_dict st')"
proof -
  have r: "rule_ok (hd swap_rules)" using demo_load(1) by (simp add: swap_rules_def)
  have w: "list_all is_digit ''1''" "''1'' \<noteq> []" by (simp_all add: is_digit_def Let_def)
  have f: "pe_parse_f64 weight_parse ''1'' = Some (0x3FF0000000000000, True)"
    "pe_parse_f64 (parse_env_of weight_parse px) ''1'' = Some (0x3FF0000000000000, True)" for px
    by (simp_all add: weight_parse_def parse_env_of_def)
  have "\<exists>rs. parse_rules (parse_env_of weight_parse px) (print_core (hd swap_rules) @ '' @weight('' @ ''1'' @ '') .'') ''r'' = pm_return rs" for px
    unfolding parse_rules_weight [OF r w f(2)] using swap_rules_enc [of "parse_env_of weight_parse px"] by auto
  from load_returns [OF demo_load(2) this] obtain n st' where
    l: "load_rules demo_cfg weight_parse sorted_list_of_set sorted_list_of_set
        (print_core (hd swap_rules) @ '' @weight('' @ ''1'' @ '') .'') ''r'' demo_rules_state = Some (Inr (n, st'))" by blast
  from loaded_weight_lost [OF r w f(1) demo_load(2), where cfg = demo_cfg and pord = sorted_list_of_set and name = "''r''" and st = demo_rules_state]
  show ?thesis unfolding l by auto
qed

section \<open>Caches and explanations\<close>



text \<open>
  Property C14. Storing a rule set keeps the catalog well formed: the identifiers of rules are distinct and
  below the next one. Since the rules of the set are deleted and inserted under new identifiers before the
  explanation cache is invalidated, no explanation is invalidated: every stamp stays as it was.
\<close>

theorem explanations_keep_stamps:
  assumes "hash_order_ok ord" "catalog_ok cat" "store_rules ord pord name rules cat = Some (n, cat')"
  shows "catalog_ok cat' \<and> n = length rules \<and> rc_explanations cat' = rc_explanations cat"
proof -
  obtain xs where x: "n = length xs" "mset (map (snd \<circ> snd) xs) = mset rules"
      "rc_rows cat' = filter (\<lambda>r. rr_set r \<noteq> name) (rc_rows cat) @ number_rows name (rc_next cat) xs"
      "rc_next cat' = rc_next cat + int (length xs)"
      "rc_explanations cat' = map (\<lambda>(i, stamp). (i, if i \<in> rr_id ` set (number_rows name (rc_next cat) xs) then stamp + 1 else stamp)) (rc_explanations cat)"
    by (rule store_rules_rows [OF assms(1), of pord name rules cat]) (use assms(3) in auto)
  note m = number_rows_member [of _ name "rc_next cat" xs]
  have n: "n = length rules" using x(1,2) by (metis length_map mset_eq_length)
  have "i \<notin> rr_id ` set (number_rows name (rc_next cat) xs)" if "(i, stamp) \<in> set (rc_explanations cat)" for i stamp
    using assms(2) that m by (force simp: catalog_ok_def)
  then have e: "rc_explanations cat' = rc_explanations cat" unfolding x(5) by (intro map_idI) auto
  have "distinct (map rr_id (number_rows name (rc_next cat) xs))" by (simp add: distinct_map inj_on_def)
  moreover have "distinct (map rr_id (filter (\<lambda>r. rr_set r \<noteq> name) (rc_rows cat)))" using assms(2) by (simp add: catalog_ok_def distinct_map_filter)
  moreover have "rr_id r < rc_next cat" if "r \<in> set (rc_rows cat)" for r using assms(2) that by (simp add: catalog_ok_def)
  ultimately have "distinct (map rr_id (rc_rows cat'))" unfolding x(3) using m by (fastforce simp del: number_rows_simps)
  moreover have "rr_id r < rc_next cat'" if "r \<in> set (rc_rows cat')" for r
    using that m assms(2) unfolding x(3,4) catalog_ok_def by fastforce
  moreover have "i < rc_next cat'" if "(i, stamp) \<in> set (rc_explanations cat')" for i stamp
    using that assms(2) unfolding e x(4) catalog_ok_def by fastforce
  ultimately show ?thesis using n e by (auto simp: catalog_ok_def)
qed

definition explained :: "unit catalog" where
  "explained = (ds_catalog demo_rules_state)\<lparr>rc_rows := [\<lparr>rr_id = 1, rr_set = ''r'', rr_text = [], rr_head_pred = None, rr_stratum = 0,
     rr_recursive = False, rr_active = True\<rparr>], rc_next := 2, rc_explanations := [(1, 0)]\<rparr>"

theorem explanations_keep_stamps_witness:
  "\<exists>cat'. store_rules sorted_list_of_set sorted_list_of_set ''r'' [make_rule 10 20 False] explained = Some (1, cat')
     \<and> catalog_ok cat' \<and> rc_explanations cat' = [(1, 0)]"
proof -
  have ok: "catalog_ok explained" by (simp add: catalog_ok_def explained_def)
  obtain xs :: "(nat \<times> bool \<times> Rule) list" and cat' where
    s: "store_rules sorted_list_of_set sorted_list_of_set ''r'' [make_rule 10 20 False] explained = Some (length xs, cat')"
    by (rule store_rules_rows [OF demo_load(2)]) blast
  from explanations_keep_stamps [OF demo_load(2) ok s] s show ?thesis by (auto simp: explained_def)
qed

end
