(* ===== verification/Demand.thy ===== *)
theory Demand
  imports Rule_Catalog Sameas
begin

text \<open>
  Goal-directed inference (\<open>src/src/datalog/demand.rs\<close>): the demands a caller passes as JSON, the
  predicates that contribute to them, and the rules that are evaluated. The JSON reader is a parameter;
  the evaluation of the selected rules is that of the database.
\<close>

section \<open>Demands\<close>

record DemandSpec =
  dm_s :: "term_id option"
  dm_p :: "term_id option"
  dm_o :: "term_id option"

definition encode_field :: "('e, 'd) parse_env \<Rightarrow> (string \<times> json) list \<Rightarrow> string \<Rightarrow> ('e, 'd) dict
    \<Rightarrow> dict_error + term_id option \<times> ('e, 'd) dict" where
  "encode_field env obj key d =
     (case map_of obj key of
        Some (JString val) \<Rightarrow>
          if val = [] \<or> starts_with val ''?'' then Inr (None, d)
          else
            (let resolved = resolve_prefix (pe_prefixes env) val;
                 de = pe_dict env;
                 enc = (if starts_with resolved ''<'' then encode de (trim_end_matches CHR ''>'' (trim_start_matches CHR ''<'' resolved)) KIND_IRI d
                        else if starts_with resolved [dq] then encode de resolved KIND_LITERAL d
                        else encode de resolved KIND_IRI d)
             in case enc of Inl e \<Rightarrow> Inl e | Inr (i, d) \<Rightarrow> Inr (Some (sint i), d))
      | _ \<Rightarrow> Inr (None, d))"

fun parse_demand_elems :: "('e, 'd) parse_env \<Rightarrow> json list \<Rightarrow> ('e, 'd) dict \<Rightarrow> dict_error + DemandSpec list \<times> ('e, 'd) dict" where
  "parse_demand_elems env [] d = Inr ([], d)"
| "parse_demand_elems env (JObject obj # es) d =
     (case encode_field env obj ''s'' d of Inl e \<Rightarrow> Inl e | Inr (s, d) \<Rightarrow>
     (case encode_field env obj ''p'' d of Inl e \<Rightarrow> Inl e | Inr (p, d) \<Rightarrow>
     (case encode_field env obj ''o'' d of Inl e \<Rightarrow> Inl e | Inr (ob, d) \<Rightarrow>
     (case parse_demand_elems env es d of Inl e \<Rightarrow> Inl e | Inr (ds, d) \<Rightarrow>
        Inr (\<lparr>dm_s = s, dm_p = p, dm_o = ob\<rparr> # ds, d)))))"
| "parse_demand_elems env (_ # es) d = parse_demand_elems env es d"

definition parse_demands_json :: "(string \<Rightarrow> json option) \<Rightarrow> ('e, 'd) parse_env \<Rightarrow> string \<Rightarrow> ('e, 'd) dict
    \<Rightarrow> dict_error + DemandSpec list \<times> ('e, 'd) dict" where
  "parse_demands_json from_str env json_str d =
     (case from_str json_str of
        Some (JArray arr) \<Rightarrow> parse_demand_elems env arr d
      | _ \<Rightarrow> Inr ([], d))"

section \<open>Relevant predicates\<close>

definition dep_get :: "(term_id \<rightharpoonup> term_id set) \<Rightarrow> term_id \<Rightarrow> term_id set" where
  "dep_get graph h = (case graph h of Some s \<Rightarrow> s | None \<Rightarrow> {})"

definition add_deps :: "Rule \<Rightarrow> (term_id \<rightharpoonup> term_id set) \<Rightarrow> (term_id \<rightharpoonup> term_id set)" where
  "add_deps rule graph =
     (case head_pred rule of
        None \<Rightarrow> graph
      | Some h \<Rightarrow> graph(h \<mapsto> dep_get graph h \<union> set (body_preds rule)))"

definition build_dep_graph :: "Rule list \<Rightarrow> (term_id \<rightharpoonup> term_id set)" where
  "build_dep_graph rules = fold add_deps rules Map.empty"

text \<open>The frontier is a stack, its top first.\<close>

fun push_unseen :: "term_id list \<Rightarrow> term_id set \<Rightarrow> term_id list \<Rightarrow> term_id set \<times> term_id list" where
  "push_unseen [] relevant frontier = (relevant, frontier)"
| "push_unseen (x # xs) relevant frontier =
     (if x \<in> relevant then push_unseen xs relevant frontier else push_unseen xs (insert x relevant) (x # frontier))"

fun relevant_loop :: "nat \<Rightarrow> term_id hash_order \<Rightarrow> (term_id \<rightharpoonup> term_id set) \<Rightarrow> term_id set \<Rightarrow> term_id list \<Rightarrow> term_id set option" where
  "relevant_loop fuel ord graph relevant [] = Some relevant"
| "relevant_loop 0 ord graph relevant (_ # _) = None"
| "relevant_loop (Suc fuel) ord graph relevant (pred # frontier) =
     (case graph pred of
        None \<Rightarrow> relevant_loop fuel ord graph relevant frontier
      | Some dps \<Rightarrow>
          (let (r, f) = push_unseen (ord dps) relevant frontier in relevant_loop fuel ord graph r f))"

definition find_relevant_predicates :: "term_id hash_order \<Rightarrow> Rule list \<Rightarrow> term_id set \<Rightarrow> term_id set option" where
  "find_relevant_predicates ord rules demand_preds =
     relevant_loop (card demand_preds + length (concat (map body_preds rules))) ord (build_dep_graph rules) demand_preds (rev (ord demand_preds))"

definition demand_rules :: "term_id hash_order \<Rightarrow> DemandSpec list \<Rightarrow> Rule list \<Rightarrow> Rule list option" where
  "demand_rules ord demands all_rules =
     (let demand_pred_ids = set (List.map_filter dm_p demands) in
      if demand_pred_ids = {} then Some all_rules
      else map_option (\<lambda>relevant. filter (\<lambda>r. case head_pred r of Some h \<Rightarrow> h \<in> relevant | None \<Rightarrow> False) all_rules)
             (find_relevant_predicates ord all_rules demand_pred_ids))"

text \<open>The rules \<open>run_infer_demand\<close> hands to the evaluator: read back from the catalog, restricted to the
  demands, and rewritten by the owl:sameAs map when that is enabled.\<close>

definition run_infer_demand_rules :: "('e, 'd) parse_env \<Rightarrow> term_id hash_order \<Rightarrow> (sameas_gucs \<times> (term_id \<times> term_id) list) option \<Rightarrow> string
    \<Rightarrow> DemandSpec list \<Rightarrow> ('e, 'd, 'j) datalog_state \<Rightarrow> (parse_abort + Rule list \<times> ('e, 'd) dict) option" where
  "run_infer_demand_rules env ord sameas rule_set demands st =
     (case load_active_rules env rule_set st of
        Inl a \<Rightarrow> Some (Inl a)
      | Inr (all_rules, d) \<Rightarrow>
          Option.bind (demand_rules ord demands all_rules) (\<lambda>relevant.
            if relevant = [] then Some (Inr ([], d))
            else
              (case sameas of
                 None \<Rightarrow> Some (Inr (relevant, d))
               | Some (cfg, pairs) \<Rightarrow>
                   map_option (\<lambda>res. Inr (apply_sameas_to_rules (sm_map res) relevant, d)) (compute_sameas_map cfg ord pairs))))"

section \<open>Lemmas\<close>

lemma add_deps_get: "dep_get (add_deps r g) h = dep_get g h \<union> {q. head_pred r = Some h \<and> q \<in> set (body_preds r)}"
  by (auto simp: add_deps_def dep_get_def split: option.split)

lemma dep_graph_get: "dep_get (build_dep_graph rules) h = {q. \<exists>r \<in> set rules. head_pred r = Some h \<and> q \<in> set (body_preds r)}"
proof -
  have "dep_get (fold add_deps rules g) h = dep_get g h \<union> {q. \<exists>r \<in> set rules. head_pred r = Some h \<and> q \<in> set (body_preds r)}" for g
    by (induction rules arbitrary: g) (auto simp: add_deps_get)
  from this [of Map.empty] show ?thesis by (simp add: build_dep_graph_def dep_get_def)
qed

definition pos_rel :: "Rule list \<Rightarrow> (term_id \<times> term_id) set" where
  "pos_rel rules = {(h, q). \<exists>r \<in> set rules. head_pred r = Some h \<and> q \<in> set (body_preds r)}"

lemma push_new_spec:
  "push_unseen xs R F = (R', F') \<Longrightarrow>
    R' = R \<union> set xs \<and> set F' = set F \<union> (set xs - R)
    \<and> (finite T \<longrightarrow> set xs \<subseteq> T \<longrightarrow> card (T - R') + length F' = card (T - R) + length F)"
proof (induction xs arbitrary: R F)
  case (Cons x xs)
  show ?case
  proof (cases "x \<in> R")
    case True
    with Cons.IH [of R F] Cons.prems show ?thesis by auto
  next
    case False
    have "Suc (card (T - insert x R)) = card (T - R)" if "finite T" "x \<in> T"
      using card_minus_insert [OF that False] .
    with Cons.IH [of "insert x R" "x # F"] Cons.prems False show ?thesis by auto
  qed
qed simp

lemma relevant_loop_spec:
  assumes ord: "hash_order_ok ord" and T: "finite T" "\<And>h. dep_get graph h \<subseteq> T"
  shows "card (T - R) + length F \<le> fuel \<Longrightarrow> set F \<subseteq> R \<Longrightarrow> \<forall>x \<in> R - set F. dep_get graph x \<subseteq> R \<Longrightarrow>
    relevant_loop fuel ord graph R F = Some {q. \<exists>p \<in> R. (p, q) \<in> {(h, q). q \<in> dep_get graph h}\<^sup>*}"
    (is "_ \<Longrightarrow> _ \<Longrightarrow> _ \<Longrightarrow> _ = Some (?reach R)")
proof (induction fuel arbitrary: R F)
  have closed: "?reach R = R" if "\<forall>x \<in> R. dep_get graph x \<subseteq> R" for R
    using closed_path [of _ _ "{(h, q). q \<in> dep_get graph h}" R] that by blast
  {
    case 0
    then have "F = []" by simp
    with 0 closed show ?case by simp
  next
    case (Suc fuel)
    show ?case
    proof (cases F)
      case Nil
      with Suc.prems closed show ?thesis by simp
    next
      case (Cons p F0)
      show ?thesis
      proof (cases "graph p")
        case None
        then have "\<forall>x \<in> R - set F0. dep_get graph x \<subseteq> R" 
          using Suc.prems(3) Cons by (metis Diff_iff dep_get_def empty_subsetI insert_iff list.simps(15) option.simps(4))
        then show ?thesis using Suc.IH [of R F0] Suc.prems Cons None by simp
      next
        case (Some dps)
        obtain R' F' where e: "push_unseen (ord dps) R F0 = (R', F')" by force
        have dps: "dps \<subseteq> T" using T(2) [of p] Some by (simp add: dep_get_def)
        then have o: "set (ord dps) = dps" using hash_order_set [OF ord finite_subset [OF dps T(1)]] by simp
        note sp = push_new_spec [OF e, of T]
        have R': "R' = R \<union> dps" "set F' = set F0 \<union> (dps - R)" using sp o by auto
        have "card (T - R') + length F' = card (T - R) + length F0" using sp o dps T(1) by blast
        then have "relevant_loop fuel ord graph R' F' = Some (?reach R')"
          using Suc.prems Cons R' Some by (intro Suc.IH) (auto simp: dep_get_def)
        moreover have "?reach R' = ?reach R"
        proof -
          have "p \<in> R" using Suc.prems(2) Cons by simp
          moreover have "(p, d) \<in> {(h, q). q \<in> dep_get graph h}" if "d \<in> dps" for d using that Some by (simp add: dep_get_def)
          ultimately show ?thesis unfolding R'(1) by (blast intro: converse_rtrancl_into_rtrancl)
        qed
        ultimately show ?thesis using Cons Some e by simp
      qed
    qed
  }
qed

lemma find_relevant_correct:
  assumes "hash_order_ok ord" "finite demand"
  shows "find_relevant_predicates ord rules demand = Some {q. \<exists>p \<in> demand. (p, q) \<in> (pos_rel rules)\<^sup>*}"
proof -
  let ?T = "set (concat (map body_preds rules))"
  have rel: "{(h, q). q \<in> dep_get (build_dep_graph rules) h} = pos_rel rules"
    by (auto simp: dep_graph_get pos_rel_def)
  have "card (?T - demand) \<le> length (concat (map body_preds rules))"
    by (meson card_length le_trans card_mono List.finite_set Diff_subset)
  moreover have "length (ord demand) = card demand" using assms by (metis distinct_card hash_order_distinct hash_order_set)
  ultimately have "relevant_loop (card demand + length (concat (map body_preds rules))) ord (build_dep_graph rules) demand (rev (ord demand))
      = Some {q. \<exists>p \<in> demand. (p, q) \<in> {(h, q). q \<in> dep_get (build_dep_graph rules) h}\<^sup>*}"
    using assms by (intro relevant_loop_spec [where T = ?T]) (auto simp: dep_graph_get)
  then show ?thesis unfolding rel by (simp add: find_relevant_predicates_def)
qed

section \<open>The selected rules\<close>

text \<open>
  Property C6. The restriction to demands returns for every program, and for every order in which the hash
  sets are traversed: it keeps, in order, exactly the rules whose head predicate a demanded predicate
  depends on through positive literals; without a demanded predicate it keeps all rules.
\<close>

theorem demand_selection_exact:
  assumes "hash_order_ok ord"
  shows "demand_rules ord demands rules = Some
    (if set (List.map_filter dm_p demands) = {} then rules
     else filter (\<lambda>r. \<exists>h. head_pred r = Some h \<and> (\<exists>p \<in> set (List.map_filter dm_p demands). (p, h) \<in> (pos_rel rules)\<^sup>*)) rules)"
proof -
  let ?D = "set (List.map_filter dm_p demands)"
  have f: "filter (\<lambda>r. case head_pred r of Some h \<Rightarrow> h \<in> {q. \<exists>p \<in> ?D. (p, q) \<in> (pos_rel rules)\<^sup>*} | None \<Rightarrow> False) rules
      = filter (\<lambda>r. \<exists>h. head_pred r = Some h \<and> (\<exists>p \<in> ?D. (p, h) \<in> (pos_rel rules)\<^sup>*)) rules"
    by (rule filter_cong) (auto split: option.split)
  show ?thesis unfolding demand_rules_def Let_def find_relevant_correct [OF assms List.finite_set]
    by (simp only: option.map f if_distrib [of Some])
qed

definition one_demand :: "term_id \<Rightarrow> DemandSpec" where
  "one_demand p = \<lparr>dm_s = None, dm_p = Some p, dm_o = None\<rparr>"

theorem demand_selection_exact_witness:
  "demand_rules sorted_list_of_set [one_demand 10] [make_rule 10 20 False, make_rule 20 30 False, make_rule 40 10 False]
     = Some [make_rule 10 20 False, make_rule 20 30 False]"
proof -
  let ?rs = "[make_rule 10 20 False, make_rule 20 30 False, make_rule 40 10 False]"
  have rel: "pos_rel ?rs = {(10, 20), (20, 30), (40, 10)}" by (auto simp: pos_rel_def)
  have "(10, 20) \<in> (pos_rel ?rs)\<^sup>*" unfolding rel by auto
  moreover have "(10, 40) \<notin> (pos_rel ?rs)\<^sup>*"
    using closed_path [of 10 40 "pos_rel ?rs" "{10, 20, 30}"] unfolding rel by auto
  ultimately show ?thesis
    using demand_selection_exact [OF hash_order_sorted, of "[one_demand 10]" ?rs] by (simp add: one_demand_def List.map_filter_simps)
qed

definition guarded_rule :: "term_id \<Rightarrow> term_id \<Rightarrow> term_id \<Rightarrow> Rule" where
  "guarded_rule p q n =
     (make_rule p q False)\<lparr>rule_body := rule_body (make_rule p q False) @ rule_body (make_rule p n True)\<rparr>"

lemma guarded_simps [simp]:
  "head_pred (guarded_rule p q n) = Some p" "body_preds (guarded_rule p q n) = [q]"
  "rule_edges (guarded_rule p q n) = [\<lparr>edge_from = p, edge_to = q, edge_negative = False\<rparr>, \<lparr>edge_from = p, edge_to = n, edge_negative = True\<rparr>]"
  "agg_head_error (guarded_rule p q n) = None"
  by (simp_all add: guarded_rule_def make_rule_def head_pred_def atom_pred_def body_preds_def List.map_filter_simps rule_edges_def mk_edge_def
      agg_head_error_def Let_def)



end
