(* ===== verification/Parallel_Groups.thy ===== *)
theory Parallel_Groups
  imports Stratify_Correct Union_Find
begin

text \<open>
  The partition of a stratum into independent groups of rules (\<open>src/src/datalog/parallel.rs\<close>): rules grouped
  by head predicate, groups united along their dependencies with a union-find structure, and the groups
  ordered topologically. The hash maps of the code are traversed in the orders \<open>ho_preds\<close>, \<open>ho_edges\<close>, \<open>ho_deps\<close>
  and \<open>ho_roots\<close>. The test for directed cycles only writes a log line and is left out.
\<close>

section \<open>Definitions\<close>

record ParallelGroup =
  pg_rules :: "Rule list"
  pg_derived_predicates :: "term_id list"

record ParallelAnalysis =
  an_groups :: "ParallelGroup list"
  an_parallel_groups :: nat
  an_max_concurrent :: nat

record hash_orders =
  ho_preds :: "term_id hash_order"
  ho_edges :: "term_id hash_order"
  ho_deps :: "term_id hash_order"
  ho_roots :: "term_id hash_order"

fun literal_atom :: "BodyLiteral \<Rightarrow> Atom option" where
  "literal_atom (Positive a) = Some a"
| "literal_atom (Negated a) = Some a"
| "literal_atom (Aggregate agg) = Some (agg_atom agg)"
| "literal_atom _ = None"

definition body_derived_preds :: "Rule \<Rightarrow> term_id set \<Rightarrow> term_id list" where
  "body_derived_preds rule derived_set =
     filter (\<lambda>p. p \<in> derived_set) (List.map_filter (\<lambda>l. Option.bind (literal_atom l) atom_pred) (rule_body rule))"

definition head_groups :: "Rule list \<Rightarrow> (term_id \<rightharpoonup> Rule list)" where
  "head_groups rules = fold (\<lambda>r m. case head_pred r of Some h \<Rightarrow> entry_push h r m | None \<Rightarrow> m) rules Map.empty"

definition group_deps :: "(term_id \<rightharpoonup> Rule list) \<Rightarrow> term_id \<Rightarrow> term_id set" where
  "group_deps hg h = set (concat (map (\<lambda>r. body_derived_preds r (dom hg)) (get_list hg h))) - {h}"

text \<open>Union-find by rank, with path compression.\<close>

record ranked_uf =
  uf_parent :: "term_id \<rightharpoonup> term_id"
  uf_rank :: "term_id \<rightharpoonup> nat"

definition uf_new :: "term_id list \<Rightarrow> ranked_uf" where
  "uf_new preds = \<lparr>uf_parent = (\<lambda>p. if p \<in> set preds then Some p else None), uf_rank = (\<lambda>p. if p \<in> set preds then Some 0 else None)\<rparr>"

partial_function (option) rank_find :: "(term_id \<rightharpoonup> term_id) \<Rightarrow> term_id \<Rightarrow> (term_id \<times> (term_id \<rightharpoonup> term_id)) option" where
  "rank_find parent x =
     (let p = (case parent x of None \<Rightarrow> x | Some p \<Rightarrow> p) in
      if p = x then Some (x, parent)
      else Option.bind (rank_find parent p) (\<lambda>(root, parent'). Some (root, parent'(x \<mapsto> root))))"

declare rank_find.simps [code]

definition rank_of :: "ranked_uf \<Rightarrow> term_id \<Rightarrow> nat" where
  "rank_of u x = (case uf_rank u x of Some r \<Rightarrow> r | None \<Rightarrow> 0)"

definition rank_union :: "term_id \<Rightarrow> term_id \<Rightarrow> ranked_uf \<Rightarrow> ranked_uf option" where
  "rank_union x y u =
     Option.bind (rank_find (uf_parent u) x) (\<lambda>(rx, parent).
     Option.bind (rank_find parent y) (\<lambda>(ry, parent).
       let u = u\<lparr>uf_parent := parent\<rparr> in
       Some (if rx = ry then u
             else if rank_of u rx < rank_of u ry then u\<lparr>uf_parent := parent(rx \<mapsto> ry)\<rparr>
             else if rank_of u ry < rank_of u rx then u\<lparr>uf_parent := parent(ry \<mapsto> rx)\<rparr>
             else u\<lparr>uf_parent := parent(ry \<mapsto> rx),
                    uf_rank := (case uf_rank u rx of Some r \<Rightarrow> (uf_rank u)(rx \<mapsto> r + 1) | None \<Rightarrow> uf_rank u)\<rparr>)))"

fun gather :: "term_id list \<Rightarrow> (term_id \<rightharpoonup> term_id) \<Rightarrow> (term_id \<rightharpoonup> term_id list) \<Rightarrow> (term_id \<rightharpoonup> term_id list) option" where
  "gather [] parent components = Some components"
| "gather (p # preds) parent components =
     Option.bind (rank_find parent p) (\<lambda>(root, parent). gather preds parent (entry_push root p components))"

section \<open>Topological order of groups\<close>

definition all_derived :: "ParallelGroup list \<Rightarrow> term_id set" where
  "all_derived groups = set (concat (map pg_derived_predicates groups))"

definition group_body_preds :: "ParallelGroup list \<Rightarrow> ParallelGroup \<Rightarrow> term_id set" where
  "group_body_preds groups g = set (concat (map (\<lambda>r. body_derived_preds r (all_derived groups)) (pg_rules g)))"

definition feeds :: "ParallelGroup list \<Rightarrow> nat \<Rightarrow> nat \<Rightarrow> bool" where
  "feeds groups i j \<longleftrightarrow> i \<noteq> j \<and> list_ex (\<lambda>p. p \<in> group_body_preds groups (groups ! j)) (pg_derived_predicates (groups ! i))"

definition group_key :: "ParallelGroup list \<Rightarrow> nat \<Rightarrow> term_id" where
  "group_key groups i = (case pg_derived_predicates (groups ! i) of [] \<Rightarrow> 2 ^ 63 - 1 | p # ps \<Rightarrow> fold min ps p)"

fun kahn_groups :: "nat \<Rightarrow> (nat \<Rightarrow> term_id) \<Rightarrow> nat list list \<Rightarrow> nat list \<Rightarrow> nat list \<Rightarrow> nat list \<Rightarrow> nat list option" where
  "kahn_groups fuel key adj in_degree [] order = Some order"
| "kahn_groups 0 key adj in_degree (_ # _) order = None"
| "kahn_groups (Suc fuel) key adj in_degree (i # queue) order =
     (let in_degree = fold (\<lambda>j d. d[j := d ! j - 1]) (adj ! i) in_degree;
          next_groups = sort_key key (filter (\<lambda>j. in_degree ! j = 0) (adj ! i))
      in kahn_groups fuel key adj in_degree (queue @ next_groups) (order @ [i]))"

definition topological_sort_groups :: "ParallelGroup list \<Rightarrow> ParallelGroup list option" where
  "topological_sort_groups groups =
     (let n = length groups in
      if n \<le> 1 then Some groups
      else
        (let adj = map (\<lambda>i. filter (feeds groups i) [0..<n]) [0..<n];
             in_degree = map (\<lambda>j. length (filter (\<lambda>i. feeds groups i j) [0..<n])) [0..<n];
             queue = sort_key (group_key groups) (filter (\<lambda>i. in_degree ! i = 0) [0..<n])
         in map_option (\<lambda>order. if length order < n then groups else map (\<lambda>i. groups ! i) order)
              (kahn_groups (Suc n) (group_key groups) adj in_degree queue [])))"

section \<open>The partition\<close>

definition component_groups :: "hash_orders \<Rightarrow> Rule list \<Rightarrow> ParallelGroup list option" where
  "component_groups ho rules =
     (let hg = head_groups rules;
          preds = ho_preds ho (dom hg);
          edges = concat (map (\<lambda>h. map (\<lambda>q. (h, q)) (ho_deps ho (group_deps hg h))) (ho_edges ho (dom hg)))
      in Option.bind (unite rank_union edges (uf_new preds)) (\<lambda>u.
           map_option (\<lambda>components.
             map (\<lambda>root. let ids = get_list components root in
                    \<lparr>pg_rules = concat (map (get_list hg) ids), pg_derived_predicates = ids\<rparr>) (ho_roots ho (dom components)))
             (gather preds (uf_parent u) Map.empty)))"

definition partition_into_parallel_groups :: "hash_orders \<Rightarrow> Rule list \<Rightarrow> int \<Rightarrow> ParallelAnalysis option" where
  "partition_into_parallel_groups ho rules parallel_workers =
     (if rules = [] then Some \<lparr>an_groups = [], an_parallel_groups = 0, an_max_concurrent = 0\<rparr>
      else
        Option.bind (component_groups ho rules) (\<lambda>groups.
          let var_pred_rules = filter (\<lambda>r. head_pred r = None) rules;
              groups = groups @ (if var_pred_rules = [] then [] else [\<lparr>pg_rules = var_pred_rules, pg_derived_predicates = []\<rparr>])
          in map_option (\<lambda>groups.
               \<lparr>an_groups = groups, an_parallel_groups = length groups,
                an_max_concurrent = (if parallel_workers \<le> 0 then 1 else min (length groups) (nat parallel_workers))\<rparr>)
               (topological_sort_groups groups)))"

section \<open>Identifier ranges\<close>

text \<open>
  \<open>preallocate_sid_ranges\<close>: one statement, \<open>SELECT setval(seq, nextval(seq) + total - 1)\<close>, whose two calls are separate
  steps on the sequence; the state is the last value the sequence gave. The identifiers stay below \<open>2 ^ 63\<close>.
\<close>

definition seq_nextval :: "int \<Rightarrow> int \<times> int" where
  "seq_nextval last_value = (last_value + 1, last_value + 1)"

definition seq_setval :: "int \<Rightarrow> int \<Rightarrow> int \<times> int" where
  "seq_setval v last_value = (v, v)"

definition sid_ranges :: "nat \<Rightarrow> int \<Rightarrow> int \<Rightarrow> (int \<times> int) list" where
  "sid_ranges n_workers batch_size new_max =
     (let base = new_max - int n_workers * batch_size + 1
      in map (\<lambda>i. let start = base + int i * batch_size in (start, start + batch_size)) [0..<n_workers])"

definition preallocate_sid_ranges :: "nat \<Rightarrow> int \<Rightarrow> int \<Rightarrow> (int \<times> int) list \<times> int" where
  "preallocate_sid_ranges n_workers batch_size last_value =
     (if n_workers = 0 then ([], last_value)
      else
        (let total_ids = int n_workers * batch_size;
             (v, last_value) = seq_nextval last_value;
             (new_max, last_value) = seq_setval (v + total_ids - 1) last_value
         in (sid_ranges n_workers batch_size new_max, last_value)))"

text \<open>The same call when another session takes \<open>k\<close> identifiers between the two steps: those identifiers, the ranges and the sequence.\<close>

definition preallocate_interleaved :: "nat \<Rightarrow> nat \<Rightarrow> int \<Rightarrow> int \<Rightarrow> int list \<times> (int \<times> int) list \<times> int" where
  "preallocate_interleaved k n_workers batch_size last_value =
     (let (v, last_value) = seq_nextval last_value;
          (ids, last_value) = fold (\<lambda>_ (ids, l). let (i, l) = seq_nextval l in (ids @ [i], l)) [0..<k] ([], last_value);
          (new_max, last_value) = seq_setval (v + int n_workers * batch_size - 1) last_value
      in (ids, sid_ranges n_workers batch_size new_max, last_value))"

end
