(* ===== verification/Parallel_Correct.thy ===== *)
theory Parallel_Correct
  imports Parallel_Groups
begin

text \<open>
  The union-find structure of the parallel partition meets the contract of \<open>Union_Find\<close>; the groups are a
  partition of the rules into the connected components of the dependency graph, in a topological order.
\<close>

section \<open>Roots\<close>

inductive uroot :: "(term_id \<rightharpoonup> term_id) \<Rightarrow> term_id \<Rightarrow> term_id \<Rightarrow> bool" for P where
  here: "P x = None \<or> P x = Some x \<Longrightarrow> uroot P x x"
| up: "P x = Some y \<Longrightarrow> y \<noteq> x \<Longrightarrow> uroot P y r \<Longrightarrow> uroot P x r"

inductive_cases urootE: "uroot P x r"

lemma uroot_unique: "uroot P x r \<Longrightarrow> uroot P x r' \<Longrightarrow> r' = r"
  by (induction rule: uroot.induct) (auto elim: urootE)

lemma uroot_top: "uroot P x r \<Longrightarrow> P r = None \<or> P r = Some r"
  by (induction rule: uroot.induct)

text \<open>Ranks grow along the parents.\<close>

definition ranked :: "(term_id \<rightharpoonup> term_id) \<Rightarrow> (term_id \<Rightarrow> nat) \<Rightarrow> bool" where
  "ranked P rk \<longleftrightarrow> (\<forall>x y. P x = Some y \<longrightarrow> y \<noteq> x \<longrightarrow> rk x < rk y) \<and> (\<exists>B. \<forall>x. rk x \<le> B)"

lemma ranked_step: "ranked P rk \<Longrightarrow> P x = Some y \<Longrightarrow> y \<noteq> x \<Longrightarrow> rk x < rk y"
  by (simp add: ranked_def)

lemma uroot_rank: "uroot P x r \<Longrightarrow> ranked P rk \<Longrightarrow> rk x \<le> rk r \<and> (x \<noteq> r \<longrightarrow> rk x < rk r)"
  by (induction rule: uroot.induct) (auto dest: ranked_step)

lemma uroot_exists:
  assumes "ranked P rk"
  obtains r where "uroot P x r"
proof -
  obtain B where B: "\<And>x. rk x \<le> B" using assms by (auto simp: ranked_def)
  have "\<exists>r. uroot P x r" for x
  proof (induction "B - rk x" arbitrary: x rule: less_induct)
    case less
    show ?case
    proof (cases "P x = None \<or> P x = Some x")
      case True
      then show ?thesis by (blast intro: here)
    next
      case False
      then obtain y where y: "P x = Some y" "y \<noteq> x" by auto
      from ranked_step [OF assms this] B [of y] have "B - rk y < B - rk x" by linarith
      from less [OF this] y show ?thesis by (blast intro: up)
    qed
  qed
  with that show thesis by blast
qed

lemma uroot_compress:
  assumes "ranked P rk" "uroot P x r" "x \<noteq> r"
  shows "uroot (P(x \<mapsto> r)) z s \<longleftrightarrow> uroot P z s" "ranked (P(x \<mapsto> r)) rk"
proof -
  obtain y where px: "P x = Some y" "y \<noteq> x" using assms(2,3) by (auto elim: urootE)
  have rr: "uroot (P(x \<mapsto> r)) r r" using uroot_top [OF assms(2)] assms(3) by (auto intro: here)
  have xr: "uroot (P(x \<mapsto> r)) x r" by (rule up [OF _ _ rr]) (use assms(3) in auto)
  have fwd: "uroot P z s \<Longrightarrow> uroot (P(x \<mapsto> r)) z s" for z s
  proof (induction rule: uroot.induct)
    case (here z)
    then have "z \<noteq> x" using px by auto
    then show ?case using here by (auto intro: uroot.here)
  next
    case (up z w s)
    show ?case
    proof (cases "z = x")
      case True
      then have "s = r" using uroot_unique [OF assms(2)] uroot.up [OF up(1-3)] by blast
      then show ?thesis unfolding True by (simp only: xr)
    next
      case False
      then show ?thesis using up by (auto intro: uroot.up)
    qed
  qed
  show "uroot (P(x \<mapsto> r)) z s \<longleftrightarrow> uroot P z s"
    using fwd uroot_exists [OF assms(1), of z] uroot_unique by metis
  show "ranked (P(x \<mapsto> r)) rk" using assms(1) uroot_rank [OF assms(2,1)] assms(3) by (auto simp: ranked_def)
qed

lemma uroot_link:
  assumes "ranked P rk" "uroot P a a" "uroot P b b" "a \<noteq> b"
  shows "uroot (P(a \<mapsto> b)) z s \<longleftrightarrow> (\<exists>t. uroot P z t \<and> s = (if t = a then b else t))"
proof -
  have a: "P a = None \<or> P a = Some a" and b: "P b = None \<or> P b = Some b" using uroot_top [OF assms(2)] uroot_top [OF assms(3)] .
  have bb: "uroot (P(a \<mapsto> b)) b b" using b assms(4) by (auto intro: here)
  have ab: "uroot (P(a \<mapsto> b)) a b" by (rule up [OF _ _ bb]) (use assms(4) in auto)
  have fwd: "uroot P z t \<Longrightarrow> uroot (P(a \<mapsto> b)) z (if t = a then b else t)" for z t
  proof (induction rule: uroot.induct)
    case (here z)
    show ?case
    proof (cases "z = a")
      case True
      then have "(if z = a then b else z) = b" by simp
      then show ?thesis unfolding True by (simp only: ab if_True)
    next
      case False
      then show ?thesis using here by (auto intro: uroot.here)
    qed
  next
    case (up z w t)
    then have "z \<noteq> a" using a by auto
    then show ?case using up by (auto intro: uroot.up)
  qed
  obtain t where "uroot P z t" using uroot_exists [OF assms(1)] by blast
  note t = this fwd [OF this]
  show ?thesis
  proof
    assume "uroot (P(a \<mapsto> b)) z s"
    from uroot_unique [OF this t(2)] t(1) show "\<exists>t. uroot P z t \<and> s = (if t = a then b else t)" by blast
  next
    assume "\<exists>t. uroot P z t \<and> s = (if t = a then b else t)"
    then show "uroot (P(a \<mapsto> b)) z s" using fwd by blast
  qed
qed

lemma rank_find:
  assumes "ranked P rk" "uroot P x r"
  shows "\<exists>P'. rank_find P x = Some (r, P') \<and> ranked P' rk \<and> (\<forall>z s. uroot P' z s \<longleftrightarrow> uroot P z s) \<and> dom P' = dom P
    \<and> (\<forall>z y. P' z = Some y \<longrightarrow> P z = Some y \<or> y = r)"
  using assms(2)
proof (induction rule: uroot.induct)
  case (here x)
  then show ?case using assms(1) by (subst rank_find.simps) (auto simp: Let_def split: option.split)
next
  case (up x y r)
  from up.IH obtain P' where P': "rank_find P y = Some (r, P')" "ranked P' rk" "\<And>z s. uroot P' z s \<longleftrightarrow> uroot P z s" "dom P' = dom P"
    "\<forall>z y. P' z = Some y \<longrightarrow> P z = Some y \<or> y = r" by blast
  have x: "uroot P x r" using up.hyps by (rule uroot.up)
  have "x \<noteq> r" using ranked_step [OF assms(1) up.hyps(1,2)] uroot_rank [OF up.hyps(3) assms(1)] by auto
  note c = uroot_compress [OF P'(2) _ this]
  have "rank_find P x = Some (r, P'(x \<mapsto> r))"
    using up.hyps P'(1) by (subst rank_find.simps) (simp add: Let_def)
  moreover have "dom (P'(x \<mapsto> r)) = dom P" using P'(4) up.hyps(1) by auto
  ultimately show ?case using c P'(3,5) x by auto
qed

section \<open>The contract\<close>

definition rank_ok :: "term_id set \<Rightarrow> ranked_uf \<Rightarrow> bool" where
  "rank_ok V u \<longleftrightarrow> ranked (uf_parent u) (rank_of u) \<and> dom (uf_parent u) = V \<and> dom (uf_rank u) = V \<and> ran (uf_parent u) \<subseteq> V \<and> finite V"

definition rank_same :: "ranked_uf \<Rightarrow> term_id \<Rightarrow> term_id \<Rightarrow> bool" where
  "rank_same u a b \<longleftrightarrow> (\<exists>r. uroot (uf_parent u) a r \<and> uroot (uf_parent u) b r)"

lemma uroot_in: "uroot P x r \<Longrightarrow> ran P \<subseteq> V \<Longrightarrow> x \<in> V \<Longrightarrow> r \<in> V"
  by (induction rule: uroot.induct) (auto simp: ran_def)

lemma rank_same_link:
  assumes "ranked P rk" "uroot P x rx" "uroot P y ry" "rx \<noteq> ry" "{a0, b0} = {rx, ry}" "a0 \<noteq> b0"
  shows "(\<exists>r. uroot (P(a0 \<mapsto> b0)) a r \<and> uroot (P(a0 \<mapsto> b0)) b r) \<longleftrightarrow>
    (\<exists>r. uroot P a r \<and> uroot P b r) \<or> (\<exists>r. uroot P a r \<and> uroot P x r) \<and> (\<exists>r. uroot P y r \<and> uroot P b r)
      \<or> (\<exists>r. uroot P a r \<and> uroot P y r) \<and> (\<exists>r. uroot P x r \<and> uroot P b r)"
proof -
  have t: "uroot P rx rx" "uroot P ry ry" using uroot_top [OF assms(2)] uroot_top [OF assms(3)] by (auto intro: here)
  then have ab: "uroot P a0 a0" "uroot P b0 b0" using assms(5) by (auto simp: doubleton_eq_iff)
  obtain s where s: "uroot P a s" using uroot_exists [OF assms(1)] by blast
  obtain t where t: "uroot P b t" using uroot_exists [OF assms(1)] by blast
  have u: "uroot P x q \<longleftrightarrow> q = rx" "uroot P y q \<longleftrightarrow> q = ry" "uroot P a q \<longleftrightarrow> q = s" "uroot P b q \<longleftrightarrow> q = t" for q
    using assms(2,3) s t uroot_unique by metis+
  show ?thesis unfolding uroot_link [OF assms(1) ab assms(6)] u using assms(4,5,6) by (auto simp: doubleton_eq_iff)
qed

lemma ranked_link:
  assumes P: "ranked P rk" and b: "P b = None \<or> P b = Some b"
    and rk': "\<And>z. rk z \<le> rk' z" "\<And>z. z \<noteq> b \<Longrightarrow> rk' z = rk z" "rk' a < rk' b"
  shows "ranked (P(a \<mapsto> b)) rk'"
proof -
  obtain B where B: "\<And>z. rk z \<le> B" using P by (auto simp: ranked_def)
  have "rk' z \<le> max B (rk' b)" for z using rk'(2) [of z] B [of z] by (cases "z = b") auto
  moreover have "rk' z < rk' w" if "(P(a \<mapsto> b)) z = Some w" "w \<noteq> z" for z w
  proof (cases "z = a")
    case True
    then show ?thesis using that(1) rk'(3) by simp
  next
    case False
    then have z: "P z = Some w" using that(1) by simp
    with b that(2) have "z \<noteq> b" by auto
    then have "rk' z = rk z" by (rule rk'(2))
    then show ?thesis using ranked_step [OF P z that(2)] rk'(1) [of w] by simp
  qed
  ultimately show ?thesis unfolding ranked_def by blast
qed

lemma rank_ok_link:
  assumes "ranked P (rank_of u)" "dom P = V" "ran P \<subseteq> V" "dom (uf_rank u) = V" "finite V" "a \<in> V" "b \<in> V" "P b = None \<or> P b = Some b"
    and R: "dom R = V" "\<And>z. rank_of u z \<le> rank_of (u\<lparr>uf_rank := R\<rparr>) z" "\<And>z. z \<noteq> b \<Longrightarrow> rank_of (u\<lparr>uf_rank := R\<rparr>) z = rank_of u z"
      "rank_of (u\<lparr>uf_rank := R\<rparr>) a < rank_of (u\<lparr>uf_rank := R\<rparr>) b"
  shows "rank_ok V (u\<lparr>uf_parent := P(a \<mapsto> b), uf_rank := R\<rparr>)"
proof -
  have "ranked (P(a \<mapsto> b)) (rank_of (u\<lparr>uf_rank := R\<rparr>))" by (rule ranked_link [OF assms(1,8) R(2-4)])
  moreover have "rank_of (u\<lparr>uf_parent := P(a \<mapsto> b), uf_rank := R\<rparr>) = rank_of (u\<lparr>uf_rank := R\<rparr>)" by (rule ext) (simp add: rank_of_def)
  moreover have "ran (P(a \<mapsto> b)) \<subseteq> V" using assms(3,7) by (auto simp: ran_def)
  ultimately show ?thesis using assms(2,5,6) R(1) by (auto simp: rank_ok_def)
qed

text \<open>The two lookups of a union leave the roots as they were.\<close>

lemma two_finds:
  assumes "rank_ok V u" "x \<in> V" "y \<in> V"
  obtains rx ry P1 P where "rank_find (uf_parent u) x = Some (rx, P1)" "rank_find P1 y = Some (ry, P)"
    "ranked P (rank_of u)" "\<And>z s. uroot P z s \<longleftrightarrow> uroot (uf_parent u) z s" "dom P = V" "ran P \<subseteq> V" "uroot P x rx" "uroot P y ry" "rx \<in> V" "ry \<in> V"
proof -
  let ?P = "uf_parent u"
  have rk: "ranked ?P (rank_of u)" and d: "dom ?P = V" "ran ?P \<subseteq> V" using assms(1) by (simp_all add: rank_ok_def)
  obtain rx where rx: "uroot ?P x rx" using uroot_exists [OF rk] by blast
  obtain P1 where P1: "rank_find ?P x = Some (rx, P1)" "ranked P1 (rank_of u)" "\<And>z s. uroot P1 z s \<longleftrightarrow> uroot ?P z s" "dom P1 = dom ?P"
    "\<And>z y. P1 z = Some y \<Longrightarrow> ?P z = Some y \<or> y = rx" using rank_find [OF rk rx] by blast
  obtain ry where ry: "uroot P1 y ry" using uroot_exists [OF P1(2)] by blast
  obtain P where P: "rank_find P1 y = Some (ry, P)" "ranked P (rank_of u)" "\<And>z s. uroot P z s \<longleftrightarrow> uroot P1 z s" "dom P = dom P1"
    "\<And>z y. P z = Some y \<Longrightarrow> P1 z = Some y \<or> y = ry" using rank_find [OF P1(2) ry] by blast
  have rV: "rx \<in> V" "ry \<in> V" using uroot_in [OF rx d(2) assms(2)] uroot_in [OF _ d(2) assms(3)] ry P1(3) by auto
  have "ran P \<subseteq> V"
  proof
    fix v assume "v \<in> ran P"
    then obtain z where "P z = Some v" by (auto simp: ran_def)
    with P(5) P1(5) have "?P z = Some v \<or> v = rx \<or> v = ry" by blast
    then show "v \<in> V" using d(2) rV by (auto intro: ranI)
  qed
  moreover have "uroot P z s \<longleftrightarrow> uroot ?P z s" for z s by (simp add: P(3) P1(3))
  ultimately show thesis using P(4) P1(4) d(1) rx ry rV by (intro that [OF P1(1) P(1,2)]) (simp_all add: P(3) P1(3))
qed

lemma rank_union:
  assumes ok: "rank_ok V u" and xy: "x \<in> V" "y \<in> V"
  shows "\<exists>u'. rank_union x y u = Some u' \<and> rank_ok V u' \<and>
    (\<forall>a b. rank_same u' a b \<longleftrightarrow> rank_same u a b \<or> rank_same u a x \<and> rank_same u y b \<or> rank_same u a y \<and> rank_same u x b)"
proof -
  from two_finds [OF assms] obtain rx ry P1 P where
    f: "rank_find (uf_parent u) x = Some (rx, P1)" "rank_find P1 y = Some (ry, P)" and P: "ranked P (rank_of u)"
    and same: "\<And>z s. uroot P z s \<longleftrightarrow> uroot (uf_parent u) z s" and d: "dom P = V" "ran P \<subseteq> V"
    and r: "uroot P x rx" "uroot P y ry" and rV: "rx \<in> V" "ry \<in> V" by metis
  have V: "dom (uf_rank u) = V" "finite V" using ok by (simp_all add: rank_ok_def)
  note top = uroot_top [OF r(1)] uroot_top [OF r(2)]
  have cls: "rank_same u a b \<longleftrightarrow> (\<exists>q. uroot P a q \<and> uroot P b q)" for a b by (simp add: rank_same_def same)
  show ?thesis
  proof (cases "rx = ry")
    case True
    have "rank_union x y u = Some (u\<lparr>uf_parent := P\<rparr>)" using f True by (simp add: rank_union_def)
    moreover have "rank_of (u\<lparr>uf_parent := P\<rparr>) = rank_of u" by (rule ext) (simp add: rank_of_def)
    then have "rank_ok V (u\<lparr>uf_parent := P\<rparr>)" using P d V by (simp add: rank_ok_def)
    moreover have "rank_same (u\<lparr>uf_parent := P\<rparr>) a b \<longleftrightarrow> rank_same u a b \<or> rank_same u a x \<and> rank_same u y b \<or> rank_same u a y \<and> rank_same u x b" for a b
      unfolding cls using r True uroot_unique [of P] by (simp add: rank_same_def) metis
    ultimately show ?thesis by blast
  next
    case False
    have link: "rank_same (u\<lparr>uf_parent := P(a0 \<mapsto> b0), uf_rank := R\<rparr>) a b \<longleftrightarrow>
        rank_same u a b \<or> rank_same u a x \<and> rank_same u y b \<or> rank_same u a y \<and> rank_same u x b"
      if "{a0, b0} = {rx, ry}" "a0 \<noteq> b0" for a0 b0 a b R
      unfolding cls using rank_same_link [OF P r False that, of a b] by (simp add: rank_same_def)
    have res: "rank_union x y u = Some (if rank_of u rx < rank_of u ry then u\<lparr>uf_parent := P(rx \<mapsto> ry), uf_rank := uf_rank u\<rparr>
        else if rank_of u ry < rank_of u rx then u\<lparr>uf_parent := P(ry \<mapsto> rx), uf_rank := uf_rank u\<rparr>
        else u\<lparr>uf_parent := P(ry \<mapsto> rx), uf_rank := (uf_rank u)(rx \<mapsto> rank_of u rx + 1)\<rparr>)"
      using f False rV(1) V(1) by (auto simp: rank_union_def Let_def rank_of_def split: option.split)
    consider "rank_of u rx < rank_of u ry" | "rank_of u ry < rank_of u rx" | "rank_of u rx = rank_of u ry" by linarith
    then show ?thesis
    proof cases
      case 1
      have "rank_ok V (u\<lparr>uf_parent := P(rx \<mapsto> ry), uf_rank := uf_rank u\<rparr>)"
        by (rule rank_ok_link [OF P d V rV top(2)]) (use V 1 in simp_all)
      then show ?thesis using res 1 link [where R = "uf_rank u" and ?a0.0 = rx and ?b0.0 = ry] False by simp
    next
      case 2
      have "rank_ok V (u\<lparr>uf_parent := P(ry \<mapsto> rx), uf_rank := uf_rank u\<rparr>)"
        by (rule rank_ok_link [OF P d V rV(2,1) top(1)]) (use V 2 in simp_all)
      then show ?thesis using res 2 link [where R = "uf_rank u" and ?a0.0 = ry and ?b0.0 = rx] False by (simp add: insert_commute)
    next
      case 3
      have "rank_ok V (u\<lparr>uf_parent := P(ry \<mapsto> rx), uf_rank := (uf_rank u)(rx \<mapsto> rank_of u rx + 1)\<rparr>)"
        by (rule rank_ok_link [OF P d V rV(2,1) top(1)]) (use V 3 rV False in \<open>auto simp: rank_of_def\<close>)
      then show ?thesis using res 3 link [where ?a0.0 = ry and ?b0.0 = rx] False by (simp add: insert_commute)
    qed
  qed
qed

interpretation rank_uf: union_find V "rank_ok V" rank_same rank_union for V
proof unfold_locales
  show "rank_same u a a" if "rank_ok V u" for u a
  proof -
    from that have "ranked (uf_parent u) (rank_of u)" by (simp add: rank_ok_def)
    from uroot_exists [OF this, of a] show ?thesis by (auto simp: rank_same_def)
  qed
  show "rank_same u b a" if "rank_ok V u" "rank_same u a b" for u a b using that by (auto simp: rank_same_def)
  show "rank_same u a c" if "rank_ok V u" "rank_same u a b" "rank_same u b c" for u a b c
    using that uroot_unique by (auto simp: rank_same_def) metis
qed (rule rank_union)

section \<open>Groups by head\<close>

lemma fold_head_groups:
  "fold (\<lambda>r m. case head_pred r of Some h \<Rightarrow> entry_push h r m | None \<Rightarrow> m) rules m k = 
     (let vs = filter (\<lambda>r. head_pred r = Some k) rules in if vs = [] then m k else Some (get_list m k @ vs))"
  by (induction rules arbitrary: m) (auto simp: Let_def entry_push_def get_list_def split: option.split)

lemma head_groups_get: "get_list (head_groups rules) h = filter (\<lambda>r. head_pred r = Some h) rules"
  by (simp add: head_groups_def get_list_def [of "fold _ _ _"] fold_head_groups Let_def) (simp add: get_list_def)

lemma head_groups_dom: "dom (head_groups rules) = {h. \<exists>r \<in> set rules. head_pred r = Some h}"
  by (auto simp: head_groups_def dom_def fold_head_groups Let_def filter_empty_conv split: if_splits)

lemma finite_heads [simp]: "finite (dom (head_groups rules))"
proof -
  have "dom (head_groups rules) = set (List.map_filter head_pred rules)" by (force simp: head_groups_dom map_filter_def)
  then show ?thesis by simp
qed

text \<open>One derived predicate reads another, inside a program.\<close>

definition reads :: "Rule list \<Rightarrow> term_id \<Rightarrow> term_id \<Rightarrow> bool" where
  "reads rules h q \<longleftrightarrow> (\<exists>r \<in> set rules. head_pred r = Some h \<and> q \<in> set (body_derived_preds r (dom (head_groups rules))))"

lemma group_deps_eq: "group_deps (head_groups rules) h = {q. reads rules h q} - {h}"
  by (auto simp: group_deps_def reads_def head_groups_get)

lemma reads_heads: "reads rules h q \<Longrightarrow> h \<in> dom (head_groups rules) \<and> q \<in> dom (head_groups rules)"
  by (auto simp: reads_def body_derived_preds_def head_groups_dom)

lemma finite_group_deps [simp]: "finite (group_deps hg h)"
  by (simp add: group_deps_def)

section \<open>Components\<close>

lemma gather:
  assumes "ranked P rk"
  shows "\<exists>C'. gather preds P C = Some C' \<and> (\<forall>q. get_list C' q = get_list C q @ filter (\<lambda>p. uroot P p q) preds)
    \<and> dom C' = dom C \<union> {q. \<exists>p \<in> set preds. uroot P p q}"
  using assms
proof (induction preds arbitrary: P C)
  case Nil
  then show ?case by simp
next
  case (Cons p preds)
  obtain r where r: "uroot P p r" using uroot_exists [OF Cons.prems] by blast
  from rank_find [OF Cons.prems r] obtain P' where P': "rank_find P p = Some (r, P')" "ranked P' rk"
    "\<And>z s. uroot P' z s \<longleftrightarrow> uroot P z s" by blast
  from Cons.IH [OF P'(2), of "entry_push r p C"] obtain C' where
    C': "gather preds P' (entry_push r p C) = Some C'"
    "\<And>q. get_list C' q = get_list (entry_push r p C) q @ filter (\<lambda>p. uroot P p q) preds"
    "dom C' = dom (entry_push r p C) \<union> {q. \<exists>p \<in> set preds. uroot P p q}" by (auto simp: P'(3))
  have u: "uroot P p q \<longleftrightarrow> q = r" for q using r uroot_unique by blast
  have "dom (entry_push r p C) = insert r (dom C)" by (simp add: entry_push_def)
  with P'(1) C' show ?case by (auto simp: u)
qed

lemma mset_classes:
  assumes "distinct ks" "\<forall>x \<in> set xs. \<exists>!k. k \<in> set ks \<and> R x k"
  shows "mset (concat (map (\<lambda>k. filter (\<lambda>x. R x k) xs) ks)) = mset xs"
  using assms(2)
proof (induction xs)
  case Nil
  then show ?case by (induction ks) auto
next
  case (Cons x xs)
  then obtain k where k: "k \<in> set ks" "R x k" "\<And>k'. k' \<in> set ks \<Longrightarrow> R x k' \<Longrightarrow> k' = k" by auto
  from split_list [OF k(1)] obtain as bs where ks: "ks = as @ k # bs" by blast
  have o: "k' \<in> set as \<union> set bs \<Longrightarrow> \<not> R x k'" for k' using k(3) [of k'] assms(1) ks by auto
  then have eq: "map (\<lambda>k. filter (\<lambda>x. R x k) (x # xs)) as = map (\<lambda>k. filter (\<lambda>x. R x k) xs) as"
    "map (\<lambda>k. filter (\<lambda>x. R x k) (x # xs)) bs = map (\<lambda>k. filter (\<lambda>x. R x k) xs) bs" by auto
  have "mset (concat (map (\<lambda>k. filter (\<lambda>x. R x k) xs) ks)) = mset xs" using Cons by simp
  then show ?case unfolding ks map_append list.map eq concat_append concat.simps using k(2) by simp
qed

lemma mset_concat_map: "mset xs = mset ys \<Longrightarrow> mset (concat (map f xs)) = mset (concat (map f ys))"
  by (metis mset_concat mset_map sum_mset_sum_list map_map)

definition connected :: "Rule list \<Rightarrow> term_id \<Rightarrow> term_id \<Rightarrow> bool" where
  "connected rules = (\<lambda>x y. reads rules x y \<or> reads rules y x)\<^sup>*\<^sup>*"

lemma connected_step: "connected rules p q \<Longrightarrow> reads rules q s \<or> reads rules s q \<Longrightarrow> connected rules p s"
  unfolding connected_def by (rule rtranclp.rtrancl_into_rtrancl)

lemma connected_heads: "connected rules p q \<Longrightarrow> p \<in> dom (head_groups rules) \<Longrightarrow> q \<in> dom (head_groups rules)"
  unfolding connected_def by (induction rule: rtranclp_induct) (auto dest: reads_heads)

definition orders_ok :: "hash_orders \<Rightarrow> bool" where
  "orders_ok ho \<longleftrightarrow> hash_order_ok (ho_preds ho) \<and> hash_order_ok (ho_edges ho) \<and> hash_order_ok (ho_deps ho) \<and> hash_order_ok (ho_roots ho)"

definition dependency_edges :: "hash_orders \<Rightarrow> Rule list \<Rightarrow> (term_id \<times> term_id) list" where
  "dependency_edges ho rules = concat (map (\<lambda>h. map (\<lambda>q. (h, q)) (ho_deps ho (group_deps (head_groups rules) h))) (ho_edges ho (dom (head_groups rules))))"

lemma set_dependency_edges: "orders_ok ho \<Longrightarrow> set (dependency_edges ho rules) = {(h, q). reads rules h q \<and> h \<noteq> q}"
  by (auto simp: dependency_edges_def orders_ok_def group_deps_eq [symmetric] dest: reads_heads) (auto simp: group_deps_eq dest: reads_heads)

lemma same_as_dependency: "orders_ok ho \<Longrightarrow> same_as (dependency_edges ho rules) = connected rules"
proof -
  assume "orders_ok ho"
  then have "linked (dependency_edges ho rules) = inf (\<lambda>x y. reads rules x y \<or> reads rules y x) (\<noteq>)"
    by (auto simp: linked_def set_dependency_edges fun_eq_iff)
  then show ?thesis unfolding same_as_def connected_def by (simp only: rtranclp_r_diff_Id)
qed

lemma uf_new_ok: "finite V \<Longrightarrow> set preds = V \<Longrightarrow> rank_ok V (uf_new preds)"
  by (auto simp: rank_ok_def uf_new_def ranked_def rank_of_def dom_def ran_def)

lemma uf_new_same: "rank_same (uf_new preds) a b \<longleftrightarrow> a = b"
proof -
  have "uroot (uf_parent (uf_new preds)) x r \<longleftrightarrow> x = r" for x r
    by (auto simp: uf_new_def elim: urootE split: if_splits intro: here)
  then show ?thesis by (auto simp: rank_same_def)
qed

text \<open>The union-find structure after the loop over the dependencies has the connected components as classes.\<close>

lemma united:
  assumes "orders_ok ho"
  obtains u where "unite rank_union (dependency_edges ho rules) (uf_new (ho_preds ho (dom (head_groups rules)))) = Some u"
    "rank_ok (dom (head_groups rules)) u" "rank_same u = connected rules"
proof -
  let ?V = "dom (head_groups rules)"
  have "rank_ok ?V (uf_new (ho_preds ho ?V))" using assms by (intro uf_new_ok) (simp_all add: orders_ok_def)
  moreover have "set (dependency_edges ho rules) \<subseteq> ?V \<times> ?V" unfolding set_dependency_edges [OF assms] using reads_heads by fast
  ultimately show thesis using rank_uf.unite_from_identity [OF _ _ uf_new_same] that same_as_dependency [OF assms] by metis
qed

definition head_rules :: "Rule list \<Rightarrow> term_id \<Rightarrow> Rule list" where
  "head_rules rules h = filter (\<lambda>r. head_pred r = Some h) rules"

lemma mset_head_rules:
  assumes "distinct hs" "set hs = dom (head_groups rules)"
  shows "mset (concat (map (head_rules rules) hs)) = mset (filter (\<lambda>r. head_pred r \<noteq> None) rules)"
proof -
  have e: "head_rules rules = (\<lambda>h. filter (\<lambda>r. head_pred r = Some h) (filter (\<lambda>r. head_pred r \<noteq> None) rules))"
    by (rule ext) (auto simp: head_rules_def intro: filter_cong)
  show ?thesis unfolding e by (rule mset_classes [OF assms(1)]) (auto simp: assms(2) head_groups_dom)
qed

lemma component_groups:
  assumes ok: "orders_ok ho"
  obtains gs where "component_groups ho rules = Some gs"
    "mset (concat (map pg_derived_predicates gs)) = mset (ho_preds ho (dom (head_groups rules)))"
    "\<And>g. g \<in> set gs \<Longrightarrow> pg_rules g = concat (map (head_rules rules) (pg_derived_predicates g))"
    "\<And>g p. g \<in> set gs \<Longrightarrow> p \<in> set (pg_derived_predicates g) \<Longrightarrow> set (pg_derived_predicates g) = {q. connected rules p q}"
    "\<And>g. g \<in> set gs \<Longrightarrow> pg_derived_predicates g \<noteq> []"
proof -
  let ?V = "dom (head_groups rules)" and ?preds = "ho_preds ho (dom (head_groups rules))"
  obtain u where u: "unite rank_union (dependency_edges ho rules) (uf_new ?preds) = Some u" "rank_ok ?V u" "rank_same u = connected rules"
    using united [OF ok] by blast
  let ?P = "uf_parent u"
  have rk: "ranked ?P (rank_of u)" using u(2) by (simp add: rank_ok_def)
  from gather [OF rk, of ?preds Map.empty] obtain C where
    C: "gather ?preds ?P Map.empty = Some C" "\<And>q. get_list C q = filter (\<lambda>p. uroot ?P p q) ?preds" "dom C = {q. \<exists>p \<in> set ?preds. uroot ?P p q}"
    by (auto simp: get_list_def)
  have V: "set ?preds = ?V" "distinct ?preds" using ok by (simp_all add: orders_ok_def)
  have fin: "finite (dom C)"
  proof (rule finite_subset)
    have "ran ?P \<subseteq> ?V" using u(2) by (simp add: rank_ok_def)
    from uroot_in [OF _ this] show "dom C \<subseteq> ?V" unfolding C(3) V(1) by blast
  qed simp
  define roots where "roots = ho_roots ho (dom C)"
  have roots: "set roots = dom C" "distinct roots" using ok fin by (simp_all add: roots_def orders_ok_def)
  define gs where "gs = map (\<lambda>q. \<lparr>pg_rules = concat (map (get_list (head_groups rules)) (get_list C q)), pg_derived_predicates = get_list C q\<rparr>) roots"
  have get: "get_list (head_groups rules) = head_rules rules" by (rule ext) (simp add: head_groups_get head_rules_def)
  show thesis
  proof (rule that [of gs])
    show "component_groups ho rules = Some gs"
      using u(1) C(1) by (simp add: component_groups_def dependency_edges_def gs_def roots_def Let_def)
    have "map pg_derived_predicates gs = map (\<lambda>q. filter (\<lambda>p. uroot ?P p q) ?preds) roots" by (simp add: gs_def C(2))
    moreover have "\<exists>!q. q \<in> set roots \<and> uroot ?P p q" if "p \<in> set ?preds" for p
    proof -
      obtain q where "uroot ?P p q" using uroot_exists [OF rk] by blast
      with that uroot_unique show ?thesis unfolding roots(1) C(3) by blast
    qed
    ultimately show "mset (concat (map pg_derived_predicates gs)) = mset ?preds" by (simp add: mset_classes [OF roots(2)])
  next
    fix g assume "g \<in> set gs"
    then obtain q where q: "q \<in> dom C" "g = \<lparr>pg_rules = concat (map (head_rules rules) (get_list C q)), pg_derived_predicates = get_list C q\<rparr>"
      by (auto simp: gs_def roots(1) get)
    then show "pg_rules g = concat (map (head_rules rules) (pg_derived_predicates g))" by simp
    show "pg_derived_predicates g \<noteq> []" using q C(3) by (auto simp: C(2) filter_empty_conv)
    fix p assume "p \<in> set (pg_derived_predicates g)"
    then have p: "uroot ?P p q" "p \<in> ?V" using q V by (auto simp: C(2))
    have "uroot ?P s q \<longleftrightarrow> connected rules p s" for s
      unfolding u(3) [symmetric] rank_same_def using p(1) uroot_unique by blast
    then have "set (pg_derived_predicates g) = {s \<in> ?V. connected rules p s}" using q V by (auto simp: C(2))
    with connected_heads [OF _ p(2)] show "set (pg_derived_predicates g) = {s. connected rules p s}" by blast
  qed
qed

section \<open>The order of groups\<close>

lemma kahn_flat: "\<forall>i \<in> set q. adj ! i = [] \<Longrightarrow> length q \<le> fuel \<Longrightarrow> kahn_groups fuel key adj ind q ord = Some (ord @ q)"
proof (induction q arbitrary: fuel ord)
  case (Cons i q)
  then show ?case by (cases fuel) auto
qed simp

lemma kahn_star:
  assumes "\<forall>i \<in> set q. adj ! i = [] \<or> adj ! i = [v]" "adj ! v = []" "v < length ind"
    "ind ! v = length (filter (\<lambda>i. adj ! i = [v]) q)" "0 < ind ! v" "length q < fuel"
  shows "kahn_groups fuel key adj ind q ord = Some (ord @ q @ [v])"
  using assms
proof (induction q arbitrary: fuel ind ord)
  case (Cons i q)
  obtain f where f: "fuel = Suc f" using Cons.prems by (cases fuel) auto
  show ?case
  proof (cases "adj ! i = [v]")
    case False
    then have "adj ! i = []" using Cons.prems by auto
    with Cons f show ?thesis by auto
  next
    case True
    let ?ind = "ind[v := ind ! v - 1]"
    have v: "?ind ! v = length (filter (\<lambda>i. adj ! i = [v]) q)" using Cons.prems True by simp
    show ?thesis
    proof (cases "?ind ! v = 0")
      case z: True
      then have "filter (\<lambda>i. adj ! i = [v]) q = []" using v by simp
      then have flat: "\<forall>j \<in> set (q @ [v]). adj ! j = []" using Cons.prems(1,2) by (auto simp: filter_empty_conv)
      from z True f kahn_flat [OF flat, of f key ?ind "ord @ [i]"] Cons.prems show ?thesis by simp
    next
      case False
      with True f Cons.IH [of ?ind f "ord @ [i]"] Cons.prems v show ?thesis by simp
    qed
  qed
qed simp

lemma filter_only:
  assumes "distinct xs" "v \<in> set xs" "\<forall>j \<in> set xs. f j \<longrightarrow> j = v"
  shows "filter f xs = (if f v then [v] else [])"
proof -
  obtain as bs where xs: "xs = as @ v # bs" using split_list [OF assms(2)] by blast
  have "v \<notin> set as \<union> set bs" using assms(1) xs by simp
  then have "\<not> f j" if "j \<in> set as \<union> set bs" for j using that assms(3) xs by (metis UnE Un_iff set_append list.set_intros(2))
  then have "filter f as = []" "filter f bs = []" by (simp_all add: filter_empty_conv)
  then show ?thesis by (simp add: xs)
qed

lemma sorted_groups:
  assumes star: "\<And>i j. i < length gs \<Longrightarrow> j < length gs \<Longrightarrow> feeds gs i j \<Longrightarrow> j = length gs - 1"
  obtains order where "topological_sort_groups gs = Some (map ((!) gs) order)" "mset order = mset [0..<length gs]"
    "\<forall>i j. i < length gs \<longrightarrow> j < length gs \<longrightarrow> feeds gs i j \<longrightarrow> last order = j"
proof (cases "length gs \<le> 1")
  case True
  have "feeds gs i j \<Longrightarrow> i < length gs \<Longrightarrow> j < length gs \<Longrightarrow> False" for i j using True by (auto simp: feeds_def)
  moreover have "topological_sort_groups gs = Some (map ((!) gs) [0..<length gs])"
    using True by (simp only: map_nth topological_sort_groups_def Let_def if_True)
  ultimately show thesis using that by blast
next
  case False
  define n v where "n = length gs" and "v = length gs - 1"
  have v: "v \<in> set [0..<n]" using False by (auto simp: n_def v_def)
  define adj where "adj = map (\<lambda>i. filter (feeds gs i) [0..<n]) [0..<n]"
  define ind where "ind = map (\<lambda>j. length (filter (\<lambda>i. feeds gs i j) [0..<n])) [0..<n]"
  define q where "q = sort_key (group_key gs) (filter (\<lambda>i. ind ! i = 0) [0..<n])"
  have adj: "adj ! i = (if feeds gs i v then [v] else [])" if "i < n" for i
  proof -
    have "filter (feeds gs i) [0..<n] = (if feeds gs i v then [v] else [])"
      by (rule filter_only [OF _ v]) (use star [of i] that in \<open>auto simp: n_def v_def\<close>)
    then show ?thesis using that by (simp add: adj_def)
  qed
  have ind0: "ind ! j = 0" if "j < n" "j \<noteq> v" for j using that star by (auto simp: ind_def n_def v_def filter_empty_conv)
  have eq: "topological_sort_groups gs = map_option (\<lambda>order. if length order < n then gs else map ((!) gs) order) (kahn_groups (Suc n) (group_key gs) adj ind q [])"
    using False by (simp add: topological_sort_groups_def Let_def n_def adj_def ind_def q_def)
  have lq: "length q \<le> n" using length_filter_le [of "\<lambda>i. ind ! i = 0" "[0..<n]"] by (simp add: q_def)
  show thesis
  proof (cases "ind ! v = 0")
    case True
    then have none: "\<not> feeds gs i j" if "i < n" "j < n" for i j using that star [of i j] by (auto simp: ind_def filter_empty_conv n_def v_def)
    then have "ind ! j = 0" if "j < n" for j using that True ind0 by (cases "j = v") auto
    then have "filter (\<lambda>i. ind ! i = 0) [0..<n] = [0..<n]" by (intro filter_True) simp
    then have m: "mset q = mset [0..<n]" by (simp add: q_def)
    then have "set q = {0..<n}" "length q = n" using mset_eq_setD mset_eq_length by fastforce+
    then have "kahn_groups (Suc n) (group_key gs) adj ind q [] = Some q"
      using kahn_flat [of q adj "Suc n"] adj none v by auto
    with eq m none \<open>length q = n\<close> show thesis by (intro that [of q]) (auto simp: n_def)
  next
    case False
    have "n = Suc v" using \<open>\<not> length gs \<le> 1\<close> by (simp add: n_def v_def)
    then have n: "[0..<n] = [0..<v] @ [v]" by simp
    have "ind ! j = 0" if "j < v" for j using that v ind0 by auto
    then have "filter (\<lambda>i. ind ! i = 0) [0..<v] = [0..<v]" by (intro filter_True) simp
    then have m: "mset (q @ [v]) = mset [0..<n]" using False by (simp add: q_def n)
    have "ind ! v = length (filter (\<lambda>i. adj ! i = [v]) q)"
    proof -
      have "ind ! v = size (filter_mset (\<lambda>i. feeds gs i v) (mset (q @ [v])))" using v unfolding m by (simp add: ind_def size_mset [symmetric] del: size_mset)
      also have "\<dots> = length (filter (\<lambda>i. feeds gs i v) q)" by (simp add: feeds_def size_mset [symmetric] del: size_mset)
      also have "filter (\<lambda>i. feeds gs i v) q = filter (\<lambda>i. adj ! i = [v]) q" by (rule filter_cong) (auto simp: adj q_def)
      finally show ?thesis .
    qed
    then have "kahn_groups (Suc n) (group_key gs) adj ind q [] = Some ([] @ q @ [v])"
      using lq v False by (intro kahn_star) (auto simp: adj feeds_def ind_def q_def)
    moreover have "length (q @ [v]) = n" using mset_eq_length [OF m] by simp
    ultimately show thesis using eq m star by (intro that [of "q @ [v]"]) (auto simp: n_def v_def)
  qed
qed

section \<open>The partition\<close>

definition serial_group :: "Rule list \<Rightarrow> ParallelGroup list" where
  "serial_group rules = (let vs = filter (\<lambda>r. head_pred r = None) rules in if vs = [] then [] else [\<lparr>pg_rules = vs, pg_derived_predicates = []\<rparr>])"

text \<open>What the groups are before they are ordered, and that only the serial group reads another group's predicates.\<close>

definition group_ok :: "Rule list \<Rightarrow> ParallelGroup \<Rightarrow> bool" where
  "group_ok rules g \<longleftrightarrow> (if pg_derived_predicates g = [] then g \<in> set (serial_group rules)
     else pg_rules g = concat (map (head_rules rules) (pg_derived_predicates g))
       \<and> (\<forall>p \<in> set (pg_derived_predicates g). set (pg_derived_predicates g) = {q. connected rules p q}))"

definition partition_ok :: "Rule list \<Rightarrow> ParallelGroup list \<Rightarrow> bool" where
  "partition_ok rules gs \<longleftrightarrow> mset (concat (map pg_rules gs)) = mset rules \<and> distinct (concat (map pg_derived_predicates gs))
     \<and> set (concat (map pg_derived_predicates gs)) = dom (head_groups rules)
     \<and> (\<forall>g \<in> set gs. group_ok rules g)"

lemma partition_okD: "partition_ok rules gs \<Longrightarrow> g \<in> set gs \<Longrightarrow> group_ok rules g"
  by (simp add: partition_ok_def)

lemma unsorted_groups:
  assumes "orders_ok ho" "component_groups ho rules = Some gs"
  shows "partition_ok rules (gs @ serial_group rules)" "\<forall>g \<in> set gs. pg_derived_predicates g \<noteq> []"
proof -
  let ?preds = "ho_preds ho (dom (head_groups rules))"
  from component_groups [OF assms(1), of rules] assms(2) have
    d: "mset (concat (map pg_derived_predicates gs)) = mset ?preds"
    and r: "\<And>g. g \<in> set gs \<Longrightarrow> pg_rules g = concat (map (head_rules rules) (pg_derived_predicates g))"
    and c: "\<And>g p. g \<in> set gs \<Longrightarrow> p \<in> set (pg_derived_predicates g) \<Longrightarrow> set (pg_derived_predicates g) = {q. connected rules p q}"
    and ne: "\<And>g. g \<in> set gs \<Longrightarrow> pg_derived_predicates g \<noteq> []" by (metis option.inject)+
  have p: "distinct ?preds" "set ?preds = dom (head_groups rules)" using assms(1) by (simp_all add: orders_ok_def)
  have "map pg_rules gs = map (\<lambda>g. concat (map (head_rules rules) (pg_derived_predicates g))) gs" using r by simp
  also have "concat \<dots> = concat (map (head_rules rules) (concat (map pg_derived_predicates gs)))" by (induction gs) auto
  finally have "concat (map pg_rules gs) = concat (map (head_rules rules) (concat (map pg_derived_predicates gs)))" .
  then have "mset (concat (map pg_rules gs)) = mset (filter (\<lambda>r. head_pred r \<noteq> None) rules)"
    by (simp only: mset_concat_map [OF d] mset_head_rules [OF p])
  moreover have "concat (map pg_rules (serial_group rules)) = filter (\<lambda>r. head_pred r = None) rules" by (simp add: serial_group_def Let_def)
  ultimately have "mset (concat (map pg_rules (gs @ serial_group rules))) = mset rules"
    using multiset_partition [of "mset rules" "\<lambda>r. head_pred r = None"] by simp
  moreover have none: "concat (map pg_derived_predicates (serial_group rules)) = []" by (simp add: serial_group_def Let_def)
  moreover have "distinct (concat (map pg_derived_predicates gs))" "set (concat (map pg_derived_predicates gs)) = dom (head_groups rules)"
    using d p mset_eq_imp_distinct_iff mset_eq_setD by metis+
  moreover have "group_ok rules g" if "g \<in> set gs" for g unfolding group_ok_def using r [OF that] c [OF that] ne [OF that] by simp
  moreover have "group_ok rules g" if "g \<in> set (serial_group rules)" for g
    using that by (auto simp: group_ok_def serial_group_def Let_def split: if_splits)
  ultimately show "partition_ok rules (gs @ serial_group rules)"
    unfolding partition_ok_def map_append concat_append set_append none append_Nil2 by blast
  show "\<forall>g \<in> set gs. pg_derived_predicates g \<noteq> []" using ne by blast
qed

lemma partition_ok_perm: "mset gs' = mset gs \<Longrightarrow> partition_ok rules gs \<Longrightarrow> partition_ok rules gs'"
  unfolding partition_ok_def
  by (metis mset_concat_map mset_eq_imp_distinct_iff mset_eq_setD)

lemma distinct_concat_nth:
  "distinct (concat xss) \<Longrightarrow> i < length xss \<Longrightarrow> j < length xss \<Longrightarrow> i \<noteq> j \<Longrightarrow> set (xss ! i) \<inter> set (xss ! j) = {}"
proof (induction xss arbitrary: i j)
  case (Cons xs xss)
  have tl: "set xs \<inter> set (xss ! k) = {}" if "k < length xss" for k using Cons.prems(1) nth_mem [OF that] by fastforce
  show ?case
  proof (cases i)
    case 0
    then show ?thesis using tl Cons.prems by (cases j) auto
  next
    case (Suc i')
    then show ?thesis using tl [of i'] Cons.IH [of i'] Cons.prems by (cases j) (auto simp: Int_commute)
  qed
qed simp

lemma partition_ok_feeds:
  assumes ok: "partition_ok rules gs" and ij: "i < length gs" "j < length gs" "feeds gs i j"
  shows "pg_derived_predicates (gs ! j) = []"
proof (rule ccontr)
  assume ne: "pg_derived_predicates (gs ! j) \<noteq> []"
  let ?D = "\<lambda>k. set (pg_derived_predicates (gs ! k))"
  have all: "all_derived gs = dom (head_groups rules)" using ok by (simp add: partition_ok_def all_derived_def)
  from ij(3) obtain p r where p: "i \<noteq> j" "p \<in> ?D i" "r \<in> set (pg_rules (gs ! j))" "p \<in> set (body_derived_preds r (dom (head_groups rules)))"
    by (auto simp: feeds_def list_ex_iff group_body_preds_def all)
  have "gs ! j \<in> set gs" using ij(2) by simp
  with ok ne have g: "pg_rules (gs ! j) = concat (map (head_rules rules) (pg_derived_predicates (gs ! j)))"
    "\<And>h. h \<in> ?D j \<Longrightarrow> ?D j = {q. connected rules h q}" unfolding partition_ok_def group_ok_def by (metis (mono_tags, lifting))+
  from p(3) g(1) obtain h where h: "h \<in> ?D j" "r \<in> set rules" "head_pred r = Some h" by (auto simp: head_rules_def)
  then have "reads rules h p" using p(4) by (auto simp: reads_def)
  then have "connected rules h p" unfolding connected_def by (intro r_into_rtranclp disjI1)
  with g(2) [OF h(1)] have "p \<in> ?D j" by blast
  moreover have "distinct (concat (map pg_derived_predicates gs))" using ok by (simp add: partition_ok_def)
  from distinct_concat_nth [OF this] have "?D i \<inter> ?D j = {}" using ij(1,2) p(1) by simp
  ultimately show False using p(2) by blast
qed

lemma feeds_perm:
  assumes "mset order = mset [0..<length gs]" "i < length gs" "j < length gs"
  shows "feeds (map ((!) gs) order) i j \<longleftrightarrow> feeds gs (order ! i) (order ! j)"
proof -
  have len: "length order = length gs" using mset_eq_length [OF assms(1)] by simp
  have "mset (map ((!) gs) order) = mset (map ((!) gs) [0..<length gs])" using assms(1) by (metis mset_map)
  then have "mset (map ((!) gs) order) = mset gs" by (simp only: map_nth)
  from mset_eq_setD [OF this] have "all_derived (map ((!) gs) order) = all_derived gs" unfolding all_derived_def set_concat set_map [of pg_derived_predicates] by (simp only:)
  moreover have "distinct order" using assms(1) by (metis distinct_upt mset_eq_imp_distinct_iff)
  then have "order ! i = order ! j \<longleftrightarrow> i = j" using assms(2,3) len by (simp add: nth_eq_iff_index_eq)
  ultimately show ?thesis using assms(2,3) len by (simp add: feeds_def group_body_preds_def)
qed

lemma partition_result:
  assumes ok: "orders_ok ho"
  obtains A where "partition_into_parallel_groups ho rules w = Some A" "partition_ok rules (an_groups A)"
    "an_parallel_groups A = length (an_groups A)"
    "\<And>i j. i < length (an_groups A) \<Longrightarrow> j < length (an_groups A) \<Longrightarrow> feeds (an_groups A) i j \<Longrightarrow> j = length (an_groups A) - 1"
proof (cases "rules = []")
  case True
  then show thesis by (intro that [of "\<lparr>an_groups = [], an_parallel_groups = 0, an_max_concurrent = 0\<rparr>"])
      (auto simp: partition_into_parallel_groups_def partition_ok_def head_groups_def)
next
  case False
  obtain cs where cs: "component_groups ho rules = Some cs" by (rule component_groups [OF ok, of rules])
  define gs where "gs = cs @ serial_group rules"
  note un = unsorted_groups [OF ok cs]
  have gok: "partition_ok rules gs" using un(1) by (simp add: gs_def)
  have star: "j = length gs - 1" if "i < length gs" "j < length gs" "feeds gs i j" for i j
  proof -
    have "pg_derived_predicates (gs ! j) = []" by (rule partition_ok_feeds [OF gok that])
    then have "\<not> j < length cs" using un(2) nth_mem [of j cs] by (metis gs_def nth_append)
    moreover have "length (serial_group rules) \<le> 1" by (simp add: serial_group_def Let_def)
    ultimately show ?thesis using that(2) by (simp add: gs_def)
  qed
  obtain order where o: "topological_sort_groups gs = Some (map ((!) gs) order)" "mset order = mset [0..<length gs]"
    "\<forall>i j. i < length gs \<longrightarrow> j < length gs \<longrightarrow> feeds gs i j \<longrightarrow> last order = j"
    by (rule sorted_groups [OF star])
  let ?gs = "map ((!) gs) order"
  have len: "length order = length gs" "set order = {0..<length gs}" "distinct order"
    using mset_eq_length [OF o(2)] mset_eq_setD [OF o(2)] o(2) mset_eq_imp_distinct_iff [of order "[0..<length gs]"] by auto
  have "mset ?gs = mset (map ((!) gs) [0..<length gs])" using o(2) by (metis mset_map)
  then have "mset ?gs = mset gs" by (simp only: map_nth)
  then have gok': "partition_ok rules ?gs" using gok by (rule partition_ok_perm)
  have res: "partition_into_parallel_groups ho rules w = Some \<lparr>an_groups = ?gs, an_parallel_groups = length ?gs,
      an_max_concurrent = (if w \<le> 0 then 1 else min (length ?gs) (nat w))\<rparr>"
    using False cs o(1) by (simp add: partition_into_parallel_groups_def gs_def serial_group_def Let_def)
  have last: "j = length ?gs - 1" if "i < length ?gs" "j < length ?gs" "feeds ?gs i j" for i j
  proof -
    have ij: "i < length gs" "j < length gs" using that len(1) by simp_all
    then have f: "feeds gs (order ! i) (order ! j)" using feeds_perm [OF o(2)] that(3) by simp
    have "order ! i < length gs" "order ! j < length gs" using len(1,2) ij nth_mem [of _ order] by auto
    with o(3) f have "last order = order ! j" by blast
    moreover have "last order = order ! (length order - 1)" using len(1) ij(1) by (intro last_conv_nth) auto
    ultimately show ?thesis using len(1,3) ij by (simp add: nth_eq_iff_index_eq)
  qed
  show thesis by (rule that [OF res]) (use gok' last in simp_all)
qed

text \<open>Property C4. Whatever order the hash maps have, the partition returns: its groups hold every rule of the stratum exactly as
  often as the stratum does, each derived predicate belongs to one group, and the predicates of a group are exactly those connected,
  through rules that read one another's heads in either direction, to any one of them. A rule is in the group of its head
  predicate, or in the serial group when its head has none.\<close>

theorem parallel_groups_partition:
  assumes "orders_ok ho"
  shows "\<exists>A. partition_into_parallel_groups ho rules w = Some A
    \<and> mset (concat (map pg_rules (an_groups A))) = mset rules
    \<and> distinct (concat (map pg_derived_predicates (an_groups A)))
    \<and> (\<forall>g \<in> set (an_groups A). \<forall>p \<in> set (pg_derived_predicates g). set (pg_derived_predicates g) = {q. connected rules p q})
    \<and> (\<forall>g \<in> set (an_groups A). \<forall>r \<in> set (pg_rules g).
          if pg_derived_predicates g = [] then head_pred r = None else head_pred r \<in> Some ` set (pg_derived_predicates g))
    \<and> an_parallel_groups A = length (an_groups A)"
proof -
  obtain A where A: "partition_into_parallel_groups ho rules w = Some A" "partition_ok rules (an_groups A)"
    "an_parallel_groups A = length (an_groups A)" using partition_result [OF assms] by metis
  have "if pg_derived_predicates g = [] then head_pred r = None else head_pred r \<in> Some ` set (pg_derived_predicates g)"
    if g: "g \<in> set (an_groups A)" and r: "r \<in> set (pg_rules g)" for g r
  proof (cases "pg_derived_predicates g = []")
    case True
    with partition_okD [OF A(2) g] have "g \<in> set (serial_group rules)" by (simp add: group_ok_def)
    with r True show ?thesis by (auto simp: serial_group_def Let_def split: if_splits)
  next
    case False
    with partition_okD [OF A(2) g] have "pg_rules g = concat (map (head_rules rules) (pg_derived_predicates g))" by (simp add: group_ok_def)
    with r False show ?thesis by (auto simp: head_rules_def)
  qed
  moreover have "\<forall>g \<in> set (an_groups A). \<forall>p \<in> set (pg_derived_predicates g). set (pg_derived_predicates g) = {q. connected rules p q}"
    using partition_okD [OF A(2)] unfolding group_ok_def by (metis empty_iff empty_set)
  moreover have "mset (concat (map pg_rules (an_groups A))) = mset rules" "distinct (concat (map pg_derived_predicates (an_groups A)))"
    using A(2) unfolding partition_ok_def by simp_all
  ultimately show ?thesis using A(1,3) by blast
qed

definition sorted_orders :: hash_orders where
  "sorted_orders = \<lparr>ho_preds = sorted_list_of_set, ho_edges = sorted_list_of_set, ho_deps = sorted_list_of_set, ho_roots = sorted_list_of_set\<rparr>"

lemma sorted_orders_ok: "orders_ok sorted_orders"
  by (simp add: orders_ok_def sorted_orders_def hash_order_sorted)

theorem parallel_groups_partition_witness:
  "orders_ok sorted_orders \<and> (\<exists>A. partition_into_parallel_groups sorted_orders [make_rule 10 20 False, make_rule 30 10 False] 4 = Some A
    \<and> mset (concat (map pg_rules (an_groups A))) = mset [make_rule 10 20 False, make_rule 30 10 False]
    \<and> distinct (concat (map pg_derived_predicates (an_groups A))))"
  using sorted_orders_ok parallel_groups_partition [OF sorted_orders_ok, where rules = "[make_rule 10 20 False, make_rule 30 10 False]" and w = 4] by blast

text \<open>Property C5. Groups are safe to run in the order returned, and all but the last one in any order: when one group derives a
  predicate that a rule of another group reads, the reader is the last group, and it is the serial one, of the rules whose head is
  absent or has a variable predicate.\<close>

theorem parallel_groups_ordered:
  assumes "orders_ok ho" "partition_into_parallel_groups ho rules w = Some A"
    "i < length (an_groups A)" "j < length (an_groups A)" "feeds (an_groups A) i j"
  shows "i < j \<and> j = length (an_groups A) - 1 \<and> pg_derived_predicates (an_groups A ! j) = []"
proof -
  obtain A' where A': "partition_into_parallel_groups ho rules w = Some A'" "partition_ok rules (an_groups A')"
    "\<And>i j. i < length (an_groups A') \<Longrightarrow> j < length (an_groups A') \<Longrightarrow> feeds (an_groups A') i j \<Longrightarrow> j = length (an_groups A') - 1"
    using partition_result [OF assms(1)] by metis
  have "A' = A" using A'(1) assms(2) by simp
  then have "j = length (an_groups A) - 1" "pg_derived_predicates (an_groups A ! j) = []"
    using A'(3) partition_ok_feeds A'(2) assms(3-5) by simp_all
  moreover have "i \<noteq> j" using assms(5) by (simp add: feeds_def)
  ultimately show ?thesis using assms(3) by simp
qed

text \<open>A rule whose head has a variable predicate, reading predicate 10.\<close>

definition var_head_rule :: Rule where
  "var_head_rule = (make_rule 30 10 False)\<lparr>rule_head := Some \<lparr>atom_s = Var ''x'', atom_p = Var ''p'', atom_o = Var ''y'', atom_g = DefaultGraph\<rparr>\<rparr>"

definition two_groups :: "ParallelGroup list" where
  "two_groups = [\<lparr>pg_rules = [make_rule 10 20 False], pg_derived_predicates = [10]\<rparr>, \<lparr>pg_rules = [var_head_rule], pg_derived_predicates = []\<rparr>]"

lemma demo_rule_simps [simp]:
  "body_derived_preds (make_rule h b n) D = (if b \<in> D then [b] else [])"
  "body_derived_preds var_head_rule D = (if 10 \<in> D then [10] else [])" "head_pred var_head_rule = None"
  by (simp_all add: body_derived_preds_def var_head_rule_def make_rule_def List.map_filter_simps atom_pred_def head_pred_def Let_def)

lemma two_groups_feeds: "feeds two_groups 0 1" "\<not> feeds two_groups 1 0"
  by (simp_all add: feeds_def two_groups_def group_body_preds_def all_derived_def)

lemma two_groups_result: "partition_into_parallel_groups sorted_orders [make_rule 10 20 False, var_head_rule] 4
    = Some \<lparr>an_groups = two_groups, an_parallel_groups = 2, an_max_concurrent = 2\<rparr>"
proof -
  have hg: "head_groups [make_rule 10 20 False, var_head_rule] = [10 \<mapsto> [make_rule 10 20 False]]"
    by (simp add: head_groups_def entry_push_def)
  have "component_groups sorted_orders [make_rule 10 20 False, var_head_rule] = Some [two_groups ! 0]"
    unfolding component_groups_def hg
    by (simp add: sorted_orders_def Let_def group_deps_def get_list_def uf_new_def rank_find.simps entry_push_def two_groups_def)
  moreover have "topological_sort_groups two_groups = Some two_groups" 
  proof -
    have "length two_groups = 2" "[two_groups ! 0, two_groups ! 1] = two_groups" "\<not> feeds two_groups 0 0" "\<not> feeds two_groups 1 1"
      by (simp_all add: two_groups_def feeds_def)
    then show ?thesis using two_groups_feeds by (simp add: topological_sort_groups_def Let_def upt_rec numeral_2_eq_2)
  qed
  ultimately show ?thesis by (simp add: partition_into_parallel_groups_def two_groups_def Let_def)
qed

theorem parallel_groups_ordered_witness:
  "partition_into_parallel_groups sorted_orders [make_rule 10 20 False, var_head_rule] 4
     = Some \<lparr>an_groups = two_groups, an_parallel_groups = 2, an_max_concurrent = 2\<rparr>
   \<and> feeds two_groups 0 1 \<and> pg_derived_predicates (two_groups ! 1) = []"
  using parallel_groups_ordered [OF sorted_orders_ok two_groups_result, where i = 0 and j = 1] two_groups_result two_groups_feeds
  by (simp add: two_groups_def)

section \<open>Identifier ranges\<close>

lemma sid_ranges_eq: "sid_ranges n b (s + int n * b) = map (\<lambda>i. (s + 1 + int i * b, s + 1 + int (Suc i) * b)) [0..<n]"
  by (simp add: sid_ranges_def Let_def algebra_simps)

lemma preallocated: "preallocate_sid_ranges n b s = (map (\<lambda>i. (s + 1 + int i * b, s + 1 + int (Suc i) * b)) [0..<n], s + int n * b)"
  using sid_ranges_eq [of n b s] by (cases "n = 0") (simp_all add: preallocate_sid_ranges_def seq_nextval_def seq_setval_def Let_def)

lemma interleaved_ids: "fold (\<lambda>_ (ids, l). let (i, l) = seq_nextval l in (ids @ [i], l)) [0..<k] ([], s) = (map (\<lambda>i. s + 1 + int i) [0..<k], s + int k)"
  by (induction k) (simp_all add: seq_nextval_def)

lemma preallocated_interleaved: "preallocate_interleaved k n b s
    = (map (\<lambda>i. s + 2 + int i) [0..<k], map (\<lambda>i. (s + 1 + int i * b, s + 1 + int (Suc i) * b)) [0..<n], s + int n * b)"
  using interleaved_ids [of k "s + 1"] sid_ranges_eq [of n b s] by (simp add: preallocate_interleaved_def seq_nextval_def seq_setval_def algebra_simps)



end
