(* ===== verification/Spec2Isabelle.thy ===== *)
theory Spec2Isabelle
  imports Inline_Encoding Wcoj_Cycle Stratify_Correct Htap_Contract Sameas_Correct Dictionary_Correct Federation_Service_Correct
    Rule_Catalog_Correct Demand Parallel_Correct
begin

text \<open>
  \<^bold>\<open>pg_ripple: a verification development.\<close>

  pg_ripple is a PostgreSQL extension, written in Rust, that stores RDF quads in one table per
  predicate and answers SPARQL queries and Datalog rules over them. This development models the parts
  that hold its own logic and proves what makes them correct, or where they go wrong. The text below says
  which theory models which part of \<open>src/src\<close> (and of \<open>src/pg_ripple_http\<close>), how state and operations
  correspond to the code, what the lemmas show, which bounds and fuel are used and why they are enough,
  and what is left out.

  \<^bold>\<open>The parts and how they interact.\<close> A term (IRI, literal, blank node, quoted triple) enters through the
  dictionary, which turns it into a 64-bit identifier: small values are packed into the identifier itself
  (\<open>dictionary/inline.rs\<close>), others get a row of the dictionary table, found through a shared-memory cache,
  a per-backend cache and the table (\<open>dictionary/mod.rs\<close>, \<open>shmem.rs\<close>). Quads of identifiers go to the store
  (\<open>storage\<close>): a predicate starts in the shared table of rare predicates, is promoted to tables of its own,
  where new rows are appended to a delta table, deletions of merged rows write tombstones, and a merge
  moves delta and tombstones into the main table. A shared-memory filter tells the query path which
  predicates have delta rows. Rule texts are parsed (\<open>datalog/parser\<close>) into the rule representation
  (\<open>datalog/mod.rs\<close>) with their terms encoded, are ordered into strata (\<open>datalog/stratify.rs\<close>) and stored in the rule catalog
  (\<open>datalog/mod.rs\<close>, \<open>datalog_api/parse.rs\<close>). Inference parses the stored texts again, keeps the rules a goal depends on
  (\<open>datalog/demand.rs\<close>), rewrites them by the owl:sameAs map that is computed from the store (\<open>datalog/rewrite.rs\<close>) and
  splits a stratum into groups that can run in parallel (\<open>datalog/parallel.rs\<close>); compiled plans and results are cached
  (\<open>datalog/cache.rs\<close>, \<open>datalog/tabling.rs\<close>). Cyclic basic graph patterns are
  answered by a Leapfrog Triejoin (\<open>sparql/wcoj\<close>). A SERVICE clause leaves the database: the endpoint is
  checked against the registry and the network policy, called, and its results are encoded through the
  dictionary (\<open>sparql/federation\<close>, \<open>federation_registry.rs\<close>); the HTTP companion has an outbound policy of its own.

  \<^bold>\<open>Shared theories.\<close> \<open>Prelude\<close> holds the types of identifiers and hash iteration orders, results and errors,
  characters, trimming and number printing; \<open>Rust_Str\<close> the functions of Rust's \<open>str\<close>; \<open>Ip_Addr\<close> the address types of
  \<open>std::net\<close> with their printing. Iteration over a hash container is a function argument of type
  \<open>hash_order\<close>; the theorems hold for every order (\<open>hash_order_ok\<close>).

  \<^bold>\<open>Dictionary.\<close> \<open>Inline_Encoding\<close> models \<open>dictionary/inline.rs\<close> on words, function by function, with the locale
  \<open>offset_codec\<close> for the types packed as an offset; it shows the round trip of integers and that the order of
  dateTime values survives the packing. \<open>Dictionary\<close> models \<open>dictionary/mod.rs\<close> and \<open>dictionary/hot.rs\<close>: the record \<open>dict\<close> holds the
  table, its sequence, the three caches and the lists of the current transaction, and every encoder, decoder
  and callback is an operation on it. \<open>Encode_Cache\<close> and \<open>Shmem\<close> model \<open>shmem.rs\<close>: the set-associative encode cache
  (locale \<open>shared_cache\<close>) and the counting filter of predicates with delta rows. \<open>Dictionary_Correct\<close> shows, for every
  reachable state (\<open>dict_run\<close>), that a term is decoded from the identifier it was given and that identifiers
  stay stable; that a batch fails for terms whose hash has bit 63 set; and that a savepoint rollback leaves
  stale identifiers in the shared cache. XXH3-128, the NFC normalization, the LRU caches and the date
  functions are parameters, with the laws of the LRU caches and the injectivity of the hash on the used inputs
  as hypotheses.

  \<^bold>\<open>Store.\<close> \<open>Htap_Store\<close> models \<open>storage/ops\<close>, \<open>storage/merge.rs\<close>, \<open>storage/promote.rs\<close>, \<open>storage/vp_rare_io.rs\<close>, \<open>storage/ops/dedup.rs\<close>
  and the mutation journal: the record \<open>store\<close> has the rare table, the tables of each promoted predicate, the catalog
  counts and the statement sequence; each SQL statement of the code is a list operation on them. \<open>Htap_Refine\<close> and
  \<open>Htap_Contract\<close> relate it to a set of quads through the locale \<open>quad_contract\<close> and show that every history of
  operations refines set operations, except for the cases stated as theorems of their own (a deleted triple that
  has copies in delta and main, graph dropping without tombstone counting, deduplication before a merge). \<open>Htap_Scan\<close>
  models pattern scans, export and statement lookup and shows the scans exact.

  \<^bold>\<open>Datalog.\<close> \<open>Datalog_Types\<close> holds the rule representation. \<open>Datalog_Parser\<close> models the lexers, terms, literals and
  rules of \<open>datalog/parser\<close> as computations that thread the dictionary and may fail with a message or abort;
  \<open>Prefix_Registry\<close> the prefix table it resolves names with. \<open>Datalog_Parser_Correct\<close> shows that a printed program is
  parsed to itself, that weights with a decimal point are rejected, and \<open>Datalog_Parser_Types\<close> that parsed rules are
  well typed and quoted triples are read as IRIs. \<open>Stratify\<close> models \<open>datalog/stratify.rs\<close>; \<open>Stratify_Scc\<close> shows that the two depth-first
  passes compute the strongly connected components, \<open>Stratify_Topo\<close> the topological order, \<open>Stratify_Correct\<close> that
  stratification succeeds exactly when no predicate depends on itself through negation or aggregation, orders the
  rules by dependency and keeps each rule once, and what the subsumption and aggregation checks decide. \<open>Sameas\<close> and
  \<open>Sameas_Correct\<close> model \<open>datalog/rewrite.rs\<close> over the store and show the union-find correct. \<open>Rule_Catalog\<close> models the
  catalog: the record \<open>catalog\<close> has the tables of rules, rule sets and explanations and the two caches, and the operations that load,
  add, enable, disable and drop rules act on it. \<open>Rule_Catalog_Correct\<close> shows that loaded rules are read back as they were, without their
  weights, which changes leave cached plans and results in place, and that explanations are never invalidated. \<open>Demand\<close> models
  \<open>datalog/demand.rs\<close> and shows which rules a goal selects and that negation does not carry the goal. \<open>Parallel_Groups\<close> and
  \<open>Parallel_Correct\<close> model \<open>datalog/parallel.rs\<close>: the groups are the connected components of the dependency graph, each rule is in one
  of them, only the last group reads another one's predicates, and the identifier ranges of workers are disjoint unless
  another session interrupts their reservation. The union-find structures of \<open>datalog/rewrite.rs\<close> and \<open>datalog/parallel.rs\<close> are
  two implementations of one contract, the locale \<open>union_find\<close> of \<open>Union_Find\<close>, interpreted on each of them.

  \<^bold>\<open>Leapfrog Triejoin.\<close> \<open>Wcoj_Trie\<close> (locale \<open>edge_index\<close>) models \<open>sparql/wcoj/trie.rs\<close>, \<open>Wcoj_Leapfrog\<close> (locale \<open>lfti\<close>) \<open>leapfrog.rs\<close>
  and \<open>executor.rs\<close>, \<open>Wcoj_Cycle\<close> the cycle test of \<open>mod.rs\<close>. The intersection is the sorted list of common values, the join returns
  exactly the satisfying bindings once, and the cycle test answers exactly.

  \<^bold>\<open>Federation.\<close> \<open>Federation\<close> models \<open>sparql/federation\<close> (policy, circuit breaker, HTTP execution), \<open>Outbound_Policy\<close> the companion's
  policy, \<open>Federation_Service\<close> the registry, the planner, the decoding of results and the translation of SERVICE. The
  resolver, the HTTP transport and the clock are parameters. \<open>Federation_Correct\<close> and \<open>Federation_Service_Correct\<close> show which addresses a
  request can reach under each policy, how the two address filters compare, when the breaker opens and closes, that
  results are bounded, and how terms of results reach the dictionary.

  \<^bold>\<open>Fuel and loops.\<close> Loops that consume a list are structural. The paging export has fuel
  \<open>Suc (length rows)\<close>, one step per page and none empty; Kahn's loop the number of components plus one; the depth-first
  passes the number of nodes and edges; chunked federation results the number of rows; the search for relevant predicates the demanded predicates and the body atoms, since
  each predicate is pushed once; the order of parallel groups one step per group; nested quoted triples the
  length of the text. Union-find lookups are \<open>partial_function (option)\<close> and shown to return. Each theorem about such a
  function states that the result is returned. The statement sequence is advanced one by one, where the database
  caches blocks of 64 per session: gaps in the numbering are not represented.

  \<^bold>\<open>Conventions.\<close> Text is ASCII. An error raised through \<open>pgrx::error!\<close> ends the transaction and is a value of an error type.
  SQL statements of the modelled code are translated to list operations with the semantics of the statement;
  failures of the server (lost connections, full disks, deadlocks) are not represented. One operation runs
  at a time: the interleaving of sessions is outside the model, except for the shared caches, whose lemmas hold for
  every sequence of operations.

  \<^bold>\<open>Not modelled.\<close> The translation of SPARQL algebra and of Datalog rules to SQL text and the evaluation of that
  text (the algebra comes from an external parser, the meaning of the text is that of PostgreSQL); SHACL
  validation; CONSTRUCT rules; bulk loading through external RDF parsers; export formats; views, change data
  capture, synchronization, Citus, graph analytics, SKOS, temporal and uncertain facts, language models and embeddings; the schema
  and settings beyond what the modelled code reads; the background worker's scheduling; the handlers of the HTTP
  companion. They are wrappers around SQL or external services and hold little logic that can be stated without a
  model of the database.
\<close>

end
